(* ===== verification/Prelude.thy ===== *)
theory Prelude
  imports Main "HOL-Library.Word"
begin

text \<open>
  Shared vocabulary of the development.

  \<^item> The widths of the machine integers of the source (\<^verbatim>\<open>ap_uint<W>\<close>) as type synonyms, and the
    range selection \<^verbatim>\<open>x(hi, lo)\<close> and range assignment \<^verbatim>\<open>x(hi, lo) = v\<close> of \<^verbatim>\<open>ap_uint\<close>.
  \<^item> Streams: an \<^verbatim>\<open>hls::stream<T>\<close> is the list of its elements, the oldest first.  A read takes the
    head, a write appends at the end.  Streams are unbounded here: the depth pragmas only stall a
    writer, and the places where the code itself asks \<^verbatim>\<open>full()\<close> take the answer as an argument.
  \<^item> Reachability of a transition system, and interfaces as locales: a transition system with an
    inductive invariant, a module that serves a backlog of requests, a table whose operations touch one
    session at a time, and a module that moves packets word by word.
\<close>

unbundle bit_operations_syntax

section \<open>Machine integers\<close>

type_synonym u1 = "1 word"
type_synonym u2 = "2 word"
type_synonym u3 = "3 word"
type_synonym u4 = "4 word"
type_synonym u6 = "6 word"
type_synonym u8 = "8 word"
type_synonym u12 = "12 word"
type_synonym u14 = "14 word"
type_synonym u15 = "15 word"
type_synonym u16 = "16 word"
type_synonym u23 = "23 word"
type_synonym u30 = "30 word"
type_synonym u32 = "32 word"
type_synonym u64 = "64 word"

text \<open>\<^verbatim>\<open>x(hi, lo)\<close> of an \<^verbatim>\<open>ap_uint\<close>, read as a value of the width it is assigned to.\<close>

definition range_get :: "'a::len word \<Rightarrow> nat \<Rightarrow> nat \<Rightarrow> 'b::len word" where
  "range_get w hi lo = ucast (take_bit (Suc hi - lo) (drop_bit lo w))"

text \<open>\<^verbatim>\<open>x(hi, lo) = v\<close>: the bits of \<open>x\<close> from \<open>lo\<close> to \<open>hi\<close> become the low bits of \<open>v\<close>.\<close>

definition range_set :: "'a::len word \<Rightarrow> nat \<Rightarrow> nat \<Rightarrow> 'b::len word \<Rightarrow> 'a word" where
  "range_set w hi lo v =
     (w AND NOT (push_bit lo (mask (Suc hi - lo)))) OR push_bit lo (take_bit (Suc hi - lo) (ucast v))"

lemma bit_range_get:
  "bit (range_get w hi lo :: 'b::len word) n \<longleftrightarrow>
     n < LENGTH('b) \<and> n < Suc hi - lo \<and> bit (w :: 'a::len word) (lo + n)"
  by (auto simp: range_get_def bit_simps intro: ccontr dest: bit_imp_le_length)

lemma bit_range_set:
  "bit (range_set (w :: 'a::len word) hi lo (v :: 'b::len word)) n \<longleftrightarrow>
     (if lo \<le> n \<and> n \<le> hi then n < LENGTH('a) \<and> bit v (n - lo) else bit w n)"
  by (auto simp: range_set_def bit_simps dest: bit_imp_le_length)

lemmas range_bits = bit_range_get bit_range_set

lemma unat_of_nat_mod: "unat (of_nat n :: 'a::len word) = n mod 2 ^ LENGTH('a)"
  by (simp add: unat_of_nat)

lemma unat_ucast_le: "unat (ucast (x :: 'a::len word) :: 'b::len word) \<le> unat x"
  by (simp add: unsigned_ucast_eq unsigned_take_bit_eq)

lemma unat_ucast_up:
  "LENGTH('a) \<le> LENGTH('b) \<Longrightarrow> unat (ucast (x :: 'a::len word) :: 'b::len word) = unat x"
proof -
  assume "LENGTH('a) \<le> LENGTH('b)"
  then have "unat x < 2 ^ LENGTH('b)"
    using unsigned_less [of x, where 'a = nat] by (meson order_less_le_trans one_le_numeral power_increasing)
  then show ?thesis by (simp add: unsigned_ucast_eq take_bit_nat_eq_self)
qed

text \<open>Truncation to fewer bits commutes with the wrap-around arithmetic.\<close>

lemma ucast_down_add:
  "LENGTH('b) \<le> LENGTH('a) \<Longrightarrow>
   (ucast (a + b :: 'a::len word) :: 'b::len word) = ucast a + ucast b"
  by transfer (metis min.absorb1 take_bit_add take_bit_take_bit)

lemma ucast_down_sub:
  "LENGTH('b) \<le> LENGTH('a) \<Longrightarrow>
   (ucast (a - b :: 'a::len word) :: 'b::len word) = ucast a - ucast b"
  by transfer (metis min.absorb1 take_bit_diff take_bit_take_bit)

lemma unat_drop_bit: "unat (drop_bit n (w :: 'a::len word)) = unat w div 2 ^ n"
  by (subst unsigned_drop_bit_eq) (simp add: drop_bit_eq_div take_bit_nat_eq_self)

lemma unat_drop_bit_mult_le: "unat (drop_bit n (w :: 'a::len word)) * 2 ^ n \<le> unat w"
  by (simp add: unat_drop_bit div_times_less_eq_dividend)

lemma unat_take_bit_less: "unat (take_bit n (w :: 'a::len word)) < 2 ^ n"
  by (simp add: unsigned_take_bit_eq)

text \<open>The distance on the circle of \<open>2 ^ w\<close> values that sequence numbers and ring pointers live on.\<close>

definition wdist :: "'a::len word \<Rightarrow> 'a word \<Rightarrow> nat" where
  "wdist a b = unat (b - a)"

lemma wdist_less: "wdist a (b :: 'a::len word) < 2 ^ LENGTH('a)"
  by (simp add: wdist_def unsigned_less)

lemma wdist_add: "wdist a (a + x) = unat x"
  by (simp add: wdist_def)

lemma wdist_if: "wdist a (b :: 'a::len word) =
    (if a \<le> b then unat b - unat a else 2 ^ LENGTH('a) + unat b - unat a)"
proof (cases "a \<le> b")
  case True
  then show ?thesis by (simp add: wdist_def unat_sub)
next
  case False
  then have "unat b < unat a" by (simp add: word_le_nat_alt)
  with False show ?thesis
    by (simp add: wdist_def unat_sub_if' word_le_nat_alt)
qed

text \<open>A ring that keeps one slot free: the free part and the used part add up to all but one slot.\<close>

lemma free_plus_used:
  "unat (a - b - 1) + wdist a (b :: 'a::len word) = 2 ^ LENGTH('a) - 1"
proof -
  have top: "b - a \<le> - 1" by simp
  have "a - b - 1 = - 1 - (b - a)" by simp
  then have "unat (a - b - 1) = unat (- 1 :: 'a word) - unat (b - a)"
    by (simp only: unat_sub [OF top])
  moreover have "unat (- 1 :: 'a word) = 2 ^ LENGTH('a) - 1"
    by (simp add: unsigned_minus_1_eq_mask mask_eq_exp_minus_1)
  moreover have "unat (b - a) < 2 ^ LENGTH('a)"
    by (rule unsigned_less)
  ultimately show ?thesis unfolding wdist_def by linarith
qed

section \<open>Byte order\<close>

text \<open>\<^verbatim>\<open>reverse\<close> of axi\_utils.hpp: the octets of a value in the opposite order, one unrolled loop
  iteration per octet.\<close>

definition reverse :: "'a::len word \<Rightarrow> 'a word" where
  "reverse w =
     fold (\<lambda>i temp. range_set temp (i * 8 + 7) (i * 8)
                      (range_get w (LENGTH('a) - i * 8 - 1) (LENGTH('a) - i * 8 - 8) :: 8 word))
       [0..<LENGTH('a) div 8] 0"

text \<open>Writing octet \<open>i\<close> from \<open>f i\<close> for the first \<open>k\<close> octets: what the loop has done after \<open>k\<close> turns.\<close>

lemma bit_fold_octets:
  fixes t :: "'a::len word" and f :: "nat \<Rightarrow> 8 word"
  shows "bit (fold (\<lambda>i temp. range_set temp (i * 8 + 7) (i * 8) (f i)) [0..<k] t) n \<longleftrightarrow>
    (if n < k * 8 then n < LENGTH('a) \<and> bit (f (n div 8)) (n mod 8) else bit t n)"
proof (induction k)
  case 0
  then show ?case by simp
next
  case (Suc k)
  have upd: "bit (range_set x (k * 8 + 7) (k * 8) (f k)) n \<longleftrightarrow>
      (if k * 8 \<le> n \<and> n \<le> k * 8 + 7 then n < LENGTH('a) \<and> bit (f k) (n - k * 8) else bit x n)"
    for x :: "'a word" by (simp add: bit_range_set)
  consider (here) "k * 8 \<le> n \<and> n \<le> k * 8 + 7" | (below) "n < k * 8" | (above) "n > k * 8 + 7"
    by linarith
  then show ?case
  proof cases
    case here
    define r where "r = n - k * 8"
    with here have "n = k * 8 + r" "r < 8" by linarith+
    then show ?thesis by (simp add: bit_range_set)
  next
    case below
    then show ?thesis by (simp add: upd Suc.IH)
  next
    case above
    then show ?thesis by (simp add: upd Suc.IH)
  qed
qed

lemma bit_reverse:
  fixes w :: "'a::len word"
  assumes "8 dvd LENGTH('a)"
  shows "bit (reverse w) n \<longleftrightarrow>
    n < LENGTH('a) \<and> bit w (LENGTH('a) - (n div 8) * 8 - 8 + n mod 8)"
proof (cases "n < LENGTH('a)")
  case True
  with assms have n: "n < LENGTH('a) div 8 * 8" by simp
  have "n div 8 < LENGTH('a) div 8" using n by (simp add: less_mult_imp_div_less)
  then have "n div 8 * 8 + 8 \<le> LENGTH('a)"
    using assms by (auto elim!: dvdE)
  then have sel: "bit (range_get w (LENGTH('a) - n div 8 * 8 - 1) (LENGTH('a) - n div 8 * 8 - 8) :: 8 word)
      (n mod 8) \<longleftrightarrow> bit w (LENGTH('a) - (n div 8) * 8 - 8 + n mod 8)"
    by (simp add: bit_range_get)
  have "bit (reverse w) n \<longleftrightarrow> n < LENGTH('a) \<and>
      bit (range_get w (LENGTH('a) - n div 8 * 8 - 1) (LENGTH('a) - n div 8 * 8 - 8) :: 8 word) (n mod 8)"
    unfolding reverse_def using n by (subst bit_fold_octets) simp
  with True sel show ?thesis by simp
next
  case False
  then show ?thesis by (auto dest: bit_imp_le_length)
qed

lemma reverse_reverse:
  fixes w :: "'a::len word"
  assumes "8 dvd LENGTH('a)"
  shows "reverse (reverse w) = w"
proof (rule bit_word_eqI)
  fix n
  assume n: "n < LENGTH('a)"
  obtain k where k: "LENGTH('a) = k * 8" using assms by (auto elim: dvdE)
  define m where "m = LENGTH('a) - (n div 8) * 8 - 8 + n mod 8"
  have d: "n div 8 < k" using n k by (simp add: less_mult_imp_div_less)
  have "m = (k - 1 - n div 8) * 8 + n mod 8"
    using d by (simp add: m_def k algebra_simps)
  then have md: "m div 8 = k - 1 - n div 8" and mm: "m mod 8 = n mod 8" by simp_all
  have "m div 8 < k" using d md by linarith
  then have "m < LENGTH('a)" using k by (simp add: div_less_iff_less_mult)
  moreover have "LENGTH('a) - m div 8 * 8 - 8 + m mod 8 = n"
  proof -
    have "k * 8 - (k - 1 - n div 8) * 8 - 8 = n div 8 * 8" using d by (simp add: algebra_simps)
    then show ?thesis by (simp add: md mm k)
  qed
  ultimately show "bit (reverse (reverse w)) n \<longleftrightarrow> bit w n"
    using n assms by (simp add: bit_reverse m_def)
qed

section \<open>Transition systems\<close>

text \<open>The states a system can be in: the start states, closed under steps.\<close>

inductive reachable :: "('s \<Rightarrow> bool) \<Rightarrow> ('s \<Rightarrow> 's \<Rightarrow> bool) \<Rightarrow> 's \<Rightarrow> bool"
  for init :: "'s \<Rightarrow> bool" and step :: "'s \<Rightarrow> 's \<Rightarrow> bool" where
  reachable_init: "init s \<Longrightarrow> reachable init step s"
| reachable_step: "reachable init step s \<Longrightarrow> step s t \<Longrightarrow> reachable init step t"

text \<open>A system with an inductive invariant.\<close>

locale invariant_system =
  fixes init :: "'s \<Rightarrow> bool"
    and step :: "'s \<Rightarrow> 's \<Rightarrow> bool"
    and invar :: "'s \<Rightarrow> bool"
  assumes invar_init: "init s \<Longrightarrow> invar s"
    and invar_step: "invar s \<Longrightarrow> step s t \<Longrightarrow> invar t"
begin

lemma invar_reachable: "reachable init step s \<Longrightarrow> invar s"
  by (induction rule: reachable.induct) (blast intro: invar_init invar_step)+

lemma reachable_steps:
  "reachable init step s \<Longrightarrow> step\<^sup>*\<^sup>* s t \<Longrightarrow> reachable init step t \<and> invar t"
proof -
  assume "reachable init step s" and "step\<^sup>*\<^sup>* s t"
  from this(2,1) have "reachable init step t"
    by (induction rule: rtranclp_induct) (auto intro: reachable_step)
  then show ?thesis by (simp add: invar_reachable)
qed

end

section \<open>Modules that serve requests\<close>

text \<open>
  A module that works off what waits on its inputs: every invocation that finds work makes the
  measure \<open>backlog\<close> smaller, as long as the module's state satisfies \<open>fit\<close>.
\<close>

locale progress_server =
  fixes step :: "'s \<Rightarrow> 's"
    and fit :: "'s \<Rightarrow> bool"
    and backlog :: "'s \<Rightarrow> nat"
  assumes fit_step: "fit s \<Longrightarrow> fit (step s)"
    and progress: "fit s \<Longrightarrow> backlog (step s) \<le> backlog s - 1"
begin

lemma fit_run: "fit s \<Longrightarrow> fit ((step ^^ n) s)"
  by (induction n) (simp_all add: fit_step)

lemma backlog_run_le: "fit s \<Longrightarrow> backlog ((step ^^ n) s) \<le> backlog s - n"
proof (induction n)
  case (Suc n)
  then show ?case using progress [OF fit_run, of s n] by simp
qed simp

lemma worked_off: "fit s \<Longrightarrow> backlog s \<le> n \<Longrightarrow> backlog ((step ^^ n) s) = 0"
  using backlog_run_le [of s n] by simp

end

text \<open>
  A pipelined module with initiation interval 1 takes one request per invocation and does nothing
  when no request waits.  \<open>backlog\<close> counts the requests that wait on its input streams.
\<close>

locale stream_server =
  fixes step :: "'s \<Rightarrow> 's"
    and backlog :: "'s \<Rightarrow> nat"
  assumes serve: "backlog s \<noteq> 0 \<Longrightarrow> Suc (backlog (step s)) = backlog s"
    and idle: "backlog s = 0 \<Longrightarrow> step s = s"
begin

lemma backlog_step: "backlog (step s) = backlog s - 1"
  using serve [of s] idle [of s] by (cases "backlog s = 0") auto

lemma backlog_run: "backlog ((step ^^ n) s) = backlog s - n"
  by (induction n) (simp_all add: backlog_step)

lemma drained: "backlog s \<le> n \<Longrightarrow> backlog ((step ^^ n) s) = 0"
  by (simp add: backlog_run)

lemma quiescent:
  assumes "backlog s \<le> n"
  shows "(step ^^ n) s = (step ^^ backlog s) s"
proof -
  have "(step ^^ k) ((step ^^ backlog s) s) = (step ^^ backlog s) s" for k
    by (induction k) (simp_all add: idle backlog_run)
  from this [of "n - backlog s"] show ?thesis
    using assms by (simp flip: funpow_add [THEN fun_cong, unfolded comp_def])
qed

end

sublocale stream_server \<subseteq> progress_server step "\<lambda>_. True" backlog
  by unfold_locales (simp_all add: backlog_step)

section \<open>Tables indexed by session\<close>

text \<open>
  A module whose state holds one entry per session; \<open>target\<close> is the session the next invocation
  works on, if there is one.  Every other entry is left alone.
\<close>

locale session_indexed =
  fixes step :: "'s \<Rightarrow> 's"
    and entry :: "'s \<Rightarrow> 'k \<Rightarrow> 'e"
    and target :: "'s \<Rightarrow> 'k option"
  assumes isolated: "target s \<noteq> Some k \<Longrightarrow> entry (step s) k = entry s k"
begin

lemma run_isolated:
  "(\<And>i. i < n \<Longrightarrow> target ((step ^^ i) s) \<noteq> Some k) \<Longrightarrow> entry ((step ^^ n) s) k = entry s k"
  by (induction n) (simp_all add: isolated)

end

section \<open>Packets\<close>

text \<open>A data word is its content with the mark of the last word of a packet.  A packet: words without the mark, then
  one with it.\<close>

definition is_packet :: "('w \<times> bool) list \<Rightarrow> bool" where
  "is_packet p \<longleftrightarrow> p \<noteq> [] \<and> snd (last p) \<and> list_all (\<lambda>w. \<not> snd w) (butlast p)"

lemma is_packet_Cons:
  "is_packet (w # p) \<longleftrightarrow> (if p = [] then snd w else \<not> snd w \<and> is_packet p)"
  by (auto simp: is_packet_def)

text \<open>
  A module that, while it is \<open>active\<close>, takes one word per invocation from the stream \<open>inp\<close> and treats it as
  \<open>absorb\<close> says, and that stops being active with the last word of a packet: it takes whole packets and
  nothing of the next one.
\<close>

locale packet_mover =
  fixes step :: "'s \<Rightarrow> 's"
    and active :: "'s \<Rightarrow> bool"
    and inp :: "'s \<Rightarrow> ('w \<times> bool) list"
    and absorb :: "'w \<times> bool \<Rightarrow> 's \<Rightarrow> 's"
  assumes move: "active s \<Longrightarrow> inp s = w # q \<Longrightarrow> step s = absorb w s"
    and inp_absorb: "inp s = w # q \<Longrightarrow> inp (absorb w s) = q"
    and active_absorb: "active s \<Longrightarrow> active (absorb w s) \<longleftrightarrow> \<not> snd w"
begin

lemma moves_packet:
  "\<lbrakk> is_packet p; active s; inp s = p @ rest \<rbrakk> \<Longrightarrow>
   (step ^^ length p) s = fold absorb p s \<and> inp (fold absorb p s) = rest \<and> \<not> active (fold absorb p s)"
proof (induction p arbitrary: s)
  case Nil
  then show ?case by (simp add: is_packet_def)
next
  case (Cons w p)
  then have step: "step s = absorb w s" and inp: "inp (absorb w s) = p @ rest"
    by (simp_all add: move inp_absorb)
  show ?case
  proof (cases "p = []")
    case True
    with Cons.prems step inp active_absorb [of s w] show ?thesis by (simp add: is_packet_Cons)
  next
    case False
    with Cons.prems have "is_packet p" "active (absorb w s)" by (simp_all add: is_packet_Cons active_absorb)
    from Cons.IH [OF this inp] step show ?thesis by (simp add: funpow_swap1)
  qed
qed

end

end
