(* ===== verification/Toe_Types.thy ===== *)
theory Toe_Types
  imports Prelude
begin

text \<open>
  The data model of the TCP offload engine: the configuration of \<^verbatim>\<open>toe_config.hpp.in\<close> and the
  enumerations and structs of \<^verbatim>\<open>toe_internals.hpp\<close> and \<^verbatim>\<open>toe.hpp\<close>.

  A struct is a record with the source's field names behind a prefix that names the struct; a
  constructor of the struct is a definition.  A one-bit flag is a \<^typ>\<open>bool\<close>.  Window scaling is on
  (\<^verbatim>\<open>WINDOW_SCALE = 1\<close>, the value both CMake files set), so the ring pointers have
  \<^verbatim>\<open>WINDOW_BITS = 18\<close> bits.  A field that a C++ constructor leaves uninitialised is 0 in the
  record; each module's theory shows that it does not read such a field, or takes its content as an
  argument where the code does read it.
\<close>

section \<open>Configuration\<close>

type_synonym win = "18 word"

definition WINDOW_SCALE_BITS :: nat where "WINDOW_SCALE_BITS = 2"

definition BUFFER_SIZE :: nat where "BUFFER_SIZE = 2 ^ 18"

definition CONGESTION_WINDOW_MAX :: nat where "CONGESTION_WINDOW_MAX = BUFFER_SIZE - 2048"

text \<open>The values and switches that CMake fills into \<^verbatim>\<open>toe_config.hpp.in\<close>.\<close>

record toe_config =
  MSS :: u16
  MAX_SESSIONS :: u16
  TCP_NODELAY :: bool
  RX_DDR_BYPASS :: bool
  FAST_RETRANSMIT :: bool

text \<open>The values of the checked-in build files.\<close>

definition default_config :: toe_config where
  "default_config = \<lparr> MSS = 4096, MAX_SESSIONS = 1000, TCP_NODELAY = True, RX_DDR_BYPASS = True,
     FAST_RETRANSMIT = True \<rparr>"

text \<open>
  The time constants of the synthesised design, \<^verbatim>\<open>(us / 0.0064 / MAX_SESSIONS) + 1\<close> sweeps over the
  session table for an interval of \<open>us\<close> microseconds.
\<close>

definition time_ticks :: "toe_config \<Rightarrow> nat \<Rightarrow> u32" where
  "time_ticks cfg us = of_nat (us * 10000 div (64 * unat (MAX_SESSIONS cfg)) + 1)"

definition TIME_64us :: "toe_config \<Rightarrow> u32" where "TIME_64us cfg = time_ticks cfg 64"
definition TIME_50ms :: "toe_config \<Rightarrow> u32" where "TIME_50ms cfg = time_ticks cfg 50000"
definition TIME_1s :: "toe_config \<Rightarrow> u32" where "TIME_1s cfg = time_ticks cfg 1000000"
definition TIME_5s :: "toe_config \<Rightarrow> u32" where "TIME_5s cfg = time_ticks cfg 5000000"
definition TIME_10s :: "toe_config \<Rightarrow> u32" where "TIME_10s cfg = time_ticks cfg 10000000"
definition TIME_15s :: "toe_config \<Rightarrow> u32" where "TIME_15s cfg = time_ticks cfg 15000000"
definition TIME_30s :: "toe_config \<Rightarrow> u32" where "TIME_30s cfg = time_ticks cfg 30000000"
definition TIME_60s :: "toe_config \<Rightarrow> u32" where "TIME_60s cfg = time_ticks cfg 60000000"

lemmas time_defs = time_ticks_def TIME_64us_def TIME_50ms_def TIME_1s_def TIME_5s_def TIME_10s_def
  TIME_15s_def TIME_30s_def TIME_60s_def

section \<open>Enumerations\<close>

datatype eventType = TX | RT | ACK | SYN | SYN_ACK | FIN | RST | ACK_NODELAY

datatype sessionState = CLOSED | SYN_SENT | SYN_RECEIVED | ESTABLISHED | FIN_WAIT_1 | FIN_WAIT_2
  | CLOSING | TIME_WAIT | LAST_ACK

section \<open>Tuples and session lookup\<close>

record fourTuple =
  ft_srcIp :: u32
  ft_dstIp :: u32
  ft_srcPort :: u16
  ft_dstPort :: u16

definition fourTuple_mk :: "u32 \<Rightarrow> u32 \<Rightarrow> u16 \<Rightarrow> u16 \<Rightarrow> fourTuple" where
  "fourTuple_mk srcIp dstIp srcPort dstPort =
     \<lparr> ft_srcIp = srcIp, ft_dstIp = dstIp, ft_srcPort = srcPort, ft_dstPort = dstPort \<rparr>"

record sessionLookupQuery =
  slq_tuple :: fourTuple
  slq_allowCreation :: bool

record sessionLookupReply =
  slr_sessionID :: u16
  slr_hit :: bool

section \<open>State table and SAR tables\<close>

record stateQuery =
  sq_sessionID :: u16
  sq_state :: sessionState
  sq_write :: bool

definition stateQuery_read :: "u16 \<Rightarrow> stateQuery" where
  "stateQuery_read i = \<lparr> sq_sessionID = i, sq_state = CLOSED, sq_write = False \<rparr>"

definition stateQuery_write :: "u16 \<Rightarrow> sessionState \<Rightarrow> stateQuery" where
  "stateQuery_write i s = \<lparr> sq_sessionID = i, sq_state = s, sq_write = True \<rparr>"

record rxSarEntry =
  rse_recvd :: u32
  rse_appd :: win
  rse_win_shift :: u4
  rse_head :: u32
  rse_offset :: u32
  rse_gap :: bool

record rxSarReply =
  rsr_recvd :: u32
  rsr_win_shift :: u4
  rsr_windowSize :: u16

record rxSarRecvd =
  rsv_sessionID :: u16
  rsv_recvd :: u32
  rsv_win_shift :: u4
  rsv_write :: bool
  rsv_init :: bool
  rsv_head :: u32
  rsv_offset :: u32
  rsv_gap :: bool

definition rxSarRecvd_read :: "u16 \<Rightarrow> rxSarRecvd" where
  "rxSarRecvd_read i = \<lparr> rsv_sessionID = i, rsv_recvd = 0, rsv_win_shift = 0, rsv_write = False,
     rsv_init = False, rsv_head = 0, rsv_offset = 0, rsv_gap = False \<rparr>"

definition rxSarRecvd_write :: "u16 \<Rightarrow> u32 \<Rightarrow> u32 \<Rightarrow> u32 \<Rightarrow> bool \<Rightarrow> rxSarRecvd" where
  "rxSarRecvd_write i recvd head offset gap = \<lparr> rsv_sessionID = i, rsv_recvd = recvd,
     rsv_win_shift = 0, rsv_write = True, rsv_init = False, rsv_head = head, rsv_offset = offset,
     rsv_gap = gap \<rparr>"

definition rxSarRecvd_init :: "u16 \<Rightarrow> u32 \<Rightarrow> u32 \<Rightarrow> u32 \<Rightarrow> bool \<Rightarrow> u4 \<Rightarrow> rxSarRecvd" where
  "rxSarRecvd_init i recvd head offset gap win_shift = \<lparr> rsv_sessionID = i, rsv_recvd = recvd,
     rsv_win_shift = win_shift, rsv_write = True, rsv_init = True, rsv_head = head,
     rsv_offset = offset, rsv_gap = gap \<rparr>"

record rxSarAppd =
  rsa_sessionID :: u16
  rsa_appd :: win
  rsa_write :: bool

definition rxSarAppd_read :: "u16 \<Rightarrow> rxSarAppd" where
  "rxSarAppd_read i = \<lparr> rsa_sessionID = i, rsa_appd = 0, rsa_write = False \<rparr>"

definition rxSarAppd_write :: "u16 \<Rightarrow> win \<Rightarrow> rxSarAppd" where
  "rxSarAppd_write i appd = \<lparr> rsa_sessionID = i, rsa_appd = appd, rsa_write = True \<rparr>"

record txSarEntry =
  tse_ackd :: u32
  tse_not_ackd :: u32
  tse_recv_window :: u16
  tse_win_shift :: u4
  tse_cong_window :: win
  tse_slowstart_threshold :: win
  tse_app :: win
  tse_count :: u2
  tse_fastRetransmitted :: bool
  tse_finReady :: bool
  tse_finSent :: bool

record rxTxSarQuery =
  rtq_sessionID :: u16
  rtq_ackd :: u32
  rtq_recv_window :: u16
  rtq_cong_window :: win
  rtq_count :: u2
  rtq_fastRetransmitted :: bool
  rtq_win_shift :: u4
  rtq_write :: bool
  rtq_init :: bool

definition rxTxSarQuery_read :: "u16 \<Rightarrow> rxTxSarQuery" where
  "rxTxSarQuery_read i = \<lparr> rtq_sessionID = i, rtq_ackd = 0, rtq_recv_window = 0,
     rtq_cong_window = 0, rtq_count = 0, rtq_fastRetransmitted = False, rtq_win_shift = 0,
     rtq_write = False, rtq_init = False \<rparr>"

definition rxTxSarQuery_write ::
  "u16 \<Rightarrow> u32 \<Rightarrow> u16 \<Rightarrow> win \<Rightarrow> u2 \<Rightarrow> bool \<Rightarrow> rxTxSarQuery" where
  "rxTxSarQuery_write i ackd recv_win cong_win count fastRetransmitted =
     \<lparr> rtq_sessionID = i, rtq_ackd = ackd, rtq_recv_window = recv_win, rtq_cong_window = cong_win,
       rtq_count = count, rtq_fastRetransmitted = fastRetransmitted, rtq_win_shift = 0,
       rtq_write = True, rtq_init = False \<rparr>"

definition rxTxSarQuery_init ::
  "u16 \<Rightarrow> u32 \<Rightarrow> u16 \<Rightarrow> win \<Rightarrow> u2 \<Rightarrow> bool \<Rightarrow> u4 \<Rightarrow> rxTxSarQuery" where
  "rxTxSarQuery_init i ackd recv_win cong_win count fastRetransmitted win_shift =
     \<lparr> rtq_sessionID = i, rtq_ackd = ackd, rtq_recv_window = recv_win, rtq_cong_window = cong_win,
       rtq_count = count, rtq_fastRetransmitted = fastRetransmitted, rtq_win_shift = win_shift,
       rtq_write = True, rtq_init = True \<rparr>"

record txTxSarQuery =
  ttq_sessionID :: u16
  ttq_not_ackd :: u32
  ttq_write :: bool
  ttq_init :: bool
  ttq_finReady :: bool
  ttq_finSent :: bool
  ttq_isRtQuery :: bool

definition txTxSarQuery_mk ::
  "u16 \<Rightarrow> u32 \<Rightarrow> bool \<Rightarrow> bool \<Rightarrow> bool \<Rightarrow> bool \<Rightarrow> bool \<Rightarrow> txTxSarQuery" where
  "txTxSarQuery_mk i not_ackd w ini finReady finSent isRt =
     \<lparr> ttq_sessionID = i, ttq_not_ackd = not_ackd, ttq_write = w, ttq_init = ini,
       ttq_finReady = finReady, ttq_finSent = finSent, ttq_isRtQuery = isRt \<rparr>"

definition txTxSarQuery_read :: "u16 \<Rightarrow> txTxSarQuery" where
  "txTxSarQuery_read i = txTxSarQuery_mk i 0 False False False False False"

text \<open>\<^verbatim>\<open>txTxSarRtQuery\<close> carries the new slow start threshold in the field \<^verbatim>\<open>not_ackd\<close>.\<close>

definition txTxSarRtQuery_mk :: "u16 \<Rightarrow> win \<Rightarrow> txTxSarQuery" where
  "txTxSarRtQuery_mk i ssthresh = txTxSarQuery_mk i (ucast ssthresh) True False False False True"

definition getThreshold :: "txTxSarQuery \<Rightarrow> win" where
  "getThreshold q = range_get (ttq_not_ackd q) 17 0"

record txAppTxSarQuery =
  taq_sessionID :: u16
  taq_mempt :: win
  taq_write :: bool

definition txAppTxSarQuery_read :: "u16 \<Rightarrow> txAppTxSarQuery" where
  "txAppTxSarQuery_read i = \<lparr> taq_sessionID = i, taq_mempt = 0, taq_write = False \<rparr>"

definition txAppTxSarQuery_write :: "u16 \<Rightarrow> win \<Rightarrow> txAppTxSarQuery" where
  "txAppTxSarQuery_write i pt = \<lparr> taq_sessionID = i, taq_mempt = pt, taq_write = True \<rparr>"

record rxTxSarReply =
  rtr_prevAck :: u32
  rtr_nextByte :: u32
  rtr_cong_window :: win
  rtr_slowstart_threshold :: win
  rtr_count :: u2
  rtr_fastRetransmitted :: bool

record txAppTxSarReply =
  tar_sessionID :: u16
  tar_ackd :: win
  tar_mempt :: win
  tar_min_window :: win

record txAppTxSarPush =
  tap_sessionID :: u16
  tap_app :: win

record txSarAckPush =
  tsp_sessionID :: u16
  tsp_ackd :: win
  tsp_min_window :: win
  tsp_init :: bool

record txTxSarReply =
  ttr_ackd :: u32
  ttr_not_ackd :: u32
  ttr_usableWindow :: win
  ttr_app :: win
  ttr_usedLength :: win
  ttr_finReady :: bool
  ttr_finSent :: bool

section \<open>Timers and events\<close>

record rxRetransmitTimerUpdate =
  rtu_sessionID :: u16
  rtu_stop :: bool

record txRetransmitTimerSet =
  rts_sessionID :: u16
  rts_type :: eventType

definition txRetransmitTimerSet_RT :: "u16 \<Rightarrow> txRetransmitTimerSet" where
  "txRetransmitTimerSet_RT i = \<lparr> rts_sessionID = i, rts_type = RT \<rparr>"

record event =
  ev_type :: eventType
  ev_sessionID :: u16
  ev_address :: win
  ev_length :: u16
  ev_rt_count :: u3

definition event_mk :: "eventType \<Rightarrow> u16 \<Rightarrow> event" where
  "event_mk t i = \<lparr> ev_type = t, ev_sessionID = i, ev_address = 0, ev_length = 0, ev_rt_count = 0 \<rparr>"

definition event_rt :: "eventType \<Rightarrow> u16 \<Rightarrow> u3 \<Rightarrow> event" where
  "event_rt t i n = \<lparr> ev_type = t, ev_sessionID = i, ev_address = 0, ev_length = 0, ev_rt_count = n \<rparr>"

definition event_data :: "eventType \<Rightarrow> u16 \<Rightarrow> win \<Rightarrow> u16 \<Rightarrow> event" where
  "event_data t i addr len =
     \<lparr> ev_type = t, ev_sessionID = i, ev_address = addr, ev_length = len, ev_rt_count = 0 \<rparr>"

record extendedEvent = event +
  ee_tuple :: fourTuple

definition extendedEvent_mk :: "event \<Rightarrow> fourTuple \<Rightarrow> extendedEvent" where
  "extendedEvent_mk ev tuple = event.extend ev (extendedEvent.fields tuple)"

text \<open>The conversion from \<^verbatim>\<open>event\<close> leaves the tuple uninitialised.\<close>

definition extendedEvent_of :: "event \<Rightarrow> extendedEvent" where
  "extendedEvent_of ev = extendedEvent_mk ev (fourTuple_mk 0 0 0 0)"

text \<open>
  \<^verbatim>\<open>rstEvent\<close> adds no field: the acknowledgement number of the reset travels in \<^verbatim>\<open>address\<close> and
  \<^verbatim>\<open>length\<close>, and \<^verbatim>\<open>rt_count\<close> tells whether the event names a session.
\<close>

definition rstEvent_mk :: "u16 \<Rightarrow> u32 \<Rightarrow> bool \<Rightarrow> event" where
  "rstEvent_mk i seq hasSessionID =
     \<lparr> ev_type = RST, ev_sessionID = i, ev_address = range_get seq 31 16,
       ev_length = range_get seq 15 0, ev_rt_count = (if hasSessionID then 1 else 0) \<rparr>"

definition rstEvent_nosession :: "u32 \<Rightarrow> event" where
  "rstEvent_nosession seq = rstEvent_mk 0 seq False"

definition rstEvent_session :: "u16 \<Rightarrow> u32 \<Rightarrow> event" where
  "rstEvent_session i seq = rstEvent_mk i seq True"

definition getAckNumb :: "('a) event_scheme \<Rightarrow> u32" where
  "getAckNumb ev = range_set (range_set 0 31 16 (ev_address ev)) 15 0 (ev_length ev)"

definition hasSessionID :: "('a) event_scheme \<Rightarrow> bool" where
  "hasSessionID ev \<longleftrightarrow> ev_rt_count ev \<noteq> 0"

lemmas event_defs = event_mk_def event_rt_def event_data_def extendedEvent_mk_def
  extendedEvent_of_def rstEvent_mk_def rstEvent_nosession_def rstEvent_session_def
  event.defs extendedEvent.defs

section \<open>Application and memory interfaces\<close>

record ipTuple =
  it_ip_address :: u32
  it_ip_port :: u16

text \<open>A data mover command: \<^verbatim>\<open>bbt\<close> is the byte count and \<^verbatim>\<open>saddr\<close> the address; the constructor sets
  the other fields to constants.\<close>

record mmCmd =
  mc_bbt :: u23
  mc_type :: bool
  mc_dsa :: u6
  mc_eof :: bool
  mc_drr :: bool
  mc_saddr :: u32
  mc_tag :: u4
  mc_rsvd :: u4

definition mmCmd_mk :: "u32 \<Rightarrow> u16 \<Rightarrow> mmCmd" where
  "mmCmd_mk addr len = \<lparr> mc_bbt = ucast len, mc_type = True, mc_dsa = 0, mc_eof = True,
     mc_drr = True, mc_saddr = addr, mc_tag = 0, mc_rsvd = 0 \<rparr>"

record mmStatus =
  ms_tag :: u4
  ms_interr :: bool
  ms_decerr :: bool
  ms_slverr :: bool
  ms_okay :: bool

record openStatus =
  os_sessionID :: u16
  os_success :: u8
  os_ip :: u32
  os_port :: u16

definition openStatus_mk :: "u16 \<Rightarrow> u8 \<Rightarrow> openStatus" where
  "openStatus_mk i success = \<lparr> os_sessionID = i, os_success = success, os_ip = 0, os_port = 0 \<rparr>"

record appNotification =
  an_sessionID :: u16
  an_length :: u16
  an_ipAddress :: u32
  an_dstPort :: u16
  an_closed :: bool

definition appNotification_mk :: "u16 \<Rightarrow> u16 \<Rightarrow> u32 \<Rightarrow> u16 \<Rightarrow> bool \<Rightarrow> appNotification" where
  "appNotification_mk i len addr port closed = \<lparr> an_sessionID = i, an_length = len,
     an_ipAddress = addr, an_dstPort = port, an_closed = closed \<rparr>"

record appReadRequest =
  arr_sessionID :: u16
  arr_length :: u16

record appTxMeta =
  atm_sessionID :: u16
  atm_length :: u16

record appTxRsp =
  atr_sessionID :: u16
  atr_length :: u16
  atr_remaining_space :: u30
  atr_error :: u2

text \<open>The address of a ring position of a session in the packet memory:
  \<^verbatim>\<open>pkgAddr(31,30) = 0; pkgAddr(29,18) = sessionID(13,0); pkgAddr(17,0) = pt\<close>.\<close>

definition pkgAddr :: "u16 \<Rightarrow> win \<Rightarrow> u32" where
  "pkgAddr i pt =
     range_set (range_set (range_set (0::u32) 31 30 (0::u2)) 29 18 (range_get i 13 0 :: u14)) 17 0 pt"

section \<open>Stream merging\<close>

text \<open>\<^verbatim>\<open>stream_merger\<close> of axi\_utils.hpp and \<^verbatim>\<open>timerCloseMerger\<close> of toe.cpp: the first stream goes
  first.\<close>

definition stream_merger :: "'a list \<times> 'a list \<times> 'a list \<Rightarrow> 'a list \<times> 'a list \<times> 'a list" where
  "stream_merger = (\<lambda>(in1, in2, out).
     case in1 of x # xs \<Rightarrow> (xs, in2, out @ [x])
     | [] \<Rightarrow> (case in2 of y # ys \<Rightarrow> (in1, ys, out @ [y]) | [] \<Rightarrow> (in1, in2, out)))"

end
