(* ===== verification/Port_Table.thy ===== *)
theory Port_Table
  imports Toe_Types
begin

text \<open>
  The port table (\<^verbatim>\<open>port_table/port_table.cpp\<close>): the listening ports below 32768, the ephemeral ports
  from 32768 on that the engine hands out for active opens, and the two multiplexers that send the RX
  engine's port checks to the right half and merge the answers.

  The state record holds the statics of the four functions and the streams between them;
  \<open>port_table\<close> calls them in the order of the source.  \<^verbatim>\<open>portTable2txApp_port_rsp.full()\<close> is the
  argument \<open>full\<close>.  The lemmas show that a port is never handed out while it is in use, that a free
  port is found within one sweep of the cursor, that the checks are answered completely and in order,
  and that a port opened for listening is seen as open by the RX engine.
\<close>

datatype cmFsmStateType = READ_DST | READ_LISTENING | READ_USED

record port_table_st =
  listeningPortTable :: "u15 \<Rightarrow> bool"
  freePortTable :: "u15 \<Rightarrow> bool"
  pt_cursor :: u15
  cm_fsmState :: cmFsmStateType
  pt_portCheckListening_req_fifo :: "u15 list"
  pt_portCheckUsed_req_fifo :: "u15 list"
  pt_portCheckListening_rsp_fifo :: "bool list"
  pt_portCheckUsed_rsp_fifo :: "bool list"
  pt_dstFifo :: "bool list"
  pt_rxEng2portTable_check_req :: "u16 list"
  pt_rxApp2portTable_listen_req :: "u16 list"
  pt_sLookup2portTable_releasePort :: "u16 list"
  pt_portTable2rxEng_check_rsp :: "bool list"
  pt_portTable2rxApp_listen_rsp :: "bool list"
  pt_portTable2txApp_port_rsp :: "u16 list"

section \<open>The module\<close>

definition listening_port_table :: "port_table_st \<Rightarrow> port_table_st" where
  "listening_port_table s =
     (case pt_rxApp2portTable_listen_req s of
        currPort # q \<Rightarrow>
          (let s1 = s\<lparr> pt_rxApp2portTable_listen_req := q \<rparr>;
               i = (range_get currPort 14 0 :: u15)
           in if listeningPortTable s i \<and> currPort < 32768
              then s1\<lparr> pt_portTable2rxApp_listen_rsp := pt_portTable2rxApp_listen_rsp s @ [True] \<rparr>
              else if \<not> listeningPortTable s i \<and> currPort < 32768
              then s1\<lparr> listeningPortTable := (listeningPortTable s)(ucast currPort := True),
                       pt_portTable2rxApp_listen_rsp := pt_portTable2rxApp_listen_rsp s @ [True] \<rparr>
              else s1\<lparr> pt_portTable2rxApp_listen_rsp := pt_portTable2rxApp_listen_rsp s @ [False] \<rparr>)
      | [] \<Rightarrow>
     (case pt_portCheckListening_req_fifo s of
        p # q \<Rightarrow> s\<lparr> pt_portCheckListening_req_fifo := q,
          pt_portCheckListening_rsp_fifo := pt_portCheckListening_rsp_fifo s @ [listeningPortTable s p] \<rparr>
      | [] \<Rightarrow> s))"

definition free_port_table :: "bool \<Rightarrow> port_table_st \<Rightarrow> port_table_st" where
  "free_port_table full s =
     (let s1 =
        (case pt_sLookup2portTable_releasePort s of
           currPort # q \<Rightarrow>
             (if currPort \<ge> 32768
              then s\<lparr> pt_sLookup2portTable_releasePort := q,
                      freePortTable := (freePortTable s)(range_get currPort 14 0 := False) \<rparr>
              else s\<lparr> pt_sLookup2portTable_releasePort := q \<rparr>)
         | [] \<Rightarrow>
        (case pt_portCheckUsed_req_fifo s of
           p # q \<Rightarrow> s\<lparr> pt_portCheckUsed_req_fifo := q,
             pt_portCheckUsed_rsp_fifo := pt_portCheckUsed_rsp_fifo s @ [freePortTable s p] \<rparr>
         | [] \<Rightarrow>
           (if \<not> freePortTable s (pt_cursor s) \<and> \<not> full
            then s\<lparr> freePortTable := (freePortTable s)(pt_cursor s := True),
                    pt_portTable2txApp_port_rsp := pt_portTable2txApp_port_rsp s @
                      [range_set (range_set (0::u16) 14 0 (pt_cursor s)) 15 15 (1::u1)] \<rparr>
            else s)))
      in s1\<lparr> pt_cursor := pt_cursor s1 + 1 \<rparr>)"

definition swapPort :: "u16 \<Rightarrow> u16" where
  "swapPort checkPort =
     range_set (range_set (0::u16) 7 0 (range_get checkPort 15 8 :: u8)) 15 8 (range_get checkPort 7 0 :: u8)"

definition check_in_multiplexer :: "port_table_st \<Rightarrow> port_table_st" where
  "check_in_multiplexer s =
     (case pt_rxEng2portTable_check_req s of
        checkPort # q \<Rightarrow>
          (let swappedCheckPort = swapPort checkPort
           in if swappedCheckPort < 32768
              then s\<lparr> pt_rxEng2portTable_check_req := q,
                      pt_portCheckListening_req_fifo := pt_portCheckListening_req_fifo s @ [ucast swappedCheckPort],
                      pt_dstFifo := pt_dstFifo s @ [True] \<rparr>
              else s\<lparr> pt_rxEng2portTable_check_req := q,
                      pt_portCheckUsed_req_fifo := pt_portCheckUsed_req_fifo s @ [ucast swappedCheckPort],
                      pt_dstFifo := pt_dstFifo s @ [False] \<rparr>)
      | [] \<Rightarrow> s)"

definition check_out_multiplexer :: "port_table_st \<Rightarrow> port_table_st" where
  "check_out_multiplexer s =
     (case cm_fsmState s of
        READ_DST \<Rightarrow>
          (case pt_dstFifo s of
             dst # q \<Rightarrow> s\<lparr> pt_dstFifo := q, cm_fsmState := (if dst then READ_LISTENING else READ_USED) \<rparr>
           | [] \<Rightarrow> s)
      | READ_LISTENING \<Rightarrow>
          (case pt_portCheckListening_rsp_fifo s of
             b # q \<Rightarrow> s\<lparr> pt_portCheckListening_rsp_fifo := q,
               pt_portTable2rxEng_check_rsp := pt_portTable2rxEng_check_rsp s @ [b], cm_fsmState := READ_DST \<rparr>
           | [] \<Rightarrow> s)
      | READ_USED \<Rightarrow>
          (case pt_portCheckUsed_rsp_fifo s of
             b # q \<Rightarrow> s\<lparr> pt_portCheckUsed_rsp_fifo := q,
               pt_portTable2rxEng_check_rsp := pt_portTable2rxEng_check_rsp s @ [b], cm_fsmState := READ_DST \<rparr>
           | [] \<Rightarrow> s))"

definition port_table :: "bool \<Rightarrow> port_table_st \<Rightarrow> port_table_st" where
  "port_table full s =
     check_out_multiplexer (check_in_multiplexer (free_port_table full (listening_port_table s)))"

definition port_table_init :: port_table_st where
  "port_table_init = \<lparr> listeningPortTable = (\<lambda>_. False), freePortTable = (\<lambda>_. False), pt_cursor = 0,
     cm_fsmState = READ_DST, pt_portCheckListening_req_fifo = [], pt_portCheckUsed_req_fifo = [],
     pt_portCheckListening_rsp_fifo = [], pt_portCheckUsed_rsp_fifo = [], pt_dstFifo = [],
     pt_rxEng2portTable_check_req = [], pt_rxApp2portTable_listen_req = [],
     pt_sLookup2portTable_releasePort = [], pt_portTable2rxEng_check_rsp = [],
     pt_portTable2rxApp_listen_rsp = [], pt_portTable2txApp_port_rsp = [] \<rparr>"

section \<open>Port numbers\<close>

lemma swapPort_reverse: "swapPort p = reverse p"
  by (simp add: swapPort_def reverse_def upt_rec)

lemma swapPort_swapPort [simp]: "swapPort (swapPort p) = p"
  by (simp add: swapPort_reverse reverse_reverse)

text \<open>The ephemeral port of a cursor position.\<close>

definition eph :: "u15 \<Rightarrow> u16" where
  "eph c = range_set (range_set (0::u16) 14 0 c) 15 15 (1::u1)"

lemma eph_low [simp]: "range_get (eph c) 14 0 = c"
  by (rule bit_word_eqI) (simp add: eph_def range_bits)

lemma eph_ge: "32768 \<le> eph c"
proof -
  have "bit (eph c) 15" by (simp add: eph_def range_bits)
  then have "\<not> unat (eph c) < 2 ^ 15" 
    by (metis bit_take_bit_iff linorder_not_less order_refl take_bit_nat_eq_self_iff unsigned_take_bit_eq unsigned_word_eqI bit_unsigned_iff)
  then show ?thesis by (simp add: word_le_nat_alt)
qed

lemma eph_inj: "eph c = eph d \<Longrightarrow> c = d"
  by (metis eph_low)

lemma eph_of_low: "32768 \<le> p \<Longrightarrow> eph (range_get p 14 0) = p"
proof (rule bit_word_eqI)
  fix n
  assume "32768 \<le> p" and n: "n < LENGTH(16)"
  have "bit p 15"
  proof (rule ccontr)
    assume "\<not> bit p 15"
    then have "take_bit 15 p = p"
      by (intro bit_word_eqI) (auto simp: bit_take_bit_iff less_Suc_eq numeral_eq_Suc)
    then have "unat p = take_bit 15 (unat p)"
      by (metis unsigned_take_bit_eq)
    then have "unat p < 2 ^ 15" by (metis take_bit_nat_less_exp)
    with \<open>32768 \<le> p\<close> show False by (simp add: word_le_nat_alt)
  qed
  moreover have "n < 15 \<or> n = 15" using n by simp linarith
  ultimately show "bit (eph (range_get p 14 0)) n \<longleftrightarrow> bit p n"
    by (auto simp: eph_def range_bits)
qed

section \<open>Ownership of the ephemeral ports\<close>

lemma listening_frame [simp]:
  "freePortTable (listening_port_table s) = freePortTable s"
  "pt_cursor (listening_port_table s) = pt_cursor s"
  "pt_portTable2txApp_port_rsp (listening_port_table s) = pt_portTable2txApp_port_rsp s"
  "pt_sLookup2portTable_releasePort (listening_port_table s) = pt_sLookup2portTable_releasePort s"
  "pt_portCheckUsed_req_fifo (listening_port_table s) = pt_portCheckUsed_req_fifo s"
  "pt_rxEng2portTable_check_req (listening_port_table s) = pt_rxEng2portTable_check_req s"
  "pt_dstFifo (listening_port_table s) = pt_dstFifo s"
  "cm_fsmState (listening_port_table s) = cm_fsmState s"
  by (auto simp: listening_port_table_def Let_def split: list.split)

lemma free_frame [simp]:
  "listeningPortTable (free_port_table full s) = listeningPortTable s"
  "pt_portTable2rxApp_listen_rsp (free_port_table full s) = pt_portTable2rxApp_listen_rsp s"
  "pt_rxEng2portTable_check_req (free_port_table full s) = pt_rxEng2portTable_check_req s"
  by (auto simp: free_port_table_def Let_def split: list.split)

lemma mux_frame [simp]:
  "freePortTable (check_in_multiplexer s) = freePortTable s"
  "listeningPortTable (check_in_multiplexer s) = listeningPortTable s"
  "pt_cursor (check_in_multiplexer s) = pt_cursor s"
  "pt_portTable2txApp_port_rsp (check_in_multiplexer s) = pt_portTable2txApp_port_rsp s"
  "pt_sLookup2portTable_releasePort (check_in_multiplexer s) = pt_sLookup2portTable_releasePort s"
  "pt_rxApp2portTable_listen_req (check_in_multiplexer s) = pt_rxApp2portTable_listen_req s"
  "freePortTable (check_out_multiplexer s) = freePortTable s"
  "listeningPortTable (check_out_multiplexer s) = listeningPortTable s"
  "pt_cursor (check_out_multiplexer s) = pt_cursor s"
  "pt_portTable2txApp_port_rsp (check_out_multiplexer s) = pt_portTable2txApp_port_rsp s"
  "pt_sLookup2portTable_releasePort (check_out_multiplexer s) = pt_sLookup2portTable_releasePort s"
  "pt_rxApp2portTable_listen_req (check_out_multiplexer s) = pt_rxApp2portTable_listen_req s"
  "pt_rxEng2portTable_check_req (check_out_multiplexer s) = pt_rxEng2portTable_check_req s"
  "pt_portCheckListening_req_fifo (check_out_multiplexer s) = pt_portCheckListening_req_fifo s"
  "pt_portCheckUsed_req_fifo (check_out_multiplexer s) = pt_portCheckUsed_req_fifo s"
  by (auto simp: check_in_multiplexer_def check_out_multiplexer_def Let_def
      split: list.split cmFsmStateType.split)

text \<open>The free port table as the transmit side and the session lookup see it: the marks, the ports
  handed out and the ports given back.\<close>

definition ports_step :: "bool \<Rightarrow> bool \<Rightarrow> u15 \<Rightarrow> (u15 \<Rightarrow> bool) \<times> u16 list \<times> u16 list
    \<Rightarrow> (u15 \<Rightarrow> bool) \<times> u16 list \<times> u16 list" where
  "ports_step full check c = (\<lambda>(used, issued, released).
     case released of p # ps \<Rightarrow> (if p \<ge> 32768 then used(range_get p 14 0 := False) else used, issued, ps)
     | [] \<Rightarrow> if \<not> check \<and> \<not> used c \<and> \<not> full then (used(c := True), issued @ [eph c], []) else (used, issued, []))"

definition ports_view :: "port_table_st \<Rightarrow> (u15 \<Rightarrow> bool) \<times> u16 list \<times> u16 list" where
  "ports_view s = (freePortTable s, pt_portTable2txApp_port_rsp s, pt_sLookup2portTable_releasePort s)"

lemma port_table_ports:
  "ports_view (port_table full s) =
     ports_step full (pt_portCheckUsed_req_fifo s \<noteq> []) (pt_cursor s) (ports_view s)"
  by (auto simp: ports_view_def ports_step_def port_table_def free_port_table_def Let_def eph_def
      split: list.split)

text \<open>The table with its clients: \<open>H\<close> is the set of the ports that were handed out and not given back.
  A client gives back a port it holds; everything else arrives freely.\<close>

inductive port_step :: "port_table_st \<times> u16 set \<Rightarrow> port_table_st \<times> u16 set \<Rightarrow> bool" where
  ps_run: "port_step (s, H) (port_table full s,
     H \<union> set (drop (length (pt_portTable2txApp_port_rsp s)) (pt_portTable2txApp_port_rsp (port_table full s))))"
| ps_take: "port_step (s, H) (s\<lparr> pt_portTable2txApp_port_rsp := tl (pt_portTable2txApp_port_rsp s) \<rparr>, H)"
| ps_release: "p \<in> H \<Longrightarrow> port_step (s, H)
     (s\<lparr> pt_sLookup2portTable_releasePort := pt_sLookup2portTable_releasePort s @ [p] \<rparr>, H - {p})"
| ps_check: "port_step (s, H) (s\<lparr> pt_rxEng2portTable_check_req := pt_rxEng2portTable_check_req s @ [q] \<rparr>, H)"
| ps_listen: "port_step (s, H) (s\<lparr> pt_rxApp2portTable_listen_req := pt_rxApp2portTable_listen_req s @ [q] \<rparr>, H)"
| ps_answer: "port_step (s, H) (s\<lparr> pt_portTable2rxEng_check_rsp := tl (pt_portTable2rxEng_check_rsp s),
     pt_portTable2rxApp_listen_rsp := tl (pt_portTable2rxApp_listen_rsp s) \<rparr>, H)"

definition owned :: "(u15 \<Rightarrow> bool) \<times> u16 list \<times> u16 list \<Rightarrow> u16 set \<Rightarrow> bool" where
  "owned = (\<lambda>(used, issued, released) H.
     distinct released \<and> set released \<inter> H = {} \<and>
     (\<forall>p \<in> H \<union> set released. 32768 \<le> p \<and> used (range_get p 14 0)))"

lemma eph_fresh:
  "owned (used, issued, released) H \<Longrightarrow> \<not> used c \<Longrightarrow> eph c \<notin> H \<union> set released"
  by (auto simp: owned_def dest: bspec [where x = "eph c"])

lemma low_eq_iff: "32768 \<le> p \<Longrightarrow> 32768 \<le> q \<Longrightarrow> (range_get (p :: u16) 14 0 :: u15) = range_get q 14 0 \<longleftrightarrow> p = q"
  by (metis eph_of_low)

lemma owned_ports_step:
  assumes "owned v H" and "ports_step full check c v = v'"
  shows "owned v' (H \<union> set (drop (length (fst (snd v))) (fst (snd v'))))"
proof -
  obtain used issued released where v: "v = (used, issued, released)" by (cases v)
  show ?thesis
  proof (cases released)
    case Nil
    with assms v show ?thesis
      by (auto simp: ports_step_def owned_def eph_ge split: if_splits)
  next
    case (Cons p ps)
    then have "32768 \<le> q \<Longrightarrow> q \<in> H \<union> set ps \<Longrightarrow> (range_get q 14 0 :: u15) \<noteq> range_get p 14 0" for q
      using assms(1) v by (auto simp: owned_def low_eq_iff)
    with assms v Cons show ?thesis
      by (auto simp: ports_step_def owned_def)
  qed
qed

interpretation port_sys: invariant_system "\<lambda>x. x = (port_table_init, {})" port_step
    "\<lambda>(s, H). owned (ports_view s) H"
proof unfold_locales
  show "case x of (s, H) \<Rightarrow> owned (ports_view s) H" if "x = (port_table_init, {})" for x
    using that by (simp add: owned_def ports_view_def port_table_init_def)
  show "case y of (s, H) \<Rightarrow> owned (ports_view s) H"
    if "case x of (s, H) \<Rightarrow> owned (ports_view s) H" "port_step x y" for x y
    using that(2,1)
  proof cases
    case (ps_run s H full)
    with that(1) owned_ports_step [OF _ port_table_ports [of full s, symmetric], of H]
    show ?thesis by (simp add: ports_view_def)
  qed (auto simp: owned_def ports_view_def)
qed


section \<open>A free port is found\<close>

lemma port_table_cursor [simp]: "pt_cursor (port_table full s) = pt_cursor s + 1"
  by (auto simp: port_table_def free_port_table_def Let_def split: list.split)

text \<open>Invocations in which nobody but the transmit side wants something.\<close>

lemma port_sweep:
  assumes "pt_sLookup2portTable_releasePort s = []" "pt_portCheckUsed_req_fifo s = []"
    "pt_rxEng2portTable_check_req s = []"
  shows "pt_sLookup2portTable_releasePort (port_table full s) = []
    \<and> pt_portCheckUsed_req_fifo (port_table full s) = []
    \<and> pt_rxEng2portTable_check_req (port_table full s) = []"
  using assms
  by (simp add: port_table_def free_port_table_def check_in_multiplexer_def)

lemma port_found_within:
  assumes "pt_sLookup2portTable_releasePort s = []" "pt_portCheckUsed_req_fifo s = []"
    "pt_rxEng2portTable_check_req s = []" "\<not> freePortTable s c" "k = wdist (pt_cursor s) c"
  shows "\<exists>n \<le> k. \<exists>p. pt_portTable2txApp_port_rsp ((port_table False ^^ Suc n) s) =
      pt_portTable2txApp_port_rsp s @ [p]"
  using assms
proof (induction k arbitrary: s)
  case 0
  then have "c - pt_cursor s = 0" by (simp add: wdist_def unat_eq_0)
  then have "pt_cursor s = c" by simp
  with 0 port_table_ports [of False s] show ?case
    by (auto simp: ports_view_def ports_step_def)
next
  case (Suc k)
  show ?case
  proof (cases "freePortTable s (pt_cursor s)")
    case False
    with Suc.prems port_table_ports [of False s] show ?thesis
      by (intro exI [of _ 0]) (auto simp: ports_view_def ports_step_def)
  next
    case True
    let ?t = "port_table False s"
    have same: "freePortTable ?t = freePortTable s" "pt_portTable2txApp_port_rsp ?t = pt_portTable2txApp_port_rsp s"
      using True Suc.prems port_table_ports [of False s] by (auto simp: ports_view_def ports_step_def)
    have "c - pt_cursor s \<noteq> 0" using Suc.prems(5) by (auto simp: wdist_def)
    then have "unat (c - pt_cursor s - 1) = unat (c - pt_cursor s) - 1"
      by (simp add: unat_minus_one)
    then have "k = wdist (pt_cursor ?t) c"
      using Suc.prems(5) by (simp add: wdist_def diff_diff_add add.commute)
    from Suc.IH [OF _ _ _ _ this] port_sweep [OF Suc.prems(1-3)] Suc.prems(4) same
    obtain n p where "n \<le> k" "pt_portTable2txApp_port_rsp ((port_table False ^^ Suc n) ?t) =
        pt_portTable2txApp_port_rsp s @ [p]" by auto
    then show ?thesis
      by (intro exI [of _ "Suc n"]) (auto simp: funpow_swap1)
  qed
qed

text \<open>
  A free port is found.  While no port is given back and no check waits, and the reply stream has
  room, one sweep of the cursor over the 32768 ephemeral ports is enough: if any port is free, a port
  is handed out after at most 32768 invocations.
\<close>

theorem free_port_found:
  assumes "pt_sLookup2portTable_releasePort s = []" "pt_portCheckUsed_req_fifo s = []"
    and "pt_rxEng2portTable_check_req s = []" "\<not> freePortTable s c"
  shows "\<exists>n \<le> 32768. \<exists>p. pt_portTable2txApp_port_rsp ((port_table False ^^ n) s) =
      pt_portTable2txApp_port_rsp s @ [p]"
proof -
  obtain n p where "n \<le> wdist (pt_cursor s) c"
    "pt_portTable2txApp_port_rsp ((port_table False ^^ Suc n) s) = pt_portTable2txApp_port_rsp s @ [p]"
    using port_found_within [OF assms refl] by blast
  moreover have "wdist (pt_cursor s) c < 32768" using wdist_less [of "pt_cursor s" c] by simp
  ultimately show ?thesis by (intro exI [of _ "Suc n"]) auto
qed

section \<open>Port checks\<close>

text \<open>The answer the tables give for a port in network byte order.\<close>

definition port_open :: "port_table_st \<Rightarrow> u16 \<Rightarrow> bool" where
  "port_open s p = (if swapPort p < 32768 then listeningPortTable s (ucast (swapPort p))
     else freePortTable s (ucast (swapPort p)))"

text \<open>The answers of the two tables put together in the order of the destinations.\<close>

fun merge_dst :: "bool list \<Rightarrow> 'a list \<Rightarrow> 'a list \<Rightarrow> 'a list" where
  "merge_dst [] ls us = []"
| "merge_dst (True # ds) (x # ls) us = x # merge_dst ds ls us"
| "merge_dst (True # ds) [] us = []"
| "merge_dst (False # ds) ls (x # us) = x # merge_dst ds ls us"
| "merge_dst (False # ds) ls [] = []"

definition matched :: "bool list \<Rightarrow> 'a list \<Rightarrow> 'a list \<Rightarrow> bool" where
  "matched ds ls us \<longleftrightarrow> length (filter id ds) = length ls \<and> length (filter Not ds) = length us"

lemma merge_dst_snoc:
  assumes "matched ds ls us"
  shows "merge_dst (ds @ [True]) (ls @ [x]) us = merge_dst ds ls us @ [x]"
    and "merge_dst (ds @ [False]) ls (us @ [x]) = merge_dst ds ls us @ [x]"
  using assms by (induction ds ls us rule: merge_dst.induct) (auto simp: matched_def)

definition cm_pending :: "port_table_st \<Rightarrow> bool list" where
  "cm_pending s = (case cm_fsmState s of READ_DST \<Rightarrow> [] | READ_LISTENING \<Rightarrow> [True] | READ_USED \<Rightarrow> [False])
     @ pt_dstFifo s"

definition lt_answers :: "port_table_st \<Rightarrow> bool list" where
  "lt_answers s = pt_portCheckListening_rsp_fifo s
     @ map (listeningPortTable s) (pt_portCheckListening_req_fifo s)"

definition ft_answers :: "port_table_st \<Rightarrow> bool list" where
  "ft_answers s = pt_portCheckUsed_rsp_fifo s @ map (freePortTable s) (pt_portCheckUsed_req_fifo s)"

text \<open>The answers the RX engine has and will get, when the tables stay as they are.\<close>

definition check_answers :: "port_table_st \<Rightarrow> bool list" where
  "check_answers s = pt_portTable2rxEng_check_rsp s
     @ merge_dst (cm_pending s) (lt_answers s) (ft_answers s)
     @ map (port_open s) (pt_rxEng2portTable_check_req s)"

definition check_wf :: "port_table_st \<Rightarrow> bool" where
  "check_wf s \<longleftrightarrow> matched (cm_pending s) (lt_answers s) (ft_answers s)
     \<and> pt_rxApp2portTable_listen_req s = [] \<and> pt_sLookup2portTable_releasePort s = []"

definition check_backlog :: "port_table_st \<Rightarrow> nat" where
  "check_backlog s = 4 * length (pt_rxEng2portTable_check_req s)
     + length (pt_portCheckListening_req_fifo s) + length (pt_portCheckUsed_req_fifo s)
     + 2 * length (pt_dstFifo s) + of_bool (cm_fsmState s \<noteq> READ_DST)"

lemmas check_defs = check_answers_def check_wf_def cm_pending_def lt_answers_def ft_answers_def
  port_open_def

lemma check_listening:
  "check_wf s \<Longrightarrow> check_wf (listening_port_table s) \<and> check_answers (listening_port_table s) = check_answers s"
  by (cases "pt_portCheckListening_req_fifo s") (auto simp: listening_port_table_def check_defs matched_def)

lemma check_free:
  "check_wf s \<Longrightarrow> check_wf (free_port_table True s) \<and> check_answers (free_port_table True s) = check_answers s"
  by (cases "pt_portCheckUsed_req_fifo s") (auto simp: free_port_table_def check_defs matched_def)

lemma check_in:
  assumes "check_wf s"
  shows "check_wf (check_in_multiplexer s) \<and> check_answers (check_in_multiplexer s) = check_answers s"
proof (cases "pt_rxEng2portTable_check_req s")
  case Nil
  then show ?thesis using assms by (simp add: check_in_multiplexer_def)
next
  case (Cons p q)
  have m: "matched (cm_pending s) (lt_answers s) (ft_answers s)" using assms by (simp add: check_wf_def)
  have snoc: "merge_dst (cm_pending s @ [True]) (lt_answers s @ [x]) (ft_answers s)
        = merge_dst (cm_pending s) (lt_answers s) (ft_answers s) @ [x]"
      "merge_dst (cm_pending s @ [False]) (lt_answers s) (ft_answers s @ [x])
        = merge_dst (cm_pending s) (lt_answers s) (ft_answers s) @ [x]" for x
    using merge_dst_snoc [OF m] by simp_all
  show ?thesis
    using Cons assms snoc
    by (auto simp: check_in_multiplexer_def Let_def check_defs matched_def)
qed

lemma check_out:
  assumes "check_wf s"
  shows "check_wf (check_out_multiplexer s) \<and> check_answers (check_out_multiplexer s) = check_answers s"
  using assms
  by (cases "cm_fsmState s"; cases "pt_dstFifo s"; cases "pt_portCheckListening_rsp_fifo s";
      cases "pt_portCheckUsed_rsp_fifo s")
     (auto simp: check_out_multiplexer_def check_defs matched_def)

lemma check_step:
  "check_wf s \<Longrightarrow> check_wf (port_table True s) \<and> check_answers (port_table True s) = check_answers s"
  using check_listening [of s] check_free [of "listening_port_table s"]
    check_in [of "free_port_table True (listening_port_table s)"]
    check_out [of "check_in_multiplexer (free_port_table True (listening_port_table s))"]
  by (simp add: port_table_def)

lemma check_run:
  "check_wf s \<Longrightarrow> check_wf ((port_table True ^^ n) s)
    \<and> check_answers ((port_table True ^^ n) s) = check_answers s"
  by (induction n) (simp_all add: check_step)

text \<open>Every function works off part of the backlog, or has nothing to do.\<close>

lemma backlog_listening:
  "check_wf s \<Longrightarrow> check_backlog (listening_port_table s) =
     check_backlog s - of_bool (pt_portCheckListening_req_fifo s \<noteq> [])"
  by (cases "pt_portCheckListening_req_fifo s") (auto simp: listening_port_table_def check_wf_def check_backlog_def)

lemma backlog_free:
  "check_wf s \<Longrightarrow> check_backlog (free_port_table True s) =
     check_backlog s - of_bool (pt_portCheckUsed_req_fifo s \<noteq> [])"
  by (cases "pt_portCheckUsed_req_fifo s") (auto simp: free_port_table_def check_wf_def check_backlog_def)

lemma backlog_in:
  "check_backlog (check_in_multiplexer s) = check_backlog s - of_bool (pt_rxEng2portTable_check_req s \<noteq> [])"
  by (cases "pt_rxEng2portTable_check_req s") (auto simp: check_in_multiplexer_def Let_def check_backlog_def)

lemma backlog_out: "check_backlog (check_out_multiplexer s) \<le> check_backlog s"
  by (auto simp: check_out_multiplexer_def check_backlog_def split: list.split cmFsmStateType.split)

lemma backlog_out_less:
  assumes "check_wf s" "pt_portCheckListening_req_fifo s = []" "pt_portCheckUsed_req_fifo s = []"
    "cm_pending s \<noteq> []"
  shows "check_backlog (check_out_multiplexer s) < check_backlog s"
  using assms
  by (cases "cm_fsmState s"; cases "pt_dstFifo s"; cases "pt_portCheckListening_rsp_fifo s";
      cases "pt_portCheckUsed_rsp_fifo s")
     (auto simp: check_out_multiplexer_def check_backlog_def check_defs matched_def)

lemma check_progress: "check_wf s \<Longrightarrow> check_backlog (port_table True s) \<le> check_backlog s - 1"
proof -
  assume wf: "check_wf s"
  let ?a = "listening_port_table s" let ?b = "free_port_table True ?a" let ?c = "check_in_multiplexer ?b"
  have wfs: "check_wf ?a" "check_wf ?b" "check_wf ?c"
    using wf check_listening check_free check_in by blast+
  have le: "check_backlog ?b \<le> check_backlog ?a" "check_backlog ?c \<le> check_backlog ?b"
      "check_backlog ?a \<le> check_backlog s"
    by (simp_all add: backlog_free [OF wfs(1)] backlog_in backlog_listening [OF wf])
  show ?thesis
  proof (cases "pt_portCheckListening_req_fifo s = [] \<and> pt_portCheckUsed_req_fifo s = []
      \<and> pt_rxEng2portTable_check_req s = []")
    case True
    then have eq: "?a = s" using wf by (simp add: listening_port_table_def check_wf_def)
    have b: "?b = s\<lparr> pt_cursor := pt_cursor s + 1 \<rparr>"
      using True wf unfolding eq by (simp add: free_port_table_def check_wf_def)
    then have c: "?c = s\<lparr> pt_cursor := pt_cursor s + 1 \<rparr>" using True by (simp add: check_in_multiplexer_def)
    show ?thesis
    proof (cases "cm_pending s = []")
      case True
      with c \<open>_ \<and> _ \<and> _\<close> show ?thesis
        by (auto simp: port_table_def check_out_multiplexer_def check_backlog_def cm_pending_def
            split: cmFsmStateType.splits)
    next
      case False
      then have "check_backlog (check_out_multiplexer ?c) < check_backlog ?c"
        using wfs(3) True unfolding c by (intro backlog_out_less) (simp_all add: cm_pending_def)
      with le show ?thesis by (simp add: port_table_def)
    qed
  next
    case False
    then have "check_backlog ?c \<le> check_backlog s - 1"
      using backlog_listening [OF wf] backlog_free [OF wfs(1)] backlog_in [of ?b] le
      by (auto split: if_splits)
    with backlog_out [of ?c] show ?thesis by (simp add: port_table_def)
  qed
qed

interpretation port_checks: progress_server "port_table True" check_wf check_backlog
  by unfold_locales (use check_step check_progress in auto)

text \<open>Nothing is on its way between the four functions.\<close>

definition check_quiet :: "port_table_st \<Rightarrow> bool" where
  "check_quiet s \<longleftrightarrow> cm_fsmState s = READ_DST \<and> pt_dstFifo s = []
     \<and> pt_portCheckListening_req_fifo s = [] \<and> pt_portCheckUsed_req_fifo s = []
     \<and> pt_portCheckListening_rsp_fifo s = [] \<and> pt_portCheckUsed_rsp_fifo s = []"

lemma check_backlog_0:
  "check_backlog s = 0 \<Longrightarrow> check_answers s = pt_portTable2rxEng_check_rsp s"
  by (auto simp: check_backlog_def check_answers_def cm_pending_def)

text \<open>
  Port checks are answered completely and in order.  The checks of the RX engine take two ways
  through the table, by port number; still, while no table entry changes (no listen request and no
  returned port, and the cache of free ports full), four invocations per check are enough for the RX
  engine to get exactly one answer per check, in the order of the checks, each being the entry of the
  byte-swapped port in the table that is in charge of it.
\<close>

theorem port_checks_in_order:
  assumes "check_quiet s" and "pt_rxEng2portTable_check_req s = ps"
    and "pt_rxApp2portTable_listen_req s = []" and "pt_sLookup2portTable_releasePort s = []"
    and "4 * length ps \<le> n"
  shows "pt_portTable2rxEng_check_rsp ((port_table True ^^ n) s)
      = pt_portTable2rxEng_check_rsp s @ map (port_open s) ps
    \<and> check_quiet ((port_table True ^^ n) s)"
proof -
  let ?t = "(port_table True ^^ n) s"
  have wf: "check_wf s" using assms by (simp add: check_quiet_def check_defs matched_def)
  have "check_backlog s \<le> n" using assms by (simp add: check_quiet_def check_backlog_def)
  then have b0: "check_backlog ?t = 0" by (rule port_checks.worked_off [OF wf])
  have "check_answers ?t = pt_portTable2rxEng_check_rsp s @ map (port_open s) ps"
    using check_run [OF wf, of n] assms by (simp add: check_answers_def check_quiet_def cm_pending_def)
  moreover have "check_quiet ?t"
    using b0 check_run [OF wf, of n]
    by (auto simp: check_backlog_def check_quiet_def check_wf_def matched_def cm_pending_def
        lt_answers_def ft_answers_def split: cmFsmStateType.splits)
  ultimately show ?thesis using check_backlog_0 [OF b0] by simp
qed

lemma listen_rsp_frame [simp]:
  "pt_portTable2rxApp_listen_rsp (check_in_multiplexer s) = pt_portTable2rxApp_listen_rsp s"
  "pt_portTable2rxApp_listen_rsp (check_out_multiplexer s) = pt_portTable2rxApp_listen_rsp s"
  by (auto simp: check_in_multiplexer_def check_out_multiplexer_def Let_def
      split: list.split cmFsmStateType.split)

lemma ucast_u15_inj: "p < 32768 \<Longrightarrow> q < 32768 \<Longrightarrow> (ucast (p :: u16) :: u15) = ucast q \<longleftrightarrow> p = q"
proof
  assume "p < 32768" "q < 32768" "(ucast p :: u15) = ucast q"
  then have "unat (ucast p :: u15) = unat (ucast q :: u15)" by simp
  then have "unat p mod 2 ^ 15 = unat q mod 2 ^ 15"
    by (simp add: unsigned_ucast_eq unsigned_take_bit_eq take_bit_eq_mod)
  with \<open>p < 32768\<close> \<open>q < 32768\<close> show "p = q" by (simp add: word_less_nat_alt word_unat_eq_iff)
qed simp

lemma range_get_low15: "(range_get p 14 0 :: u15) = ucast (p :: u16)"
  by (rule bit_word_eqI) (auto simp: range_bits bit_simps)

text \<open>
  Opening a port for listening.  The request for a port below 32768 is answered with true and
  from then on the RX engine's check of this port, which carries it in network byte order, finds it
  open; a port from 32768 on is answered with false; and the answer for every other listening port
  stays what it was.
\<close>

theorem listen_opens_port:
  assumes "pt_rxApp2portTable_listen_req s = p # q"
  shows "pt_portTable2rxApp_listen_rsp (port_table full s) = pt_portTable2rxApp_listen_rsp s @ [p < 32768]
    \<and> (p < 32768 \<longrightarrow> port_open (port_table full s) (swapPort p))
    \<and> (\<forall>r. swapPort r < 32768 \<and> r \<noteq> swapPort p \<longrightarrow> port_open (port_table full s) r = port_open s r)"
proof -
  have "listeningPortTable (port_table full s) i = (listeningPortTable s i \<or> p < 32768 \<and> i = ucast p)" for i
    using assms by (auto simp: port_table_def listening_port_table_def Let_def range_get_low15)
  moreover have "pt_portTable2rxApp_listen_rsp (port_table full s)
      = pt_portTable2rxApp_listen_rsp s @ [p < 32768]"
    using assms by (auto simp: port_table_def listening_port_table_def Let_def)
  moreover have "swapPort r = p \<Longrightarrow> r = swapPort p" for r by auto
  ultimately show ?thesis by (auto simp: port_open_def ucast_u15_inj)
qed

section \<open>Concrete runs\<close>

definition port_example :: port_table_st where
  "port_example = port_table_init\<lparr> pt_rxApp2portTable_listen_req := [80],
     pt_sLookup2portTable_releasePort := [], freePortTable := (\<lambda>c. c < 2) \<rparr>"


theorem free_port_found_witness:
  "\<exists>n \<le> 32768. \<exists>p. pt_portTable2txApp_port_rsp ((port_table False ^^ n) port_example) = [p]"
  using free_port_found [of port_example 2] by (simp add: port_example_def port_table_init_def)

theorem port_checks_in_order_witness:
  "pt_portTable2rxEng_check_rsp ((port_table True ^^ 12)
     (port_table_init\<lparr> listeningPortTable := (\<lambda>i. i = 80), freePortTable := (\<lambda>c. c < 2),
        pt_rxEng2portTable_check_req := [0x5000, 0x0180, 0x5100] \<rparr>)) = [True, True, False]"
  using port_checks_in_order [of "port_table_init\<lparr> listeningPortTable := (\<lambda>i. i = 80),
      freePortTable := (\<lambda>c. c < 2), pt_rxEng2portTable_check_req := [0x5000, 0x0180, 0x5100] \<rparr>"
      "[0x5000, 0x0180, 0x5100]" 12]
  by (simp add: port_table_init_def check_quiet_def port_open_def swapPort_def range_set_def range_get_def
      mask_eq_exp_minus_1)

theorem listen_opens_port_witness:
  "port_open (port_table True port_example) 0x5000
   \<and> pt_portTable2rxApp_listen_rsp (port_table True port_example) = [True]"
  using listen_opens_port [of port_example 80 "[]" True]
  by (simp add: port_example_def port_table_init_def swapPort_def range_set_def range_get_def
      mask_eq_exp_minus_1)

end
