(* ===== verification/Sweep_Timer.thy ===== *)
theory Sweep_Timer
  imports Prelude "HOL-Library.Multiset"
begin

text \<open>
  Timers that keep one entry per session and a cursor that sweeps over the table, one session per
  invocation: the contract of the retransmit, probe and close timers and of the delayed
  acknowledgements, with the lemma that says at which invocation an entry fires.
\<close>

section \<open>Sweeping timers\<close>

text \<open>\<open>due s i = Some t\<close>: the timer of session \<open>i\<close> is active with \<open>t\<close> sweeps to go.  \<open>fires s i\<close>
  is what the timer has sent for session \<open>i\<close>, \<open>msg s i\<close> what it sends when it fires.  \<open>idle s\<close>: no
  request waits, so the cursor moves.\<close>

locale sweep_timer =
  fixes step :: "'s \<Rightarrow> 's"
    and idle :: "'s \<Rightarrow> bool"
    and cursor :: "'s \<Rightarrow> nat"
    and N :: nat
    and due :: "'s \<Rightarrow> nat \<Rightarrow> nat option"
    and fires :: "'s \<Rightarrow> nat \<Rightarrow> 'o multiset"
    and msg :: "'s \<Rightarrow> nat \<Rightarrow> 'o multiset"
  assumes idle_step: "idle s \<Longrightarrow> idle (step s)"
    and cursor_less: "idle s \<Longrightarrow> cursor s < N"
    and cursor_step: "idle s \<Longrightarrow> cursor (step s) = (if Suc (cursor s) = N then 0 else Suc (cursor s))"
    and due_step: "idle s \<Longrightarrow> i < N \<Longrightarrow> due (step s) i =
      (if i = cursor s then (case due s i of Some (Suc t) \<Rightarrow> Some t | _ \<Rightarrow> None) else due s i)"
    and fires_step: "idle s \<Longrightarrow> i < N \<Longrightarrow> fires (step s) i =
      fires s i + (if i = cursor s \<and> due s i = Some 0 then msg s i else {#})"
    and msg_step: "idle s \<Longrightarrow> i < N \<Longrightarrow> \<not> (i = cursor s \<and> due s i = Some 0) \<Longrightarrow>
      msg (step s) i = msg s i"
begin

lemma idle_run: "idle s \<Longrightarrow> idle ((step ^^ n) s)"
  by (induction n) (simp_all add: idle_step)

text \<open>The number of invocations until the cursor is at \<open>i\<close>.\<close>

definition ahead :: "'s \<Rightarrow> nat \<Rightarrow> nat" where
  "ahead s i = (if cursor s \<le> i then i - cursor s else i + N - cursor s)"

lemma ahead_less: "idle s \<Longrightarrow> i < N \<Longrightarrow> ahead s i < N"
  using cursor_less [of s] by (auto simp: ahead_def)

lemma ahead_step:
  "idle s \<Longrightarrow> i < N \<Longrightarrow> ahead (step s) i = (if ahead s i = 0 then N - 1 else ahead s i - 1)"
  using cursor_less [of s] by (auto simp: ahead_def cursor_step)

lemma ahead_0: "idle s \<Longrightarrow> i < N \<Longrightarrow> ahead s i = 0 \<longleftrightarrow> i = cursor s"
  using cursor_less [of s] by (auto simp: ahead_def)

lemma silent_run:
  "idle s \<Longrightarrow> i < N \<Longrightarrow> due s i = None \<Longrightarrow>
   due ((step ^^ n) s) i = None \<and> fires ((step ^^ n) s) i = fires s i"
  by (induction n) (auto simp: due_step fires_step idle_run)

lemma countdown_step:
  assumes "idle s" "i < N" "due s i = Some t" "Suc m = ahead s i + t * N"
  shows "\<exists>t'. due (step s) i = Some t' \<and> m = ahead (step s) i + t' * N"
    and "\<not> (i = cursor s \<and> due s i = Some 0)"
proof -
  show "\<not> (i = cursor s \<and> due s i = Some 0)" using assms ahead_0 by fastforce
  show "\<exists>t'. due (step s) i = Some t' \<and> m = ahead (step s) i + t' * N"
  proof (cases "i = cursor s")
    case True
    with assms have a0: "ahead s i = 0" by (simp add: ahead_0)
    with assms obtain u where u: "t = Suc u" by (cases t) auto
    then have "due (step s) i = Some u" using True assms by (simp add: due_step)
    moreover have "m = ahead (step s) i + u * N"
      using assms a0 u cursor_less [OF assms(1)] by (simp add: ahead_step)
    ultimately show ?thesis by blast
  next
    case False
    with assms have "ahead s i \<noteq> 0" by (simp add: ahead_0)
    with False assms show ?thesis by (simp add: ahead_step due_step)
  qed
qed

lemma fire_at:
  assumes "idle s" "i < N" "due s i = Some t" "m = ahead s i + t * N"
  shows "fires ((step ^^ n) s) i = fires s i + (if m < n then msg s i else {#})"
  using assms
proof (induction m arbitrary: s t n)
  case 0
  then have t0: "t = 0" and c: "i = cursor s" using ahead_0 by auto
  show ?case
  proof (cases n)
    case (Suc k)
    have "due (step s) i = None" "fires (step s) i = fires s i + msg s i"
      using 0 t0 c by (auto simp: due_step fires_step)
    with silent_run [OF idle_step, of s i k] 0 Suc show ?thesis by (simp add: funpow_swap1)
  qed simp
next
  case (Suc m)
  show ?case
  proof (cases n)
    case (Suc k)
    obtain t' where t': "due (step s) i = Some t'" "m = ahead (step s) i + t' * N"
      using countdown_step(1) [OF Suc.prems] by blast
    have "fires (step s) i = fires s i" "msg (step s) i = msg s i"
      using countdown_step(2) [OF Suc.prems] Suc.prems by (auto simp: fires_step msg_step)
    with Suc.IH [OF idle_step [OF Suc.prems(1)] Suc.prems(2) t', of k] Suc
    show ?thesis by (simp add: funpow_swap1)
  qed simp
qed

end

text \<open>A cursor that wraps at \<open>MAX_SESSIONS\<close>, as a number.\<close>

lemma unat_incr: "c < (m :: u16) \<Longrightarrow> unat (c + 1) = Suc (unat c)"
  using unsigned_less [of m, where 'a = nat] by (simp add: word_less_nat_alt unat_word_ariths)

lemma cursor_wrap:
  "c < (m :: u16) \<Longrightarrow> unat (if c + 1 = m then 0 else c + 1) = (if Suc (unat c) = unat m then 0 else Suc (unat c))"
  using unat_incr [of c m] by (auto simp: word_unat_eq_iff)

lemma cursor_wrap_ge:
  "c < (m :: u16) \<Longrightarrow> unat (if m \<le> c + 1 then 0 else c + 1) = (if Suc (unat c) = unat m then 0 else Suc (unat c))"
  using unat_incr [of c m] by (auto simp: word_le_nat_alt word_less_nat_alt)

lemma wrap_less: "c < (m :: u16) \<Longrightarrow> (if c + 1 = m then 0 else c + 1) < m"
  using unat_incr [of c m] by (auto simp: word_less_nat_alt word_unat_eq_iff)

lemma of_nat_u16_eq: "i < 2 ^ 16 \<Longrightarrow> (of_nat i :: u16) = c \<longleftrightarrow> i = unat c"
  by (auto simp: word_unat_eq_iff unat_of_nat)

lemma sweep_table_bound: "i < unat (m :: u16) \<Longrightarrow> i < 65536"
  using unsigned_less [of m, where 'a = nat] by simp

lemma due_countdown:
  "t \<noteq> (0 :: u32) \<Longrightarrow> (case unat t of 0 \<Rightarrow> None | Suc n \<Rightarrow> Some n) = Some (unat (t - 1))"
  by (cases "unat t") (simp_all add: unat_minus_one unat_eq_0)

lemma count_list_filter: "count_list xs x = length (filter (\<lambda>y. y = x) xs)"
  by (induction xs) auto

text \<open>Firing after a set-up of \<open>k\<close> invocations.\<close>

lemma fires_after_setup:
  assumes "\<And>n. n \<le> k \<Longrightarrow> f ((step ^^ n) s) = (f s :: 'o multiset)"
    and "\<And>n. f ((step ^^ n) ((step ^^ k) s)) = f ((step ^^ k) s) + (if m < n then x else {#})"
  shows "f ((step ^^ n) s) = f s + (if k + m < n then x else {#})"
proof (cases "n \<le> k")
  case False
  then obtain d where d: "n = d + k" using le_Suc_ex by (metis add.commute nat_le_linear)
  then show ?thesis using assms(1) [of k] assms(2) [of d] by (simp add: funpow_add add.commute)
qed (use assms(1) in auto)

end
