(* ===== verification/Timers.thy ===== *)
theory Timers
  imports Toe_Types Sweep_Timer
begin

text \<open>
  The three timers (\<^verbatim>\<open>retransmit_timer\<close>, \<^verbatim>\<open>probe_timer\<close>, \<^verbatim>\<open>close_timer\<close>) and their composition
  \<^verbatim>\<open>timerWrapper\<close> of \<^verbatim>\<open>toe.cpp\<close>.

  Each timer keeps one entry per session and a cursor that sweeps over the table, one session per
  invocation; an active entry counts its sweeps down and fires at zero.  Every timer interprets the
  locale \<open>sweep_timer\<close>, which derives when an entry fires.  The lemmas
  show the exact invocation at which a timer fires, that it fires once, that clearing it stops it,
  and that a session is retransmitted at most four times before it is given up.
\<close>

section \<open>Close timer\<close>

record close_timer_entry =
  cte_time :: u32
  cte_active :: bool

record close_timer_st =
  closeTimerTable :: "u16 \<Rightarrow> close_timer_entry"
  ct_currSessionID :: u16
  ct_setSessionID :: u16
  ct_prevSessionID :: u16
  ct_waitForWrite :: bool
  ct_rxEng2timer_setCloseTimer :: "u16 list"
  ct_closeTimer2stateTable_releaseState :: "u16 list"

definition close_timer :: "toe_config \<Rightarrow> close_timer_st \<Rightarrow> close_timer_st" where
  "close_timer cfg s =
     (if ct_waitForWrite s then
        (let s1 = (if ct_setSessionID s \<noteq> ct_prevSessionID s
                   then s\<lparr> closeTimerTable := (closeTimerTable s)(ct_setSessionID s :=
                             \<lparr> cte_time = TIME_60s cfg, cte_active = True \<rparr>),
                           ct_waitForWrite := False \<rparr>
                   else s)
         in s1\<lparr> ct_prevSessionID := ct_prevSessionID s - 1 \<rparr>)
      else case ct_rxEng2timer_setCloseTimer s of
        i # q \<Rightarrow> s\<lparr> ct_rxEng2timer_setCloseTimer := q, ct_setSessionID := i, ct_waitForWrite := True \<rparr>
      | [] \<Rightarrow>
          (let i = ct_currSessionID s; e = closeTimerTable s i;
               s1 = s\<lparr> ct_prevSessionID := i \<rparr>;
               s2 = (if cte_active e then
                       (if cte_time e > 0
                        then s1\<lparr> closeTimerTable := (closeTimerTable s)(i := e\<lparr> cte_time := cte_time e - 1 \<rparr>) \<rparr>
                        else s1\<lparr> closeTimerTable := (closeTimerTable s)(i := \<lparr> cte_time = 0, cte_active = False \<rparr>),
                                 ct_closeTimer2stateTable_releaseState :=
                                   ct_closeTimer2stateTable_releaseState s @ [i] \<rparr>)
                     else s1)
           in s2\<lparr> ct_currSessionID := (if i + 1 = MAX_SESSIONS cfg then 0 else i + 1) \<rparr>))"

definition ct_idle :: "toe_config \<Rightarrow> close_timer_st \<Rightarrow> bool" where
  "ct_idle cfg s \<longleftrightarrow> \<not> ct_waitForWrite s \<and> ct_rxEng2timer_setCloseTimer s = []
     \<and> ct_currSessionID s < MAX_SESSIONS cfg"

definition ct_due :: "close_timer_st \<Rightarrow> nat \<Rightarrow> nat option" where
  "ct_due s i = (let e = closeTimerTable s (of_nat i)
     in if cte_active e then Some (unat (cte_time e)) else None)"

definition ct_fires :: "close_timer_st \<Rightarrow> nat \<Rightarrow> u16 multiset" where
  "ct_fires s i = mset (filter (\<lambda>j. j = of_nat i) (ct_closeTimer2stateTable_releaseState s))"

definition ct_msg :: "close_timer_st \<Rightarrow> nat \<Rightarrow> u16 multiset" where
  "ct_msg s i = {# of_nat i #}"

interpretation ct: sweep_timer "close_timer cfg" "ct_idle cfg" "\<lambda>s. unat (ct_currSessionID s)"
    "unat (MAX_SESSIONS cfg)" ct_due ct_fires ct_msg for cfg
proof unfold_locales
  fix s i
  assume idle: "ct_idle cfg s"
  then show "ct_idle cfg (close_timer cfg s)"
    by (auto simp: ct_idle_def close_timer_def Let_def wrap_less simp del: if_split)
  from idle show "unat (ct_currSessionID s) < unat (MAX_SESSIONS cfg)"
    by (simp add: ct_idle_def word_less_nat_alt)
  from idle show "unat (ct_currSessionID (close_timer cfg s)) =
      (if Suc (unat (ct_currSessionID s)) = unat (MAX_SESSIONS cfg) then 0 else Suc (unat (ct_currSessionID s)))"
    using cursor_wrap [of "ct_currSessionID s" "MAX_SESSIONS cfg"]
    by (simp add: ct_idle_def close_timer_def Let_def)
  assume i: "i < unat (MAX_SESSIONS cfg)"
  then have iff: "(of_nat i :: u16) = ct_currSessionID s \<longleftrightarrow> i = unat (ct_currSessionID s)"
    by (intro of_nat_u16_eq) (auto dest: sweep_table_bound)
  show "ct_due (close_timer cfg s) i = (if i = unat (ct_currSessionID s)
      then (case ct_due s i of None \<Rightarrow> None | Some 0 \<Rightarrow> None | Some (Suc t) \<Rightarrow> Some t) else ct_due s i)"
    using idle iff due_countdown [of "cte_time (closeTimerTable s (ct_currSessionID s))"]
    by (auto simp: ct_idle_def close_timer_def ct_due_def Let_def word_gt_0)
  show "ct_fires (close_timer cfg s) i = ct_fires s i +
      (if i = unat (ct_currSessionID s) \<and> ct_due s i = Some 0 then ct_msg s i else {#})"
    using idle iff
    by (auto simp: ct_idle_def close_timer_def ct_due_def ct_fires_def ct_msg_def Let_def word_gt_0 unat_eq_0)
qed (simp add: ct_msg_def)

text \<open>A set request is in the table after two or three invocations, in which nothing fires.\<close>

lemma close_timer_set:
  assumes "\<not> ct_waitForWrite s" "ct_rxEng2timer_setCloseTimer s = [i]"
    "ct_currSessionID s < MAX_SESSIONS cfg"
  obtains k where "k \<le> 3" "ct_idle cfg ((close_timer cfg ^^ k) s)"
    "closeTimerTable ((close_timer cfg ^^ k) s) i = \<lparr> cte_time = TIME_60s cfg, cte_active = True \<rparr>"
    "\<And>n. n \<le> k \<Longrightarrow> ct_closeTimer2stateTable_releaseState ((close_timer cfg ^^ n) s)
      = ct_closeTimer2stateTable_releaseState s"
proof (cases "i = ct_prevSessionID s")
  case False
  show ?thesis
  proof (rule that [of 2])
    show "ct_closeTimer2stateTable_releaseState ((close_timer cfg ^^ n) s)
      = ct_closeTimer2stateTable_releaseState s" if "n \<le> 2" for n
    proof -
      have "n = 0 \<or> n = 1 \<or> n = 2" using that by linarith
      then show ?thesis using assms False by (auto simp: numeral_2_eq_2 close_timer_def Let_def)
    qed
  qed (use assms False in \<open>simp_all add: numeral_2_eq_2 close_timer_def Let_def ct_idle_def\<close>)
next
  case True
  show ?thesis
  proof (rule that [of 3])
    show "ct_closeTimer2stateTable_releaseState ((close_timer cfg ^^ n) s)
      = ct_closeTimer2stateTable_releaseState s" if "n \<le> 3" for n
    proof -
      have "n = 0 \<or> n = 1 \<or> n = 2 \<or> n = 3" using that by linarith
      then show ?thesis
        using assms True by (auto simp: numeral_2_eq_2 numeral_3_eq_3 close_timer_def Let_def)
    qed
  qed (use assms True in \<open>simp_all add: numeral_3_eq_3 close_timer_def Let_def ct_idle_def\<close>)
qed

text \<open>
  A session in TIME-WAIT is released once, and not early.  After the RX engine has handed session
  \<open>i\<close> to the close timer and while nothing else arrives, there is exactly one invocation at which the
  timer releases the session; it lies at least 60 seconds' worth of sweeps over the table and at most
  one sweep and three invocations more in the future, whatever the timer's cursor and write-hazard
  registers are.
\<close>

theorem close_timer_releases_once:
  assumes "\<not> ct_waitForWrite s" and "ct_rxEng2timer_setCloseTimer s = [i]"
    and "ct_currSessionID s < MAX_SESSIONS cfg" and "i < MAX_SESSIONS cfg"
    and "T = unat (TIME_60s cfg) * unat (MAX_SESSIONS cfg)"
  shows "\<exists>m. T \<le> m \<and> m < T + unat (MAX_SESSIONS cfg) + 3
    \<and> (\<forall>n. count_list (ct_closeTimer2stateTable_releaseState ((close_timer cfg ^^ n) s)) i
          = count_list (ct_closeTimer2stateTable_releaseState s) i + of_bool (m < n))"
proof -
  let ?N = "unat (MAX_SESSIONS cfg)"
  obtain k where k: "k \<le> 3" "ct_idle cfg ((close_timer cfg ^^ k) s)"
    "closeTimerTable ((close_timer cfg ^^ k) s) i = \<lparr> cte_time = TIME_60s cfg, cte_active = True \<rparr>"
    "\<And>n. n \<le> k \<Longrightarrow> ct_closeTimer2stateTable_releaseState ((close_timer cfg ^^ n) s)
      = ct_closeTimer2stateTable_releaseState s"
    using close_timer_set [OF assms(1-3)] by blast
  let ?t = "(close_timer cfg ^^ k) s"
  have iN: "unat i < ?N" using assms(4) by (simp add: word_less_nat_alt)
  have "ct_due ?t (unat i) = Some (unat (TIME_60s cfg))" using k(3) by (simp add: ct_due_def)
  note at = ct.fire_at [OF k(2) iN this refl]
  define m where "m = ct.ahead cfg ?t (unat i) + T"
  have "ct_fires ((close_timer cfg ^^ n) s) (unat i) =
      ct_fires s (unat i) + (if k + m < n then ct_msg ?t (unat i) else {#})" for n
    by (rule fires_after_setup [where f = "\<lambda>s. ct_fires s (unat i)"])
       (simp add: ct_fires_def k(4), simp only: at m_def assms(5))
  then have "size (ct_fires ((close_timer cfg ^^ n) s) (unat i)) = size (ct_fires s (unat i)) + of_bool (k + m < n)"
    for n by (simp add: ct_msg_def)
  then have "count_list (ct_closeTimer2stateTable_releaseState ((close_timer cfg ^^ n) s)) i
      = count_list (ct_closeTimer2stateTable_releaseState s) i + of_bool (k + m < n)" for n
    by (simp add: count_list_filter ct_fires_def del: mset_filter)
  then show ?thesis
    using ct.ahead_less [OF k(2) iN] k(1)
    by (intro exI [of _ "k + m"]) (simp add: m_def)
qed

definition close_timer_init :: close_timer_st where
  "close_timer_init = \<lparr> closeTimerTable = (\<lambda>_. \<lparr> cte_time = 0, cte_active = False \<rparr>),
     ct_currSessionID = 0, ct_setSessionID = 0, ct_prevSessionID = 0, ct_waitForWrite = False,
     ct_rxEng2timer_setCloseTimer = [], ct_closeTimer2stateTable_releaseState = [] \<rparr>"

theorem close_timer_releases_once_witness:
  "\<exists>m \<ge> 9375001000. \<forall>n. count_list (ct_closeTimer2stateTable_releaseState
      ((close_timer default_config ^^ n) (close_timer_init\<lparr> ct_rxEng2timer_setCloseTimer := [7] \<rparr>))) 7
    = of_bool (m < n)"
proof -
  have "\<exists>m. 9375001000 \<le> m \<and> m < 9375001000 + unat (MAX_SESSIONS default_config) + 3 \<and>
    (\<forall>n. count_list (ct_closeTimer2stateTable_releaseState
      ((close_timer default_config ^^ n) (close_timer_init\<lparr> ct_rxEng2timer_setCloseTimer := [7] \<rparr>))) 7
     = count_list (ct_closeTimer2stateTable_releaseState
        (close_timer_init\<lparr> ct_rxEng2timer_setCloseTimer := [7] \<rparr>)) 7 + of_bool (m < n))"
    by (rule close_timer_releases_once)
       (simp_all add: close_timer_init_def default_config_def time_defs)
  then show ?thesis by (auto simp: close_timer_init_def)
qed

section \<open>Probe timer\<close>

record probe_timer_entry =
  pte_time :: u32
  pte_active :: bool

record probe_timer_st =
  probeTimerTable :: "u16 \<Rightarrow> probe_timer_entry"
  pt_currSessionID :: u16
  pt_updSessionID :: u16
  pt_prevSessionID :: u16
  pt_WaitForWrite :: bool
  pr_rxEng2timer_clearProbeTimer :: "u16 list"
  pr_txEng2timer_setProbeTimer :: "u16 list"
  pr_probeTimer2eventEng_setEvent :: "event list"

definition probe_timer :: "toe_config \<Rightarrow> bool \<Rightarrow> probe_timer_st \<Rightarrow> probe_timer_st" where
  "probe_timer cfg full s =
     (if pt_WaitForWrite s then
        (let s1 = (if pt_updSessionID s \<noteq> pt_prevSessionID s
                   then s\<lparr> probeTimerTable := (probeTimerTable s)(pt_updSessionID s :=
                             \<lparr> pte_time = TIME_50ms cfg, pte_active = True \<rparr>),
                           pt_WaitForWrite := False \<rparr>
                   else s)
         in s1\<lparr> pt_prevSessionID := pt_prevSessionID s - 1 \<rparr>)
      else case pr_txEng2timer_setProbeTimer s of
        i # q \<Rightarrow> s\<lparr> pr_txEng2timer_setProbeTimer := q, pt_updSessionID := i, pt_WaitForWrite := True \<rparr>
      | [] \<Rightarrow>
          (let (checkID, fastResume, s1) =
             (case pr_rxEng2timer_clearProbeTimer s of
                i # q \<Rightarrow> (i, True, s\<lparr> pr_rxEng2timer_clearProbeTimer := q \<rparr>)
              | [] \<Rightarrow> (pt_currSessionID s, False,
                  s\<lparr> pt_currSessionID := (if pt_currSessionID s + 1 = MAX_SESSIONS cfg then 0
                                           else pt_currSessionID s + 1) \<rparr>));
               e = probeTimerTable s checkID;
               s2 = (if pte_active e \<and> \<not> full then
                       (if pte_time e = 0 \<or> fastResume
                        then s1\<lparr> probeTimerTable := (probeTimerTable s)(checkID :=
                                   \<lparr> pte_time = 0, pte_active = False \<rparr>),
                                 pr_probeTimer2eventEng_setEvent := pr_probeTimer2eventEng_setEvent s @
                                   [event_mk (if TCP_NODELAY cfg then RT else TX) checkID] \<rparr>
                        else s1\<lparr> probeTimerTable := (probeTimerTable s)(checkID :=
                                   e\<lparr> pte_time := pte_time e - 1 \<rparr>) \<rparr>)
                     else s1)
           in s2\<lparr> pt_prevSessionID := checkID \<rparr>))"

definition pr_idle :: "toe_config \<Rightarrow> probe_timer_st \<Rightarrow> bool" where
  "pr_idle cfg s \<longleftrightarrow> \<not> pt_WaitForWrite s \<and> pr_txEng2timer_setProbeTimer s = []
     \<and> pr_rxEng2timer_clearProbeTimer s = [] \<and> pt_currSessionID s < MAX_SESSIONS cfg"

definition pr_due :: "probe_timer_st \<Rightarrow> nat \<Rightarrow> nat option" where
  "pr_due s i = (let e = probeTimerTable s (of_nat i)
     in if pte_active e then Some (unat (pte_time e)) else None)"

definition pr_fires :: "probe_timer_st \<Rightarrow> nat \<Rightarrow> event multiset" where
  "pr_fires s i = mset (filter (\<lambda>e. ev_sessionID e = of_nat i) (pr_probeTimer2eventEng_setEvent s))"

definition pr_msg :: "toe_config \<Rightarrow> probe_timer_st \<Rightarrow> nat \<Rightarrow> event multiset" where
  "pr_msg cfg s i = {# event_mk (if TCP_NODELAY cfg then RT else TX) (of_nat i) #}"

interpretation pr: sweep_timer "probe_timer cfg False" "pr_idle cfg" "\<lambda>s. unat (pt_currSessionID s)"
    "unat (MAX_SESSIONS cfg)" pr_due pr_fires "pr_msg cfg" for cfg
proof unfold_locales
  fix s i
  assume idle: "pr_idle cfg s"
  then show "pr_idle cfg (probe_timer cfg False s)"
    by (auto simp: pr_idle_def probe_timer_def Let_def wrap_less simp del: if_split)
  from idle show "unat (pt_currSessionID s) < unat (MAX_SESSIONS cfg)"
    by (simp add: pr_idle_def word_less_nat_alt)
  from idle show "unat (pt_currSessionID (probe_timer cfg False s)) =
      (if Suc (unat (pt_currSessionID s)) = unat (MAX_SESSIONS cfg) then 0 else Suc (unat (pt_currSessionID s)))"
    using cursor_wrap [of "pt_currSessionID s" "MAX_SESSIONS cfg"]
    by (simp add: pr_idle_def probe_timer_def Let_def)
  assume i: "i < unat (MAX_SESSIONS cfg)"
  then have iff: "(of_nat i :: u16) = pt_currSessionID s \<longleftrightarrow> i = unat (pt_currSessionID s)"
    by (intro of_nat_u16_eq) (auto dest: sweep_table_bound)
  show "pr_due (probe_timer cfg False s) i = (if i = unat (pt_currSessionID s)
      then (case pr_due s i of None \<Rightarrow> None | Some 0 \<Rightarrow> None | Some (Suc t) \<Rightarrow> Some t) else pr_due s i)"
    using idle iff due_countdown [of "pte_time (probeTimerTable s (pt_currSessionID s))"]
    by (auto simp: pr_idle_def probe_timer_def pr_due_def Let_def)
  show "pr_fires (probe_timer cfg False s) i = pr_fires s i +
      (if i = unat (pt_currSessionID s) \<and> pr_due s i = Some 0 then pr_msg cfg s i else {#})"
    using idle iff
    by (auto simp: pr_idle_def probe_timer_def pr_due_def pr_fires_def pr_msg_def Let_def event_mk_def unat_eq_0)
qed (simp add: pr_msg_def)

lemma probe_timer_set:
  assumes "\<not> pt_WaitForWrite s" "pr_txEng2timer_setProbeTimer s = [i]"
    "pr_rxEng2timer_clearProbeTimer s = []" "pt_currSessionID s < MAX_SESSIONS cfg"
  obtains k where "k \<le> 3" "pr_idle cfg ((probe_timer cfg False ^^ k) s)"
    "probeTimerTable ((probe_timer cfg False ^^ k) s) i = \<lparr> pte_time = TIME_50ms cfg, pte_active = True \<rparr>"
    "\<And>n. n \<le> k \<Longrightarrow> pr_probeTimer2eventEng_setEvent ((probe_timer cfg False ^^ n) s)
      = pr_probeTimer2eventEng_setEvent s"
proof (cases "i = pt_prevSessionID s")
  case False
  show ?thesis
  proof (rule that [of 2])
    show "pr_probeTimer2eventEng_setEvent ((probe_timer cfg False ^^ n) s)
      = pr_probeTimer2eventEng_setEvent s" if "n \<le> 2" for n
    proof -
      have "n = 0 \<or> n = 1 \<or> n = 2" using that by linarith
      then show ?thesis using assms False by (auto simp: numeral_2_eq_2 probe_timer_def Let_def)
    qed
  qed (use assms False in \<open>simp_all add: numeral_2_eq_2 probe_timer_def Let_def pr_idle_def\<close>)
next
  case True
  show ?thesis
  proof (rule that [of 3])
    show "pr_probeTimer2eventEng_setEvent ((probe_timer cfg False ^^ n) s)
      = pr_probeTimer2eventEng_setEvent s" if "n \<le> 3" for n
    proof -
      have "n = 0 \<or> n = 1 \<or> n = 2 \<or> n = 3" using that by linarith
      then show ?thesis
        using assms True by (auto simp: numeral_2_eq_2 numeral_3_eq_3 probe_timer_def Let_def)
    qed
  qed (use assms True in \<open>simp_all add: numeral_3_eq_3 probe_timer_def Let_def pr_idle_def\<close>)
qed

text \<open>
  A set probe timer wakes the session up.  After the TX engine has set the probe timer of session
  \<open>i\<close> and while nothing else arrives, exactly one event for the session is sent, of type RT (TX without
  TCP\_NODELAY), between \<^verbatim>\<open>TIME_50ms\<close> sweeps over the table and one sweep and three invocations
  later.
\<close>

theorem probe_timer_fires_once:
  assumes "\<not> pt_WaitForWrite s" and "pr_txEng2timer_setProbeTimer s = [i]"
    and "pr_rxEng2timer_clearProbeTimer s = []"
    and "pt_currSessionID s < MAX_SESSIONS cfg" and "i < MAX_SESSIONS cfg"
    and "T = unat (TIME_50ms cfg) * unat (MAX_SESSIONS cfg)"
  shows "\<exists>m. T \<le> m \<and> m < T + unat (MAX_SESSIONS cfg) + 3
    \<and> (\<forall>n. mset (filter (\<lambda>e. ev_sessionID e = i)
              (pr_probeTimer2eventEng_setEvent ((probe_timer cfg False ^^ n) s)))
          = mset (filter (\<lambda>e. ev_sessionID e = i) (pr_probeTimer2eventEng_setEvent s))
            + (if m < n then {# event_mk (if TCP_NODELAY cfg then RT else TX) i #} else {#}))"
proof -
  let ?N = "unat (MAX_SESSIONS cfg)"
  obtain k where k: "k \<le> 3" "pr_idle cfg ((probe_timer cfg False ^^ k) s)"
    "probeTimerTable ((probe_timer cfg False ^^ k) s) i = \<lparr> pte_time = TIME_50ms cfg, pte_active = True \<rparr>"
    "\<And>n. n \<le> k \<Longrightarrow> pr_probeTimer2eventEng_setEvent ((probe_timer cfg False ^^ n) s)
      = pr_probeTimer2eventEng_setEvent s"
    using probe_timer_set [OF assms(1-4)] by blast
  let ?t = "(probe_timer cfg False ^^ k) s"
  have iN: "unat i < ?N" using assms(5) by (simp add: word_less_nat_alt)
  have "pr_due ?t (unat i) = Some (unat (TIME_50ms cfg))" using k(3) by (simp add: pr_due_def)
  note at = pr.fire_at [OF k(2) iN this refl]
  define m where "m = pr.ahead cfg ?t (unat i) + T"
  have "pr_fires ((probe_timer cfg False ^^ n) s) (unat i) =
      pr_fires s (unat i) + (if k + m < n then pr_msg cfg ?t (unat i) else {#})" for n
    by (rule fires_after_setup [where f = "\<lambda>s. pr_fires s (unat i)"])
       (simp add: pr_fires_def k(4), simp only: at m_def assms(6))
  then show ?thesis
    using pr.ahead_less [OF k(2) iN] k(1)
    by (intro exI [of _ "k + m"]) (simp add: m_def pr_fires_def pr_msg_def)
qed

definition probe_timer_init :: probe_timer_st where
  "probe_timer_init = \<lparr> probeTimerTable = (\<lambda>_. \<lparr> pte_time = 0, pte_active = False \<rparr>),
     pt_currSessionID = 0, pt_updSessionID = 0, pt_prevSessionID = 0, pt_WaitForWrite = False,
     pr_rxEng2timer_clearProbeTimer = [], pr_txEng2timer_setProbeTimer = [],
     pr_probeTimer2eventEng_setEvent = [] \<rparr>"

theorem probe_timer_fires_once_witness:
  "\<exists>m \<ge> 7813000. \<forall>n. mset (filter (\<lambda>e. ev_sessionID e = 7) (pr_probeTimer2eventEng_setEvent
      ((probe_timer default_config False ^^ n) (probe_timer_init\<lparr> pr_txEng2timer_setProbeTimer := [7] \<rparr>))))
    = (if m < n then {# event_mk RT 7 #} else {#})"
proof -
  have "\<exists>m. 7813000 \<le> m \<and> m < 7813000 + unat (MAX_SESSIONS default_config) + 3 \<and>
    (\<forall>n. mset (filter (\<lambda>e. ev_sessionID e = 7) (pr_probeTimer2eventEng_setEvent
      ((probe_timer default_config False ^^ n) (probe_timer_init\<lparr> pr_txEng2timer_setProbeTimer := [7] \<rparr>))))
     = mset (filter (\<lambda>e. ev_sessionID e = 7) (pr_probeTimer2eventEng_setEvent
        (probe_timer_init\<lparr> pr_txEng2timer_setProbeTimer := [7] \<rparr>)))
       + (if m < n then {# event_mk (if TCP_NODELAY default_config then RT else TX) 7 #} else {#}))"
    by (rule probe_timer_fires_once)
       (simp_all add: probe_timer_init_def default_config_def time_defs)
  moreover have "pr_probeTimer2eventEng_setEvent (probe_timer_init\<lparr> pr_txEng2timer_setProbeTimer := [7] \<rparr>) = []"
    "TCP_NODELAY default_config"
    by (simp_all add: probe_timer_init_def default_config_def)
  ultimately show ?thesis by (simp only: filter.simps mset.simps if_True add_0) blast
qed

section \<open>Retransmit timer\<close>

record retransmitTimerEntry =
  rte_time :: u32
  rte_retries :: u3
  rte_active :: bool
  rte_type :: eventType

record retransmit_timer_st =
  retransmitTimerTable :: "u16 \<Rightarrow> retransmitTimerEntry"
  rt_position :: u16
  rt_waitForWrite :: bool
  rt_prevPosition :: u16
  rt_update :: rxRetransmitTimerUpdate
  rt_rxEng2timer_clearRetransmitTimer :: "rxRetransmitTimerUpdate list"
  rt_txEng2timer_setRetransmitTimer :: "txRetransmitTimerSet list"
  rt_rtTimer2eventEng_setEvent :: "event list"
  rt_rtTimer2stateTable_releaseState :: "u16 list"
  rt_rtTimer2rxApp_notification :: "appNotification list"
  rt_rtTimer2txApp_notification :: "openStatus list"

text \<open>The time-out interval, by the number of time-outs in a row.\<close>

definition rt_interval :: "toe_config \<Rightarrow> u3 \<Rightarrow> u32" where
  "rt_interval cfg retries =
     (if retries = 0 then TIME_1s cfg
      else if retries = 1 then TIME_5s cfg
      else if retries = 2 then TIME_10s cfg
      else if retries = 3 then TIME_15s cfg
      else TIME_30s cfg)"

text \<open>The write-back of the RX engine's update.\<close>

definition rt_apply_update :: "toe_config \<Rightarrow> retransmit_timer_st \<Rightarrow> retransmit_timer_st" where
  "rt_apply_update cfg s =
     (let u = rt_update s; e = retransmitTimerTable s (rtu_sessionID u);
          e1 = (if \<not> rtu_stop u then e\<lparr> rte_time := TIME_1s cfg \<rparr>
                else e\<lparr> rte_time := 0, rte_active := False \<rparr>)
      in s\<lparr> retransmitTimerTable := (retransmitTimerTable s)(rtu_sessionID u := e1\<lparr> rte_retries := 0 \<rparr>),
            rt_waitForWrite := False \<rparr>)"

text \<open>Case 1 of the operation switch: the TX engine sets the timer.\<close>

definition rt_set_entry :: "toe_config \<Rightarrow> txRetransmitTimerSet \<Rightarrow> retransmitTimerEntry \<Rightarrow> retransmitTimerEntry" where
  "rt_set_entry cfg sset e =
     (let e1 = e\<lparr> rte_type := rts_type sset \<rparr>;
          e2 = (if \<not> rte_active e1 then e1\<lparr> rte_time := rt_interval cfg (rte_retries e1) \<rparr> else e1)
      in e2\<lparr> rte_active := True \<rparr>)"

text \<open>Case 0: the sweep is at the session; the entry has been read and is written back.\<close>

definition rt_sweep :: "bool \<Rightarrow> u16 \<Rightarrow> retransmit_timer_st \<Rightarrow> retransmit_timer_st" where
  "rt_sweep full currID s =
     (let e = retransmitTimerTable s currID
      in if rte_active e then
           (if rte_time e > 0
            then s\<lparr> retransmitTimerTable := (retransmitTimerTable s)(currID := e\<lparr> rte_time := rte_time e - 1 \<rparr>) \<rparr>
            else if \<not> full then
              (let e1 = e\<lparr> rte_time := 0, rte_active := False \<rparr>
               in if rte_retries e < 4
                  then s\<lparr> retransmitTimerTable := (retransmitTimerTable s)(currID :=
                            e1\<lparr> rte_retries := rte_retries e + 1 \<rparr>),
                          rt_rtTimer2eventEng_setEvent := rt_rtTimer2eventEng_setEvent s @
                            [event_rt (rte_type e) currID (rte_retries e + 1)] \<rparr>
                  else
                    (let s1 = s\<lparr> retransmitTimerTable := (retransmitTimerTable s)(currID :=
                                   e1\<lparr> rte_retries := 0 \<rparr>),
                                 rt_rtTimer2stateTable_releaseState :=
                                   rt_rtTimer2stateTable_releaseState s @ [currID] \<rparr>
                     in if rte_type e = SYN
                        then s1\<lparr> rt_rtTimer2txApp_notification := rt_rtTimer2txApp_notification s @
                                   [openStatus_mk currID 0] \<rparr>
                        else s1\<lparr> rt_rtTimer2rxApp_notification := rt_rtTimer2rxApp_notification s @
                                   [appNotification_mk currID 0 0 0 True] \<rparr>))
            else s)
         else s)"

definition retransmit_timer :: "toe_config \<Rightarrow> bool \<Rightarrow> retransmit_timer_st \<Rightarrow> retransmit_timer_st" where
  "retransmit_timer cfg full s =
     (if rt_waitForWrite s \<and> rtu_sessionID (rt_update s) \<noteq> rt_prevPosition s
      then rt_apply_update cfg s
      else if rt_rxEng2timer_clearRetransmitTimer s \<noteq> [] \<and> \<not> rt_waitForWrite s
      then s\<lparr> rt_update := hd (rt_rxEng2timer_clearRetransmitTimer s),
              rt_rxEng2timer_clearRetransmitTimer := tl (rt_rxEng2timer_clearRetransmitTimer s),
              rt_waitForWrite := True \<rparr>
      else case rt_txEng2timer_setRetransmitTimer s of
        sset # q \<Rightarrow>
          (let currID = rts_sessionID sset
           in s\<lparr> rt_txEng2timer_setRetransmitTimer := q,
                 rt_position := (if int (unat (rts_sessionID sset)) - 3 < int (unat (rt_position s))
                                    \<and> rt_position s \<le> rts_sessionID sset
                                 then rt_position s + 5 else rt_position s),
                 retransmitTimerTable := (retransmitTimerTable s)(currID :=
                   rt_set_entry cfg sset (retransmitTimerTable s currID)),
                 rt_prevPosition := currID \<rparr>)
      | [] \<Rightarrow>
          (let currID = rt_position s
           in (rt_sweep full currID s)\<lparr>
                 rt_position := (if rt_position s + 1 \<ge> MAX_SESSIONS cfg then 0 else rt_position s + 1),
                 rt_prevPosition := currID \<rparr>))"

definition rt_idle :: "toe_config \<Rightarrow> retransmit_timer_st \<Rightarrow> bool" where
  "rt_idle cfg s \<longleftrightarrow> \<not> rt_waitForWrite s \<and> rt_rxEng2timer_clearRetransmitTimer s = []
     \<and> rt_txEng2timer_setRetransmitTimer s = [] \<and> rt_position s < MAX_SESSIONS cfg"

definition rt_due :: "retransmit_timer_st \<Rightarrow> nat \<Rightarrow> nat option" where
  "rt_due s i = (let e = retransmitTimerTable s (of_nat i)
     in if rte_active e then Some (unat (rte_time e)) else None)"

text \<open>What the timer sends, on its four streams.\<close>

datatype rt_out = RtEvent event | RtRelease u16 | RtNotifyRx appNotification | RtNotifyTx openStatus

definition rt_fires :: "retransmit_timer_st \<Rightarrow> nat \<Rightarrow> rt_out multiset" where
  "rt_fires s i =
     mset (map RtEvent (filter (\<lambda>e. ev_sessionID e = of_nat i) (rt_rtTimer2eventEng_setEvent s)))
     + mset (map RtRelease (filter (\<lambda>j. j = of_nat i) (rt_rtTimer2stateTable_releaseState s)))
     + mset (map RtNotifyRx (filter (\<lambda>e. an_sessionID e = of_nat i) (rt_rtTimer2rxApp_notification s)))
     + mset (map RtNotifyTx (filter (\<lambda>e. os_sessionID e = of_nat i) (rt_rtTimer2txApp_notification s)))"

definition rt_msg_of :: "retransmitTimerEntry \<Rightarrow> u16 \<Rightarrow> rt_out multiset" where
  "rt_msg_of e i =
     (if rte_retries e < 4 then {# RtEvent (event_rt (rte_type e) i (rte_retries e + 1)) #}
      else if rte_type e = SYN then {# RtRelease i, RtNotifyTx (openStatus_mk i 0) #}
      else {# RtRelease i, RtNotifyRx (appNotification_mk i 0 0 0 True) #})"

definition rt_msg :: "retransmit_timer_st \<Rightarrow> nat \<Rightarrow> rt_out multiset" where
  "rt_msg s i = rt_msg_of (retransmitTimerTable s (of_nat i)) (of_nat i)"

lemmas rt_defs = retransmit_timer_def rt_sweep_def rt_due_def rt_idle_def

lemma retransmit_timer_idle:
  "rt_idle cfg s \<Longrightarrow> retransmit_timer cfg full s =
     (rt_sweep full (rt_position s) s)\<lparr>
        rt_position := (if rt_position s + 1 \<ge> MAX_SESSIONS cfg then 0 else rt_position s + 1),
        rt_prevPosition := rt_position s \<rparr>"
  by (simp add: rt_idle_def retransmit_timer_def Let_def)

lemma rt_sweep_frame [simp]:
  "rt_waitForWrite (rt_sweep full c s) = rt_waitForWrite s"
  "rt_rxEng2timer_clearRetransmitTimer (rt_sweep full c s) = rt_rxEng2timer_clearRetransmitTimer s"
  "rt_txEng2timer_setRetransmitTimer (rt_sweep full c s) = rt_txEng2timer_setRetransmitTimer s"
  by (simp_all add: rt_sweep_def Let_def)

interpretation rt: sweep_timer "retransmit_timer cfg False" "rt_idle cfg" "\<lambda>s. unat (rt_position s)"
    "unat (MAX_SESSIONS cfg)" rt_due rt_fires rt_msg for cfg
proof unfold_locales
  fix s i
  assume idle: "rt_idle cfg s"
  then have pos: "rt_position s < MAX_SESSIONS cfg" by (simp add: rt_idle_def)
  from idle show "rt_idle cfg (retransmit_timer cfg False s)"
    by (auto simp: retransmit_timer_idle) (auto simp: rt_idle_def word_less_nat_alt word_le_nat_alt)
  from pos show "unat (rt_position s) < unat (MAX_SESSIONS cfg)"
    by (simp add: word_less_nat_alt)
  from idle show "unat (rt_position (retransmit_timer cfg False s)) =
      (if Suc (unat (rt_position s)) = unat (MAX_SESSIONS cfg) then 0 else Suc (unat (rt_position s)))"
    using cursor_wrap_ge [OF pos] by (simp add: retransmit_timer_idle)
  assume i: "i < unat (MAX_SESSIONS cfg)"
  then have iff: "(of_nat i :: u16) = rt_position s \<longleftrightarrow> i = unat (rt_position s)"
    by (intro of_nat_u16_eq) (auto dest: sweep_table_bound)
  show "rt_due (retransmit_timer cfg False s) i = (if i = unat (rt_position s)
      then (case rt_due s i of None \<Rightarrow> None | Some 0 \<Rightarrow> None | Some (Suc t) \<Rightarrow> Some t) else rt_due s i)"
    using idle iff due_countdown [of "rte_time (retransmitTimerTable s (rt_position s))"]
    by (auto simp: retransmit_timer_idle rt_due_def rt_sweep_def Let_def word_gt_0)
  show "rt_fires (retransmit_timer cfg False s) i = rt_fires s i +
      (if i = unat (rt_position s) \<and> rt_due s i = Some 0 then rt_msg s i else {#})"
    using idle iff
    by (auto simp: retransmit_timer_idle rt_due_def rt_sweep_def Let_def rt_fires_def rt_msg_def rt_msg_of_def
        word_gt_0 unat_eq_0 event_rt_def openStatus_mk_def appNotification_mk_def)
  show "rt_msg (retransmit_timer cfg False s) i = rt_msg s i"
    if "\<not> (i = unat (rt_position s) \<and> rt_due s i = Some 0)"
    using idle iff that
    by (auto simp: retransmit_timer_idle rt_due_def rt_sweep_def Let_def rt_msg_def rt_msg_of_def
        word_gt_0 unat_eq_0)
qed

text \<open>
  (C28) An unacknowledged segment is retransmitted after its back-off interval.  When the TX engine sets
  the timer of a session whose timer is off, and nothing else arrives, the timer fires exactly once,
  after the interval for the number of time-outs the session has had in a row (1, 5, 10, 15, 30
  seconds' worth of sweeps) and at most one sweep later.  It sends the event of the type the TX engine
  gave with the next retry number or, after four retries, releases the session and tells the
  application (the opening side when it was a SYN).
\<close>

theorem rt_timer_fires_once:
  assumes "\<not> rt_waitForWrite s" and "rt_rxEng2timer_clearRetransmitTimer s = []"
    and "rt_txEng2timer_setRetransmitTimer s = [\<lparr> rts_sessionID = i, rts_type = ty \<rparr>]"
    and "unat (rt_position s) + 5 < unat (MAX_SESSIONS cfg)" and "i < MAX_SESSIONS cfg"
    and "\<not> rte_active (retransmitTimerTable s i)"
    and "T = unat (rt_interval cfg (rte_retries (retransmitTimerTable s i))) * unat (MAX_SESSIONS cfg)"
  shows "\<exists>m. T \<le> m \<and> m < T + unat (MAX_SESSIONS cfg) + 1
    \<and> (\<forall>n. rt_fires ((retransmit_timer cfg False ^^ n) s) (unat i) = rt_fires s (unat i)
         + (if m < n then rt_msg_of ((retransmitTimerTable s i)\<lparr> rte_type := ty \<rparr>) i else {#}))"
proof -
  let ?N = "unat (MAX_SESSIONS cfg)" and ?t = "retransmit_timer cfg False s"
  let ?e = "(retransmitTimerTable s i)\<lparr> rte_type := ty,
      rte_time := rt_interval cfg (rte_retries (retransmitTimerTable s i)), rte_active := True \<rparr>"
  have iN: "unat i < ?N" using assms(5) by (simp add: word_less_nat_alt)
  have five: "unat (rt_position s + 5) = unat (rt_position s) + 5"
    using assms(4) unsigned_less [of "MAX_SESSIONS cfg", where 'a = nat] by (simp add: unat_word_ariths)
  have t: "rt_idle cfg ?t" "retransmitTimerTable ?t i = ?e" "rt_fires ?t (unat i) = rt_fires s (unat i)"
    using assms(1-6) five
    by (simp_all add: retransmit_timer_def Let_def rt_idle_def rt_set_entry_def rt_fires_def word_less_nat_alt)
  have "rt_due ?t (unat i) = Some (unat (rt_interval cfg (rte_retries (retransmitTimerTable s i))))"
    using t(2) by (simp add: rt_due_def)
  note at = rt.fire_at [OF t(1) iN this refl]
  define m where "m = rt.ahead cfg ?t (unat i) + T"
  have msg: "rt_msg ?t (unat i) = rt_msg_of ((retransmitTimerTable s i)\<lparr> rte_type := ty \<rparr>) i"
    using t(2) by (simp add: rt_msg_def rt_msg_of_def)
  have "rt_fires ((retransmit_timer cfg False ^^ n) s) (unat i) =
      rt_fires s (unat i) + (if 1 + m < n then rt_msg ?t (unat i) else {#})" for n
  proof (rule fires_after_setup [where f = "\<lambda>s. rt_fires s (unat i)"])
    show "rt_fires ((retransmit_timer cfg False ^^ n) s) (unat i) = rt_fires s (unat i)" if "n \<le> 1" for n
      using that t(3) by (cases n) auto
    show "rt_fires ((retransmit_timer cfg False ^^ n) ((retransmit_timer cfg False ^^ 1) s)) (unat i) =
        rt_fires ((retransmit_timer cfg False ^^ 1) s) (unat i) + (if m < n then rt_msg ?t (unat i) else {#})" for n
      using at [of n] by (simp add: m_def assms(7))
  qed
  then show ?thesis
    using rt.ahead_less [OF t(1) iN]
    by (intro exI [of _ "1 + m"]) (auto simp: m_def msg)
qed

lemma rt_sweep_other:
  "c \<noteq> i \<Longrightarrow> rt_fires (rt_sweep full c s) (unat i) = rt_fires s (unat i)
    \<and> retransmitTimerTable (rt_sweep full c s) i = retransmitTimerTable s i"
  by (auto simp: rt_sweep_def Let_def rt_fires_def event_rt_def openStatus_mk_def appNotification_mk_def)

text \<open>The RX engine has taken the timer's lock on the entry and asked to stop session \<open>i\<close>.\<close>

definition rt_stopping :: "toe_config \<Rightarrow> u16 \<Rightarrow> retransmit_timer_st \<Rightarrow> bool" where
  "rt_stopping cfg i s \<longleftrightarrow> rt_waitForWrite s \<and> rt_update s = \<lparr> rtu_sessionID = i, rtu_stop = True \<rparr>
     \<and> rt_rxEng2timer_clearRetransmitTimer s = [] \<and> rt_txEng2timer_setRetransmitTimer s = []
     \<and> rt_position s < MAX_SESSIONS cfg"

definition rt_stopped :: "toe_config \<Rightarrow> u16 \<Rightarrow> retransmit_timer_st \<Rightarrow> bool" where
  "rt_stopped cfg i s \<longleftrightarrow> rt_idle cfg s \<and> rt_due s (unat i) = None \<and> rte_retries (retransmitTimerTable s i) = 0"

lemma rt_clear_taken:
  assumes "\<not> rt_waitForWrite s" "rt_rxEng2timer_clearRetransmitTimer s = [\<lparr> rtu_sessionID = i, rtu_stop = True \<rparr>]"
    "rt_txEng2timer_setRetransmitTimer s = []" "rt_position s < MAX_SESSIONS cfg"
  shows "rt_stopping cfg i (retransmit_timer cfg full s)"
    "rt_position (retransmit_timer cfg full s) = rt_position s"
    "rt_prevPosition (retransmit_timer cfg full s) = rt_prevPosition s"
    "rt_fires (retransmit_timer cfg full s) (unat i) = rt_fires s (unat i)"
  using assms by (simp_all add: retransmit_timer_def rt_stopping_def rt_fires_def)

lemma rt_stop_applied:
  assumes "rt_stopping cfg i s" "rt_prevPosition s \<noteq> i"
  shows "rt_stopped cfg i (retransmit_timer cfg full s)"
    "rt_fires (retransmit_timer cfg full s) (unat i) = rt_fires s (unat i)"
  using assms
  by (simp_all add: retransmit_timer_def rt_stopping_def rt_stopped_def rt_apply_update_def Let_def
      rt_due_def rt_fires_def rt_idle_def)

lemma rt_stop_delayed:
  assumes "rt_stopping cfg i s" "rt_prevPosition s = i" "rt_position s \<noteq> i"
  shows "rt_stopping cfg i (retransmit_timer cfg full s)"
    "rt_prevPosition (retransmit_timer cfg full s) \<noteq> i"
    "rt_fires (retransmit_timer cfg full s) (unat i) = rt_fires s (unat i)"
proof -
  have eq: "retransmit_timer cfg full s = (rt_sweep full (rt_position s) s)\<lparr>
      rt_position := (if rt_position s + 1 \<ge> MAX_SESSIONS cfg then 0 else rt_position s + 1),
      rt_prevPosition := rt_position s \<rparr>"
    using assms by (simp add: retransmit_timer_def rt_stopping_def Let_def)
  show "rt_stopping cfg i (retransmit_timer cfg full s)"
    using assms(1) unfolding eq
    by (auto simp: rt_stopping_def rt_sweep_def Let_def word_less_nat_alt word_le_nat_alt)
  show "rt_prevPosition (retransmit_timer cfg full s) \<noteq> i" using assms(3) by (simp add: eq)
  show "rt_fires (retransmit_timer cfg full s) (unat i) = rt_fires s (unat i)"
    using rt_sweep_other [OF assms(3), of full s] unfolding eq by (simp add: rt_fires_def)
qed

lemma rt_clear_setup:
  assumes "\<not> rt_waitForWrite s" "rt_rxEng2timer_clearRetransmitTimer s = [\<lparr> rtu_sessionID = i, rtu_stop = True \<rparr>]"
    "rt_txEng2timer_setRetransmitTimer s = []" "rt_position s < MAX_SESSIONS cfg"
    "rt_prevPosition s \<noteq> i \<or> rt_position s \<noteq> i"
  obtains k where "k \<le> 3" "rt_stopped cfg i ((retransmit_timer cfg False ^^ k) s)"
    "\<And>n. n \<le> k \<Longrightarrow> rt_fires ((retransmit_timer cfg False ^^ n) s) (unat i) = rt_fires s (unat i)"
proof -
  let ?step = "retransmit_timer cfg False"
  let ?a = "?step s" let ?b = "?step ?a" let ?c = "?step ?b"
  note a = rt_clear_taken [OF assms(1-4), of False]
  show ?thesis
  proof (cases "rt_prevPosition ?a = i")
    case False
    note b = rt_stop_applied [OF a(1) False, of False]
    have "rt_fires ((?step ^^ n) s) (unat i) = rt_fires s (unat i)" if "n \<le> 2" for n
    proof -
      have "n = 0 \<or> n = 1 \<or> n = 2" using that by linarith
      then show ?thesis using a(4) b(2) by (auto simp: numeral_2_eq_2)
    qed
    with b(1) that [of 2] show ?thesis by (simp add: numeral_2_eq_2)
  next
    case True
    with a assms(5) have "rt_position ?a \<noteq> i" by auto
    note b = rt_stop_delayed [OF a(1) True this, of False]
    note c = rt_stop_applied [OF b(1,2), of False]
    have "rt_fires ((?step ^^ n) s) (unat i) = rt_fires s (unat i)" if "n \<le> 3" for n
    proof -
      have "n = 0 \<or> n = 1 \<or> n = 2 \<or> n = 3" using that by linarith
      then show ?thesis using a(4) b(3) c(2) by (auto simp: numeral_2_eq_2 numeral_3_eq_3)
    qed
    with c(1) that [of 3] show ?thesis by (simp add: numeral_3_eq_3)
  qed
qed

text \<open>
  An acknowledgement stops the retransmissions.  After the RX engine has asked to stop the timer of
  a session, and while nothing else arrives, the timer never sends anything for the session again, and
  from the third invocation on its retry count is 0, also when the sweep has just been at the session
  and the update has to wait.
\<close>

theorem rt_clear_stops:
  assumes "\<not> rt_waitForWrite s"
    and "rt_rxEng2timer_clearRetransmitTimer s = [\<lparr> rtu_sessionID = i, rtu_stop = True \<rparr>]"
    and "rt_txEng2timer_setRetransmitTimer s = []" and "rt_position s < MAX_SESSIONS cfg"
    and "rt_prevPosition s \<noteq> i \<or> rt_position s \<noteq> i" and "i < MAX_SESSIONS cfg"
  shows "(\<forall>n. rt_fires ((retransmit_timer cfg False ^^ n) s) (unat i) = rt_fires s (unat i))
    \<and> (\<exists>k \<le> 3. \<not> rte_active (retransmitTimerTable ((retransmit_timer cfg False ^^ k) s) i)
        \<and> rte_retries (retransmitTimerTable ((retransmit_timer cfg False ^^ k) s) i) = 0)"
proof -
  obtain k where k: "k \<le> 3" "rt_stopped cfg i ((retransmit_timer cfg False ^^ k) s)"
    "\<And>n. n \<le> k \<Longrightarrow> rt_fires ((retransmit_timer cfg False ^^ n) s) (unat i) = rt_fires s (unat i)"
    using rt_clear_setup [OF assms(1-5)] by blast
  have iN: "unat i < unat (MAX_SESSIONS cfg)" using assms(6) by (simp add: word_less_nat_alt)
  have "rt_fires ((retransmit_timer cfg False ^^ n) s) (unat i) =
      rt_fires s (unat i) + (if k + 0 < n then {#} else {#})" for n
    by (rule fires_after_setup [where f = "\<lambda>s. rt_fires s (unat i)"])
       (use k rt.silent_run iN in \<open>auto simp: rt_stopped_def\<close>)
  with k(1,2) show ?thesis by (auto simp: rt_stopped_def rt_due_def Let_def split: if_splits)
qed

section \<open>Retry bound and cursor range\<close>

definition rt_retries_ok :: "retransmit_timer_st \<Rightarrow> bool" where
  "rt_retries_ok s \<longleftrightarrow> (\<forall>i. rte_retries (retransmitTimerTable s i) \<le> 4)"

text \<open>The timer with its clients: an invocation, or a request that arrives, or a message that is taken.\<close>

inductive rt_move :: "toe_config \<Rightarrow> retransmit_timer_st \<Rightarrow> retransmit_timer_st \<Rightarrow> bool" for cfg where
  rt_run: "rt_move cfg s (retransmit_timer cfg full s)"
| rt_arrive_clear: "rt_move cfg s (s\<lparr> rt_rxEng2timer_clearRetransmitTimer :=
     rt_rxEng2timer_clearRetransmitTimer s @ [u] \<rparr>)"
| rt_arrive_set: "rt_move cfg s (s\<lparr> rt_txEng2timer_setRetransmitTimer :=
     rt_txEng2timer_setRetransmitTimer s @ [t] \<rparr>)"
| rt_taken: "rt_move cfg s (s\<lparr> rt_rtTimer2eventEng_setEvent := evs, rt_rtTimer2stateTable_releaseState := rel,
     rt_rtTimer2rxApp_notification := nrx, rt_rtTimer2txApp_notification := ntx \<rparr>)"

inductive_cases rt_moveE: "rt_move cfg s t"

lemma u3_incr: "(r :: u3) < 4 \<Longrightarrow> 1 \<le> r + 1 \<and> r + 1 \<le> 4"
  by (simp add: word_le_nat_alt word_less_nat_alt unat_word_ariths)

lemma rt_retries_step: "rt_retries_ok s \<Longrightarrow> rt_retries_ok (retransmit_timer cfg full s)"
  using u3_incr
  by (auto simp: rt_retries_ok_def retransmit_timer_def rt_apply_update_def rt_set_entry_def rt_sweep_def
      Let_def split: list.split)

definition retransmit_timer_init :: retransmit_timer_st where
  "retransmit_timer_init = \<lparr>
     retransmitTimerTable = (\<lambda>_. \<lparr> rte_time = 0, rte_retries = 0, rte_active = False, rte_type = TX \<rparr>),
     rt_position = 0, rt_waitForWrite = False, rt_prevPosition = 0,
     rt_update = \<lparr> rtu_sessionID = 0, rtu_stop = False \<rparr>,
     rt_rxEng2timer_clearRetransmitTimer = [], rt_txEng2timer_setRetransmitTimer = [],
     rt_rtTimer2eventEng_setEvent = [], rt_rtTimer2stateTable_releaseState = [],
     rt_rtTimer2rxApp_notification = [], rt_rtTimer2txApp_notification = [] \<rparr>"

interpretation rt_sys: invariant_system "\<lambda>s. s = retransmit_timer_init" "rt_move cfg" rt_retries_ok for cfg
proof unfold_locales
  show "rt_retries_ok s" if "s = retransmit_timer_init" for s
    using that by (simp add: rt_retries_ok_def retransmit_timer_init_def)
  show "rt_retries_ok t" if "rt_retries_ok s" "rt_move cfg s t" for s t
    using that(2,1) by (cases rule: rt_move.cases) (auto simp: rt_retries_step, auto simp: rt_retries_ok_def)
qed

lemma rt_outputs:
  assumes "rt_retries_ok s"
  shows "\<exists>new rel. rt_rtTimer2eventEng_setEvent (retransmit_timer cfg full s) = rt_rtTimer2eventEng_setEvent s @ new
    \<and> rt_rtTimer2stateTable_releaseState (retransmit_timer cfg full s) = rt_rtTimer2stateTable_releaseState s @ rel
    \<and> list_all (\<lambda>e. 1 \<le> ev_rt_count e \<and> ev_rt_count e \<le> 4 \<and>
         ev_rt_count e = rte_retries (retransmitTimerTable s (ev_sessionID e)) + 1 \<and>
         rte_retries (retransmitTimerTable (retransmit_timer cfg full s) (ev_sessionID e)) = ev_rt_count e) new
    \<and> list_all (\<lambda>i. rte_retries (retransmitTimerTable s i) = 4 \<and>
         rte_retries (retransmitTimerTable (retransmit_timer cfg full s) i) = 0 \<and>
         \<not> rte_active (retransmitTimerTable (retransmit_timer cfg full s) i)) rel"
proof -
  have four: "\<not> rte_retries (retransmitTimerTable s i) < 4 \<Longrightarrow> rte_retries (retransmitTimerTable s i) = 4" for i
    using assms by (simp add: rt_retries_ok_def antisym not_less)
  show ?thesis
    using u3_incr four
    by (auto simp: retransmit_timer_def rt_apply_update_def rt_sweep_def Let_def event_rt_def split: list.split)
qed

text \<open>
  (C27) A session is retransmitted at most four times in a row before it is given up.  In every state the
  timer can reach, a retry count is at most 4; an event the timer sends carries the retry number 1, 2,
  3 or 4, one more than the session's count before; and a session is released only when its count is
  4, that is after its fourth retransmission timed out, with the count reset and the timer off.
\<close>

theorem rt_gives_up_after_four:
  assumes "reachable (\<lambda>s. s = retransmit_timer_init) (rt_move cfg) s"
  shows "(\<forall>i. rte_retries (retransmitTimerTable s i) \<le> 4)
    \<and> (\<exists>new rel. rt_rtTimer2eventEng_setEvent (retransmit_timer cfg full s) = rt_rtTimer2eventEng_setEvent s @ new
      \<and> rt_rtTimer2stateTable_releaseState (retransmit_timer cfg full s) = rt_rtTimer2stateTable_releaseState s @ rel
      \<and> list_all (\<lambda>e. 1 \<le> ev_rt_count e \<and> ev_rt_count e \<le> 4 \<and>
           ev_rt_count e = rte_retries (retransmitTimerTable s (ev_sessionID e)) + 1 \<and>
           rte_retries (retransmitTimerTable (retransmit_timer cfg full s) (ev_sessionID e)) = ev_rt_count e) new
      \<and> list_all (\<lambda>i. rte_retries (retransmitTimerTable s i) = 4 \<and>
           rte_retries (retransmitTimerTable (retransmit_timer cfg full s) i) = 0 \<and>
           \<not> rte_active (retransmitTimerTable (retransmit_timer cfg full s) i)) rel)"
proof -
  have "rt_retries_ok s" by (rule rt_sys.invar_reachable [OF assms])
  then show ?thesis using rt_outputs by (simp add: rt_retries_ok_def)
qed

text \<open>
  The cursor of the retransmit timer can leave the table.  When the TX engine sets the timer of one
  of the last sessions while the sweep is close by, the cursor is moved five positions ahead without
  the wrap-around that the sweep itself has; with the cursor at session 996 of 1000 or later the next
  sweep reads and writes the table at an index beyond its end.
\<close>

theorem rt_cursor_leaves_table:
  assumes "\<not> rt_waitForWrite s" and "rt_rxEng2timer_clearRetransmitTimer s = []"
    and "rt_txEng2timer_setRetransmitTimer s = [\<lparr> rts_sessionID = rt_position s, rts_type = ty \<rparr>]"
    and "unat (MAX_SESSIONS cfg) \<le> unat (rt_position s) + 5" and "unat (rt_position s) + 6 < 65536"
  shows "MAX_SESSIONS cfg \<le> rt_position (retransmit_timer cfg full s)
    \<and> retransmit_timer cfg full (retransmit_timer cfg full s) =
        (rt_sweep full (rt_position s + 5) (retransmit_timer cfg full s))\<lparr> rt_position := 0,
           rt_prevPosition := rt_position s + 5 \<rparr>"
proof -
  let ?t = "retransmit_timer cfg full s"
  have num: "unat (rt_position s + 5) = unat (rt_position s) + 5"
    "unat (rt_position s + 6) = unat (rt_position s) + 6"
    using assms(5) by (simp_all add: unat_word_ariths)
  have t: "rt_position ?t = rt_position s + 5" "\<not> rt_waitForWrite ?t"
    "rt_rxEng2timer_clearRetransmitTimer ?t = []" "rt_txEng2timer_setRetransmitTimer ?t = []"
    using assms(1-3) by (simp_all add: retransmit_timer_def Let_def)
  have six: "rt_position s + 5 + 1 = rt_position s + 6" by (simp add: add.assoc)
  have le: "MAX_SESSIONS cfg \<le> rt_position s + 5" "MAX_SESSIONS cfg \<le> 6 + rt_position s"
    using assms(4) num by (simp_all add: word_le_nat_alt add.commute)
  have "retransmit_timer cfg full ?t = (rt_sweep full (rt_position s + 5) ?t)\<lparr> rt_position := 0,
      rt_prevPosition := rt_position s + 5 \<rparr>"
    using t le six by (subst retransmit_timer_def) (simp add: Let_def)
  with t(1) le(1) show ?thesis by simp
qed

section \<open>The timers together\<close>

record timer_st =
  tm_rt :: retransmit_timer_st
  tm_probe :: probe_timer_st
  tm_close :: close_timer_st
  tm_timer2stateTable_releaseState :: "u16 list"
  tm_timer2eventEng_setEvent :: "event list"

text \<open>The depth of the two event streams inside \<^verbatim>\<open>timerWrapper\<close>; \<^verbatim>\<open>full()\<close> compares with it.\<close>

definition timer_event_depth :: nat where "timer_event_depth = 2"

definition timerWrapper :: "toe_config \<Rightarrow> timer_st \<Rightarrow> timer_st" where
  "timerWrapper cfg s =
     (let (rtEv, prEv, ev) = stream_merger (rt_rtTimer2eventEng_setEvent (tm_rt s),
                               pr_probeTimer2eventEng_setEvent (tm_probe s), tm_timer2eventEng_setEvent s);
          rt1 = (tm_rt s)\<lparr> rt_rtTimer2eventEng_setEvent := rtEv \<rparr>;
          pr1 = (tm_probe s)\<lparr> pr_probeTimer2eventEng_setEvent := prEv \<rparr>;
          rt2 = retransmit_timer cfg (timer_event_depth \<le> length rtEv) rt1;
          pr2 = probe_timer cfg (timer_event_depth \<le> length prEv) pr1;
          cl2 = close_timer cfg (tm_close s);
          (clRel, rtRel, rel) = stream_merger (ct_closeTimer2stateTable_releaseState cl2,
                                  rt_rtTimer2stateTable_releaseState rt2, tm_timer2stateTable_releaseState s)
      in \<lparr> tm_rt = rt2\<lparr> rt_rtTimer2stateTable_releaseState := rtRel \<rparr>, tm_probe = pr2,
           tm_close = cl2\<lparr> ct_closeTimer2stateTable_releaseState := clRel \<rparr>,
           tm_timer2stateTable_releaseState = rel, tm_timer2eventEng_setEvent = ev \<rparr>)"

lemma retransmit_timer_events_le:
  "length (rt_rtTimer2eventEng_setEvent (retransmit_timer cfg full s))
     \<le> length (rt_rtTimer2eventEng_setEvent s) + of_bool (\<not> full)"
  by (auto simp: retransmit_timer_def rt_apply_update_def rt_sweep_def Let_def split: list.split)

lemma probe_timer_events_le:
  "length (pr_probeTimer2eventEng_setEvent (probe_timer cfg full s))
     \<le> length (pr_probeTimer2eventEng_setEvent s) + of_bool (\<not> full)"
  by (auto simp: probe_timer_def Let_def split: list.split)

lemma timerWrapper_events:
  "length (rt_rtTimer2eventEng_setEvent (tm_rt (timerWrapper cfg s)))
     \<le> max timer_event_depth (length (rt_rtTimer2eventEng_setEvent (tm_rt s)))
   \<and> length (pr_probeTimer2eventEng_setEvent (tm_probe (timerWrapper cfg s)))
     \<le> max timer_event_depth (length (pr_probeTimer2eventEng_setEvent (tm_probe s)))"
proof -
  obtain rtEv prEv ev where m: "stream_merger (rt_rtTimer2eventEng_setEvent (tm_rt s),
      pr_probeTimer2eventEng_setEvent (tm_probe s), tm_timer2eventEng_setEvent s) = (rtEv, prEv, ev)"
    by (metis prod_cases3)
  then have le: "length rtEv \<le> length (rt_rtTimer2eventEng_setEvent (tm_rt s))"
      "length prEv \<le> length (pr_probeTimer2eventEng_setEvent (tm_probe s))"
    by (auto simp: stream_merger_def split: list.splits)
  show ?thesis
    using le retransmit_timer_events_le [of cfg "timer_event_depth \<le> length rtEv"
        "(tm_rt s)\<lparr> rt_rtTimer2eventEng_setEvent := rtEv \<rparr>"]
      probe_timer_events_le [of cfg "timer_event_depth \<le> length prEv"
        "(tm_probe s)\<lparr> pr_probeTimer2eventEng_setEvent := prEv \<rparr>"]
    by (auto simp: timerWrapper_def m Let_def of_bool_def max_def split: prod.split if_splits)
qed

text \<open>
  The event streams of the timers do not overflow.  Both timers that send events ask whether their
  stream of depth two is full; over any number of invocations of the composed timers, starting with at
  most two waiting events each, no more than two events ever wait, so that a timer never blocks on its
  output and cannot deadlock with the TX engine that sets it.
\<close>

theorem timer_event_streams_bounded:
  assumes "length (rt_rtTimer2eventEng_setEvent (tm_rt s)) \<le> timer_event_depth"
    and "length (pr_probeTimer2eventEng_setEvent (tm_probe s)) \<le> timer_event_depth"
  shows "length (rt_rtTimer2eventEng_setEvent (tm_rt ((timerWrapper cfg ^^ n) s))) \<le> timer_event_depth
    \<and> length (pr_probeTimer2eventEng_setEvent (tm_probe ((timerWrapper cfg ^^ n) s))) \<le> timer_event_depth"
proof (induction n)
  case (Suc n)
  with timerWrapper_events [of cfg "(timerWrapper cfg ^^ n) s"] show ?case by simp
qed (use assms in simp)

section \<open>Concrete runs\<close>

theorem rt_timer_fires_once_witness:
  "\<exists>m \<ge> 156251000. \<forall>n. rt_fires ((retransmit_timer default_config False ^^ n)
      (retransmit_timer_init\<lparr> rt_txEng2timer_setRetransmitTimer := [txRetransmitTimerSet_RT 9] \<rparr>)) 9
    = (if m < n then {# RtEvent (event_rt RT 9 1) #} else {#})"
proof -
  let ?s = "retransmit_timer_init\<lparr> rt_txEng2timer_setRetransmitTimer := [txRetransmitTimerSet_RT 9] \<rparr>"
  have "\<exists>m. 156251000 \<le> m \<and> m < 156251000 + unat (MAX_SESSIONS default_config) + 1 \<and>
     (\<forall>n. rt_fires ((retransmit_timer default_config False ^^ n) ?s) (unat (9 :: u16)) = rt_fires ?s (unat (9 :: u16))
       + (if m < n then rt_msg_of ((retransmitTimerTable ?s 9)\<lparr> rte_type := RT \<rparr>) 9 else {#}))"
    by (rule rt_timer_fires_once)
       (simp_all add: retransmit_timer_init_def default_config_def time_defs rt_interval_def
          txRetransmitTimerSet_RT_def)
  moreover have "rt_fires ?s (unat (9 :: u16)) = {#}"
    "rt_msg_of ((retransmitTimerTable ?s 9)\<lparr> rte_type := RT \<rparr>) 9 = {# RtEvent (event_rt RT 9 1) #}"
    by (simp_all add: retransmit_timer_init_def rt_fires_def rt_msg_of_def)
  ultimately show ?thesis by (simp only: add_0 unat_numeral) auto
qed

theorem rt_clear_stops_witness:
  "\<forall>n. rt_fires ((retransmit_timer default_config False ^^ n) (retransmit_timer_init\<lparr>
      retransmitTimerTable := (\<lambda>_. \<lparr> rte_time = 1, rte_retries = 2, rte_active = True, rte_type = RT \<rparr>),
      rt_rxEng2timer_clearRetransmitTimer := [\<lparr> rtu_sessionID = 3, rtu_stop = True \<rparr>] \<rparr>)) (unat (3 :: u16)) = {#}"
  using rt_clear_stops [of "retransmit_timer_init\<lparr>
      retransmitTimerTable := (\<lambda>_. \<lparr> rte_time = 1, rte_retries = 2, rte_active = True, rte_type = RT \<rparr>),
      rt_rxEng2timer_clearRetransmitTimer := [\<lparr> rtu_sessionID = 3, rtu_stop = True \<rparr>] \<rparr>" 3 default_config]
  by (simp add: retransmit_timer_init_def default_config_def rt_fires_def)

theorem rt_gives_up_after_four_witness:
  "rte_retries (retransmitTimerTable (retransmit_timer default_config False retransmit_timer_init) 3) \<le> 4"
proof -
  have "reachable (\<lambda>s. s = retransmit_timer_init) (rt_move default_config)
      (retransmit_timer default_config False retransmit_timer_init)"
    by (auto intro: reachable_init reachable_step rt_run)
  from rt_gives_up_after_four [OF this] show ?thesis by blast
qed

theorem rt_cursor_leaves_table_witness:
  "1000 \<le> rt_position (retransmit_timer default_config False
     (retransmit_timer_init\<lparr> rt_position := 999,
        rt_txEng2timer_setRetransmitTimer := [txRetransmitTimerSet_RT 999] \<rparr>))"
  using rt_cursor_leaves_table [of "retransmit_timer_init\<lparr> rt_position := 999,
        rt_txEng2timer_setRetransmitTimer := [txRetransmitTimerSet_RT 999] \<rparr>" RT default_config False]
  by (simp add: retransmit_timer_init_def default_config_def txRetransmitTimerSet_RT_def)

definition timer_init :: timer_st where
  "timer_init = \<lparr> tm_rt = retransmit_timer_init, tm_probe = probe_timer_init, tm_close = close_timer_init,
     tm_timer2stateTable_releaseState = [], tm_timer2eventEng_setEvent = [] \<rparr>"

theorem timer_event_streams_bounded_witness:
  "length (rt_rtTimer2eventEng_setEvent (tm_rt ((timerWrapper default_config ^^ 100000) timer_init))) \<le> 2"
  using timer_event_streams_bounded [of timer_init 100000 default_config]
  by (simp add: timer_init_def retransmit_timer_init_def probe_timer_init_def timer_event_depth_def
      del: funpow.simps)

end
