(* ===== verification/Event_Engine.thy ===== *)
theory Event_Engine
  imports Toe_Types Sweep_Timer
begin

text \<open>
  The event path to the TX engine: the event engine (\<^verbatim>\<open>event_engine/event_engine.cpp\<close>), which
  arbitrates between the RX engine, the timers and the transmit application interface, and the delay of
  acknowledgements (\<^verbatim>\<open>ack_delay/ack_delay.cpp\<close>), connected as in \<^verbatim>\<open>toe.cpp\<close> by the event streams
  and the three streams of tokens by which the event engine counts what the other side has read and
  written.

  The lemmas show that the token counters track the fill of the streams through every wrap-around of
  their 8 bits, that no event but an acknowledgement is ever lost or duplicated, that a delayed
  acknowledgement goes out after a bounded time, and that it is dropped only for an event of the same
  session.
\<close>

record event_path_st =
  ee_writeCounter :: u8
  ee_adReadCounter :: u8
  ee_adWriteCounter :: u8
  ee_txEngReadCounter :: u8
  ack_table :: "u16 \<Rightarrow> u12"
  ad_pointer :: u16
  ep_txApp2eventEng_setEvent :: "event list"
  ep_rxEng2eventEng_setEvent :: "extendedEvent list"
  ep_timer2eventEng_setEvent :: "event list"
  ep_eventEng2ackDelay_event :: "extendedEvent list"
  ep_eventEng2txEng_event :: "extendedEvent list"
  ep_ackDelayFifoReadCount :: "u1 list"
  ep_ackDelayFifoWriteCount :: "u1 list"
  ep_txEngFifoReadCount :: "u1 list"

section \<open>The event engine\<close>

text \<open>The three counters at the end of the function.\<close>

definition ee_count :: "event_path_st \<Rightarrow> event_path_st" where
  "ee_count s =
     (let s1 = (case ep_ackDelayFifoReadCount s of
                  _ # q \<Rightarrow> s\<lparr> ep_ackDelayFifoReadCount := q, ee_adReadCounter := ee_adReadCounter s + 1 \<rparr>
                | [] \<Rightarrow> s);
          s2 = (case ep_ackDelayFifoWriteCount s1 of
                  _ # q \<Rightarrow> s1\<lparr> ee_adWriteCounter := ee_adWriteCounter s1 + 1, ep_ackDelayFifoWriteCount := q \<rparr>
                | [] \<Rightarrow> s1)
      in case ep_txEngFifoReadCount s2 of
           _ # q \<Rightarrow> s2\<lparr> ee_txEngReadCounter := ee_txEngReadCounter s2 + 1, ep_txEngFifoReadCount := q \<rparr>
         | [] \<Rightarrow> s2)"

definition ee_write :: "extendedEvent \<Rightarrow> event_path_st \<Rightarrow> event_path_st" where
  "ee_write ev s = s\<lparr> ep_eventEng2ackDelay_event := ep_eventEng2ackDelay_event s @ [ev],
     ee_writeCounter := ee_writeCounter s + 1 \<rparr>"

definition event_engine :: "bool \<Rightarrow> event_path_st \<Rightarrow> event_path_st" where
  "event_engine full s = ee_count
     (if ep_rxEng2eventEng_setEvent s \<noteq> [] \<and> \<not> full
      then ee_write (hd (ep_rxEng2eventEng_setEvent s))
             (s\<lparr> ep_rxEng2eventEng_setEvent := tl (ep_rxEng2eventEng_setEvent s) \<rparr>)
      else if ee_writeCounter s = ee_adReadCounter s \<and> ee_adWriteCounter s = ee_txEngReadCounter s
      then (case ep_timer2eventEng_setEvent s of
              ev # q \<Rightarrow> ee_write (extendedEvent_of ev) (s\<lparr> ep_timer2eventEng_setEvent := q \<rparr>)
            | [] \<Rightarrow>
           (case ep_txApp2eventEng_setEvent s of
              ev # q \<Rightarrow> ee_write (extendedEvent_of ev) (s\<lparr> ep_txApp2eventEng_setEvent := q \<rparr>)
            | [] \<Rightarrow> s))
      else s)"

section \<open>The delay of acknowledgements\<close>

definition ad_write :: "extendedEvent \<Rightarrow> event_path_st \<Rightarrow> event_path_st" where
  "ad_write ev s = s\<lparr> ep_eventEng2txEng_event := ep_eventEng2txEng_event s @ [ev],
     ep_ackDelayFifoWriteCount := ep_ackDelayFifoWriteCount s @ [1] \<rparr>"

definition ack_delay :: "toe_config \<Rightarrow> bool \<Rightarrow> event_path_st \<Rightarrow> event_path_st" where
  "ack_delay cfg full s =
     (case ep_eventEng2ackDelay_event s of
        ev # q \<Rightarrow>
          (let s1 = s\<lparr> ep_eventEng2ackDelay_event := q,
                       ep_ackDelayFifoReadCount := ep_ackDelayFifoReadCount s @ [1] \<rparr>
           in if ev_type ev = ACK \<and> ack_table s (ev_sessionID ev) = 0
              then s1\<lparr> ack_table := (ack_table s)(ev_sessionID ev := ucast (TIME_64us cfg)) \<rparr>
              else ad_write ev (s1\<lparr> ack_table := (ack_table s)(ev_sessionID ev := 0) \<rparr>))
      | [] \<Rightarrow>
          (let i = ad_pointer s;
               s1 = (if ack_table s i > 0 \<and> \<not> full
                     then (if ack_table s i = 1 then ad_write (extendedEvent_of (event_mk ACK i)) s else s)
                            \<lparr> ack_table := (ack_table s)(i := ack_table s i - 1) \<rparr>
                     else s)
           in s1\<lparr> ad_pointer := (if i + 1 = MAX_SESSIONS cfg then 0 else i + 1) \<rparr>))"

section \<open>The path in its environment\<close>

text \<open>The TX engine takes an event and returns a token for it.\<close>

definition tx_take :: "event_path_st \<Rightarrow> event_path_st" where
  "tx_take s = (case ep_eventEng2txEng_event s of
     _ # q \<Rightarrow> s\<lparr> ep_eventEng2txEng_event := q, ep_txEngFifoReadCount := ep_txEngFifoReadCount s @ [1] \<rparr>
   | [] \<Rightarrow> s)"

inductive ep_move :: "toe_config \<Rightarrow> event_path_st \<Rightarrow> event_path_st \<Rightarrow> bool" for cfg where
  ep_engine: "ep_move cfg s (event_engine full s)"
| ep_delay: "ep_move cfg s (ack_delay cfg full s)"
| ep_take: "ep_move cfg s (tx_take s)"
| ep_rx: "ep_move cfg s (s\<lparr> ep_rxEng2eventEng_setEvent := ep_rxEng2eventEng_setEvent s @ [x] \<rparr>)"
| ep_timer: "ep_move cfg s (s\<lparr> ep_timer2eventEng_setEvent := ep_timer2eventEng_setEvent s @ [e] \<rparr>)"
| ep_app: "ep_move cfg s (s\<lparr> ep_txApp2eventEng_setEvent := ep_txApp2eventEng_setEvent s @ [e] \<rparr>)"

definition event_path_init :: event_path_st where
  "event_path_init = \<lparr> ee_writeCounter = 0, ee_adReadCounter = 0, ee_adWriteCounter = 0,
     ee_txEngReadCounter = 0, ack_table = (\<lambda>_. 0), ad_pointer = 0, ep_txApp2eventEng_setEvent = [],
     ep_rxEng2eventEng_setEvent = [], ep_timer2eventEng_setEvent = [], ep_eventEng2ackDelay_event = [],
     ep_eventEng2txEng_event = [], ep_ackDelayFifoReadCount = [], ep_ackDelayFifoWriteCount = [],
     ep_txEngFifoReadCount = [] \<rparr>"

text \<open>What is written and not yet counted as read is in the stream, or its token is.\<close>

definition counters_ok :: "event_path_st \<Rightarrow> bool" where
  "counters_ok s \<longleftrightarrow>
     ee_writeCounter s = ee_adReadCounter s
       + of_nat (length (ep_eventEng2ackDelay_event s) + length (ep_ackDelayFifoReadCount s))
     \<and> ee_adWriteCounter s + of_nat (length (ep_ackDelayFifoWriteCount s)) = ee_txEngReadCounter s
       + of_nat (length (ep_txEngFifoReadCount s) + length (ep_eventEng2txEng_event s))"

lemma counters_ee_count: "counters_ok s \<Longrightarrow> counters_ok (ee_count s)"
  by (auto simp: counters_ok_def ee_count_def Let_def algebra_simps split: list.split)

lemma counters_ee_write: "counters_ok (s\<lparr> ep_rxEng2eventEng_setEvent := a, ep_timer2eventEng_setEvent := b,
    ep_txApp2eventEng_setEvent := c \<rparr>) = counters_ok s"
  "counters_ok s \<Longrightarrow> counters_ok (ee_write ev s)"
  by (auto simp: counters_ok_def ee_write_def algebra_simps)

lemma counters_event_engine: "counters_ok s \<Longrightarrow> counters_ok (event_engine full s)"
  unfolding event_engine_def
  by (rule counters_ee_count) (auto simp: counters_ok_def ee_write_def algebra_simps split: list.split)

lemma counters_ack_delay: "counters_ok s \<Longrightarrow> counters_ok (ack_delay cfg full s)"
  by (auto simp: counters_ok_def ack_delay_def ad_write_def Let_def algebra_simps split: list.split)

lemma counters_tx_take: "counters_ok s \<Longrightarrow> counters_ok (tx_take s)"
  by (auto simp: counters_ok_def tx_take_def algebra_simps split: list.split)

interpretation ep_sys: invariant_system "\<lambda>s. s = event_path_init" "ep_move cfg" counters_ok for cfg
proof unfold_locales
  show "counters_ok s" if "s = event_path_init" for s
    using that by (simp add: counters_ok_def event_path_init_def)
  show "counters_ok t" if "counters_ok s" "ep_move cfg s t" for s t
    using that(2,1)
  proof cases
    case (ep_engine full)
    with that(1) show ?thesis by (simp add: counters_event_engine)
  next
    case (ep_delay full)
    with that(1) show ?thesis by (simp add: counters_ack_delay)
  next
    case ep_take
    with that(1) show ?thesis by (simp add: counters_tx_take)
  qed (simp_all add: counters_ok_def)
qed


section \<open>No event is lost\<close>

text \<open>All events on the path that are not acknowledgements.\<close>

definition path_events :: "event_path_st \<Rightarrow> extendedEvent multiset" where
  "path_events s = filter_mset (\<lambda>e. ev_type e \<noteq> ACK)
     (mset (ep_rxEng2eventEng_setEvent s) + mset (map extendedEvent_of (ep_timer2eventEng_setEvent s))
      + mset (map extendedEvent_of (ep_txApp2eventEng_setEvent s)) + mset (ep_eventEng2ackDelay_event s)
      + mset (ep_eventEng2txEng_event s))"

inductive path_step :: "toe_config \<Rightarrow> event_path_st \<Rightarrow> event_path_st \<Rightarrow> bool" for cfg where
  path_engine: "path_step cfg s (event_engine full s)"
| path_delay: "path_step cfg s (ack_delay cfg full s)"

lemma path_events_engine: "path_events (event_engine full s) = path_events s"
proof -
  have "path_events (ee_count t) = path_events t" for t
    by (auto simp: path_events_def ee_count_def Let_def split: list.split)
  then show ?thesis
    by (auto simp: event_engine_def ee_write_def path_events_def neq_Nil_conv split: list.split)
qed

lemma path_events_delay: "path_events (ack_delay cfg full s) = path_events s"
  by (auto simp: path_events_def ack_delay_def ad_write_def Let_def event_defs split: list.split)

text \<open>
  (C36) No event but an acknowledgement is lost, duplicated or changed between its source and the TX
  engine: over any interleaving of invocations of the event engine and the acknowledgement delay, the
  multiset of all transmit, retransmit, SYN, SYN-ACK, FIN, RST and undelayed acknowledgement events on
  the sources' streams, between the two modules and before the TX engine stays the same.
\<close>

theorem events_conserved:
  assumes "(path_step cfg)\<^sup>*\<^sup>* s t"
  shows "path_events t = path_events s"
  using assms
proof (induction rule: rtranclp_induct)
  case (step y z)
  then show ?case by (auto elim!: path_step.cases simp: path_events_engine path_events_delay)
qed simp

section \<open>Delayed acknowledgements\<close>

definition ad_idle :: "toe_config \<Rightarrow> event_path_st \<Rightarrow> bool" where
  "ad_idle cfg s \<longleftrightarrow> ep_eventEng2ackDelay_event s = [] \<and> ad_pointer s < MAX_SESSIONS cfg"

definition ad_due :: "event_path_st \<Rightarrow> nat \<Rightarrow> nat option" where
  "ad_due s i = (if ack_table s (of_nat i) = 0 then None else Some (unat (ack_table s (of_nat i)) - 1))"

definition ad_fires :: "event_path_st \<Rightarrow> nat \<Rightarrow> extendedEvent multiset" where
  "ad_fires s i = mset (filter (\<lambda>e. ev_sessionID e = of_nat i) (ep_eventEng2txEng_event s))"

definition ad_msg :: "event_path_st \<Rightarrow> nat \<Rightarrow> extendedEvent multiset" where
  "ad_msg s i = {# extendedEvent_of (event_mk ACK (of_nat i)) #}"

lemma ad_countdown:
  "(c :: u12) \<noteq> 0 \<Longrightarrow> c \<noteq> 1 \<Longrightarrow> c - 1 \<noteq> 0 \<and> (case unat c - 1 of 0 \<Rightarrow> None | Suc n \<Rightarrow> Some n) = Some (unat (c - 1) - 1)"
proof -
  assume "c \<noteq> 0" "c \<noteq> 1"
  then have "unat c \<noteq> 0" "unat c \<noteq> 1" by (auto simp: word_unat_eq_iff)
  then obtain n where "unat c = Suc (Suc n)" by (metis One_nat_def not0_implies_Suc)
  moreover have "unat (c - 1) = unat c - 1" using \<open>c \<noteq> 0\<close> by (rule unat_minus_one)
  ultimately show ?thesis by (auto simp: word_unat_eq_iff)
qed

interpretation ad: sweep_timer "ack_delay cfg False" "ad_idle cfg" "\<lambda>s. unat (ad_pointer s)"
    "unat (MAX_SESSIONS cfg)" ad_due ad_fires ad_msg for cfg
proof unfold_locales
  fix s i
  assume idle: "ad_idle cfg s"
  then show "ad_idle cfg (ack_delay cfg False s)"
    by (auto simp: ad_idle_def ack_delay_def ad_write_def Let_def wrap_less simp del: if_split)
  from idle show "unat (ad_pointer s) < unat (MAX_SESSIONS cfg)"
    by (simp add: ad_idle_def word_less_nat_alt)
  from idle show "unat (ad_pointer (ack_delay cfg False s)) =
      (if Suc (unat (ad_pointer s)) = unat (MAX_SESSIONS cfg) then 0 else Suc (unat (ad_pointer s)))"
    using cursor_wrap [of "ad_pointer s" "MAX_SESSIONS cfg"]
    by (simp add: ad_idle_def ack_delay_def Let_def)
  assume i: "i < unat (MAX_SESSIONS cfg)"
  then have iff: "(of_nat i :: u16) = ad_pointer s \<longleftrightarrow> i = unat (ad_pointer s)"
    by (intro of_nat_u16_eq) (auto dest: sweep_table_bound)
  show "ad_due (ack_delay cfg False s) i = (if i = unat (ad_pointer s)
      then (case ad_due s i of None \<Rightarrow> None | Some 0 \<Rightarrow> None | Some (Suc t) \<Rightarrow> Some t) else ad_due s i)"
    using idle iff ad_countdown [of "ack_table s (ad_pointer s)"]
    by (auto simp: ad_idle_def ack_delay_def ad_due_def ad_write_def Let_def word_gt_0)
  show "ad_fires (ack_delay cfg False s) i = ad_fires s i +
      (if i = unat (ad_pointer s) \<and> ad_due s i = Some 0 then ad_msg s i else {#})"
    using idle iff
    by (auto simp: ad_idle_def ack_delay_def ad_due_def ad_fires_def ad_msg_def ad_write_def Let_def
        word_gt_0 word_unat_eq_iff event_defs)
qed (simp add: ad_msg_def)

text \<open>
  (C37) A delayed acknowledgement goes out, once, after a bounded time.  An acknowledgement for a session
  with none pending is held back; while no other event arrives and the TX engine's stream has room,
  exactly one acknowledgement event for the session is sent, after 64 microseconds' worth of sweeps
  over the sessions and at most one sweep and one invocation later.
\<close>

theorem delayed_ack_sent:
  assumes "ep_eventEng2ackDelay_event s = [ev]" and "ev_type ev = ACK" and "ev_sessionID ev = i"
    and "ack_table s i = 0" and "ad_pointer s < MAX_SESSIONS cfg" and "i < MAX_SESSIONS cfg"
    and "d = unat (ucast (TIME_64us cfg) :: u12)" and "d \<noteq> 0"
  shows "\<exists>m. (d - 1) * unat (MAX_SESSIONS cfg) < m \<and> m < d * unat (MAX_SESSIONS cfg) + 1
    \<and> (\<forall>n. mset (filter (\<lambda>e. ev_sessionID e = i) (ep_eventEng2txEng_event ((ack_delay cfg False ^^ n) s)))
          = mset (filter (\<lambda>e. ev_sessionID e = i) (ep_eventEng2txEng_event s))
            + (if m < n then {# extendedEvent_of (event_mk ACK i) #} else {#}))"
proof -
  let ?N = "unat (MAX_SESSIONS cfg)" and ?t = "ack_delay cfg False s"
  have iN: "unat i < ?N" using assms(6) by (simp add: word_less_nat_alt)
  have t: "ad_idle cfg ?t" "ack_table ?t i = ucast (TIME_64us cfg)" "ad_fires ?t (unat i) = ad_fires s (unat i)"
    using assms by (simp_all add: ack_delay_def Let_def ad_idle_def ad_fires_def)
  have "(ucast (TIME_64us cfg) :: u12) \<noteq> 0" using assms(7,8) by auto
  then have "ad_due ?t (unat i) = Some (d - 1)" using t(2) assms(7) by (simp add: ad_due_def)
  note at = ad.fire_at [OF t(1) iN this refl]
  define m where "m = ad.ahead cfg ?t (unat i) + (d - 1) * ?N"
  have "ad_fires ((ack_delay cfg False ^^ n) s) (unat i) =
      ad_fires s (unat i) + (if 1 + m < n then ad_msg ?t (unat i) else {#})" for n
  proof (rule fires_after_setup [where f = "\<lambda>s. ad_fires s (unat i)"])
    show "ad_fires ((ack_delay cfg False ^^ n) s) (unat i) = ad_fires s (unat i)" if "n \<le> 1" for n
      using that t(3) by (cases n) auto
    show "ad_fires ((ack_delay cfg False ^^ n) ((ack_delay cfg False ^^ 1) s)) (unat i) =
        ad_fires ((ack_delay cfg False ^^ 1) s) (unat i) + (if m < n then ad_msg ?t (unat i) else {#})" for n
      using at [of n] by (simp add: m_def)
  qed
  moreover have "m < d * ?N"
    using ad.ahead_less [OF t(1) iN] assms(8) by (cases d) (auto simp: m_def)
  ultimately show ?thesis
    by (intro exI [of _ "1 + m"]) (simp add: m_def ad_fires_def ad_msg_def)
qed

text \<open>
  A pending acknowledgement is not forgotten.  One invocation of the acknowledgement delay ends the
  wait of a session only by sending an event of this session to the TX engine; an acknowledgement that
  arrives is either sent at once, when one was pending already, or pending afterwards.
\<close>

theorem pending_ack_kept:
  "(\<forall>i. ack_table s i \<noteq> 0 \<longrightarrow> ack_table (ack_delay cfg full s) i \<noteq> 0
      \<or> (\<exists>e. ep_eventEng2txEng_event (ack_delay cfg full s) = ep_eventEng2txEng_event s @ [e] \<and> ev_sessionID e = i))
   \<and> (\<forall>ev q. ep_eventEng2ackDelay_event s = ev # q \<and> (ucast (TIME_64us cfg) :: u12) \<noteq> 0 \<longrightarrow>
      ep_eventEng2txEng_event (ack_delay cfg full s) = ep_eventEng2txEng_event s @ [ev]
      \<or> ack_table (ack_delay cfg full s) (ev_sessionID ev) \<noteq> 0)"
proof -
  have dec: "c \<noteq> 0 \<Longrightarrow> c \<noteq> 1 \<Longrightarrow> c - 1 \<noteq> 0" for c :: u12 by auto
  show ?thesis
    by (auto simp: ack_delay_def ad_write_def Let_def event_defs word_gt_0 dec split: list.split)
qed

text \<open>
  A reset without a session cancels the delayed acknowledgement of session 0.  The event of a reset
  that answers a segment of no known session carries session number 0; passing it through the
  acknowledgement delay clears the pending acknowledgement of session 0 although the reset goes to
  somebody else, and while nothing else arrives no acknowledgement for session 0 is ever sent.
\<close>

theorem reset_cancels_ack_of_session_0:
  assumes "ep_eventEng2ackDelay_event s = [extendedEvent_mk (rstEvent_nosession seq) tuple]"
    and "ad_pointer s < MAX_SESSIONS cfg"
    and "ep_eventEng2txEng_event s = []"
  shows "filter (\<lambda>e. ev_sessionID e = 0) (ep_eventEng2txEng_event ((ack_delay cfg False ^^ Suc n) s)) =
      [extendedEvent_mk (rstEvent_nosession seq) tuple]"
proof -
  let ?t = "ack_delay cfg False s" and ?r = "extendedEvent_mk (rstEvent_nosession seq) tuple"
  have t: "ad_idle cfg ?t" "ad_due ?t 0 = None" "ep_eventEng2txEng_event ?t = [?r]"
    using assms by (simp_all add: ack_delay_def Let_def ad_idle_def ad_due_def ad_write_def event_defs)
  have r: "ev_sessionID ?r = 0" by (simp add: event_defs)
  have "0 < unat (MAX_SESSIONS cfg)" using assms(2) by (simp add: word_less_nat_alt)
  then have "ad_fires ((ack_delay cfg False ^^ n) ?t) 0 = {# ?r #}"
    using ad.silent_run [OF t(1) _ t(2)] t(3) r by (simp add: ad_fires_def)
  then show ?thesis by (simp add: ad_fires_def funpow_swap1 del: mset_filter)
qed

section \<open>Concrete runs\<close>


theorem events_conserved_witness:
  "path_events (ack_delay default_config False
      (event_engine False (event_path_init\<lparr> ep_timer2eventEng_setEvent := [event_mk RT 3] \<rparr>)))
    = {# extendedEvent_of (event_mk RT 3) #}"
proof -
  let ?s = "event_path_init\<lparr> ep_timer2eventEng_setEvent := [event_mk RT 3] \<rparr>"
  have "(path_step default_config)\<^sup>*\<^sup>* ?s (ack_delay default_config False (event_engine False ?s))"
    by (meson path_engine path_delay r_into_rtranclp rtranclp.rtrancl_into_rtrancl)
  from events_conserved [OF this] show ?thesis
    by (simp add: path_events_def event_path_init_def event_defs)
qed

theorem delayed_ack_sent_witness:
  "\<exists>m > 10000. m < 11001 \<and> (\<forall>n. mset (filter (\<lambda>e. ev_sessionID e = 5) (ep_eventEng2txEng_event
      ((ack_delay default_config False ^^ n)
        (event_path_init\<lparr> ep_eventEng2ackDelay_event := [extendedEvent_of (event_mk ACK 5)] \<rparr>))))
    = (if m < n then {# extendedEvent_of (event_mk ACK 5) #} else {#}))"
proof -
  let ?s = "event_path_init\<lparr> ep_eventEng2ackDelay_event := [extendedEvent_of (event_mk ACK 5)] \<rparr>"
  have "\<exists>m. (11 - 1) * unat (MAX_SESSIONS default_config) < m \<and> m < 11 * unat (MAX_SESSIONS default_config) + 1
    \<and> (\<forall>n. mset (filter (\<lambda>e. ev_sessionID e = 5) (ep_eventEng2txEng_event ((ack_delay default_config False ^^ n) ?s)))
          = mset (filter (\<lambda>e. ev_sessionID e = 5) (ep_eventEng2txEng_event ?s))
            + (if m < n then {# extendedEvent_of (event_mk ACK 5) #} else {#}))"
    by (rule delayed_ack_sent [where ev = "extendedEvent_of (event_mk ACK 5)"])
       (simp_all add: event_path_init_def event_defs default_config_def time_defs)
  moreover have "ep_eventEng2txEng_event ?s = []" "unat (MAX_SESSIONS default_config) = 1000"
    by (simp_all add: event_path_init_def default_config_def)
  ultimately show ?thesis by (simp only: filter.simps mset.simps add_0) simp
qed

theorem pending_ack_kept_witness:
  "ack_table (ack_delay default_config False
     (event_path_init\<lparr> ep_eventEng2ackDelay_event := [extendedEvent_of (event_mk ACK 5)] \<rparr>)) 5 \<noteq> 0"
  using pending_ack_kept [of "event_path_init\<lparr> ep_eventEng2ackDelay_event := [extendedEvent_of (event_mk ACK 5)] \<rparr>"
      default_config False]
  by (simp add: event_path_init_def event_defs default_config_def time_defs ack_delay_def)

theorem reset_cancels_ack_of_session_0_witness:
  "filter (\<lambda>e. ev_sessionID e = 0) (ep_eventEng2txEng_event ((ack_delay default_config False ^^ 40000)
      (event_path_init\<lparr> ack_table := (\<lambda>_. 0)(0 := 11),
         ep_eventEng2ackDelay_event := [extendedEvent_mk (rstEvent_nosession 77) (fourTuple_mk 1 2 3 4)] \<rparr>)))
    = [extendedEvent_mk (rstEvent_nosession 77) (fourTuple_mk 1 2 3 4)]"
  using reset_cancels_ack_of_session_0 [of "event_path_init\<lparr> ack_table := (\<lambda>_. 0)(0 := 11),
      ep_eventEng2ackDelay_event := [extendedEvent_mk (rstEvent_nosession 77) (fourTuple_mk 1 2 3 4)] \<rparr>" 77
      "fourTuple_mk 1 2 3 4" default_config 39999]
  by (simp add: event_path_init_def default_config_def del: funpow.simps)

end
