(* ===== verification/Session_Lookup.thy ===== *)
theory Session_Lookup
  imports Toe_Types "HOL-Library.Multiset"
begin

text \<open>
  The session lookup controller (\<^verbatim>\<open>session_lookup_controller/session_lookup_controller.cpp\<close>): it maps
  connections to session numbers with the help of an external lookup memory, hands out and takes back
  the session numbers, and keeps the reverse table from numbers to connections.

  The state record holds the statics of the five functions and the streams between them and to the
  outside.  The lookup memory is not part of the module: it appears as the environment that answers the
  requests on the two request streams.  The lemmas show that the five functions and the memory together
  neither lose nor duplicate a session number, so that a new session never gets the number of a live one,
  that the session count shown to the outside is the number of sessions that are being set up or open,
  and that the forward and the reverse mapping agree.
\<close>

section \<open>Data\<close>

datatype lookupSource = RX | TX_APP

datatype lookupOp = INSERT | DELETE

datatype threeTupleInternal = ThreeTuple (theirIp: u32) (myPort: u16) (theirPort: u16)

text \<open>\<^verbatim>\<open>operator<\<close>, which the C++ model of the memory uses for its \<^verbatim>\<open>std::map\<close>.\<close>

definition tuple_less :: "threeTupleInternal \<Rightarrow> threeTupleInternal \<Rightarrow> bool" where
  "tuple_less a b =
     (if theirIp a < theirIp b then True
      else if theirIp a = theirIp b then
        (if myPort a < myPort b then True
         else if myPort a = myPort b then (if theirPort a < theirPort b then True else False)
         else False)
      else False)"

instantiation threeTupleInternal :: linorder
begin

definition less_threeTupleInternal :: "threeTupleInternal \<Rightarrow> threeTupleInternal \<Rightarrow> bool" where
  "a < b \<longleftrightarrow> tuple_less a b"

definition less_eq_threeTupleInternal :: "threeTupleInternal \<Rightarrow> threeTupleInternal \<Rightarrow> bool" where
  "a \<le> b \<longleftrightarrow> a = b \<or> tuple_less a b"

instance
  by intro_classes
     (auto simp: less_threeTupleInternal_def less_eq_threeTupleInternal_def tuple_less_def
       threeTupleInternal.expand split: if_splits)

end

record sessionLookupQueryInternal =
  sqi_tuple :: threeTupleInternal
  sqi_allowCreation :: bool
  sqi_source :: lookupSource

record rtlSessionLookupRequest =
  rlq_key :: threeTupleInternal
  rlq_source :: lookupSource

record rtlSessionUpdateRequest =
  ruq_op :: lookupOp
  ruq_key :: threeTupleInternal
  ruq_value :: u16
  ruq_source :: lookupSource

record rtlSessionLookupReply =
  rlr_key :: threeTupleInternal
  rlr_sessionID :: u16
  rlr_hit :: bool
  rlr_source :: lookupSource

record rtlSessionUpdateReply =
  rur_op :: lookupOp
  rur_key :: threeTupleInternal
  rur_sessionID :: u16
  rur_success :: bool
  rur_source :: lookupSource

record revLupInsert =
  rli_key :: u16
  rli_value :: threeTupleInternal

datatype slcFsmStateType = LUP_REQ | LUP_RSP | UPD_RSP

record slookup_st =
  counter :: u14
  slc_insertTuples :: "threeTupleInternal list"
  slc_queryCache :: "sessionLookupQueryInternal list"
  slc_fsmState :: slcFsmStateType
  usedSessionIDs :: u16
  regSessionCount :: u16
  reverseLookupTable :: "u16 \<Rightarrow> threeTupleInternal"
  tupleValid :: "u16 \<Rightarrow> bool"
  slc_sessionIdFreeList :: "u14 list"
  slc_sessionIdFinFifo :: "u14 list"
  slc_sessionInsert_rsp :: "rtlSessionUpdateReply list"
  slc_sessionInsert_req :: "rtlSessionUpdateRequest list"
  slc_sessionDelete_req :: "rtlSessionUpdateRequest list"
  slc_reverseLupInsertFifo :: "revLupInsert list"
  sl_rxEng2sLookup_req :: "sessionLookupQuery list"
  sl_sLookup2rxEng_rsp :: "sessionLookupReply list"
  sl_stateTable2sLookup_releaseSession :: "u16 list"
  sl_sLookup2portTable_releasePort :: "u16 list"
  sl_txApp2sLookup_req :: "fourTuple list"
  sl_sLookup2txApp_rsp :: "sessionLookupReply list"
  sl_txEng2sLookup_rev_req :: "u16 list"
  sl_sLookup2txEng_rev_rsp :: "fourTuple list"
  sl_sessionLookup_req :: "rtlSessionLookupRequest list"
  sl_sessionLookup_rsp :: "rtlSessionLookupReply list"
  sl_sessionUpdate_req :: "rtlSessionUpdateRequest list"
  sl_sessionUpdate_rsp :: "rtlSessionUpdateReply list"

section \<open>The functions\<close>

definition sessionIdManager :: "toe_config \<Rightarrow> slookup_st \<Rightarrow> slookup_st" where
  "sessionIdManager cfg s =
     (case slc_sessionIdFinFifo s of
        i # q \<Rightarrow> s\<lparr> slc_sessionIdFinFifo := q, slc_sessionIdFreeList := slc_sessionIdFreeList s @ [i] \<rparr>
      | [] \<Rightarrow>
          (if unat (counter s) < unat (MAX_SESSIONS cfg)
           then s\<lparr> slc_sessionIdFreeList := slc_sessionIdFreeList s @ [counter s], counter := counter s + 1 \<rparr>
           else s))"

text \<open>The internal form of a connection, as the transmit application and as the RX engine name it.\<close>

definition tuple_of_txApp :: "fourTuple \<Rightarrow> threeTupleInternal" where
  "tuple_of_txApp t = ThreeTuple (ft_dstIp t) (ft_srcPort t) (ft_dstPort t)"

definition tuple_of_rxEng :: "fourTuple \<Rightarrow> threeTupleInternal" where
  "tuple_of_rxEng t = ThreeTuple (ft_srcIp t) (ft_dstPort t) (ft_srcPort t)"

definition slc_send_lookup :: "sessionLookupQueryInternal \<Rightarrow> slookup_st \<Rightarrow> slookup_st" where
  "slc_send_lookup q s =
     s\<lparr> sl_sessionLookup_req := sl_sessionLookup_req s @ [\<lparr> rlq_key = sqi_tuple q, rlq_source = sqi_source q \<rparr>],
        slc_queryCache := slc_queryCache s @ [q], slc_fsmState := LUP_RSP \<rparr>"

definition slc_reply :: "lookupSource \<Rightarrow> u16 \<Rightarrow> bool \<Rightarrow> slookup_st \<Rightarrow> slookup_st" where
  "slc_reply src i hit s =
     (if src = RX
      then s\<lparr> sl_sLookup2rxEng_rsp := sl_sLookup2rxEng_rsp s @ [\<lparr> slr_sessionID = i, slr_hit = hit \<rparr>] \<rparr>
      else s\<lparr> sl_sLookup2txApp_rsp := sl_sLookup2txApp_rsp s @ [\<lparr> slr_sessionID = i, slr_hit = hit \<rparr>] \<rparr>)"

definition lookupReplyHandler :: "slookup_st \<Rightarrow> slookup_st" where
  "lookupReplyHandler s =
     (case slc_fsmState s of
        LUP_REQ \<Rightarrow>
          (case sl_txApp2sLookup_req s of
             toeTuple # q \<Rightarrow>
               slc_send_lookup \<lparr> sqi_tuple = tuple_of_txApp toeTuple, sqi_allowCreation = True, sqi_source = TX_APP \<rparr>
                 (s\<lparr> sl_txApp2sLookup_req := q \<rparr>)
           | [] \<Rightarrow>
          (case sl_rxEng2sLookup_req s of
             query # q \<Rightarrow>
               slc_send_lookup \<lparr> sqi_tuple = tuple_of_rxEng (slq_tuple query),
                                 sqi_allowCreation = slq_allowCreation query, sqi_source = RX \<rparr>
                 (s\<lparr> sl_rxEng2sLookup_req := q \<rparr>)
           | [] \<Rightarrow> s))
      | LUP_RSP \<Rightarrow>
          (if sl_sessionLookup_rsp s \<noteq> [] \<and> slc_queryCache s \<noteq> [] then
             (let lupReply = hd (sl_sessionLookup_rsp s); intQuery = hd (slc_queryCache s);
                  s1 = s\<lparr> sl_sessionLookup_rsp := tl (sl_sessionLookup_rsp s),
                          slc_queryCache := tl (slc_queryCache s) \<rparr>
              in if \<not> rlr_hit lupReply \<and> sqi_allowCreation intQuery \<and> slc_sessionIdFreeList s \<noteq> []
                 then s1\<lparr> slc_sessionIdFreeList := tl (slc_sessionIdFreeList s),
                          slc_sessionInsert_req := slc_sessionInsert_req s @
                            [\<lparr> ruq_op = INSERT, ruq_key = sqi_tuple intQuery,
                               ruq_value = ucast (hd (slc_sessionIdFreeList s)), ruq_source = rlr_source lupReply \<rparr>],
                          slc_insertTuples := slc_insertTuples s @ [sqi_tuple intQuery],
                          slc_fsmState := UPD_RSP \<rparr>
                 else (slc_reply (rlr_source lupReply) (rlr_sessionID lupReply) (rlr_hit lupReply) s1)
                        \<lparr> slc_fsmState := LUP_REQ \<rparr>)
           else s)
      | UPD_RSP \<Rightarrow>
          (if slc_sessionInsert_rsp s \<noteq> [] \<and> slc_insertTuples s \<noteq> [] then
             (let insertReply = hd (slc_sessionInsert_rsp s); tuple = hd (slc_insertTuples s);
                  s1 = s\<lparr> slc_sessionInsert_rsp := tl (slc_sessionInsert_rsp s),
                          slc_insertTuples := tl (slc_insertTuples s) \<rparr>
              in (slc_reply (rur_source insertReply) (rur_sessionID insertReply) True s1)
                   \<lparr> slc_reverseLupInsertFifo := slc_reverseLupInsertFifo s @
                       [\<lparr> rli_key = rur_sessionID insertReply, rli_value = tuple \<rparr>],
                     slc_fsmState := LUP_REQ \<rparr>)
           else s))"

definition updateRequestSender :: "slookup_st \<Rightarrow> slookup_st" where
  "updateRequestSender s =
     (case slc_sessionInsert_req s of
        r # q \<Rightarrow> s\<lparr> slc_sessionInsert_req := q, sl_sessionUpdate_req := sl_sessionUpdate_req s @ [r],
                     usedSessionIDs := usedSessionIDs s + 1, regSessionCount := usedSessionIDs s + 1 \<rparr>
      | [] \<Rightarrow>
     (case slc_sessionDelete_req s of
        r # q \<Rightarrow> s\<lparr> slc_sessionDelete_req := q, sl_sessionUpdate_req := sl_sessionUpdate_req s @ [r],
                     slc_sessionIdFinFifo := slc_sessionIdFinFifo s @ [ucast (ruq_value r)],
                     usedSessionIDs := usedSessionIDs s - 1, regSessionCount := usedSessionIDs s - 1 \<rparr>
      | [] \<Rightarrow> s))"

definition updateReplyHandler :: "slookup_st \<Rightarrow> slookup_st" where
  "updateReplyHandler s =
     (case sl_sessionUpdate_rsp s of
        r # q \<Rightarrow> (if rur_op r = INSERT
                   then s\<lparr> sl_sessionUpdate_rsp := q, slc_sessionInsert_rsp := slc_sessionInsert_rsp s @ [r] \<rparr>
                   else s\<lparr> sl_sessionUpdate_rsp := q \<rparr>)
      | [] \<Rightarrow> s)"

definition reverseLookupTableInterface :: "u32 \<Rightarrow> slookup_st \<Rightarrow> slookup_st" where
  "reverseLookupTableInterface myIpAddress s =
     (case slc_reverseLupInsertFifo s of
        ins # q \<Rightarrow> s\<lparr> slc_reverseLupInsertFifo := q,
          reverseLookupTable := (reverseLookupTable s)(rli_key ins := rli_value ins),
          tupleValid := (tupleValid s)(rli_key ins := True) \<rparr>
      | [] \<Rightarrow>
     (case sl_stateTable2sLookup_releaseSession s of
        i # q \<Rightarrow>
          (let s1 = s\<lparr> sl_stateTable2sLookup_releaseSession := q, tupleValid := (tupleValid s)(i := False) \<rparr>;
               releaseTuple = reverseLookupTable s i
           in if tupleValid s i
              then s1\<lparr> sl_sLookup2portTable_releasePort := sl_sLookup2portTable_releasePort s @ [myPort releaseTuple],
                       slc_sessionDelete_req := slc_sessionDelete_req s @
                         [\<lparr> ruq_op = DELETE, ruq_key = releaseTuple, ruq_value = i, ruq_source = RX \<rparr>] \<rparr>
              else s1)
      | [] \<Rightarrow>
     (case sl_txEng2sLookup_rev_req s of
        i # q \<Rightarrow> s\<lparr> sl_txEng2sLookup_rev_req := q,
          sl_sLookup2txEng_rev_rsp := sl_sLookup2txEng_rev_rsp s @
            [fourTuple_mk myIpAddress (theirIp (reverseLookupTable s i))
               (myPort (reverseLookupTable s i)) (theirPort (reverseLookupTable s i))] \<rparr>
      | [] \<Rightarrow> s)))"

definition session_lookup_controller :: "toe_config \<Rightarrow> u32 \<Rightarrow> slookup_st \<Rightarrow> slookup_st" where
  "session_lookup_controller cfg myIpAddress s =
     reverseLookupTableInterface myIpAddress (updateReplyHandler
       (sessionIdManager cfg (updateRequestSender (lookupReplyHandler s))))"

section \<open>The controller in its environment\<close>

definition slookup_init :: slookup_st where
  "slookup_init = \<lparr> counter = 0, slc_insertTuples = [], slc_queryCache = [], slc_fsmState = LUP_REQ,
     usedSessionIDs = 0, regSessionCount = 0, reverseLookupTable = (\<lambda>_. ThreeTuple 0 0 0),
     tupleValid = (\<lambda>_. False), slc_sessionIdFreeList = [], slc_sessionIdFinFifo = [],
     slc_sessionInsert_rsp = [], slc_sessionInsert_req = [], slc_sessionDelete_req = [],
     slc_reverseLupInsertFifo = [], sl_rxEng2sLookup_req = [], sl_sLookup2rxEng_rsp = [],
     sl_stateTable2sLookup_releaseSession = [], sl_sLookup2portTable_releasePort = [],
     sl_txApp2sLookup_req = [], sl_sLookup2txApp_rsp = [], sl_txEng2sLookup_rev_req = [],
     sl_sLookup2txEng_rev_rsp = [], sl_sessionLookup_req = [], sl_sessionLookup_rsp = [],
     sl_sessionUpdate_req = [], sl_sessionUpdate_rsp = [] \<rparr>"

text \<open>The functions run in any order.  The lookup memory answers an update request with the operation,
  the number and the source of the request, and a lookup request with anything; the clients send
  requests and take replies.\<close>

inductive sl_move :: "toe_config \<Rightarrow> slookup_st \<Rightarrow> slookup_st \<Rightarrow> bool" for cfg where
  sl_lookup: "sl_move cfg s (lookupReplyHandler s)"
| sl_sender: "sl_move cfg s (updateRequestSender s)"
| sl_manager: "sl_move cfg s (sessionIdManager cfg s)"
| sl_update: "sl_move cfg s (updateReplyHandler s)"
| sl_reverse: "sl_move cfg s (reverseLookupTableInterface ip s)"
| mem_update: "sl_sessionUpdate_req s = r # q \<Longrightarrow> sl_move cfg s (s\<lparr> sl_sessionUpdate_req := q,
     sl_sessionUpdate_rsp := sl_sessionUpdate_rsp s @ [\<lparr> rur_op = ruq_op r, rur_key = ruq_key r,
       rur_sessionID = ruq_value r, rur_success = ok, rur_source = ruq_source r \<rparr>] \<rparr>)"
| mem_lookup: "sl_sessionLookup_req s = r # q \<Longrightarrow> sl_move cfg s (s\<lparr> sl_sessionLookup_req := q,
     sl_sessionLookup_rsp := sl_sessionLookup_rsp s @ [\<lparr> rlr_key = rlq_key r, rlr_sessionID = i,
       rlr_hit = hit, rlr_source = rlq_source r \<rparr>] \<rparr>)"
| sl_clients: "sl_move cfg s (s\<lparr> sl_rxEng2sLookup_req := a, sl_sLookup2rxEng_rsp := b,
     sl_stateTable2sLookup_releaseSession := c, sl_sLookup2portTable_releasePort := d,
     sl_txApp2sLookup_req := e, sl_sLookup2txApp_rsp := f, sl_txEng2sLookup_rev_req := g,
     sl_sLookup2txEng_rev_rsp := h \<rparr>)"

section \<open>Conservation of the session numbers\<close>

text \<open>The numbers of the sessions that count as used: their insertion has been sent to the memory, is on
  its way back, is being entered into the reverse table, they are open, or their deletion waits.\<close>

definition used_ids :: "slookup_st \<Rightarrow> u16 multiset" where
  "used_ids s =
     mset (map ruq_value (filter (\<lambda>r. ruq_op r = INSERT) (sl_sessionUpdate_req s)))
     + mset (map rur_sessionID (filter (\<lambda>r. rur_op r = INSERT) (sl_sessionUpdate_rsp s)))
     + mset (map rur_sessionID (slc_sessionInsert_rsp s))
     + mset (map rli_key (slc_reverseLupInsertFifo s))
     + mset_set {i. tupleValid s i}
     + mset (map ruq_value (slc_sessionDelete_req s))"

definition all_ids :: "slookup_st \<Rightarrow> u16 multiset" where
  "all_ids s = mset (map ucast (slc_sessionIdFreeList s)) + mset (map ucast (slc_sessionIdFinFifo s))
     + mset (map ruq_value (slc_sessionInsert_req s)) + used_ids s"

definition issued_ids :: "u14 \<Rightarrow> u16 multiset" where
  "issued_ids c = mset (map of_nat [0..<unat c])"

definition sl_ops :: "slookup_st \<Rightarrow> bool" where
  "sl_ops s \<longleftrightarrow> list_all (\<lambda>r. ruq_op r = INSERT) (slc_sessionInsert_req s)
     \<and> list_all (\<lambda>r. ruq_op r = DELETE) (slc_sessionDelete_req s)"

definition sl_inv :: "toe_config \<Rightarrow> slookup_st \<Rightarrow> bool" where
  "sl_inv cfg s \<longleftrightarrow> all_ids s = issued_ids (counter s) \<and> unat (counter s) \<le> unat (MAX_SESSIONS cfg)
     \<and> sl_ops s \<and> usedSessionIDs s = of_nat (size (used_ids s)) \<and> regSessionCount s = usedSessionIDs s"

lemma of_nat_u16_iff: "n < 65536 \<Longrightarrow> (of_nat n :: u16) = i \<longleftrightarrow> n = unat i"
  by (auto simp: word_unat_eq_iff unat_of_nat)

lemma count_issued: "n \<le> 65536 \<Longrightarrow> count (mset (map of_nat [0..<n])) (i :: u16) = of_bool (unat i < n)"
proof (induction n)
  case (Suc n)
  then show ?case by (auto simp: of_nat_u16_iff)
qed simp

lemma count_issued_ids: "count (issued_ids c) i = of_bool (unat i < unat c)"
  unfolding issued_ids_def
  by (rule count_issued) (use unsigned_less [of c, where 'a = nat] in simp)

text \<open>A number that waits in one place is in no other.\<close>

lemma sl_inv_count: "sl_inv cfg s \<Longrightarrow> count (all_ids s) i \<le> 1"
  by (simp add: sl_inv_def count_issued_ids)

lemma sl_inv_bound: "sl_inv cfg s \<Longrightarrow> i \<in># all_ids s \<Longrightarrow> unat i < unat (counter s)"
  by (auto simp: sl_inv_def count_issued_ids simp flip: count_greater_zero_iff split: if_splits)

lemma ucast_ucast_14: "unat i < 16384 \<Longrightarrow> ucast (ucast (i :: u16) :: u14) = i"
  by (simp add: word_unat_eq_iff unsigned_ucast_eq unsigned_take_bit_eq take_bit_eq_mod unat_mod)

lemma issued_Suc: "unat c < 16383 \<Longrightarrow> issued_ids (c + 1) = add_mset (ucast c) (issued_ids c)"
proof -
  assume "unat c < 16383"
  then have "unat (c + 1) = Suc (unat c)" by (simp add: unat_word_ariths)
  moreover have "(of_nat (unat c) :: u16) = ucast c"
    using unsigned_less [of c, where 'a = nat]
    by (simp add: word_unat_eq_iff unat_of_nat unsigned_ucast_eq unsigned_take_bit_eq take_bit_eq_mod)
  ultimately show ?thesis by (simp add: issued_ids_def)
qed

lemma mset_set_valid:
  "\<not> f i \<Longrightarrow> mset_set {j. (f(i := True)) j} = add_mset i (mset_set {j. f j})"
  "f i \<Longrightarrow> add_mset i (mset_set {j. (f(i := False)) j}) = mset_set {j :: u16. f j}"
proof -
  assume "\<not> f i"
  then have "{j. (f(i := True)) j} = insert i {j. f j}" "i \<notin> {j. f j}" by auto
  then show "mset_set {j. (f(i := True)) j} = add_mset i (mset_set {j. f j})" by simp
next
  assume "f i"
  then have "{j. f j} = insert i {j. (f(i := False)) j}" "i \<notin> {j. (f(i := False)) j}" by auto
  then show "add_mset i (mset_set {j. (f(i := False)) j}) = mset_set {j. f j}" by (metis finite mset_set.insert)
qed

declare mset_filter [simp del]

lemma slc_reply_frame [simp]:
  "all_ids (slc_reply src i hit s) = all_ids s" "used_ids (slc_reply src i hit s) = used_ids s"
  "counter (slc_reply src i hit s) = counter s" "usedSessionIDs (slc_reply src i hit s) = usedSessionIDs s"
  "regSessionCount (slc_reply src i hit s) = regSessionCount s" "sl_ops (slc_reply src i hit s) = sl_ops s"
  by (simp_all add: slc_reply_def all_ids_def used_ids_def sl_ops_def)

lemma all_ids_lookup: "all_ids (lookupReplyHandler s) = all_ids s"
  by (cases "slc_fsmState s"; cases "slc_sessionInsert_rsp s"; cases "slc_insertTuples s";
      cases "slc_sessionIdFreeList s"; simp add: lookupReplyHandler_def slc_send_lookup_def slc_reply_def
        Let_def all_ids_def used_ids_def split: list.split; fail)

lemma size_used_ids_lookup: "size (used_ids (lookupReplyHandler s)) = size (used_ids s)"
  by (cases "slc_fsmState s"; cases "slc_sessionInsert_rsp s"; cases "slc_insertTuples s";
      simp add: lookupReplyHandler_def slc_send_lookup_def slc_reply_def Let_def used_ids_def split: list.split; fail)

lemma sl_lookup_frame [simp]:
  "counter (lookupReplyHandler s) = counter s" "usedSessionIDs (lookupReplyHandler s) = usedSessionIDs s"
  "regSessionCount (lookupReplyHandler s) = regSessionCount s"
  "sl_ops s \<Longrightarrow> sl_ops (lookupReplyHandler s)"
  by (cases "slc_fsmState s"; simp add: lookupReplyHandler_def slc_send_lookup_def slc_reply_def Let_def
      sl_ops_def split: list.split; fail)+

lemma sl_inv_lookup: "sl_inv cfg s \<Longrightarrow> sl_inv cfg (lookupReplyHandler s)"
  by (simp add: sl_inv_def all_ids_lookup size_used_ids_lookup)

lemma sl_inv_sender: 
  assumes "sl_inv cfg s" "unat (MAX_SESSIONS cfg) \<le> 16383"
  shows "sl_inv cfg (updateRequestSender s)"
proof (cases "slc_sessionInsert_req s")
  case (Cons r q)
  then show ?thesis using assms(1)
    by (auto simp: sl_inv_def all_ids_def used_ids_def sl_ops_def updateRequestSender_def)
next
  case Nil
  show ?thesis
  proof (cases "slc_sessionDelete_req s")
    case (Cons r q)
    have "ruq_value r \<in># all_ids s" using Cons by (simp add: all_ids_def used_ids_def)
    with sl_inv_bound [OF assms(1)] assms have "unat (ruq_value r) < 16384"
      by (fastforce simp: sl_inv_def)
    then show ?thesis using assms(1) Nil Cons
      by (auto simp: sl_inv_def all_ids_def used_ids_def sl_ops_def updateRequestSender_def ucast_ucast_14)
  qed (use assms Nil in \<open>simp add: updateRequestSender_def\<close>)
qed

lemma sl_inv_manager:
  assumes "sl_inv cfg s" "unat (MAX_SESSIONS cfg) \<le> 16383"
  shows "sl_inv cfg (sessionIdManager cfg s)"
proof (cases "slc_sessionIdFinFifo s")
  case Nil
  show ?thesis
  proof (cases "unat (counter s) < unat (MAX_SESSIONS cfg)")
    case True
    then have "unat (counter s) < 16383" using assms(2) by simp
    then have "issued_ids (counter s + 1) = add_mset (ucast (counter s)) (issued_ids (counter s))"
      "unat (counter s + 1) \<le> unat (MAX_SESSIONS cfg)"
      using True by (simp_all add: issued_Suc unat_word_ariths)
    with assms(1) Nil True show ?thesis
      by (simp add: sl_inv_def all_ids_def used_ids_def sl_ops_def sessionIdManager_def)
  qed (use assms Nil in \<open>simp add: sessionIdManager_def\<close>)
next
  case (Cons i q)
  with assms(1) show ?thesis
    by (simp add: sl_inv_def all_ids_def used_ids_def sl_ops_def sessionIdManager_def)
qed

lemma sl_inv_update: "sl_inv cfg s \<Longrightarrow> sl_inv cfg (updateReplyHandler s)"
  by (cases "sl_sessionUpdate_rsp s")
     (auto simp: sl_inv_def all_ids_def used_ids_def sl_ops_def updateReplyHandler_def)

lemma sl_inv_reverse:
  assumes "sl_inv cfg s"
  shows "sl_inv cfg (reverseLookupTableInterface ip s)"
proof (cases "slc_reverseLupInsertFifo s")
  case (Cons r q)
  have "\<not> tupleValid s (rli_key r)"
  proof
    assume "tupleValid s (rli_key r)"
    then have "count (mset_set {i. tupleValid s i}) (rli_key r) = 1" by simp
    then have "2 \<le> count (all_ids s) (rli_key r)" using Cons by (simp add: all_ids_def used_ids_def)
    with sl_inv_count [OF assms, of "rli_key r"] show False by simp
  qed
  from mset_set_valid(1) [of "tupleValid s", OF this] assms Cons show ?thesis
    by (simp add: sl_inv_def all_ids_def used_ids_def sl_ops_def reverseLookupTableInterface_def)
next
  case Nil
  show ?thesis
  proof (cases "sl_stateTable2sLookup_releaseSession s")
    case (Cons i q)
    show ?thesis
    proof (cases "tupleValid s i")
      case True
      from mset_set_valid(2) [of "tupleValid s", OF this, symmetric] assms Nil Cons True show ?thesis
        by (simp add: sl_inv_def all_ids_def used_ids_def sl_ops_def reverseLookupTableInterface_def Let_def)
    next
      case False
      then have "(tupleValid s)(i := False) = tupleValid s" by (simp add: fun_eq_iff)
      with assms Nil Cons False show ?thesis
        by (simp add: sl_inv_def all_ids_def used_ids_def sl_ops_def reverseLookupTableInterface_def Let_def)
    qed
  next
    case Nil2: Nil
    with Nil assms show ?thesis
      by (cases "sl_txEng2sLookup_rev_req s")
         (simp_all add: sl_inv_def all_ids_def used_ids_def sl_ops_def reverseLookupTableInterface_def)
  qed
qed

lemma sl_inv_memory:
  "sl_inv cfg s \<Longrightarrow> sl_sessionUpdate_req s = r # q \<Longrightarrow> sl_inv cfg (s\<lparr> sl_sessionUpdate_req := q,
     sl_sessionUpdate_rsp := sl_sessionUpdate_rsp s @ [\<lparr> rur_op = ruq_op r, rur_key = ruq_key r,
       rur_sessionID = ruq_value r, rur_success = ok, rur_source = ruq_source r \<rparr>] \<rparr>)"
  by (cases "ruq_op r") (simp_all add: sl_inv_def all_ids_def used_ids_def sl_ops_def)

lemma sl_inv_move:
  assumes "sl_move cfg s t" "unat (MAX_SESSIONS cfg) \<le> 16383" "sl_inv cfg s"
  shows "sl_inv cfg t"
  using assms
proof cases
  case (mem_update r q ok)
  with assms show ?thesis by (simp add: sl_inv_memory)
next
  case (mem_lookup r q i hit)
  with assms show ?thesis by (simp add: sl_inv_def all_ids_def used_ids_def sl_ops_def)
next
  case (sl_clients a b c d e f g h)
  with assms show ?thesis by (simp add: sl_inv_def all_ids_def used_ids_def sl_ops_def)
qed (simp_all add: sl_inv_lookup sl_inv_sender sl_inv_manager sl_inv_update sl_inv_reverse)

declare mset_filter [simp]

text \<open>The configurations in which a session number fits the 14-bit counter.\<close>

definition sl_system :: "toe_config \<Rightarrow> slookup_st \<Rightarrow> slookup_st \<Rightarrow> bool" where
  "sl_system cfg s t \<longleftrightarrow> unat (MAX_SESSIONS cfg) \<le> 16383 \<and> sl_move cfg s t"

interpretation sl_sys: invariant_system "\<lambda>s. s = slookup_init" "sl_system cfg" "sl_inv cfg" for cfg
proof unfold_locales
  show "sl_inv cfg s" if "s = slookup_init" for s
    using that by (simp add: sl_inv_def all_ids_def used_ids_def sl_ops_def issued_ids_def slookup_init_def)
  show "sl_inv cfg t" if "sl_inv cfg s" "sl_system cfg s t" for s t
    using that by (auto simp: sl_system_def intro: sl_inv_move)
qed

text \<open>
  (C33) No session number is lost or duplicated.  In every state that the five functions, in any order,
  the lookup memory and the clients can reach, the numbers 0 to counter-1 that were ever generated are
  each in exactly one place: in the free list, on the way to or from the lookup memory, in the reverse
  table, or on the way back to the free list.
\<close>

theorem session_ids_conserved:
  assumes "reachable (\<lambda>s. s = slookup_init) (sl_system cfg) s"
  shows "all_ids s = mset (map of_nat [0..<unat (counter s)])
    \<and> unat (counter s) \<le> unat (MAX_SESSIONS cfg)"
  using sl_sys.invar_reachable [OF assms] by (simp add: sl_inv_def issued_ids_def)

text \<open>
  (C34) A new session does not get the number of a live one.  Whenever the lookup handler answers a miss
  by requesting the insertion of a new connection, the number it takes from the free list is below
  \<^verbatim>\<open>MAX_SESSIONS\<close>, is not valid in the reverse table, is used by no other insertion under way and has no
  deletion pending.
\<close>

theorem new_session_id_unused:
  assumes "reachable (\<lambda>s. s = slookup_init) (sl_system cfg) s"
    and "slc_sessionInsert_req (lookupReplyHandler s) = slc_sessionInsert_req s @ [r]"
  shows "unat (ruq_value r) < unat (MAX_SESSIONS cfg) \<and> \<not> tupleValid s (ruq_value r)
    \<and> ruq_value r \<notin># used_ids s \<and> ruq_value r \<notin> set (map ruq_value (slc_sessionInsert_req s))"
proof -
  have inv: "sl_inv cfg s" by (rule sl_sys.invar_reachable [OF assms(1)])
  obtain i q where i: "slc_sessionIdFreeList s = i # q" "ruq_value r = ucast i"
    using assms(2)
    by (auto simp: lookupReplyHandler_def slc_send_lookup_def slc_reply_def Let_def neq_Nil_conv
        split: slcFsmStateType.splits list.splits if_splits)
  have one: "count (all_ids s) (ruq_value r) = Suc (count (mset (map ucast q)) (ruq_value r)
      + count (mset (map ucast (slc_sessionIdFinFifo s))) (ruq_value r)
      + count (mset (map ruq_value (slc_sessionInsert_req s))) (ruq_value r) + count (used_ids s) (ruq_value r))"
    by (simp add: all_ids_def i)
  with sl_inv_count [OF inv, of "ruq_value r"]
  have none: "count (used_ids s) (ruq_value r) = 0" "count (mset (map ruq_value (slc_sessionInsert_req s))) (ruq_value r) = 0"
    by simp_all
  have "\<not> tupleValid s (ruq_value r)"
  proof
    assume "tupleValid s (ruq_value r)"
    then have "count (mset_set {i. tupleValid s i}) (ruq_value r) = 1" by simp
    with none(1) show False by (simp add: used_ids_def)
  qed
  moreover have "unat (ruq_value r) < unat (counter s)"
    using one by (intro sl_inv_bound [OF inv]) (simp flip: count_greater_zero_iff)
  ultimately show ?thesis
    using inv none by (auto simp: sl_inv_def count_eq_zero_iff)
qed

text \<open>
  The session count register counts the sessions.  In every reachable state \<^verbatim>\<open>regSessionCount\<close> is
  the number of the connections whose insertion has been sent to the lookup memory and whose deletion
  has not.
\<close>

theorem session_count_correct:
  assumes "reachable (\<lambda>s. s = slookup_init) (sl_system cfg) s"
  shows "unat (regSessionCount s) = size (used_ids s)"
proof -
  have inv: "sl_inv cfg s" by (rule sl_sys.invar_reachable [OF assms])
  have "size (used_ids s) \<le> size (all_ids s)" by (simp add: all_ids_def)
  also have "\<dots> = unat (counter s)" using inv by (simp add: sl_inv_def issued_ids_def)
  also have "\<dots> < 65536" using unsigned_less [of "counter s", where 'a = nat] by simp
  finally show ?thesis using inv by (simp add: sl_inv_def unat_of_nat)
qed

section \<open>Forward and reverse mapping\<close>

text \<open>
  Forward and reverse mapping agree.  After the reverse table has taken in the number of a new
  connection, the TX engine's reverse request yields the four-tuple that the connection has from this
  side: the transmit application's name of the connection and, with source and destination exchanged,
  the RX engine's name both stand for the inserted key, and the source address is the own one.
\<close>

theorem reverse_lookup_roundtrip:
  assumes "slc_reverseLupInsertFifo s = [\<lparr> rli_key = i, rli_value = key \<rparr>]"
    and "sl_stateTable2sLookup_releaseSession s = []" and "sl_txEng2sLookup_rev_req s = [i]"
  shows "\<exists>t. sl_sLookup2txEng_rev_rsp ((reverseLookupTableInterface ip ^^ 2) s) = sl_sLookup2txEng_rev_rsp s @ [t]
    \<and> ft_srcIp t = ip \<and> tuple_of_txApp t = key
    \<and> tuple_of_rxEng (fourTuple_mk (ft_dstIp t) (ft_srcIp t) (ft_dstPort t) (ft_srcPort t)) = key
    \<and> tupleValid ((reverseLookupTableInterface ip ^^ 2) s) i"
  using assms
  by (simp add: numeral_2_eq_2 reverseLookupTableInterface_def fourTuple_mk_def tuple_of_txApp_def
      tuple_of_rxEng_def)

text \<open>
  Releasing a session.  The release of an open session by the state table sends the connection's own
  port to the port table and exactly one deletion of the connection under its number, and closes the
  entry; releasing it again sends nothing.
\<close>

theorem release_session_once:
  assumes "slc_reverseLupInsertFifo s = []" and "sl_stateTable2sLookup_releaseSession s = [i, i]"
    and "tupleValid s i" and "t = (reverseLookupTableInterface ip ^^ 2) s"
  shows "sl_sLookup2portTable_releasePort t = sl_sLookup2portTable_releasePort s @ [myPort (reverseLookupTable s i)]
    \<and> slc_sessionDelete_req t = slc_sessionDelete_req s @ [\<lparr> ruq_op = DELETE,
         ruq_key = reverseLookupTable s i, ruq_value = i, ruq_source = RX \<rparr>]
    \<and> \<not> tupleValid t i"
  using assms by (simp add: numeral_2_eq_2 reverseLookupTableInterface_def Let_def)

text \<open>
  A failed insertion is reported as a success.  The reply of the lookup memory to an insertion
  carries a success flag; the handler does not read it and answers the client with a hit under the new
  number, and enters the number into the reverse table, also when the memory refused the insertion.
\<close>

theorem failed_insert_reported_as_hit:
  assumes "slc_fsmState s = UPD_RSP" and "slc_sessionInsert_rsp s = r # q" and "slc_insertTuples s = t # ts"
    and "\<not> rur_success r" and "rur_source r = RX"
  shows "sl_sLookup2rxEng_rsp (lookupReplyHandler s) = sl_sLookup2rxEng_rsp s @
      [\<lparr> slr_sessionID = rur_sessionID r, slr_hit = True \<rparr>]
    \<and> slc_reverseLupInsertFifo (lookupReplyHandler s) = slc_reverseLupInsertFifo s @
      [\<lparr> rli_key = rur_sessionID r, rli_value = t \<rparr>]"
  using assms by (simp add: lookupReplyHandler_def slc_reply_def Let_def)

section \<open>Concrete runs\<close>

lemma default_sl_run:
  "sl_move default_config s t \<Longrightarrow> reachable (\<lambda>s. s = slookup_init) (sl_system default_config) s \<Longrightarrow>
   reachable (\<lambda>s. s = slookup_init) (sl_system default_config) t"
  by (rule reachable_step) (simp_all add: sl_system_def default_config_def)

text \<open>One number generated, a request of the transmit application taken and answered with a miss.\<close>

definition slookup_ex1 :: slookup_st where
  "slookup_ex1 = sessionIdManager default_config slookup_init"

definition slookup_ex2 :: slookup_st where
  "slookup_ex2 = lookupReplyHandler (slookup_ex1\<lparr> sl_txApp2sLookup_req := [fourTuple_mk 1 2 3 4] \<rparr>)"

definition slookup_ex3 :: slookup_st where
  "slookup_ex3 = slookup_ex2\<lparr> sl_sessionLookup_req := [],
     sl_sessionLookup_rsp := [\<lparr> rlr_key = ThreeTuple 2 3 4, rlr_sessionID = 0, rlr_hit = False, rlr_source = TX_APP \<rparr>] \<rparr>"

lemmas slookup_ex_defs = slookup_ex1_def slookup_ex2_def slookup_ex3_def slookup_init_def default_config_def
  sessionIdManager_def lookupReplyHandler_def slc_send_lookup_def tuple_of_txApp_def fourTuple_mk_def

lemma slookup_ex3_reachable: "reachable (\<lambda>s. s = slookup_init) (sl_system default_config) slookup_ex3"
proof -
  let ?r = "reachable (\<lambda>s. s = slookup_init) (sl_system default_config)"
  have "?r slookup_init" by (rule reachable_init) simp
  then have "?r slookup_ex1"
    unfolding slookup_ex1_def by (rule default_sl_run [OF sl_manager])
  moreover have "sl_move default_config slookup_ex1 (slookup_ex1\<lparr> sl_txApp2sLookup_req := [fourTuple_mk 1 2 3 4] \<rparr>)"
    using sl_clients [where cfg = default_config and s = slookup_ex1 and a = "[]" and b = "[]" and c = "[]"
        and d = "[]" and e = "[fourTuple_mk 1 2 3 4]" and f = "[]" and g = "[]" and h = "[]"]
    by (simp add: slookup_ex_defs)
  ultimately have "?r (slookup_ex1\<lparr> sl_txApp2sLookup_req := [fourTuple_mk 1 2 3 4] \<rparr>)"
    by (rule default_sl_run [rotated])
  then have "?r slookup_ex2" unfolding slookup_ex2_def by (rule default_sl_run [OF sl_lookup])
  moreover have "sl_move default_config slookup_ex2 slookup_ex3"
    using mem_lookup [of slookup_ex2 "\<lparr> rlq_key = ThreeTuple 2 3 4, rlq_source = TX_APP \<rparr>" "[]" default_config 0 False]
    by (simp add: slookup_ex_defs)
  ultimately show ?thesis by (rule default_sl_run [rotated])
qed

theorem session_ids_conserved_witness: "all_ids slookup_ex3 = {# 0 #}"
  using session_ids_conserved [OF slookup_ex3_reachable] by (simp add: slookup_ex_defs)

theorem new_session_id_unused_witness:
  "ruq_value (hd (slc_sessionInsert_req (lookupReplyHandler slookup_ex3))) \<notin># used_ids slookup_ex3"
  using new_session_id_unused [OF slookup_ex3_reachable,
      of "\<lparr> ruq_op = INSERT, ruq_key = ThreeTuple 2 3 4, ruq_value = 0, ruq_source = TX_APP \<rparr>"]
  by (simp add: slookup_ex_defs)

theorem session_count_correct_witness: "unat (regSessionCount slookup_ex3) = size (used_ids slookup_ex3)"
  by (rule session_count_correct [OF slookup_ex3_reachable])

theorem reverse_lookup_roundtrip_witness:
  "\<exists>t. sl_sLookup2txEng_rev_rsp ((reverseLookupTableInterface 9 ^^ 2) (slookup_init\<lparr>
       slc_reverseLupInsertFifo := [\<lparr> rli_key = 6, rli_value = ThreeTuple 2 3 4 \<rparr>],
       sl_txEng2sLookup_rev_req := [6] \<rparr>)) = [t] \<and> tuple_of_txApp t = ThreeTuple 2 3 4"
  using reverse_lookup_roundtrip [of "slookup_init\<lparr>
       slc_reverseLupInsertFifo := [\<lparr> rli_key = 6, rli_value = ThreeTuple 2 3 4 \<rparr>],
       sl_txEng2sLookup_rev_req := [6] \<rparr>" 6 "ThreeTuple 2 3 4" 9]
  by (auto simp: slookup_init_def)

theorem release_session_once_witness:
  "sl_sLookup2portTable_releasePort ((reverseLookupTableInterface 9 ^^ 2) (slookup_init\<lparr>
       tupleValid := (\<lambda>i. i = 6), reverseLookupTable := (\<lambda>_. ThreeTuple 2 3 4),
       sl_stateTable2sLookup_releaseSession := [6, 6] \<rparr>)) = [3]"
  using release_session_once [of "slookup_init\<lparr>
       tupleValid := (\<lambda>i. i = 6), reverseLookupTable := (\<lambda>_. ThreeTuple 2 3 4),
       sl_stateTable2sLookup_releaseSession := [6, 6] \<rparr>" 6, OF _ _ _ refl]
  by (simp add: slookup_init_def)

theorem failed_insert_reported_as_hit_witness:
  "sl_sLookup2rxEng_rsp (lookupReplyHandler (slookup_init\<lparr> slc_fsmState := UPD_RSP,
      slc_insertTuples := [ThreeTuple 2 3 4], slc_sessionInsert_rsp := [\<lparr> rur_op = INSERT,
        rur_key = ThreeTuple 2 3 4, rur_sessionID = 6, rur_success = False, rur_source = RX \<rparr>] \<rparr>))
    = [\<lparr> slr_sessionID = 6, slr_hit = True \<rparr>]"
  using failed_insert_reported_as_hit [of "slookup_init\<lparr> slc_fsmState := UPD_RSP,
      slc_insertTuples := [ThreeTuple 2 3 4], slc_sessionInsert_rsp := [\<lparr> rur_op = INSERT,
        rur_key = ThreeTuple 2 3 4, rur_sessionID = 6, rur_success = False, rur_source = RX \<rparr>] \<rparr>"]
  by (simp add: slookup_init_def)

end
