(* ===== verification/State_Table.thy ===== *)
theory State_Table
  imports Toe_Types
begin

text \<open>
  The connection state table (\<^verbatim>\<open>state_table/state_table.cpp\<close>): the TCP state of every session, with a
  lock per client.  A read by the RX engine or by the transmit application interface locks the
  session until that client writes it back; an access by the other client or by the timers to a
  locked session waits.

  \<open>state_table\<close> is one invocation.  The step relations add the environment: requests arrive and
  replies are taken at any time.  The lemmas show that the two locks never cover the same session,
  that a session locked by one client is not changed by anybody else, that the owner's write-back is
  never delayed, and that a released session is a closed one.
\<close>

record state_table_st =
  stt_table :: "u16 \<Rightarrow> sessionState"
  stt_txSessionID :: u16
  stt_rxSessionID :: u16
  stt_rxSessionLocked :: bool
  stt_txSessionLocked :: bool
  stt_txAccess :: stateQuery
  stt_rxAccess :: stateQuery
  stt_txWait :: bool
  stt_rxWait :: bool
  stt_closeSessionID :: u16
  stt_closeWait :: bool
  st_rxEng2stateTable_upd_req :: "stateQuery list"
  st_txApp2stateTable_upd_req :: "stateQuery list"
  st_txApp2stateTable_req :: "u16 list"
  st_timer2stateTable_releaseState :: "u16 list"
  st_stateTable2rxEng_upd_rsp :: "sessionState list"
  st_stateTable2TxApp_upd_rsp :: "sessionState list"
  st_stateTable2txApp_rsp :: "sessionState list"
  st_stateTable2sLookup_releaseSession :: "u16 list"

section \<open>The module\<close>

text \<open>The lock conditions of the code.\<close>

definition rx_holds :: "state_table_st \<Rightarrow> u16 \<Rightarrow> bool" where
  "rx_holds s i \<longleftrightarrow> i = stt_rxSessionID s \<and> stt_rxSessionLocked s"

definition tx_holds :: "state_table_st \<Rightarrow> u16 \<Rightarrow> bool" where
  "tx_holds s i \<longleftrightarrow> i = stt_txSessionID s \<and> stt_txSessionLocked s"

definition tx_access :: "state_table_st \<Rightarrow> state_table_st" where
  "tx_access s =
     (let q = stt_txAccess s
      in if sq_write q
         then s\<lparr> stt_table := (stt_table s)(sq_sessionID q := sq_state q),
                 stt_txSessionLocked := False \<rparr>
         else s\<lparr> st_stateTable2TxApp_upd_rsp :=
                   st_stateTable2TxApp_upd_rsp s @ [stt_table s (sq_sessionID q)],
                 stt_txSessionID := sq_sessionID q, stt_txSessionLocked := True \<rparr>)"

definition rx_access :: "state_table_st \<Rightarrow> state_table_st" where
  "rx_access s =
     (let q = stt_rxAccess s
      in if sq_write q
         then s\<lparr> st_stateTable2sLookup_releaseSession :=
                   (if sq_state q = CLOSED
                    then st_stateTable2sLookup_releaseSession s @ [sq_sessionID q]
                    else st_stateTable2sLookup_releaseSession s),
                 stt_table := (stt_table s)(sq_sessionID q := sq_state q),
                 stt_rxSessionLocked := False \<rparr>
         else s\<lparr> st_stateTable2rxEng_upd_rsp :=
                   st_stateTable2rxEng_upd_rsp s @ [stt_table s (sq_sessionID q)],
                 stt_rxSessionID := sq_sessionID q, stt_rxSessionLocked := True \<rparr>)"

definition close_access :: "state_table_st \<Rightarrow> state_table_st" where
  "close_access s =
     s\<lparr> stt_table := (stt_table s)(stt_closeSessionID s := CLOSED),
        st_stateTable2sLookup_releaseSession :=
          st_stateTable2sLookup_releaseSession s @ [stt_closeSessionID s] \<rparr>"

definition state_table :: "state_table_st \<Rightarrow> state_table_st" where
  "state_table s =
     (if st_txApp2stateTable_upd_req s \<noteq> [] \<and> \<not> stt_txWait s then
        (let s1 = s\<lparr> stt_txAccess := hd (st_txApp2stateTable_upd_req s),
                     st_txApp2stateTable_upd_req := tl (st_txApp2stateTable_upd_req s) \<rparr>
         in if rx_holds s1 (sq_sessionID (stt_txAccess s1)) then s1\<lparr> stt_txWait := True \<rparr>
            else tx_access s1)
      else if st_txApp2stateTable_req s \<noteq> [] then
        s\<lparr> st_txApp2stateTable_req := tl (st_txApp2stateTable_req s),
           st_stateTable2txApp_rsp := st_stateTable2txApp_rsp s @
             [stt_table s (hd (st_txApp2stateTable_req s))] \<rparr>
      else if st_rxEng2stateTable_upd_req s \<noteq> [] \<and> \<not> stt_rxWait s then
        (let s1 = s\<lparr> stt_rxAccess := hd (st_rxEng2stateTable_upd_req s),
                     st_rxEng2stateTable_upd_req := tl (st_rxEng2stateTable_upd_req s) \<rparr>
         in if tx_holds s1 (sq_sessionID (stt_rxAccess s1)) then s1\<lparr> stt_rxWait := True \<rparr>
            else rx_access s1)
      else if st_timer2stateTable_releaseState s \<noteq> [] \<and> \<not> stt_closeWait s then
        (let s1 = s\<lparr> stt_closeSessionID := hd (st_timer2stateTable_releaseState s),
                     st_timer2stateTable_releaseState := tl (st_timer2stateTable_releaseState s) \<rparr>
         in if rx_holds s1 (stt_closeSessionID s1) \<or> tx_holds s1 (stt_closeSessionID s1)
            then s1\<lparr> stt_closeWait := True \<rparr>
            else close_access s1)
      else if stt_txWait s then
        (if \<not> rx_holds s (sq_sessionID (stt_txAccess s)) then (tx_access s)\<lparr> stt_txWait := False \<rparr>
         else s)
      else if stt_rxWait s then
        (if \<not> tx_holds s (sq_sessionID (stt_rxAccess s)) then (rx_access s)\<lparr> stt_rxWait := False \<rparr>
         else s)
      else if stt_closeWait s then
        (if \<not> rx_holds s (stt_closeSessionID s) \<and> \<not> tx_holds s (stt_closeSessionID s)
         then (close_access s)\<lparr> stt_closeWait := False \<rparr>
         else s)
      else s)"

definition state_table_init :: state_table_st where
  "state_table_init = \<lparr> stt_table = (\<lambda>_. CLOSED), stt_txSessionID = 0, stt_rxSessionID = 0,
     stt_rxSessionLocked = False, stt_txSessionLocked = False, stt_txAccess = stateQuery_read 0,
     stt_rxAccess = stateQuery_read 0, stt_txWait = False, stt_rxWait = False,
     stt_closeSessionID = 0, stt_closeWait = False, st_rxEng2stateTable_upd_req = [],
     st_txApp2stateTable_upd_req = [], st_txApp2stateTable_req = [],
     st_timer2stateTable_releaseState = [], st_stateTable2rxEng_upd_rsp = [],
     st_stateTable2TxApp_upd_rsp = [], st_stateTable2txApp_rsp = [],
     st_stateTable2sLookup_releaseSession = [] \<rparr>"

lemmas state_table_defs = state_table_def tx_access_def rx_access_def close_access_def
  rx_holds_def tx_holds_def Let_def

section \<open>The module in its environment\<close>

text \<open>What the environment can do between two invocations, the RX engine's and the transmit
  application's requests apart: timer and stream requests arrive, replies are taken.\<close>

inductive stt_env :: "state_table_st \<Rightarrow> state_table_st \<Rightarrow> bool" where
  env_req: "stt_env s (s\<lparr> st_txApp2stateTable_req := st_txApp2stateTable_req s @ [i] \<rparr>)"
| env_timer: "stt_env s (s\<lparr> st_timer2stateTable_releaseState := st_timer2stateTable_releaseState s @ [i] \<rparr>)"
| env_rx_rsp: "stt_env s (s\<lparr> st_stateTable2rxEng_upd_rsp := tl (st_stateTable2rxEng_upd_rsp s) \<rparr>)"
| env_tx_rsp: "stt_env s (s\<lparr> st_stateTable2TxApp_upd_rsp := tl (st_stateTable2TxApp_upd_rsp s) \<rparr>)"
| env_rsp: "stt_env s (s\<lparr> st_stateTable2txApp_rsp := tl (st_stateTable2txApp_rsp s) \<rparr>)"
| env_release: "stt_env s (s\<lparr> st_stateTable2sLookup_releaseSession :=
     tl (st_stateTable2sLookup_releaseSession s) \<rparr>)"

inductive rx_arrives :: "state_table_st \<Rightarrow> state_table_st \<Rightarrow> bool" where
  "rx_arrives s (s\<lparr> st_rxEng2stateTable_upd_req := st_rxEng2stateTable_upd_req s @ [q] \<rparr>)"

inductive tx_arrives :: "state_table_st \<Rightarrow> state_table_st \<Rightarrow> bool" where
  "tx_arrives s (s\<lparr> st_txApp2stateTable_upd_req := st_txApp2stateTable_upd_req s @ [q] \<rparr>)"

text \<open>Moves of everybody but the RX engine, of everybody but the transmit application, and of all.\<close>

definition stt_move_norx :: "state_table_st \<Rightarrow> state_table_st \<Rightarrow> bool" where
  "stt_move_norx s t \<longleftrightarrow> t = state_table s \<or> stt_env s t \<or> tx_arrives s t"

definition stt_move_notx :: "state_table_st \<Rightarrow> state_table_st \<Rightarrow> bool" where
  "stt_move_notx s t \<longleftrightarrow> t = state_table s \<or> stt_env s t \<or> rx_arrives s t"

definition stt_move :: "state_table_st \<Rightarrow> state_table_st \<Rightarrow> bool" where
  "stt_move s t \<longleftrightarrow> t = state_table s \<or> stt_env s t \<or> rx_arrives s t \<or> tx_arrives s t"

inductive_simps stt_env_simps: "stt_env s t"
inductive_simps rx_arrives_simps: "rx_arrives s t"
inductive_simps tx_arrives_simps: "tx_arrives s t"

lemmas stt_move_simps = stt_move_def stt_move_norx_def stt_move_notx_def stt_env_simps
  rx_arrives_simps tx_arrives_simps

section \<open>Mutual exclusion\<close>

definition locks_disjoint :: "state_table_st \<Rightarrow> bool" where
  "locks_disjoint s \<longleftrightarrow> \<not> (\<exists>i. rx_holds s i \<and> tx_holds s i)"

text \<open>The lock conditions read the four lock registers only.\<close>

lemma rx_holds_upd [simp]:
  "rx_holds (s\<lparr> stt_table := t \<rparr>) i = rx_holds s i"
  "rx_holds (s\<lparr> stt_txAccess := a \<rparr>) i = rx_holds s i"
  "rx_holds (s\<lparr> stt_rxAccess := a \<rparr>) i = rx_holds s i"
  "rx_holds (s\<lparr> stt_txWait := b \<rparr>) i = rx_holds s i"
  "rx_holds (s\<lparr> stt_rxWait := b \<rparr>) i = rx_holds s i"
  "rx_holds (s\<lparr> stt_closeSessionID := k \<rparr>) i = rx_holds s i"
  "rx_holds (s\<lparr> stt_closeWait := b \<rparr>) i = rx_holds s i"
  "rx_holds (s\<lparr> stt_txSessionID := k \<rparr>) i = rx_holds s i"
  "rx_holds (s\<lparr> stt_txSessionLocked := b \<rparr>) i = rx_holds s i"
  "rx_holds (s\<lparr> st_rxEng2stateTable_upd_req := qs \<rparr>) i = rx_holds s i"
  "rx_holds (s\<lparr> st_txApp2stateTable_upd_req := qs \<rparr>) i = rx_holds s i"
  "rx_holds (s\<lparr> st_txApp2stateTable_req := is \<rparr>) i = rx_holds s i"
  "rx_holds (s\<lparr> st_timer2stateTable_releaseState := is \<rparr>) i = rx_holds s i"
  "rx_holds (s\<lparr> st_stateTable2rxEng_upd_rsp := rs \<rparr>) i = rx_holds s i"
  "rx_holds (s\<lparr> st_stateTable2TxApp_upd_rsp := rs \<rparr>) i = rx_holds s i"
  "rx_holds (s\<lparr> st_stateTable2txApp_rsp := rs \<rparr>) i = rx_holds s i"
  "rx_holds (s\<lparr> st_stateTable2sLookup_releaseSession := is \<rparr>) i = rx_holds s i"
  by (simp_all add: rx_holds_def)

lemma tx_holds_upd [simp]:
  "tx_holds (s\<lparr> stt_table := t \<rparr>) i = tx_holds s i"
  "tx_holds (s\<lparr> stt_txAccess := a \<rparr>) i = tx_holds s i"
  "tx_holds (s\<lparr> stt_rxAccess := a \<rparr>) i = tx_holds s i"
  "tx_holds (s\<lparr> stt_txWait := b \<rparr>) i = tx_holds s i"
  "tx_holds (s\<lparr> stt_rxWait := b \<rparr>) i = tx_holds s i"
  "tx_holds (s\<lparr> stt_closeSessionID := k \<rparr>) i = tx_holds s i"
  "tx_holds (s\<lparr> stt_closeWait := b \<rparr>) i = tx_holds s i"
  "tx_holds (s\<lparr> stt_rxSessionID := k \<rparr>) i = tx_holds s i"
  "tx_holds (s\<lparr> stt_rxSessionLocked := b \<rparr>) i = tx_holds s i"
  "tx_holds (s\<lparr> st_rxEng2stateTable_upd_req := qs \<rparr>) i = tx_holds s i"
  "tx_holds (s\<lparr> st_txApp2stateTable_upd_req := qs \<rparr>) i = tx_holds s i"
  "tx_holds (s\<lparr> st_txApp2stateTable_req := is \<rparr>) i = tx_holds s i"
  "tx_holds (s\<lparr> st_timer2stateTable_releaseState := is \<rparr>) i = tx_holds s i"
  "tx_holds (s\<lparr> st_stateTable2rxEng_upd_rsp := rs \<rparr>) i = tx_holds s i"
  "tx_holds (s\<lparr> st_stateTable2TxApp_upd_rsp := rs \<rparr>) i = tx_holds s i"
  "tx_holds (s\<lparr> st_stateTable2txApp_rsp := rs \<rparr>) i = tx_holds s i"
  "tx_holds (s\<lparr> st_stateTable2sLookup_releaseSession := is \<rparr>) i = tx_holds s i"
  by (simp_all add: tx_holds_def)

text \<open>Who holds what after an access.\<close>

lemma holds_tx_access [simp]:
  "rx_holds (tx_access s) i = rx_holds s i"
  "tx_holds (tx_access s) i = (\<not> sq_write (stt_txAccess s) \<and> i = sq_sessionID (stt_txAccess s))"
  by (simp_all add: tx_access_def Let_def rx_holds_def) (simp add: tx_holds_def)

lemma holds_rx_access [simp]:
  "tx_holds (rx_access s) i = tx_holds s i"
  "rx_holds (rx_access s) i = (\<not> sq_write (stt_rxAccess s) \<and> i = sq_sessionID (stt_rxAccess s))"
  by (simp_all add: rx_access_def Let_def tx_holds_def) (simp add: rx_holds_def)

lemma holds_close_access [simp]:
  "tx_holds (close_access s) i = tx_holds s i" "rx_holds (close_access s) i = rx_holds s i"
  by (simp_all add: close_access_def)

text \<open>The table after an access.\<close>

lemma table_access:
  "stt_table (tx_access s) i =
     (if sq_write (stt_txAccess s) \<and> i = sq_sessionID (stt_txAccess s) then sq_state (stt_txAccess s)
      else stt_table s i)"
  "stt_table (rx_access s) i =
     (if sq_write (stt_rxAccess s) \<and> i = sq_sessionID (stt_rxAccess s) then sq_state (stt_rxAccess s)
      else stt_table s i)"
  "stt_table (close_access s) i = (if i = stt_closeSessionID s then CLOSED else stt_table s i)"
  by (simp_all add: tx_access_def rx_access_def close_access_def Let_def)

lemma access_other [simp]:
  "st_rxEng2stateTable_upd_req (tx_access s) = st_rxEng2stateTable_upd_req s"
  "st_txApp2stateTable_upd_req (tx_access s) = st_txApp2stateTable_upd_req s"
  "st_txApp2stateTable_req (tx_access s) = st_txApp2stateTable_req s"
  "st_timer2stateTable_releaseState (tx_access s) = st_timer2stateTable_releaseState s"
  "stt_rxWait (tx_access s) = stt_rxWait s" "stt_txWait (tx_access s) = stt_txWait s"
  "stt_closeWait (tx_access s) = stt_closeWait s" "stt_rxAccess (tx_access s) = stt_rxAccess s"
  "stt_rxSessionLocked (tx_access s) = stt_rxSessionLocked s"
  "stt_rxSessionID (tx_access s) = stt_rxSessionID s"
  "st_rxEng2stateTable_upd_req (rx_access s) = st_rxEng2stateTable_upd_req s"
  "st_txApp2stateTable_upd_req (rx_access s) = st_txApp2stateTable_upd_req s"
  "st_txApp2stateTable_req (rx_access s) = st_txApp2stateTable_req s"
  "st_timer2stateTable_releaseState (rx_access s) = st_timer2stateTable_releaseState s"
  "stt_rxWait (rx_access s) = stt_rxWait s" "stt_txWait (rx_access s) = stt_txWait s"
  "stt_closeWait (rx_access s) = stt_closeWait s" "stt_txAccess (rx_access s) = stt_txAccess s"
  "stt_txSessionLocked (rx_access s) = stt_txSessionLocked s"
  "stt_txSessionID (rx_access s) = stt_txSessionID s"
  by (simp_all add: tx_access_def rx_access_def Let_def)

text \<open>What an invocation can do: nothing, a plain read, a fetch that has to wait, or an access of a
  client, either fetched now or resumed.\<close>

definition stt_fetch_tx :: "state_table_st \<Rightarrow> state_table_st" where
  "stt_fetch_tx s = s\<lparr> stt_txAccess := hd (st_txApp2stateTable_upd_req s),
     st_txApp2stateTable_upd_req := tl (st_txApp2stateTable_upd_req s) \<rparr>"

definition stt_fetch_rx :: "state_table_st \<Rightarrow> state_table_st" where
  "stt_fetch_rx s = s\<lparr> stt_rxAccess := hd (st_rxEng2stateTable_upd_req s),
     st_rxEng2stateTable_upd_req := tl (st_rxEng2stateTable_upd_req s) \<rparr>"

definition stt_fetch_close :: "state_table_st \<Rightarrow> state_table_st" where
  "stt_fetch_close s = s\<lparr> stt_closeSessionID := hd (st_timer2stateTable_releaseState s),
     st_timer2stateTable_releaseState := tl (st_timer2stateTable_releaseState s) \<rparr>"

lemmas stt_fetch_defs = stt_fetch_tx_def stt_fetch_rx_def stt_fetch_close_def

lemma state_table_cases [case_names tx_wait tx read rx_wait rx close_wait close tx_resume rx_resume
    close_resume stuck]:
  assumes "\<lbrakk> st_txApp2stateTable_upd_req s \<noteq> []; \<not> stt_txWait s;
      rx_holds s (sq_sessionID (hd (st_txApp2stateTable_upd_req s))) \<rbrakk>
      \<Longrightarrow> P (stt_fetch_tx s \<lparr> stt_txWait := True \<rparr>)"
    and "\<lbrakk> st_txApp2stateTable_upd_req s \<noteq> []; \<not> stt_txWait s;
      \<not> rx_holds s (sq_sessionID (hd (st_txApp2stateTable_upd_req s))) \<rbrakk>
      \<Longrightarrow> P (tx_access (stt_fetch_tx s))"
    and "st_txApp2stateTable_req s \<noteq> [] \<Longrightarrow>
      P (s\<lparr> st_txApp2stateTable_req := tl (st_txApp2stateTable_req s),
           st_stateTable2txApp_rsp := st_stateTable2txApp_rsp s @
             [stt_table s (hd (st_txApp2stateTable_req s))] \<rparr>)"
    and "\<lbrakk> st_rxEng2stateTable_upd_req s \<noteq> []; \<not> stt_rxWait s;
      tx_holds s (sq_sessionID (hd (st_rxEng2stateTable_upd_req s))) \<rbrakk>
      \<Longrightarrow> P (stt_fetch_rx s \<lparr> stt_rxWait := True \<rparr>)"
    and "\<lbrakk> st_rxEng2stateTable_upd_req s \<noteq> []; \<not> stt_rxWait s;
      \<not> tx_holds s (sq_sessionID (hd (st_rxEng2stateTable_upd_req s))) \<rbrakk>
      \<Longrightarrow> P (rx_access (stt_fetch_rx s))"
    and "\<lbrakk> st_timer2stateTable_releaseState s \<noteq> []; \<not> stt_closeWait s \<rbrakk>
      \<Longrightarrow> P (stt_fetch_close s \<lparr> stt_closeWait := True \<rparr>)"
    and "\<lbrakk> st_timer2stateTable_releaseState s \<noteq> []; \<not> stt_closeWait s;
      \<not> rx_holds s (hd (st_timer2stateTable_releaseState s));
      \<not> tx_holds s (hd (st_timer2stateTable_releaseState s)) \<rbrakk>
      \<Longrightarrow> P (close_access (stt_fetch_close s))"
    and "\<lbrakk> stt_txWait s; \<not> rx_holds s (sq_sessionID (stt_txAccess s)) \<rbrakk>
      \<Longrightarrow> P ((tx_access s)\<lparr> stt_txWait := False \<rparr>)"
    and "\<lbrakk> stt_rxWait s; \<not> tx_holds s (sq_sessionID (stt_rxAccess s)) \<rbrakk>
      \<Longrightarrow> P ((rx_access s)\<lparr> stt_rxWait := False \<rparr>)"
    and "\<lbrakk> stt_closeWait s; \<not> rx_holds s (stt_closeSessionID s); \<not> tx_holds s (stt_closeSessionID s) \<rbrakk>
      \<Longrightarrow> P ((close_access s)\<lparr> stt_closeWait := False \<rparr>)"
    and "\<lbrakk> st_txApp2stateTable_upd_req s = [] \<or> stt_txWait s; st_txApp2stateTable_req s = [];
      st_rxEng2stateTable_upd_req s = [] \<or> stt_rxWait s;
      st_timer2stateTable_releaseState s = [] \<or> stt_closeWait s;
      stt_txWait s \<longrightarrow> rx_holds s (sq_sessionID (stt_txAccess s));
      stt_rxWait s \<longrightarrow> stt_txWait s \<or> tx_holds s (sq_sessionID (stt_rxAccess s));
      stt_closeWait s \<longrightarrow> stt_txWait s \<or> stt_rxWait s
        \<or> rx_holds s (stt_closeSessionID s) \<or> tx_holds s (stt_closeSessionID s) \<rbrakk> \<Longrightarrow> P s"
  shows "P (state_table s)"
  unfolding state_table_def Let_def
  using assms unfolding stt_fetch_defs by (simp split: if_split)

lemma locks_disjoint_step: "locks_disjoint s \<Longrightarrow> locks_disjoint (state_table s)"
  unfolding locks_disjoint_def
  by (cases rule: state_table_cases [where s = s]) (auto simp: stt_fetch_defs)

interpretation stt_sys: invariant_system "\<lambda>s. s = state_table_init" stt_move locks_disjoint
proof unfold_locales
  show "locks_disjoint s" if "s = state_table_init" for s
    using that by (simp add: locks_disjoint_def rx_holds_def state_table_init_def)
  show "locks_disjoint t" if "locks_disjoint s" "stt_move s t" for s t
    using that locks_disjoint_step [OF that(1)]
    by (auto simp: stt_move_simps locks_disjoint_def)
qed

section \<open>What a lock protects\<close>

text \<open>A lock: while its owner is quiet, no move of the others takes the lock away or changes what it
  covers.\<close>

locale session_lock =
  fixes others :: "'s \<Rightarrow> 's \<Rightarrow> bool"
    and holds :: "'s \<Rightarrow> 'k \<Rightarrow> bool"
    and quiet :: "'s \<Rightarrow> bool"
    and covered :: "'s \<Rightarrow> 'k \<Rightarrow> 'v"
  assumes lock_kept: "holds s k \<Longrightarrow> quiet s \<Longrightarrow> others s t \<Longrightarrow> holds t k"
    and quiet_kept: "quiet s \<Longrightarrow> others s t \<Longrightarrow> quiet t"
    and covered_kept: "holds s k \<Longrightarrow> quiet s \<Longrightarrow> others s t \<Longrightarrow> covered t k = covered s k"
begin

lemma protected:
  assumes "others\<^sup>*\<^sup>* s t" and "holds s k" and "quiet s"
  shows "holds t k \<and> quiet t \<and> covered t k = covered s k"
  using assms(1)
proof (induction rule: rtranclp_induct)
  case base
  then show ?case using assms by simp
next
  case (step y z)
  then show ?case by (metis lock_kept quiet_kept covered_kept)
qed

end

definition rx_quiet :: "state_table_st \<Rightarrow> bool" where
  "rx_quiet s \<longleftrightarrow> st_rxEng2stateTable_upd_req s = [] \<and> \<not> stt_rxWait s"

definition tx_quiet :: "state_table_st \<Rightarrow> bool" where
  "tx_quiet s \<longleftrightarrow> st_txApp2stateTable_upd_req s = [] \<and> \<not> stt_txWait s"

lemma rx_lock_step:
  "rx_quiet s \<Longrightarrow> rx_quiet (state_table s)
    \<and> (rx_holds s i \<longrightarrow> rx_holds (state_table s) i \<and> stt_table (state_table s) i = stt_table s i)"
  by (rule state_table_cases [where s = s])
    (auto simp: rx_quiet_def table_access stt_fetch_defs close_access_def)

lemma tx_lock_step:
  "tx_quiet s \<Longrightarrow> tx_quiet (state_table s)
    \<and> (tx_holds s i \<longrightarrow> tx_holds (state_table s) i \<and> stt_table (state_table s) i = stt_table s i)"
  by (rule state_table_cases [where s = s])
    (auto simp: tx_quiet_def table_access stt_fetch_defs close_access_def)

interpretation rx_lock: session_lock stt_move_norx rx_holds rx_quiet stt_table
  by unfold_locales (auto simp: stt_move_simps rx_lock_step, auto simp: rx_quiet_def)

interpretation tx_lock: session_lock stt_move_notx tx_holds tx_quiet stt_table
  by unfold_locales (auto simp: stt_move_simps tx_lock_step, auto simp: tx_quiet_def)

section \<open>Properties of the locks\<close>

text \<open>
  (C4) Mutual exclusion.  In every state the table can reach from reset, whatever requests its clients
  send and whenever they take the replies, the RX engine and the transmit application interface never
  hold the lock of the same session.
\<close>

theorem state_locks_exclusive:
  assumes "reachable (\<lambda>s. s = state_table_init) stt_move s"
  shows "\<not> (rx_holds s i \<and> tx_holds s i)"
  using stt_sys.invar_reachable [OF assms] by (auto simp: locks_disjoint_def)

text \<open>
  (C29) The read-modify-write of the RX engine is atomic.  Once the RX engine holds the lock of a
  session and until it sends its next request, no sequence of invocations, timer releases, transmit
  application requests and stream reads changes the session's state or takes the lock away; the same
  holds for the transmit application interface with the roles exchanged.
\<close>

theorem state_locked_session_stable:
  "(rx_holds s i \<and> rx_quiet s \<and> stt_move_norx\<^sup>*\<^sup>* s t \<longrightarrow> stt_table t i = stt_table s i \<and> rx_holds t i)
   \<and> (tx_holds s i \<and> tx_quiet s \<and> stt_move_notx\<^sup>*\<^sup>* s t \<longrightarrow> stt_table t i = stt_table s i \<and> tx_holds t i)"
  using rx_lock.protected tx_lock.protected by blast

text \<open>
  A session that is released is closed.  One invocation hands at most one session to the session
  lookup, and the state of a session handed over is CLOSED in the table after that very invocation.
\<close>

theorem state_release_closed:
  "\<exists>rel. st_stateTable2sLookup_releaseSession (state_table s) =
       st_stateTable2sLookup_releaseSession s @ rel
     \<and> length rel \<le> 1 \<and> list_all (\<lambda>i. stt_table (state_table s) i = CLOSED) rel"
  by (simp add: state_table_def Let_def tx_access_def rx_access_def close_access_def)

section \<open>No deadlock\<close>

text \<open>
  The protocol of the two clients: a read of a session is followed by the write-back of the same
  session before the next request; a client that holds no lock may also write without a read.
  \<open>alternates l qs\<close>: the requests \<open>qs\<close> follow the protocol when the client holds the lock \<open>l\<close>, and
  every lock is written back in the end.
\<close>

fun alternates :: "u16 option \<Rightarrow> stateQuery list \<Rightarrow> bool" where
  "alternates None [] = True"
| "alternates (Some i) [] = False"
| "alternates None (q # qs) = alternates (if sq_write q then None else Some (sq_sessionID q)) qs"
| "alternates (Some i) (q # qs) = (sq_write q \<and> sq_sessionID q = i \<and> alternates None qs)"

definition rx_todo :: "state_table_st \<Rightarrow> stateQuery list" where
  "rx_todo s = (if stt_rxWait s then [stt_rxAccess s] else []) @ st_rxEng2stateTable_upd_req s"

definition tx_todo :: "state_table_st \<Rightarrow> stateQuery list" where
  "tx_todo s = (if stt_txWait s then [stt_txAccess s] else []) @ st_txApp2stateTable_upd_req s"

definition rx_lock_of :: "state_table_st \<Rightarrow> u16 option" where
  "rx_lock_of s = (if stt_rxSessionLocked s then Some (stt_rxSessionID s) else None)"

definition tx_lock_of :: "state_table_st \<Rightarrow> u16 option" where
  "tx_lock_of s = (if stt_txSessionLocked s then Some (stt_txSessionID s) else None)"

text \<open>A client follows the protocol, and does not wait while it holds a lock.\<close>

definition rx_ok :: "state_table_st \<Rightarrow> bool" where
  "rx_ok s \<longleftrightarrow> alternates (rx_lock_of s) (rx_todo s) \<and> (stt_rxWait s \<longrightarrow> \<not> stt_rxSessionLocked s)"

definition tx_ok :: "state_table_st \<Rightarrow> bool" where
  "tx_ok s \<longleftrightarrow> alternates (tx_lock_of s) (tx_todo s) \<and> (stt_txWait s \<longrightarrow> \<not> stt_txSessionLocked s)"

definition stt_wf :: "state_table_st \<Rightarrow> bool" where
  "stt_wf s \<longleftrightarrow> locks_disjoint s \<and> rx_ok s \<and> tx_ok s"

definition stt_backlog :: "state_table_st \<Rightarrow> nat" where
  "stt_backlog s = 2 * length (st_txApp2stateTable_upd_req s) + 2 * length (st_rxEng2stateTable_upd_req s)
     + 2 * length (st_timer2stateTable_releaseState s) + length (st_txApp2stateTable_req s)
     + of_bool (stt_txWait s) + of_bool (stt_rxWait s) + of_bool (stt_closeWait s)"

lemma alternates_Cons: "alternates l (q # qs) \<longleftrightarrow> (l \<noteq> None \<longrightarrow> sq_write q \<and> l = Some (sq_sessionID q))
    \<and> alternates (if sq_write q then None else Some (sq_sessionID q)) qs"
  by (cases l) auto

lemma alternates_snoc_write: "alternates l qs \<Longrightarrow> sq_write q \<Longrightarrow> alternates l (qs @ [q])"
  by (induction l qs rule: alternates.induct) auto

lemma alternates_snoc_pair:
  "alternates l qs \<Longrightarrow> \<not> sq_write q \<Longrightarrow> sq_write r \<Longrightarrow> sq_sessionID r = sq_sessionID q \<Longrightarrow> alternates l (qs @ [q, r])"
  by (induction l qs rule: alternates.induct) auto

lemma alternates_replace_last:
  "alternates l (qs @ [q]) \<Longrightarrow> sq_write q \<Longrightarrow> sq_write r \<Longrightarrow> sq_sessionID r = sq_sessionID q \<Longrightarrow> alternates l (qs @ [r])"
  by (induction l qs rule: alternates.induct) auto

lemma alternates_reads_le_writes:
  "alternates l qs \<Longrightarrow> length (filter (\<lambda>q. \<not> sq_write q) qs) + of_bool (l \<noteq> None) \<le> length (filter sq_write qs)"
proof (induction qs arbitrary: l)
  case Nil
  then show ?case by (cases l) auto
next
  case (Cons q qs)
  from Cons.prems have "alternates (if sq_write q then None else Some (sq_sessionID q)) qs" "l \<noteq> None \<Longrightarrow> sq_write q"
    by (auto simp: alternates_Cons)
  with Cons.IH [OF this(1)] show ?case by (auto split: if_splits)
qed

text \<open>
  The interface of the state table to its clients: a module whose requests so far, followed by the
  write-backs it still owes, follow the protocol in every reachable state.
\<close>

locale lock_client = invariant_system init step invar
  for init :: "'s \<Rightarrow> bool" and step :: "'s \<Rightarrow> 's \<Rightarrow> bool" and invar :: "'s \<Rightarrow> bool" +
  fixes reqs :: "'s \<Rightarrow> stateQuery list"
    and owed :: "'s \<Rightarrow> stateQuery list"
  assumes protocol: "invar s \<Longrightarrow> alternates None (reqs s @ owed s)"
begin

lemma keeps_protocol: "reachable init step s \<Longrightarrow> alternates None (reqs s @ owed s)"
  by (rule protocol [OF invar_reachable])

text \<open>Every read is written back, the last one perhaps later.\<close>

lemma reads_written_back:
  assumes "reachable init step s"
  shows "length (filter (\<lambda>q. \<not> sq_write q) (reqs s @ owed s)) \<le> length (filter sq_write (reqs s @ owed s))"
  using alternates_reads_le_writes [OF keeps_protocol [OF assms]] by simp

end

text \<open>The protocol condition of a client reads that client's registers and request stream only.\<close>

lemma rx_ok_cong:
  "\<lbrakk> stt_rxSessionID t = stt_rxSessionID s; stt_rxSessionLocked t = stt_rxSessionLocked s;
     stt_rxWait t = stt_rxWait s; stt_rxAccess t = stt_rxAccess s;
     st_rxEng2stateTable_upd_req t = st_rxEng2stateTable_upd_req s \<rbrakk> \<Longrightarrow> rx_ok t = rx_ok s"
  by (simp add: rx_ok_def rx_lock_of_def rx_todo_def)

lemma tx_ok_cong:
  "\<lbrakk> stt_txSessionID t = stt_txSessionID s; stt_txSessionLocked t = stt_txSessionLocked s;
     stt_txWait t = stt_txWait s; stt_txAccess t = stt_txAccess s;
     st_txApp2stateTable_upd_req t = st_txApp2stateTable_upd_req s \<rbrakk> \<Longrightarrow> tx_ok t = tx_ok s"
  by (simp add: tx_ok_def tx_lock_of_def tx_todo_def)

lemma lock_of_access:
  "rx_lock_of (rx_access s) =
     (if sq_write (stt_rxAccess s) then None else Some (sq_sessionID (stt_rxAccess s)))"
  "tx_lock_of (tx_access s) =
     (if sq_write (stt_txAccess s) then None else Some (sq_sessionID (stt_txAccess s)))"
  by (simp_all add: rx_lock_of_def rx_access_def tx_lock_of_def tx_access_def Let_def)

lemma rx_ok_resume:
  "rx_ok s \<Longrightarrow> stt_rxWait s \<Longrightarrow> rx_ok ((rx_access s)\<lparr> stt_rxWait := False \<rparr>)"
  using lock_of_access(1) [of s]
  by (auto simp: rx_ok_def rx_todo_def alternates_Cons rx_lock_of_def split: if_splits)

lemma tx_ok_resume:
  "tx_ok s \<Longrightarrow> stt_txWait s \<Longrightarrow> tx_ok ((tx_access s)\<lparr> stt_txWait := False \<rparr>)"
  using lock_of_access(2) [of s]
  by (auto simp: tx_ok_def tx_todo_def alternates_Cons tx_lock_of_def split: if_splits)

lemma rx_ok_fetch:
  "rx_ok s \<Longrightarrow> \<not> stt_rxWait s \<Longrightarrow> st_rxEng2stateTable_upd_req s \<noteq> [] \<Longrightarrow> rx_ok (rx_access (stt_fetch_rx s))"
  by (cases "st_rxEng2stateTable_upd_req s")
     (auto simp: rx_ok_def rx_todo_def alternates_Cons stt_fetch_defs lock_of_access)

lemma tx_ok_fetch:
  "tx_ok s \<Longrightarrow> \<not> stt_txWait s \<Longrightarrow> st_txApp2stateTable_upd_req s \<noteq> [] \<Longrightarrow> tx_ok (tx_access (stt_fetch_tx s))"
  by (cases "st_txApp2stateTable_upd_req s")
     (auto simp: tx_ok_def tx_todo_def alternates_Cons stt_fetch_defs lock_of_access)

text \<open>A request that has to wait is a read: the write-back of a lock meets no other lock.\<close>

lemma rx_ok_wait:
  assumes "rx_ok s" "locks_disjoint s" "\<not> stt_rxWait s" "st_rxEng2stateTable_upd_req s \<noteq> []"
    "tx_holds s (sq_sessionID (hd (st_rxEng2stateTable_upd_req s)))"
  shows "rx_ok (stt_fetch_rx s \<lparr> stt_rxWait := True \<rparr>)"
proof -
  obtain q qs where q: "st_rxEng2stateTable_upd_req s = q # qs"
    using assms(4) by (cases "st_rxEng2stateTable_upd_req s") auto
  have "\<not> stt_rxSessionLocked s"
    using assms q by (auto simp: rx_ok_def rx_todo_def rx_lock_of_def alternates_Cons locks_disjoint_def rx_holds_def)
  with assms q show ?thesis by (simp add: rx_ok_def rx_todo_def rx_lock_of_def stt_fetch_defs)
qed

lemma tx_ok_wait:
  assumes "tx_ok s" "locks_disjoint s" "\<not> stt_txWait s" "st_txApp2stateTable_upd_req s \<noteq> []"
    "rx_holds s (sq_sessionID (hd (st_txApp2stateTable_upd_req s)))"
  shows "tx_ok (stt_fetch_tx s \<lparr> stt_txWait := True \<rparr>)"
proof -
  obtain q qs where q: "st_txApp2stateTable_upd_req s = q # qs"
    using assms(4) by (cases "st_txApp2stateTable_upd_req s") auto
  have "\<not> stt_txSessionLocked s"
    using assms q by (auto simp: tx_ok_def tx_todo_def tx_lock_of_def alternates_Cons locks_disjoint_def tx_holds_def)
  with assms q show ?thesis by (simp add: tx_ok_def tx_todo_def tx_lock_of_def stt_fetch_defs)
qed

lemma stt_wf_step:
  assumes "stt_wf s"
  shows "stt_wf (state_table s)"
proof -
  have ok: "rx_ok s" "tx_ok s" "locks_disjoint s" using assms by (simp_all add: stt_wf_def)
  have "rx_ok (state_table s)"
    using ok by (cases rule: state_table_cases [where s = s])
      (erule rx_ok_wait rx_ok_fetch rx_ok_resume; simp;fail
       | subst rx_ok_cong [where s = s]; simp add: stt_fetch_defs close_access_def; fail)+
  moreover have "tx_ok (state_table s)"
    using ok by (cases rule: state_table_cases [where s = s])
      (erule tx_ok_wait tx_ok_fetch tx_ok_resume; simp;fail
       | subst tx_ok_cong [where s = s]; simp add: stt_fetch_defs close_access_def; fail)+
  ultimately show ?thesis using ok(3) locks_disjoint_step by (simp add: stt_wf_def)
qed

lemma stt_backlog_step:
  assumes "stt_wf s"
  shows "stt_backlog (state_table s) \<le> stt_backlog s - 1"
proof (cases rule: state_table_cases [where s = s and P = "\<lambda>t. stt_backlog t \<le> stt_backlog s - 1"])
  case stuck
  have rx: "rx_holds s i \<Longrightarrow> stt_rxWait s \<or> st_rxEng2stateTable_upd_req s = [] \<Longrightarrow> False" for i
    using assms by (auto simp: stt_wf_def rx_ok_def rx_holds_def rx_lock_of_def rx_todo_def)
  have tx: "tx_holds s i \<Longrightarrow> stt_txWait s \<or> st_txApp2stateTable_upd_req s = [] \<Longrightarrow> False" for i
    using assms by (auto simp: stt_wf_def tx_ok_def tx_holds_def tx_lock_of_def tx_todo_def)
  have "stt_backlog s = 0"
    using stuck rx tx by (auto simp: stt_backlog_def)
  then show "stt_backlog s \<le> stt_backlog s - 1" by simp
qed (auto simp: stt_backlog_def stt_fetch_defs close_access_def neq_Nil_conv)

interpretation stt_prog: progress_server state_table stt_wf stt_backlog
  by unfold_locales (rule stt_wf_step stt_backlog_step; assumption)+

text \<open>Every read is answered once: the replies sent and the reads still to do are a constant number.\<close>

lemma stt_replies_rx:
  "length (st_stateTable2rxEng_upd_rsp (state_table s)) + length (filter (\<lambda>q. \<not> sq_write q) (rx_todo (state_table s)))
     = length (st_stateTable2rxEng_upd_rsp s) + length (filter (\<lambda>q. \<not> sq_write q) (rx_todo s))"
  by (rule state_table_cases [where s = s and P = "\<lambda>t. length (st_stateTable2rxEng_upd_rsp t)
        + length (filter (\<lambda>q. \<not> sq_write q) (rx_todo t))
        = length (st_stateTable2rxEng_upd_rsp s) + length (filter (\<lambda>q. \<not> sq_write q) (rx_todo s))"])
    (auto simp: rx_todo_def stt_fetch_defs tx_access_def rx_access_def close_access_def Let_def
      neq_Nil_conv)

lemma stt_replies_tx:
  "length (st_stateTable2TxApp_upd_rsp (state_table s)) + length (filter (\<lambda>q. \<not> sq_write q) (tx_todo (state_table s)))
     = length (st_stateTable2TxApp_upd_rsp s) + length (filter (\<lambda>q. \<not> sq_write q) (tx_todo s))"
  by (rule state_table_cases [where s = s and P = "\<lambda>t. length (st_stateTable2TxApp_upd_rsp t)
        + length (filter (\<lambda>q. \<not> sq_write q) (tx_todo t))
        = length (st_stateTable2TxApp_upd_rsp s) + length (filter (\<lambda>q. \<not> sq_write q) (tx_todo s))"])
    (auto simp: tx_todo_def stt_fetch_defs tx_access_def rx_access_def close_access_def Let_def
      neq_Nil_conv)

lemma stt_replies_run:
  "length (st_stateTable2rxEng_upd_rsp ((state_table ^^ n) s))
     + length (filter (\<lambda>q. \<not> sq_write q) (rx_todo ((state_table ^^ n) s)))
     = length (st_stateTable2rxEng_upd_rsp s) + length (filter (\<lambda>q. \<not> sq_write q) (rx_todo s))"
  "length (st_stateTable2TxApp_upd_rsp ((state_table ^^ n) s))
     + length (filter (\<lambda>q. \<not> sq_write q) (tx_todo ((state_table ^^ n) s)))
     = length (st_stateTable2TxApp_upd_rsp s) + length (filter (\<lambda>q. \<not> sq_write q) (tx_todo s))"
  by (induction n) (simp_all add: stt_replies_rx stt_replies_tx)

lemma stt_drains:
  assumes "stt_wf s" and "stt_backlog s \<le> n" and "t = (state_table ^^ n) s"
  shows "rx_todo t = [] \<and> tx_todo t = [] \<and> st_txApp2stateTable_req t = []
    \<and> st_timer2stateTable_releaseState t = [] \<and> \<not> stt_closeWait t
    \<and> \<not> rx_holds t i \<and> \<not> tx_holds t i
    \<and> length (st_stateTable2rxEng_upd_rsp t) =
        length (st_stateTable2rxEng_upd_rsp s) + length (filter (\<lambda>q. \<not> sq_write q) (rx_todo s))
    \<and> length (st_stateTable2TxApp_upd_rsp t) =
        length (st_stateTable2TxApp_upd_rsp s) + length (filter (\<lambda>q. \<not> sq_write q) (tx_todo s))"
proof -
  have "stt_backlog t = 0" "stt_wf t"
    using stt_prog.worked_off stt_prog.fit_run assms by auto
  then have empty: "rx_todo t = []" "tx_todo t = []" "st_txApp2stateTable_req t = []"
      "st_timer2stateTable_releaseState t = []" "\<not> stt_closeWait t"
    by (auto simp: stt_backlog_def rx_todo_def tx_todo_def)
  have "\<not> rx_holds t i" "\<not> tx_holds t i"
    using \<open>stt_wf t\<close> empty(1,2)
    by (auto simp: stt_wf_def rx_ok_def tx_ok_def rx_lock_of_def tx_lock_of_def rx_holds_def tx_holds_def
        split: if_splits)
  with empty stt_replies_run [where n = n and s = s] show ?thesis
    by (simp flip: assms(3))
qed

text \<open>
  The locks do not deadlock.  When both clients follow the read and write-back protocol and have
  sent the write-back of every read, a number of invocations linear in what waits serves everything:
  no request, resumed access or timer release is left, no lock is held, and each of the reads has had
  its reply.  In particular a request that found its session locked is resumed.
\<close>

theorem state_table_drains:
  assumes "stt_wf s" and "stt_backlog s \<le> n" and "t = (state_table ^^ n) s"
  shows "rx_todo t = [] \<and> tx_todo t = [] \<and> st_txApp2stateTable_req t = []
    \<and> st_timer2stateTable_releaseState t = [] \<and> \<not> stt_closeWait t
    \<and> \<not> rx_holds t i \<and> \<not> tx_holds t i
    \<and> length (st_stateTable2rxEng_upd_rsp t) =
        length (st_stateTable2rxEng_upd_rsp s) + length (filter (\<lambda>q. \<not> sq_write q) (rx_todo s))
    \<and> length (st_stateTable2TxApp_upd_rsp t) =
        length (st_stateTable2TxApp_upd_rsp s) + length (filter (\<lambda>q. \<not> sq_write q) (tx_todo s))"
  using assms by (rule stt_drains)

section \<open>Concrete runs\<close>

text \<open>Session 4 is read and written back by the RX engine while the transmit application reads it too
  and the close timer releases it.\<close>

definition stt_example :: state_table_st where
  "stt_example = state_table_init\<lparr>
     st_rxEng2stateTable_upd_req := [stateQuery_read 4, stateQuery_write 4 ESTABLISHED],
     st_txApp2stateTable_upd_req := [stateQuery_read 5, stateQuery_write 5 SYN_SENT,
        stateQuery_read 4, stateQuery_write 4 FIN_WAIT_1],
     st_timer2stateTable_releaseState := [4] \<rparr>"

lemmas stt_eval = stt_example_def state_table_init_def state_table_def tx_access_def rx_access_def
  close_access_def rx_holds_def tx_holds_def stateQuery_read_def stateQuery_write_def

definition stt_rx_owner :: state_table_st where
  "stt_rx_owner = state_table_init\<lparr> stt_table := (\<lambda>_. ESTABLISHED), stt_rxSessionID := 4,
     stt_rxSessionLocked := True, st_txApp2stateTable_upd_req := [stateQuery_write 4 FIN_WAIT_1],
     st_timer2stateTable_releaseState := [4] \<rparr>"

theorem state_locked_session_stable_witness:
  "stt_table ((state_table ^^ 3) stt_rx_owner) 4 = ESTABLISHED"
proof -
  have run: "stt_move_norx\<^sup>*\<^sup>* s ((state_table ^^ n) s)" for n s
    by (induction n) (auto simp: stt_move_norx_def intro: rtranclp.rtrancl_into_rtrancl)
  show ?thesis
    using state_locked_session_stable [of stt_rx_owner 4] run [where s = stt_rx_owner and n = 3]
    by (auto simp: stt_rx_owner_def rx_holds_def rx_quiet_def state_table_init_def)
qed

theorem state_table_drains_witness:
  "rx_todo ((state_table ^^ 14) stt_example) = [] \<and> \<not> tx_holds ((state_table ^^ 14) stt_example) 4
   \<and> length (st_stateTable2TxApp_upd_rsp ((state_table ^^ 14) stt_example)) = 2"
  using state_table_drains [of stt_example 14 _ 4, OF _ _ refl]
  by (auto simp: stt_wf_def locks_disjoint_def rx_ok_def tx_ok_def rx_lock_of_def tx_lock_of_def
      rx_todo_def tx_todo_def stt_backlog_def stt_eval)

theorem state_locks_exclusive_witness:
  "\<not> (rx_holds (state_table state_table_init) 4 \<and> tx_holds (state_table state_table_init) 4)"
  by (rule state_locks_exclusive)
     (auto intro: reachable_init reachable_step simp: stt_move_def)

end
