(* ===== verification/Tx_App.thy ===== *)
theory Tx_App
  imports State_Table
begin

text \<open>
  The control part of the transmit application interface (\<^verbatim>\<open>tx_app_if\<close>, \<^verbatim>\<open>tx_app_stream_if\<close>,
  \<^verbatim>\<open>tx_app_interface\<close>): opening and closing connections, the decision whether a write of the
  application fits, the application's copy of the transmit pointers, and the hand-over of written data
  to the transmit SAR table.

  All functions work on one state record that holds their statics and the streams between them.  The
  lemmas show that an accepted write fits between the end of the data and the last acknowledged octet
  of the ring and into the peer's window, that every request gets exactly one answer, that the pointer
  of the written data is passed on once per write, and that the requests to the state table follow the
  lock protocol.
\<close>

section \<open>Data\<close>

definition NO_ERROR :: u2 where "NO_ERROR = 0"
definition ERROR_NOCONNCECTION :: u2 where "ERROR_NOCONNCECTION = 1"
definition ERROR_NOSPACE :: u2 where "ERROR_NOSPACE = 2"

datatype tai_states = READ_REQUEST | READ_META

datatype fsmStatus = READ_EV | READ_STATUS_1 | READ_STATUS_2

datatype taiFsmStateType = IDLE | CLOSE_CONN

record txAppTableEntry =
  tae_ackd :: win
  tae_mempt :: win
  tae_min_window :: win

record tx_app_st =
  tai_state :: tai_states
  tasi_writeMeta :: appTxMeta
  app_table :: "u16 \<Rightarrow> txAppTableEntry"
  tash_state :: fsmStatus
  tash_ev :: event
  tai_fsmState :: taiFsmStateType
  tai_closeSessionID :: u16
  ta_appTxDataReqMetaData :: "appTxMeta list"
  ta_stateTable2txApp_rsp :: "sessionState list"
  ta_appTxDataRsp :: "appTxRsp list"
  ta_txApp2stateTable_req :: "u16 list"
  ta_txApp2txSar_upd_req :: "txAppTxSarQuery list"
  ta_txSar2txApp_upd_rsp :: "txAppTxSarReply list"
  ta_tasi_meta2pkgPushCmd :: "mmCmd list"
  ta_txAppStream2event_mergeEvent :: "event list"
  ta_txApp2eventEng_mergeEvent :: "event list"
  ta_txApp_eventCache :: "event list"
  ta_txApp2eventEng_setEvent :: "event list"
  ta_txBufferWriteStatus :: "mmStatus list"
  ta_txApp2txSar_push :: "txAppTxSarPush list"
  ta_txSar2txApp_ack_push :: "txSarAckPush list"
  ta_appOpenConnReq :: "ipTuple list"
  ta_appCloseConnReq :: "u16 list"
  ta_sLookup2txApp_rsp :: "sessionLookupReply list"
  ta_portTable2txApp_port_rsp :: "u16 list"
  ta_stateTable2txApp_upd_rsp :: "sessionState list"
  ta_conEstablishedFifo :: "openStatus list"
  ta_appOpenConnRsp :: "openStatus list"
  ta_txApp2sLookup_req :: "fourTuple list"
  ta_txApp2stateTable_upd_req :: "stateQuery list"
  ta_rtTimer2txApp_notification :: "openStatus list"

section \<open>Writes of the application\<close>

definition appTxRsp_mk :: "u16 \<Rightarrow> u16 \<Rightarrow> win \<Rightarrow> u2 \<Rightarrow> appTxRsp" where
  "appTxRsp_mk i len rem_space err = \<lparr> atr_sessionID = i, atr_length = len,
     atr_remaining_space = ucast rem_space, atr_error = err \<rparr>"

definition maxWriteLength :: "txAppTxSarReply \<Rightarrow> win" where
  "maxWriteLength writeSar = (tar_ackd writeSar - tar_mempt writeSar) - 1"

definition tasi_usedLength :: "txAppTxSarReply \<Rightarrow> win" where
  "tasi_usedLength writeSar = tar_mempt writeSar - tar_ackd writeSar"

definition tasi_usableWindow :: "txAppTxSarReply \<Rightarrow> win" where
  "tasi_usableWindow writeSar =
     (if tar_min_window writeSar > tasi_usedLength writeSar
      then tar_min_window writeSar - tasi_usedLength writeSar else 0)"

definition tasi_metaLoader :: "toe_config \<Rightarrow> tx_app_st \<Rightarrow> tx_app_st" where
  "tasi_metaLoader cfg s =
     (case tai_state s of
        READ_REQUEST \<Rightarrow>
          (case ta_appTxDataReqMetaData s of
             meta # q \<Rightarrow> s\<lparr> ta_appTxDataReqMetaData := q, tasi_writeMeta := meta,
               ta_txApp2stateTable_req := ta_txApp2stateTable_req s @ [atm_sessionID meta],
               ta_txApp2txSar_upd_req := ta_txApp2txSar_upd_req s @ [txAppTxSarQuery_read (atm_sessionID meta)],
               tai_state := READ_META \<rparr>
           | [] \<Rightarrow> s)
      | READ_META \<Rightarrow>
          (if ta_txSar2txApp_upd_rsp s \<noteq> [] \<and> ta_stateTable2txApp_rsp s \<noteq> [] then
             (let state = hd (ta_stateTable2txApp_rsp s); writeSar = hd (ta_txSar2txApp_upd_rsp s);
                  i = atm_sessionID (tasi_writeMeta s); len = atm_length (tasi_writeMeta s);
                  s1 = s\<lparr> ta_stateTable2txApp_rsp := tl (ta_stateTable2txApp_rsp s),
                          ta_txSar2txApp_upd_rsp := tl (ta_txSar2txApp_upd_rsp s), tai_state := READ_REQUEST \<rparr>
              in if state \<noteq> ESTABLISHED
                 then s1\<lparr> ta_appTxDataRsp := ta_appTxDataRsp s @
                            [appTxRsp_mk i len (maxWriteLength writeSar) ERROR_NOCONNCECTION] \<rparr>
                 else if \<not> TCP_NODELAY cfg \<and> unat len > unat (maxWriteLength writeSar)
                 then s1\<lparr> ta_appTxDataRsp := ta_appTxDataRsp s @
                            [appTxRsp_mk i len (maxWriteLength writeSar) ERROR_NOSPACE] \<rparr>
                 else if TCP_NODELAY cfg \<and> (unat len > unat (maxWriteLength writeSar)
                            \<or> unat (tasi_usableWindow writeSar) < unat len)
                 then s1\<lparr> ta_appTxDataRsp := ta_appTxDataRsp s @
                            [appTxRsp_mk i len (tasi_usableWindow writeSar) ERROR_NOSPACE] \<rparr>
                 else s1\<lparr> ta_tasi_meta2pkgPushCmd := ta_tasi_meta2pkgPushCmd s @
                            [mmCmd_mk (pkgAddr i (tar_mempt writeSar)) len],
                          ta_appTxDataRsp := ta_appTxDataRsp s @
                            [appTxRsp_mk i len (maxWriteLength writeSar) NO_ERROR],
                          ta_txAppStream2event_mergeEvent := ta_txAppStream2event_mergeEvent s @
                            [event_data TX i (tar_mempt writeSar) len],
                          ta_txApp2txSar_upd_req := ta_txApp2txSar_upd_req s @
                            [txAppTxSarQuery_write i (tar_mempt writeSar + ucast len)] \<rparr>)
           else s))"

section \<open>The application's transmit table\<close>

definition tx_app_table :: "toe_config \<Rightarrow> tx_app_st \<Rightarrow> tx_app_st" where
  "tx_app_table cfg s =
     (case ta_txSar2txApp_ack_push s of
        ackPush # q \<Rightarrow>
          (let i = tsp_sessionID ackPush; e = app_table s i;
               e1 = (if tsp_init ackPush
                     then e\<lparr> tae_ackd := tsp_ackd ackPush - 1, tae_mempt := tsp_ackd ackPush \<rparr>
                     else e\<lparr> tae_ackd := tsp_ackd ackPush \<rparr>);
               e2 = (if TCP_NODELAY cfg then e1\<lparr> tae_min_window := tsp_min_window ackPush \<rparr> else e1)
           in s\<lparr> ta_txSar2txApp_ack_push := q, app_table := (app_table s)(i := e2) \<rparr>)
      | [] \<Rightarrow>
     (case ta_txApp2txSar_upd_req s of
        u # q \<Rightarrow>
          (let i = taq_sessionID u; e = app_table s i
           in if taq_write u
              then s\<lparr> ta_txApp2txSar_upd_req := q, app_table := (app_table s)(i := e\<lparr> tae_mempt := taq_mempt u \<rparr>) \<rparr>
              else s\<lparr> ta_txApp2txSar_upd_req := q,
                      ta_txSar2txApp_upd_rsp := ta_txSar2txApp_upd_rsp s @
                        [\<lparr> tar_sessionID = i, tar_ackd = tae_ackd e, tar_mempt = tae_mempt e,
                           tar_min_window = (if TCP_NODELAY cfg then tae_min_window e else 0) \<rparr>] \<rparr>)
      | [] \<Rightarrow> s))"

section \<open>Events and write status\<close>

text \<open>\<^verbatim>\<open>txEventMerger\<close>: with TCP\_NODELAY the merged events go to the event engine and the TX events are
  kept for the status handler; without it all of them go to the status handler.\<close>

definition txEventMerger :: "toe_config \<Rightarrow> tx_app_st \<Rightarrow> tx_app_st" where
  "txEventMerger cfg s =
     (case ta_txApp2eventEng_mergeEvent s of
        ev # q \<Rightarrow>
          (if TCP_NODELAY cfg
           then s\<lparr> ta_txApp2eventEng_mergeEvent := q, ta_txApp2eventEng_setEvent := ta_txApp2eventEng_setEvent s @ [ev] \<rparr>
           else s\<lparr> ta_txApp2eventEng_mergeEvent := q, ta_txApp_eventCache := ta_txApp_eventCache s @ [ev] \<rparr>)
      | [] \<Rightarrow>
     (case ta_txAppStream2event_mergeEvent s of
        ev # q \<Rightarrow>
          (if TCP_NODELAY cfg
           then s\<lparr> ta_txAppStream2event_mergeEvent := q,
                   ta_txApp2eventEng_setEvent := ta_txApp2eventEng_setEvent s @ [ev],
                   ta_txApp_eventCache := (if ev_type ev = TX then ta_txApp_eventCache s @ [ev]
                                           else ta_txApp_eventCache s) \<rparr>
           else s\<lparr> ta_txAppStream2event_mergeEvent := q, ta_txApp_eventCache := ta_txApp_eventCache s @ [ev] \<rparr>)
      | [] \<Rightarrow> s))"

text \<open>The hand-over at the end of a write.\<close>

definition tash_push :: "toe_config \<Rightarrow> tx_app_st \<Rightarrow> tx_app_st" where
  "tash_push cfg s =
     s\<lparr> ta_txApp2txSar_push := ta_txApp2txSar_push s @
          [\<lparr> tap_sessionID = ev_sessionID (tash_ev s), tap_app = ev_address (tash_ev s) + ucast (ev_length (tash_ev s)) \<rparr>],
        ta_txApp2eventEng_setEvent := (if TCP_NODELAY cfg then ta_txApp2eventEng_setEvent s
                                       else ta_txApp2eventEng_setEvent s @ [tash_ev s]),
        tash_state := READ_EV \<rparr>"

definition txAppStatusHandler :: "toe_config \<Rightarrow> tx_app_st \<Rightarrow> tx_app_st" where
  "txAppStatusHandler cfg s =
     (case tash_state s of
        READ_EV \<Rightarrow>
          (case ta_txApp_eventCache s of
             ev # q \<Rightarrow>
               (let s1 = s\<lparr> ta_txApp_eventCache := q, tash_ev := ev \<rparr>
                in if ev_type ev = TX then s1\<lparr> tash_state := READ_STATUS_1 \<rparr>
                   else if \<not> TCP_NODELAY cfg
                   then s1\<lparr> ta_txApp2eventEng_setEvent := ta_txApp2eventEng_setEvent s @ [ev] \<rparr>
                   else s1)
           | [] \<Rightarrow> s)
      | READ_STATUS_1 \<Rightarrow>
          (case ta_txBufferWriteStatus s of
             status # q \<Rightarrow>
               (let s1 = s\<lparr> ta_txBufferWriteStatus := q \<rparr>
                in if ms_okay status then
                     (if unat (ev_address (tash_ev s)) + unat (ev_length (tash_ev s)) > BUFFER_SIZE
                      then s1\<lparr> tash_state := READ_STATUS_2 \<rparr>
                      else tash_push cfg s1)
                   else s1)
           | [] \<Rightarrow> s)
      | READ_STATUS_2 \<Rightarrow>
          (case ta_txBufferWriteStatus s of
             status # q \<Rightarrow>
               (let s1 = s\<lparr> ta_txBufferWriteStatus := q \<rparr>
                in if ms_okay status then tash_push cfg s1 else s1)
           | [] \<Rightarrow> s))"

section \<open>Opening and closing connections\<close>

text \<open>The first statement of \<^verbatim>\<open>tx_app_if\<close>: an open request and a free port make a lookup.\<close>

definition tai_open :: "u32 \<Rightarrow> tx_app_st \<Rightarrow> tx_app_st" where
  "tai_open myIpAddress s =
     (if ta_appOpenConnReq s \<noteq> [] \<and> ta_portTable2txApp_port_rsp s \<noteq> []
      then s\<lparr> ta_appOpenConnReq := tl (ta_appOpenConnReq s),
              ta_portTable2txApp_port_rsp := tl (ta_portTable2txApp_port_rsp s),
              ta_txApp2sLookup_req := ta_txApp2sLookup_req s @
                [fourTuple_mk myIpAddress (reverse (it_ip_address (hd (ta_appOpenConnReq s))))
                   (reverse (hd (ta_portTable2txApp_port_rsp s))) (reverse (it_ip_port (hd (ta_appOpenConnReq s))))] \<rparr>
      else s)"

definition tai_idle :: "tx_app_st \<Rightarrow> tx_app_st" where
  "tai_idle s =
     (case ta_sLookup2txApp_rsp s of
        session # q \<Rightarrow>
          (if slr_hit session
           then s\<lparr> ta_sLookup2txApp_rsp := q,
                   ta_txApp2eventEng_mergeEvent := ta_txApp2eventEng_mergeEvent s @ [event_mk SYN (slr_sessionID session)],
                   ta_txApp2stateTable_upd_req := ta_txApp2stateTable_upd_req s @
                     [stateQuery_write (slr_sessionID session) SYN_SENT] \<rparr>
           else s\<lparr> ta_sLookup2txApp_rsp := q,
                   ta_appOpenConnRsp := ta_appOpenConnRsp s @ [openStatus_mk 0 0] \<rparr>)
      | [] \<Rightarrow>
     (case ta_conEstablishedFifo s of
        st # q \<Rightarrow> s\<lparr> ta_conEstablishedFifo := q, ta_appOpenConnRsp := ta_appOpenConnRsp s @ [st] \<rparr>
      | [] \<Rightarrow>
     (case ta_rtTimer2txApp_notification s of
        st # q \<Rightarrow> s\<lparr> ta_rtTimer2txApp_notification := q, ta_appOpenConnRsp := ta_appOpenConnRsp s @ [st] \<rparr>
      | [] \<Rightarrow>
     (case ta_appCloseConnReq s of
        i # q \<Rightarrow> s\<lparr> ta_appCloseConnReq := q, tai_closeSessionID := i,
          ta_txApp2stateTable_upd_req := ta_txApp2stateTable_upd_req s @ [stateQuery_read i],
          tai_fsmState := CLOSE_CONN \<rparr>
      | [] \<Rightarrow> s))))"

definition tai_close :: "tx_app_st \<Rightarrow> tx_app_st" where
  "tai_close s =
     (case ta_stateTable2txApp_upd_rsp s of
        state # q \<Rightarrow>
          (let s1 = s\<lparr> ta_stateTable2txApp_upd_rsp := q, tai_fsmState := IDLE \<rparr>
           in if state = ESTABLISHED \<or> state = FIN_WAIT_2 \<or> state = FIN_WAIT_1
              then s1\<lparr> ta_txApp2stateTable_upd_req := ta_txApp2stateTable_upd_req s @
                         [stateQuery_write (tai_closeSessionID s) FIN_WAIT_1],
                       ta_txApp2eventEng_mergeEvent := ta_txApp2eventEng_mergeEvent s @
                         [event_mk FIN (tai_closeSessionID s)] \<rparr>
              else s1\<lparr> ta_txApp2stateTable_upd_req := ta_txApp2stateTable_upd_req s @
                         [stateQuery_write (tai_closeSessionID s) state] \<rparr>)
      | [] \<Rightarrow> s)"

definition tx_app_if :: "u32 \<Rightarrow> tx_app_st \<Rightarrow> tx_app_st" where
  "tx_app_if myIpAddress s =
     (let s1 = tai_open myIpAddress s
      in case tai_fsmState s1 of IDLE \<Rightarrow> tai_idle s1 | CLOSE_CONN \<Rightarrow> tai_close s1)"

section \<open>An accepted write fits\<close>

lemma unat_sub_less: "(b :: 'a::len word) < a \<Longrightarrow> unat (a - b) = unat a - unat b"
  by (rule unat_sub) simp

lemma accepted_fits:
  assumes "unat len \<le> unat (maxWriteLength w)"
  shows "wdist (tar_ackd w) (tar_mempt w + ucast (len :: u16)) = wdist (tar_ackd w) (tar_mempt w) + unat len"
    and "wdist (tar_ackd w) (tar_mempt w) + unat len < BUFFER_SIZE"
proof -
  have sum: "unat (maxWriteLength w) + wdist (tar_ackd w) (tar_mempt w) = BUFFER_SIZE - 1"
    unfolding maxWriteLength_def using free_plus_used [of "tar_ackd w" "tar_mempt w"] by (simp add: BUFFER_SIZE_def)
  then show less: "wdist (tar_ackd w) (tar_mempt w) + unat len < BUFFER_SIZE"
    using assms by (simp add: BUFFER_SIZE_def)
  have len: "unat (ucast len :: win) = unat len" by (simp add: unat_ucast_up)
  have "tar_mempt w + ucast len - tar_ackd w = (tar_mempt w - tar_ackd w) + ucast len" by simp
  then have "wdist (tar_ackd w) (tar_mempt w + ucast len)
      = (unat (tar_mempt w - tar_ackd w) + unat (ucast len :: win)) mod 2 ^ LENGTH(18)"
    unfolding wdist_def by (simp only: unat_word_ariths)
  then show "wdist (tar_ackd w) (tar_mempt w + ucast len) = wdist (tar_ackd w) (tar_mempt w) + unat len"
    using less len by (simp add: wdist_def BUFFER_SIZE_def)
qed

lemma usable_fits:
  assumes "unat (len :: u16) \<le> unat (tasi_usableWindow w)" and "len \<noteq> 0"
  shows "wdist (tar_ackd w) (tar_mempt w) + unat len \<le> unat (tar_min_window w)"
proof -
  have "unat len \<noteq> 0" using assms(2) by (simp add: unat_eq_0)
  then have "tar_min_window w > tasi_usedLength w"
    using assms(1) by (auto simp: tasi_usableWindow_def split: if_splits)
  then show ?thesis
    using assms(1) by (simp add: tasi_usableWindow_def tasi_usedLength_def wdist_def unat_sub_less word_less_nat_alt)
qed

text \<open>
  The answer to a write request.  When the replies of the state table and of the pointer table are
  there, the request gets exactly one answer with its session and length.  The answer is positive
  exactly when the connection is established and the data fit; then the memory command, the transmit
  event and the pointer update for exactly this data are sent, the data end before the last
  acknowledged octet of the ring (so unacknowledged data are never overwritten, across the wrap-around
  too) and, with TCP\_NODELAY, within the peer's window.  With a negative answer nothing is written.
\<close>

theorem tx_write_answer:
  assumes "tai_state s = READ_META" and "ta_txSar2txApp_upd_rsp s = w # ws"
    and "ta_stateTable2txApp_rsp s = st # sts"
    and "tasi_writeMeta s = \<lparr> atm_sessionID = i, atm_length = len \<rparr>" and "len \<noteq> 0"
    and "t = tasi_metaLoader cfg s"
  shows "\<exists>r. ta_appTxDataRsp t = ta_appTxDataRsp s @ [r] \<and> atr_sessionID r = i \<and> atr_length r = len
    \<and> (if atr_error r = NO_ERROR
       then st = ESTABLISHED
         \<and> ta_tasi_meta2pkgPushCmd t = ta_tasi_meta2pkgPushCmd s @ [mmCmd_mk (pkgAddr i (tar_mempt w)) len]
         \<and> ta_txAppStream2event_mergeEvent t = ta_txAppStream2event_mergeEvent s @ [event_data TX i (tar_mempt w) len]
         \<and> ta_txApp2txSar_upd_req t = ta_txApp2txSar_upd_req s @ [txAppTxSarQuery_write i (tar_mempt w + ucast len)]
         \<and> wdist (tar_ackd w) (tar_mempt w + ucast len) = wdist (tar_ackd w) (tar_mempt w) + unat len
         \<and> wdist (tar_ackd w) (tar_mempt w) + unat len < BUFFER_SIZE
         \<and> (TCP_NODELAY cfg \<longrightarrow> wdist (tar_ackd w) (tar_mempt w) + unat len \<le> unat (tar_min_window w))
       else (st \<noteq> ESTABLISHED \<or> unat len > unat (maxWriteLength w)
             \<or> TCP_NODELAY cfg \<and> unat len > unat (tasi_usableWindow w))
         \<and> ta_tasi_meta2pkgPushCmd t = ta_tasi_meta2pkgPushCmd s
         \<and> ta_txAppStream2event_mergeEvent t = ta_txAppStream2event_mergeEvent s
         \<and> ta_txApp2txSar_upd_req t = ta_txApp2txSar_upd_req s)
    \<and> tai_state t = READ_REQUEST"
proof (cases "st \<noteq> ESTABLISHED \<or> unat len > unat (maxWriteLength w)
    \<or> TCP_NODELAY cfg \<and> unat len > unat (tasi_usableWindow w)")
  case True
  then show ?thesis
    unfolding assms(6)
    using assms(1-5) by (auto simp: tasi_metaLoader_def Let_def appTxRsp_mk_def NO_ERROR_def
        ERROR_NOSPACE_def ERROR_NOCONNCECTION_def)
next
  case False
  then have fits: "st = ESTABLISHED" "unat len \<le> unat (maxWriteLength w)"
      "TCP_NODELAY cfg \<Longrightarrow> unat len \<le> unat (tasi_usableWindow w)" by auto
  show ?thesis
    unfolding assms(6)
    using assms(1-4) fits accepted_fits [OF fits(2)] usable_fits [OF fits(3) assms(5)]
    by (auto simp: tasi_metaLoader_def Let_def appTxRsp_mk_def)
qed

section \<open>Pointers and write status\<close>

text \<open>The number of status words a write waits for: one, or two when it runs over the end of the ring.\<close>

definition statuses_of :: "event \<Rightarrow> nat" where
  "statuses_of ev = (if unat (ev_address ev) + unat (ev_length ev) > BUFFER_SIZE then 2 else 1)"

lemma status_READ_EV:
  "\<lbrakk> tash_state s = READ_EV; ta_txApp_eventCache s = ev # q; ev_type ev = TX \<rbrakk> \<Longrightarrow>
   txAppStatusHandler cfg s = s\<lparr> ta_txApp_eventCache := q, tash_ev := ev, tash_state := READ_STATUS_1 \<rparr>"
  by (simp add: txAppStatusHandler_def Let_def)

text \<open>
  The end of written data is passed on once, when all of it is in memory.  For a write whose memory
  commands all succeed the status handler waits for one status word, or for two when the write runs
  over the end of the ring; only with the last of them it sends the session's new data end, the start
  plus the length on the ring, to the transmit SAR table, and is ready for the next write.
\<close>

theorem write_status_pushed_once:
  assumes "tash_state s = READ_EV" and "ta_txApp_eventCache s = ev # q" and "ev_type ev = TX"
    and "ta_txBufferWriteStatus s = sts @ rest" and "length sts = statuses_of ev" and "list_all ms_okay sts"
    and "t = (txAppStatusHandler cfg ^^ Suc (statuses_of ev)) s"
  shows "ta_txApp2txSar_push t = ta_txApp2txSar_push s @
      [\<lparr> tap_sessionID = ev_sessionID ev, tap_app = ev_address ev + ucast (ev_length ev) \<rparr>]
    \<and> ta_txApp2txSar_push ((txAppStatusHandler cfg ^^ statuses_of ev) s) = ta_txApp2txSar_push s
    \<and> tash_state t = READ_EV \<and> ta_txApp_eventCache t = q \<and> ta_txBufferWriteStatus t = rest"
proof (cases "unat (ev_address ev) + unat (ev_length ev) > BUFFER_SIZE")
  case True
  then have two: "statuses_of ev = 2" by (simp add: statuses_of_def)
  with assms(5) obtain a b where "sts = [a, b]" by (auto simp: numeral_2_eq_2 length_Suc_conv)
  then show ?thesis
    unfolding assms(7) two
    using assms(1-4,6) True
    by (simp add: numeral_2_eq_2 status_READ_EV txAppStatusHandler_def Let_def tash_push_def)
next
  case False
  then have one: "statuses_of ev = 1" by (simp add: statuses_of_def)
  with assms(5) obtain a where "sts = [a]" by (auto simp: length_Suc_conv)
  then show ?thesis
    unfolding assms(7) one
    using assms(1-4,6) False
    by (simp add: status_READ_EV txAppStatusHandler_def Let_def tash_push_def)
qed

text \<open>
  The first acknowledgement sets the pointers up.  After the transmit SAR table has pushed the
  initial sequence position of a session and the pointer table has read it, a write request of the
  session is answered from pointers that leave all but two octets of the ring free, and a later
  acknowledgement frees what it acknowledges.
\<close>

theorem tx_app_table_init:
  assumes "ta_txSar2txApp_ack_push s = [\<lparr> tsp_sessionID = i, tsp_ackd = a, tsp_min_window = mw, tsp_init = True \<rparr>]"
    and "ta_txApp2txSar_upd_req s = [txAppTxSarQuery_read i]" and "t = (tx_app_table cfg ^^ 2) s"
  shows "\<exists>w. ta_txSar2txApp_upd_rsp t = ta_txSar2txApp_upd_rsp s @ [w]
    \<and> tar_sessionID w = i \<and> tar_mempt w = a \<and> tar_ackd w = a - 1
    \<and> unat (maxWriteLength w) = BUFFER_SIZE - 2
    \<and> (\<forall>j. j \<noteq> i \<longrightarrow> app_table t j = app_table s j)"
proof -
  have "(- 2 :: win) = 262142" by code_simp
  then have free: "unat (a - 1 - a - 1) = 262142" by simp
  obtain w where w: "w = \<lparr> tar_sessionID = i, tar_ackd = a - 1, tar_mempt = a,
      tar_min_window = (if TCP_NODELAY cfg then mw else 0) \<rparr>" by simp
  have "ta_txSar2txApp_upd_rsp t = ta_txSar2txApp_upd_rsp s @ [w]" "\<forall>j. j \<noteq> i \<longrightarrow> app_table t j = app_table s j"
    using assms by (simp_all add: numeral_2_eq_2 tx_app_table_def Let_def txAppTxSarQuery_read_def w)
  moreover have "unat (maxWriteLength w) = BUFFER_SIZE - 2"
    using free by (simp only: maxWriteLength_def w txAppTxSarReply.simps BUFFER_SIZE_def) simp
  ultimately show ?thesis by (intro exI [of _ w]) (simp add: w)
qed

section \<open>The lock protocol of the state table\<close>

text \<open>The write-back that is still owed.\<close>

definition owed_writeback :: "tx_app_st \<Rightarrow> stateQuery list" where
  "owed_writeback s = (case tai_fsmState s of IDLE \<Rightarrow> [] | CLOSE_CONN \<Rightarrow> [stateQuery_write (tai_closeSessionID s) CLOSED])"

definition tai_protocol :: "tx_app_st \<Rightarrow> bool" where
  "tai_protocol s \<longleftrightarrow> alternates None (ta_txApp2stateTable_upd_req s @ owed_writeback s)"

lemma tai_open_frame [simp]:
  "tai_fsmState (tai_open ip s) = tai_fsmState s" "tai_closeSessionID (tai_open ip s) = tai_closeSessionID s"
  "ta_txApp2stateTable_upd_req (tai_open ip s) = ta_txApp2stateTable_upd_req s"
  by (simp_all add: tai_open_def)

lemma tai_protocol_cong:
  "tai_fsmState t = tai_fsmState s \<Longrightarrow> tai_closeSessionID t = tai_closeSessionID s \<Longrightarrow>
   ta_txApp2stateTable_upd_req t = ta_txApp2stateTable_upd_req s \<Longrightarrow> tai_protocol t = tai_protocol s"
  by (cases "tai_fsmState s") (simp_all add: tai_protocol_def owed_writeback_def)

lemma tai_protocol_idle: "tai_protocol s \<Longrightarrow> tai_fsmState s = IDLE \<Longrightarrow> tai_protocol (tai_idle s)"
  by (auto simp: tai_protocol_def owed_writeback_def tai_idle_def stateQuery_read_def stateQuery_write_def
      intro: alternates_snoc_write alternates_snoc_pair split: list.split)

lemma tai_protocol_close:
  assumes "tai_protocol s" "tai_fsmState s = CLOSE_CONN"
  shows "tai_protocol (tai_close s)"
proof -
  have "alternates None (ta_txApp2stateTable_upd_req s @ [stateQuery_write (tai_closeSessionID s) x])" for x
    using assms by (auto simp: tai_protocol_def owed_writeback_def stateQuery_write_def
        elim: alternates_replace_last)
  with assms show ?thesis
    by (auto simp: tai_protocol_def owed_writeback_def tai_close_def Let_def split: list.split)
qed

lemma tai_protocol_step: "tai_protocol s \<Longrightarrow> tai_protocol (tx_app_if ip s)"
proof -
  assume "tai_protocol s"
  then have "tai_protocol (tai_open ip s)" by (subst tai_protocol_cong [where s = s]) simp_all
  then show ?thesis
    by (cases "tai_fsmState s") (simp_all add: tx_app_if_def Let_def tai_protocol_idle tai_protocol_close)
qed

text \<open>The interface with its environment, which leaves the request stream alone: the stream is the
  history of all requests to the state table.\<close>

inductive ta_move :: "u32 \<Rightarrow> tx_app_st \<Rightarrow> tx_app_st \<Rightarrow> bool" for ip where
  ta_run: "ta_move ip s (tx_app_if ip s)"
| ta_env: "\<lbrakk> tai_fsmState t = tai_fsmState s; tai_closeSessionID t = tai_closeSessionID s;
     ta_txApp2stateTable_upd_req t = ta_txApp2stateTable_upd_req s \<rbrakk> \<Longrightarrow> ta_move ip s t"

definition ta_start :: "tx_app_st \<Rightarrow> bool" where
  "ta_start s \<longleftrightarrow> tai_fsmState s = IDLE \<and> ta_txApp2stateTable_upd_req s = []"

interpretation ta_sys: lock_client ta_start "ta_move ip" tai_protocol ta_txApp2stateTable_upd_req owed_writeback for ip
proof unfold_locales
  show "tai_protocol s" if "ta_start s" for s
    using that by (simp add: ta_start_def tai_protocol_def owed_writeback_def)
  show "tai_protocol t" if "tai_protocol s" "ta_move ip s t" for s t
    using that(2,1) by (cases rule: ta_move.cases) (auto simp: tai_protocol_step dest: tai_protocol_cong)
qed (simp add: tai_protocol_def)

text \<open>
  The transmit application interface keeps the lock protocol of the state table.  Whatever the
  application, the session lookup and the timers send, the sequence of all its requests to the state
  table, followed by the write-back it owes while it waits for a reply, reads a session only without a
  lock and writes each session it has read back before the next request: a lock it takes is always
  returned.
\<close>

theorem tx_app_if_lock_protocol:
  assumes "reachable ta_start (ta_move ip) s"
  shows "alternates None (ta_txApp2stateTable_upd_req s @ owed_writeback s)"
  by (rule ta_sys.keeps_protocol [OF assms])

text \<open>
  Closing a connection.  When the state of the session the application wants to close arrives, the
  session goes to FIN-WAIT-1 together with one FIN event exactly when it is established or already in
  FIN-WAIT-1 or FIN-WAIT-2; in every other state it is written back unchanged and no event is sent.
\<close>

theorem tx_app_close:
  assumes "tai_fsmState s = CLOSE_CONN" and "ta_stateTable2txApp_upd_rsp s = st # q" and "ta_appOpenConnReq s = []"
    and "can = (st = ESTABLISHED \<or> st = FIN_WAIT_1 \<or> st = FIN_WAIT_2)" and "t = tx_app_if ip s"
  shows "ta_txApp2stateTable_upd_req t = ta_txApp2stateTable_upd_req s @
      [stateQuery_write (tai_closeSessionID s) (if can then FIN_WAIT_1 else st)]
    \<and> ta_txApp2eventEng_mergeEvent t = ta_txApp2eventEng_mergeEvent s @
      (if can then [event_mk FIN (tai_closeSessionID s)] else [])
    \<and> tai_fsmState t = IDLE"
  using assms by (auto simp: tx_app_if_def tai_open_def tai_close_def Let_def)

section \<open>Concrete runs\<close>

definition tx_app_init :: tx_app_st where
  "tx_app_init = \<lparr> tai_state = READ_REQUEST, tasi_writeMeta = \<lparr> atm_sessionID = 0, atm_length = 0 \<rparr>,
     app_table = (\<lambda>_. \<lparr> tae_ackd = 0, tae_mempt = 0, tae_min_window = 0 \<rparr>), tash_state = READ_EV,
     tash_ev = event_mk TX 0, tai_fsmState = IDLE, tai_closeSessionID = 0, ta_appTxDataReqMetaData = [],
     ta_stateTable2txApp_rsp = [], ta_appTxDataRsp = [], ta_txApp2stateTable_req = [],
     ta_txApp2txSar_upd_req = [], ta_txSar2txApp_upd_rsp = [], ta_tasi_meta2pkgPushCmd = [],
     ta_txAppStream2event_mergeEvent = [], ta_txApp2eventEng_mergeEvent = [], ta_txApp_eventCache = [],
     ta_txApp2eventEng_setEvent = [], ta_txBufferWriteStatus = [], ta_txApp2txSar_push = [],
     ta_txSar2txApp_ack_push = [], ta_appOpenConnReq = [], ta_appCloseConnReq = [],
     ta_sLookup2txApp_rsp = [], ta_portTable2txApp_port_rsp = [], ta_stateTable2txApp_upd_rsp = [],
     ta_conEstablishedFifo = [], ta_appOpenConnRsp = [], ta_txApp2sLookup_req = [],
     ta_txApp2stateTable_upd_req = [], ta_rtTimer2txApp_notification = [] \<rparr>"

definition tx_write_ex :: tx_app_st where
  "tx_write_ex = tx_app_init\<lparr> tai_state := READ_META, tasi_writeMeta := \<lparr> atm_sessionID = 2, atm_length = 32 \<rparr>,
     ta_stateTable2txApp_rsp := [ESTABLISHED],
     ta_txSar2txApp_upd_rsp := [\<lparr> tar_sessionID = 2, tar_ackd = 0x3fff0, tar_mempt = 0x3fff8, tar_min_window = 1000 \<rparr>] \<rparr>"

theorem tx_write_answer_witness:
  "\<exists>r. ta_appTxDataRsp (tasi_metaLoader default_config tx_write_ex) = [r] \<and> atr_error r = NO_ERROR
    \<and> wdist (0x3fff0 :: win) (0x3fff8 + ucast (32 :: u16)) = 40"
proof -
  have e: "tasi_metaLoader default_config tx_write_ex = tx_write_ex\<lparr> tai_state := READ_REQUEST,
      ta_stateTable2txApp_rsp := [], ta_txSar2txApp_upd_rsp := [],
      ta_tasi_meta2pkgPushCmd := [mmCmd_mk (pkgAddr 2 0x3fff8) 32],
      ta_appTxDataRsp := [appTxRsp_mk 2 32 (- 9) NO_ERROR],
      ta_txAppStream2event_mergeEvent := [event_data TX 2 0x3fff8 32],
      ta_txApp2txSar_upd_req := [txAppTxSarQuery_write 2 (0x3fff8 + ucast (32 :: u16))] \<rparr>"
    by (simp add: tasi_metaLoader_def tx_write_ex_def tx_app_init_def maxWriteLength_def tasi_usableWindow_def
        tasi_usedLength_def default_config_def)
  have rsp: "tai_state tx_write_ex = READ_META" "ta_txSar2txApp_upd_rsp tx_write_ex =
      \<lparr> tar_sessionID = 2, tar_ackd = 0x3fff0, tar_mempt = 0x3fff8, tar_min_window = 1000 \<rparr> # []"
    "ta_stateTable2txApp_rsp tx_write_ex = ESTABLISHED # []"
    "tasi_writeMeta tx_write_ex = \<lparr> atm_sessionID = 2, atm_length = 32 \<rparr>" "(32 :: u16) \<noteq> 0"
    by (simp_all add: tx_write_ex_def tx_app_init_def)
  have "ta_appTxDataRsp (tasi_metaLoader default_config tx_write_ex) = [appTxRsp_mk 2 32 (- 9) NO_ERROR]"
    "ta_appTxDataRsp tx_write_ex = []" "atr_error (appTxRsp_mk 2 32 (- 9) NO_ERROR) = NO_ERROR"
    by (simp_all add: e) (simp_all add: tx_write_ex_def tx_app_init_def appTxRsp_mk_def)
  moreover have "wdist (0x3fff0 :: win) 0x3fff8 + unat (32 :: u16) = 40" by (simp add: wdist_def)
  ultimately show ?thesis
    using tx_write_answer [OF rsp refl, of default_config] by auto
qed

definition status_ok :: mmStatus where
  "status_ok = \<lparr> ms_tag = 0, ms_interr = False, ms_decerr = False, ms_slverr = False, ms_okay = True \<rparr>"

theorem write_status_pushed_once_witness:
  "ta_txApp2txSar_push ((txAppStatusHandler default_config ^^ 3) (tx_app_init\<lparr>
      ta_txApp_eventCache := [event_data TX 2 0x3fff8 32],
      ta_txBufferWriteStatus := [status_ok, status_ok] \<rparr>))
    = [\<lparr> tap_sessionID = 2, tap_app = 0x18 \<rparr>]"
  using write_status_pushed_once [of "tx_app_init\<lparr> ta_txApp_eventCache := [event_data TX 2 0x3fff8 32],
      ta_txBufferWriteStatus := [status_ok, status_ok] \<rparr>"
      "event_data TX 2 0x3fff8 32" "[]" "[status_ok, status_ok]"
      "[]", OF _ _ _ _ _ _ refl, of default_config]
  by (simp add: tx_app_init_def event_data_def statuses_of_def BUFFER_SIZE_def numeral_3_eq_3 status_ok_def)

theorem tx_app_table_init_witness:
  "\<exists>w. ta_txSar2txApp_upd_rsp ((tx_app_table default_config ^^ 2) (tx_app_init\<lparr>
      ta_txSar2txApp_ack_push := [\<lparr> tsp_sessionID = 3, tsp_ackd = 1, tsp_min_window = 8, tsp_init = True \<rparr>],
      ta_txApp2txSar_upd_req := [txAppTxSarQuery_read 3] \<rparr>)) = [w] \<and> unat (maxWriteLength w) = 262142"
  using tx_app_table_init [of "tx_app_init\<lparr>
      ta_txSar2txApp_ack_push := [\<lparr> tsp_sessionID = 3, tsp_ackd = 1, tsp_min_window = 8, tsp_init = True \<rparr>],
      ta_txApp2txSar_upd_req := [txAppTxSarQuery_read 3] \<rparr>" 3 1 8, OF _ _ refl, of default_config]
  by (auto simp: tx_app_init_def BUFFER_SIZE_def)

theorem tx_app_if_lock_protocol_witness:
  "alternates None (ta_txApp2stateTable_upd_req (tx_app_if 9 (tx_app_init\<lparr> ta_appCloseConnReq := [6] \<rparr>)) @
     owed_writeback (tx_app_if 9 (tx_app_init\<lparr> ta_appCloseConnReq := [6] \<rparr>)))"
proof -
  have "reachable ta_start (ta_move 9) (tx_app_init\<lparr> ta_appCloseConnReq := [6] \<rparr>)"
    by (rule reachable_init) (simp add: ta_start_def tx_app_init_def)
  then have "reachable ta_start (ta_move 9) (tx_app_if 9 (tx_app_init\<lparr> ta_appCloseConnReq := [6] \<rparr>))"
    by (rule reachable_step) (rule ta_run)
  then show ?thesis by (rule tx_app_if_lock_protocol)
qed

theorem tx_app_close_witness:
  "ta_txApp2stateTable_upd_req (tx_app_if 9 (tx_app_init\<lparr> tai_fsmState := CLOSE_CONN, tai_closeSessionID := 6,
      ta_stateTable2txApp_upd_rsp := [ESTABLISHED] \<rparr>)) = [stateQuery_write 6 FIN_WAIT_1]"
  using tx_app_close [of "tx_app_init\<lparr> tai_fsmState := CLOSE_CONN, tai_closeSessionID := 6,
      ta_stateTable2txApp_upd_rsp := [ESTABLISHED] \<rparr>" ESTABLISHED "[]" True "tx_app_if 9 (tx_app_init\<lparr>
      tai_fsmState := CLOSE_CONN, tai_closeSessionID := 6, ta_stateTable2txApp_upd_rsp := [ESTABLISHED] \<rparr>)" 9]
  by (simp add: tx_app_init_def)

end
