(* ===== verification/Tx_Sar_Table.thy ===== *)
theory Tx_Sar_Table
  imports Toe_Types
begin

text \<open>
  The transmit segmentation-and-reassembly table (\<^verbatim>\<open>tx_sar_table/tx_sar_table.cpp\<close>).

  One invocation is \<open>tx_sar_table cfg junk\<close>.  The code builds the scaled peer window in a local
  variable of 30 bits of which it only assigns 16: \<open>junk\<close> is what the variable holds before, and the
  theorems say where it can be seen.  The lemmas show what a read returns after the set-up of a
  connection, what the table pushes to the application interface on an acknowledgement, how the
  retransmission update works, that every request is served, and how the precomputed usable window
  relates to the window it is computed from.
\<close>

unbundle bit_operations_syntax

record tx_sar_st =
  tx_table :: "u16 \<Rightarrow> txSarEntry"
  ts_rxEng2txSar_upd_req :: "rxTxSarQuery list"
  ts_txEng2txSar_upd_req :: "txTxSarQuery list"
  ts_txApp2txSar_app_push :: "txAppTxSarPush list"
  ts_txSar2rxEng_upd_rsp :: "rxTxSarReply list"
  ts_txSar2txEng_upd_rsp :: "txTxSarReply list"
  ts_txSar2txApp_ack_push :: "txSarAckPush list"

section \<open>The module\<close>

text \<open>\<^verbatim>\<open>0x3908\<close>, ten segments of 1460 octets.\<close>

definition INITIAL_CWND :: win where "INITIAL_CWND = 0x3908"

definition scaled_recv_window :: "u30 \<Rightarrow> u4 \<Rightarrow> u16 \<Rightarrow> u30" where
  "scaled_recv_window junk win_shift recv_window =
     range_set junk (unat win_shift + 15) (unat win_shift) recv_window"

definition minWindow :: "win \<Rightarrow> u30 \<Rightarrow> win" where
  "minWindow cong_window scaled =
     (if unat cong_window < unat scaled then cong_window else ucast scaled)"

definition usedLength :: "txSarEntry \<Rightarrow> win" where
  "usedLength entry = ucast (tse_not_ackd entry) - ucast (tse_ackd entry)"

definition usableWindow :: "win \<Rightarrow> win \<Rightarrow> win" where
  "usableWindow minW used = (if minW < used then minW - used else 0)"

definition txTxSarReply_of :: "u30 \<Rightarrow> txSarEntry \<Rightarrow> txTxSarReply" where
  "txTxSarReply_of junk entry =
     (let scaled = scaled_recv_window junk (tse_win_shift entry) (tse_recv_window entry);
          minW = minWindow (tse_cong_window entry) scaled
      in \<lparr> ttr_ackd = tse_ackd entry, ttr_not_ackd = tse_not_ackd entry,
           ttr_usableWindow = usableWindow minW (usedLength entry),
           ttr_app = tse_app entry, ttr_usedLength = usedLength entry,
           ttr_finReady = tse_finReady entry, ttr_finSent = tse_finSent entry \<rparr>)"

definition txEng_update :: "txTxSarQuery \<Rightarrow> txSarEntry \<Rightarrow> txSarEntry" where
  "txEng_update q e =
     (if \<not> ttq_isRtQuery q
      then (let e1 = e\<lparr> tse_not_ackd := ttq_not_ackd q \<rparr>;
                e2 = (if ttq_init q
                      then e1\<lparr> tse_app := ucast (ttq_not_ackd q), tse_ackd := ttq_not_ackd q - 1,
                               tse_cong_window := INITIAL_CWND, tse_slowstart_threshold := 0xFFFF,
                               tse_finReady := ttq_finReady q, tse_finSent := ttq_finSent q \<rparr>
                      else e1);
                e3 = (if ttq_finReady q then e2\<lparr> tse_finReady := ttq_finReady q \<rparr> else e2)
            in if ttq_finSent q then e3\<lparr> tse_finSent := ttq_finSent q \<rparr> else e3)
      else e\<lparr> tse_slowstart_threshold := getThreshold q, tse_cong_window := INITIAL_CWND \<rparr>)"

definition txSarAckPush_mk :: "toe_config \<Rightarrow> u16 \<Rightarrow> win \<Rightarrow> win \<Rightarrow> bool \<Rightarrow> txSarAckPush" where
  "txSarAckPush_mk cfg i ackd min_window ini =
     \<lparr> tsp_sessionID = i, tsp_ackd = ackd,
       tsp_min_window = (if TCP_NODELAY cfg then min_window else 0), tsp_init = ini \<rparr>"

definition tst_txEng :: "toe_config \<Rightarrow> u30 \<Rightarrow> txTxSarQuery \<Rightarrow> tx_sar_st \<Rightarrow> tx_sar_st" where
  "tst_txEng cfg junk q s =
     (let i = ttq_sessionID q
      in if ttq_write q
         then s\<lparr> tx_table := (tx_table s)(i := txEng_update q (tx_table s i)),
                 ts_txSar2txApp_ack_push :=
                   (if \<not> ttq_isRtQuery q \<and> ttq_init q
                    then ts_txSar2txApp_ack_push s @
                           [txSarAckPush_mk cfg i (ucast (ttq_not_ackd q)) INITIAL_CWND True]
                    else ts_txSar2txApp_ack_push s) \<rparr>
         else s\<lparr> ts_txSar2txEng_upd_rsp :=
                   ts_txSar2txEng_upd_rsp s @ [txTxSarReply_of junk (tx_table s i)] \<rparr>)"

definition tst_rxEng :: "toe_config \<Rightarrow> u30 \<Rightarrow> rxTxSarQuery \<Rightarrow> tx_sar_st \<Rightarrow> tx_sar_st" where
  "tst_rxEng cfg junk q s =
     (let i = rtq_sessionID q; e = tx_table s i
      in if rtq_write q
         then (let win_shift = (if rtq_init q then rtq_win_shift q else tse_win_shift e);
                   e' = e\<lparr> tse_ackd := rtq_ackd q, tse_recv_window := rtq_recv_window q,
                           tse_cong_window := rtq_cong_window q, tse_count := rtq_count q,
                           tse_fastRetransmitted := rtq_fastRetransmitted q,
                           tse_win_shift := win_shift \<rparr>;
                   scaled = scaled_recv_window junk win_shift (rtq_recv_window q);
                   minW = minWindow (rtq_cong_window q) scaled
               in s\<lparr> tx_table := (tx_table s)(i := e'),
                     ts_txSar2txApp_ack_push := ts_txSar2txApp_ack_push s @
                       [txSarAckPush_mk cfg i (ucast (rtq_ackd q)) minW False] \<rparr>)
         else s\<lparr> ts_txSar2rxEng_upd_rsp := ts_txSar2rxEng_upd_rsp s @
                   [\<lparr> rtr_prevAck = tse_ackd e, rtr_nextByte = tse_not_ackd e,
                      rtr_cong_window = tse_cong_window e,
                      rtr_slowstart_threshold = tse_slowstart_threshold e,
                      rtr_count = tse_count e,
                      rtr_fastRetransmitted = tse_fastRetransmitted e \<rparr>] \<rparr>)"

definition tx_sar_table :: "toe_config \<Rightarrow> u30 \<Rightarrow> tx_sar_st \<Rightarrow> tx_sar_st" where
  "tx_sar_table cfg junk s =
     (case ts_txEng2txSar_upd_req s of
        q # qs \<Rightarrow> tst_txEng cfg junk q (s\<lparr> ts_txEng2txSar_upd_req := qs \<rparr>)
      | [] \<Rightarrow>
     (case ts_txApp2txSar_app_push s of
        push # qs \<Rightarrow>
          s\<lparr> ts_txApp2txSar_app_push := qs,
             tx_table := (tx_table s)(tap_sessionID push :=
               (tx_table s (tap_sessionID push))\<lparr> tse_app := tap_app push \<rparr>) \<rparr>
      | [] \<Rightarrow>
     (case ts_rxEng2txSar_upd_req s of
        q # qs \<Rightarrow> tst_rxEng cfg junk q (s\<lparr> ts_rxEng2txSar_upd_req := qs \<rparr>)
      | [] \<Rightarrow> s)))"

lemmas tx_sar_defs = tx_sar_table_def tst_txEng_def tst_rxEng_def Let_def

section \<open>Interfaces\<close>

definition tx_sar_backlog :: "tx_sar_st \<Rightarrow> nat" where
  "tx_sar_backlog s = length (ts_txEng2txSar_upd_req s) + length (ts_txApp2txSar_app_push s)
     + length (ts_rxEng2txSar_upd_req s)"

definition tx_sar_target :: "tx_sar_st \<Rightarrow> u16 option" where
  "tx_sar_target s =
     (if ts_txEng2txSar_upd_req s \<noteq> [] then Some (ttq_sessionID (hd (ts_txEng2txSar_upd_req s)))
      else if ts_txApp2txSar_app_push s \<noteq> []
      then Some (tap_sessionID (hd (ts_txApp2txSar_app_push s)))
      else if ts_rxEng2txSar_upd_req s \<noteq> []
      then Some (rtq_sessionID (hd (ts_rxEng2txSar_upd_req s)))
      else None)"

interpretation tx_sar_srv: stream_server "tx_sar_table cfg junk" tx_sar_backlog for cfg junk
  by unfold_locales (auto simp: tx_sar_defs tx_sar_backlog_def split: list.splits)

interpretation tx_sar_idx: session_indexed "tx_sar_table cfg junk" tx_table tx_sar_target for cfg junk
  by unfold_locales
     (auto simp: tx_sar_defs tx_sar_target_def split: list.splits if_splits)

section \<open>The window arithmetic\<close>

lemma unat_minWindow: "unat (minWindow c s) = min (unat c) (unat s)"
proof (cases "unat c < unat s")
  case False
  moreover have "unat c < 2 ^ LENGTH(18)" by (rule unsigned_less)
  ultimately have "unat s < 2 ^ 18" by simp
  then have "unat (ucast s :: win) = unat s"
    by (simp add: unsigned_ucast_eq unsigned_take_bit_eq take_bit_nat_eq_self)
  with False show ?thesis by (simp add: minWindow_def)
qed (simp add: minWindow_def)

lemma scaled_recv_window_zero:
  assumes "unat sh \<le> 14"
  shows "unat (scaled_recv_window 0 sh rw) = unat rw * 2 ^ unat sh"
proof -
  have "scaled_recv_window 0 sh rw = push_bit (unat sh) (ucast rw)"
    using assms
    by (intro bit_word_eqI)
       (auto simp: scaled_recv_window_def bit_range_set bit_simps dest: bit_imp_le_length)
  moreover have "unat rw * 2 ^ unat sh < 2 ^ 30"
  proof -
    have "unat rw * 2 ^ unat sh \<le> unat rw * 2 ^ 14"
      using assms by (intro mult_left_mono power_increasing) auto
    also have "\<dots> < 2 ^ 16 * 2 ^ 14" using unsigned_less [of rw] by (intro mult_strict_right_mono) auto
    finally show ?thesis by simp
  qed
  moreover have "unat (push_bit (unat sh) (ucast rw :: u30)) = take_bit 30 (unat rw * 2 ^ unat sh)"
    by (subst unsigned_push_bit_eq)
       (simp add: push_bit_eq_mult unsigned_ucast_eq unsigned_take_bit_eq take_bit_nat_eq_self
         less_trans [OF unsigned_less])
  ultimately show ?thesis by (simp only: take_bit_nat_eq_self)
qed

lemma tx_sar_table_txEng:
  "ts_txEng2txSar_upd_req s = q # qs \<Longrightarrow>
   tx_sar_table cfg junk s = tst_txEng cfg junk q (s\<lparr> ts_txEng2txSar_upd_req := qs \<rparr>)"
  by (simp add: tx_sar_table_def)

lemma tx_sar_table_rxEng:
  "ts_txEng2txSar_upd_req s = [] \<Longrightarrow> ts_txApp2txSar_app_push s = [] \<Longrightarrow>
   ts_rxEng2txSar_upd_req s = q # qs \<Longrightarrow>
   tx_sar_table cfg junk s = tst_rxEng cfg junk q (s\<lparr> ts_rxEng2txSar_upd_req := qs \<rparr>)"
  by (simp add: tx_sar_table_def)

section \<open>Properties\<close>

definition tx_entry0 :: txSarEntry where
  "tx_entry0 = \<lparr> tse_ackd = 0, tse_not_ackd = 0, tse_recv_window = 0, tse_win_shift = 0,
     tse_cong_window = 0, tse_slowstart_threshold = 0, tse_app = 0, tse_count = 0,
     tse_fastRetransmitted = False, tse_finReady = False, tse_finSent = False \<rparr>"

definition tx_sar_init :: tx_sar_st where
  "tx_sar_init = \<lparr> tx_table = (\<lambda>_. tx_entry0), ts_rxEng2txSar_upd_req = [],
     ts_txEng2txSar_upd_req = [], ts_txApp2txSar_app_push = [], ts_txSar2rxEng_upd_rsp = [],
     ts_txSar2txEng_upd_rsp = [], ts_txSar2txApp_ack_push = [] \<rparr>"

text \<open>
  Set-up of the send side.  After the TX engine initialises a session at sequence number \<open>n\<close>,
  the next read finds exactly the SYN octet outstanding (\<^verbatim>\<open>ackd = n - 1\<close>, \<^verbatim>\<open>not_ackd = n\<close>, used
  length 1), the application pointer at \<open>n\<close>, the initial congestion window and no FIN; the
  application interface is told the same pointer; and every other session is unchanged.
\<close>

theorem tx_sar_init_read:
  assumes "ts_txEng2txSar_upd_req s =
      [txTxSarQuery_mk i n True True False False False, txTxSarQuery_read i]"
  shows "\<exists>r. ts_txSar2txEng_upd_rsp ((tx_sar_table cfg junk ^^ 2) s) = ts_txSar2txEng_upd_rsp s @ [r]
      \<and> ttr_ackd r = n - 1 \<and> ttr_not_ackd r = n \<and> ttr_usedLength r = 1 \<and> ttr_app r = ucast n
      \<and> \<not> ttr_finReady r \<and> \<not> ttr_finSent r
    \<and> ts_txSar2txApp_ack_push ((tx_sar_table cfg junk ^^ 2) s) =
        ts_txSar2txApp_ack_push s @ [txSarAckPush_mk cfg i (ucast n) INITIAL_CWND True]
    \<and> tse_cong_window (tx_table ((tx_sar_table cfg junk ^^ 2) s) i) = INITIAL_CWND
    \<and> (\<forall>j. j \<noteq> i \<longrightarrow> tx_table ((tx_sar_table cfg junk ^^ 2) s) j = tx_table s j)"
proof -
  have used: "(ucast n :: win) - ucast (n - 1) = 1"
    by (simp add: ucast_down_sub)
  show ?thesis using assms used
    by (simp add: tx_sar_defs txTxSarQuery_mk_def txTxSarQuery_read_def txEng_update_def
        txTxSarReply_of_def usedLength_def numeral_2_eq_2)
qed

theorem tx_sar_init_read_witness:
  "\<exists>r. ts_txSar2txEng_upd_rsp ((tx_sar_table default_config 0 ^^ 2)
          (tx_sar_init\<lparr> ts_txEng2txSar_upd_req :=
             [txTxSarQuery_mk 4 0 True True False False False, txTxSarQuery_read 4] \<rparr>)) = [r]
      \<and> ttr_ackd r = - 1 \<and> ttr_usedLength r = 1"
  using tx_sar_init_read [of "tx_sar_init\<lparr> ts_txEng2txSar_upd_req :=
             [txTxSarQuery_mk 4 0 True True False False False, txTxSarQuery_read 4] \<rparr>" 4 0
             default_config 0]
  by (auto simp: tx_sar_init_def)

text \<open>
  The acknowledgement push.  When the RX engine acknowledges up to \<^verbatim>\<open>ackd\<close>, the table stores the
  acknowledgement, the peer's window and the congestion state, keeps the send pointer
  \<^verbatim>\<open>not_ackd\<close>, the application pointer and the FIN flags, and pushes to the application interface
  the truncated acknowledgement together with the minimum of the congestion window and the scaled
  peer window (scaled by the shift of this query at set-up, by the stored one afterwards).
\<close>

theorem tx_sar_ack_push:
  assumes "ts_txEng2txSar_upd_req s = []" and "ts_txApp2txSar_app_push s = []"
    and "ts_rxEng2txSar_upd_req s = q # qs" and "rtq_write q" and "TCP_NODELAY cfg"
    and "t = tx_sar_table cfg junk s" and "i = rtq_sessionID q"
    and "sh = (if rtq_init q then rtq_win_shift q else tse_win_shift (tx_table s i))"
  shows "\<exists>p. ts_txSar2txApp_ack_push t = ts_txSar2txApp_ack_push s @ [p]
      \<and> tsp_sessionID p = i \<and> tsp_ackd p = ucast (rtq_ackd q) \<and> \<not> tsp_init p
      \<and> unat (tsp_min_window p) =
          min (unat (rtq_cong_window q)) (unat (scaled_recv_window junk sh (rtq_recv_window q)))
    \<and> tse_ackd (tx_table t i) = rtq_ackd q \<and> tse_recv_window (tx_table t i) = rtq_recv_window q
    \<and> tse_win_shift (tx_table t i) = sh \<and> tse_not_ackd (tx_table t i) = tse_not_ackd (tx_table s i)
    \<and> tse_app (tx_table t i) = tse_app (tx_table s i)
    \<and> tse_finSent (tx_table t i) = tse_finSent (tx_table s i)"
  using assms
  by (simp add: tx_sar_table_rxEng tst_rxEng_def Let_def txSarAckPush_mk_def unat_minWindow)

theorem tx_sar_ack_push_witness:
  "\<exists>p. ts_txSar2txApp_ack_push (tx_sar_table default_config 0 (tx_sar_init\<lparr> ts_rxEng2txSar_upd_req :=
        [rxTxSarQuery_init 3 77 500 0x3908 0 False 2] \<rparr>)) = [p] \<and> unat (tsp_min_window p) = 2000"
proof -
  let ?q = "rxTxSarQuery_init 3 77 500 0x3908 0 False 2"
  let ?s = "tx_sar_init\<lparr> ts_rxEng2txSar_upd_req := [?q] \<rparr>"
  have "unat (scaled_recv_window 0 2 500) = 2000"
    using scaled_recv_window_zero [of 2 500] by simp
  then show ?thesis
    using tx_sar_ack_push [of ?s ?q "[]" default_config "tx_sar_table default_config 0 ?s" 0 3 2]
    by (auto simp: tx_sar_init_def rxTxSarQuery_init_def default_config_def)
qed

text \<open>
  The unassigned bits of the scaled window.  The local variable that receives the scaled peer
  window is not initialised, and the assignment of its bits \<open>sh .. sh + 15\<close> leaves the others as they
  were.  So with window scaling in use (shift 2) and a peer that has closed its window, what is
  pushed to the application interface as the usable window depends on the variable's previous
  content: it is 0 when that is 0, and 3 octets when the two low bits happen to be set.
\<close>

theorem tx_sar_window_reads_junk:
  assumes "ts_txEng2txSar_upd_req s = []" and "ts_txApp2txSar_app_push s = []"
    and "ts_rxEng2txSar_upd_req s = rxTxSarQuery_init i ackd 0 INITIAL_CWND 0 False 2 # qs"
  shows "\<exists>p p'. ts_txSar2txApp_ack_push (tx_sar_table default_config 0 s) =
        ts_txSar2txApp_ack_push s @ [p]
      \<and> ts_txSar2txApp_ack_push (tx_sar_table default_config 3 s) = ts_txSar2txApp_ack_push s @ [p']
      \<and> tsp_min_window p = 0 \<and> tsp_min_window p' = 3"
  using assms
  by (simp add: tx_sar_table_rxEng tst_rxEng_def Let_def txSarAckPush_mk_def rxTxSarQuery_init_def
      default_config_def minWindow_def scaled_recv_window_def range_set_def INITIAL_CWND_def
      mask_eq_exp_minus_1)

theorem tx_sar_window_reads_junk_witness:
  "\<exists>p p'. ts_txSar2txApp_ack_push (tx_sar_table default_config 0
        (tx_sar_init\<lparr> ts_rxEng2txSar_upd_req := [rxTxSarQuery_init 1 9 0 INITIAL_CWND 0 False 2] \<rparr>)) = [p]
      \<and> ts_txSar2txApp_ack_push (tx_sar_table default_config 3
        (tx_sar_init\<lparr> ts_rxEng2txSar_upd_req := [rxTxSarQuery_init 1 9 0 INITIAL_CWND 0 False 2] \<rparr>)) = [p']
      \<and> tsp_min_window p = 0 \<and> tsp_min_window p' = 3"
  using tx_sar_window_reads_junk [of "tx_sar_init\<lparr> ts_rxEng2txSar_upd_req :=
      [rxTxSarQuery_init 1 9 0 INITIAL_CWND 0 False 2] \<rparr>" 1 9 "[]"]
  by (simp add: tx_sar_init_def)

text \<open>
  The precomputed usable window.  The reply to a read carries a usable window that is 0 exactly
  when the outstanding octets fit in the minimum of congestion and peer window, that is, when there
  is room; and when more octets are outstanding than the window allows, it is the ring size less
  the excess.  The guard is the wrong way round: the value is never the room that is left.
\<close>

theorem tx_usable_window_inverted:
  assumes "ts_txEng2txSar_upd_req s = txTxSarQuery_read i # qs"
    and "e = tx_table s i"
    and "w = min (unat (tse_cong_window e))
               (unat (scaled_recv_window junk (tse_win_shift e) (tse_recv_window e)))"
  shows "\<exists>r. ts_txSar2txEng_upd_rsp (tx_sar_table cfg junk s) = ts_txSar2txEng_upd_rsp s @ [r]
     \<and> ttr_usedLength r = ucast (tse_not_ackd e) - ucast (tse_ackd e)
     \<and> (unat (ttr_usedLength r) \<le> w \<longrightarrow> ttr_usableWindow r = 0)
     \<and> (w < unat (ttr_usedLength r) \<longrightarrow>
          unat (ttr_usableWindow r) = BUFFER_SIZE - (unat (ttr_usedLength r) - w))"
proof (intro exI conjI impI)
  let ?r = "txTxSarReply_of junk e"
  let ?m = "minWindow (tse_cong_window e) (scaled_recv_window junk (tse_win_shift e) (tse_recv_window e))"
  have w: "unat ?m = w" using assms(3) by (simp add: unat_minWindow)
  show "ts_txSar2txEng_upd_rsp (tx_sar_table cfg junk s) = ts_txSar2txEng_upd_rsp s @ [?r]"
    using assms by (simp add: tx_sar_table_txEng tst_txEng_def txTxSarQuery_read_def txTxSarQuery_mk_def)
  show "ttr_usedLength ?r = ucast (tse_not_ackd e) - ucast (tse_ackd e)"
    by (simp add: txTxSarReply_of_def Let_def usedLength_def)
  have u: "ttr_usableWindow ?r = usableWindow ?m (ttr_usedLength ?r)"
    by (simp add: txTxSarReply_of_def Let_def)
  show "ttr_usableWindow ?r = 0" if "unat (ttr_usedLength ?r) \<le> w"
    using that w by (simp add: u usableWindow_def word_less_nat_alt)
  show "unat (ttr_usableWindow ?r) = BUFFER_SIZE - (unat (ttr_usedLength ?r) - w)"
    if "w < unat (ttr_usedLength ?r)"
    using that w by (simp add: u usableWindow_def word_less_nat_alt unat_sub_if' BUFFER_SIZE_def)
qed

theorem tx_usable_window_inverted_witness:
  "\<exists>r. ts_txSar2txEng_upd_rsp (tx_sar_table default_config 0
         (tx_sar_init\<lparr> tx_table := (\<lambda>_. tx_entry0\<lparr> tse_not_ackd := 100, tse_cong_window := 0x3908,
             tse_recv_window := 0xFFFF \<rparr>), ts_txEng2txSar_upd_req := [txTxSarQuery_read 4] \<rparr>)) = [r]
     \<and> unat (ttr_usedLength r) = 100 \<and> ttr_usableWindow r = 0"
proof -
  let ?e = "tx_entry0\<lparr> tse_not_ackd := 100, tse_cong_window := 0x3908, tse_recv_window := 0xFFFF \<rparr>"
  let ?s = "tx_sar_init\<lparr> tx_table := (\<lambda>_. ?e), ts_txEng2txSar_upd_req := [txTxSarQuery_read 4] \<rparr>"
  have "unat (scaled_recv_window 0 0 0xFFFF) = 0xFFFF"
    using scaled_recv_window_zero [of 0 "0xFFFF"] by simp
  then show ?thesis
    using tx_usable_window_inverted [of ?s 4 "[]" ?e 14600 0 default_config]
    by (auto simp: tx_sar_init_def tx_entry0_def)
qed

text \<open>
  The retransmission update.  The slow start threshold that the TX engine packs into a
  retransmission query is the one the table stores; the congestion window falls back to its initial
  value, and the pointers of the session do not move.
\<close>

theorem tx_sar_rt_update:
  assumes "ts_txEng2txSar_upd_req s = txTxSarRtQuery_mk i ssthresh # qs"
  shows "tx_table (tx_sar_table cfg junk s) i = (tx_table s i)\<lparr> tse_slowstart_threshold := ssthresh,
           tse_cong_window := INITIAL_CWND \<rparr>
    \<and> ts_txSar2txApp_ack_push (tx_sar_table cfg junk s) = ts_txSar2txApp_ack_push s
    \<and> ts_txSar2txEng_upd_rsp (tx_sar_table cfg junk s) = ts_txSar2txEng_upd_rsp s"
proof -
  have "(range_get (ucast ssthresh :: u32) 17 0 :: win) = ssthresh"
    by (rule bit_word_eqI) (simp add: bit_range_get bit_simps)
  then show ?thesis using assms
    by (simp add: tx_sar_table_txEng tst_txEng_def Let_def txTxSarRtQuery_mk_def txTxSarQuery_mk_def
        txEng_update_def getThreshold_def)
qed

theorem tx_sar_rt_update_witness:
  "tse_slowstart_threshold (tx_table (tx_sar_table default_config 0
     (tx_sar_init\<lparr> ts_txEng2txSar_upd_req := [txTxSarRtQuery_mk 2 8192] \<rparr>)) 2) = 8192"
  using tx_sar_rt_update [of "tx_sar_init\<lparr> ts_txEng2txSar_upd_req := [txTxSarRtQuery_mk 2 8192] \<rparr>"
      2 8192 "[]" default_config 0]
  by (simp add: tx_sar_init_def)

end
