(* ===== verification/Tx_Engine.thy ===== *)
theory Tx_Engine
  imports Toe_Types
begin

text \<open>
  The control part of the transmit engine (\<^verbatim>\<open>tx_engine/tx_engine.cpp\<close>): \<^verbatim>\<open>metaLoader\<close>, which turns an event
  into the metadata of the segments to send, and \<^verbatim>\<open>tupleSplitter\<close>, which gives each segment its addresses.

  \<open>metaLoader\<close> is split along the event types.  The model is that of \<^verbatim>\<open>TCP_NODELAY\<close>, the only build that the
  code supports: the other one uses variables that are not declared.  The static \<^verbatim>\<open>meta\<close> keeps its fields from
  one segment to the next, so it is part of the state.

  The lemmas show that a retransmission cuts the octets in flight into segments exactly as a reference function
  does, in at most four segments, that every segment announced to the header stages has exactly one source of
  addresses, that the splitter gives each segment the addresses meant for it, and that a new connection starts at
  a ring position aligned to the widest data word.
\<close>

section \<open>Data\<close>

record tx_engine_meta =
  tem_seqNumb :: u32
  tem_ackNumb :: u32
  tem_window_size :: u16
  tem_win_shift :: u4
  tem_length :: u16
  tem_ack :: bool
  tem_rst :: bool
  tem_syn :: bool
  tem_fin :: bool

definition tx_engine_meta_mk :: "u32 \<Rightarrow> u32 \<Rightarrow> bool \<Rightarrow> bool \<Rightarrow> bool \<Rightarrow> bool \<Rightarrow> tx_engine_meta" where
  "tx_engine_meta_mk seqNumb ackNumb ack rst syn fin = \<lparr> tem_seqNumb = seqNumb, tem_ackNumb = ackNumb,
     tem_window_size = 0, tem_win_shift = 0, tem_length = 0, tem_ack = ack, tem_rst = rst, tem_syn = syn, tem_fin = fin \<rparr>"

record twoTuple =
  tt_srcIp :: u32
  tt_dstIp :: u32

record ml_st =
  ml_FsmState :: u1
  ml_sarLoaded :: bool
  ml_curEvent :: extendedEvent
  ml_randomValue :: u32
  ml_segmentCount :: u2
  ml_rxSar :: rxSarReply
  ml_txSarReg :: txTxSarReply
  ml_meta :: tx_engine_meta
  ml_eventEng2txEng_event :: "extendedEvent list"
  ml_rxSar2txEng_rsp :: "rxSarReply list"
  ml_txSar2txEng_upd_rsp :: "txTxSarReply list"
  ml_txEng2rxSar_req :: "u16 list"
  ml_txEng2txSar_upd_req :: "txTxSarQuery list"
  ml_setRetransmitTimer :: "txRetransmitTimerSet list"
  ml_setProbeTimer :: "u16 list"
  ml_ipMetaFifo :: "u16 list"
  ml_tcpMetaFifo :: "tx_engine_meta list"
  ml_txBufferReadCmd :: "mmCmd list"
  ml_txEng2sLookup_rev_req :: "u16 list"
  ml_isLookUpFifo :: "bool list"
  ml_isDDRbypass :: "bool list"
  ml_tupleShortCutFifo :: "fourTuple list"
  ml_readCountFifo :: "u1 list"

section \<open>The metadata loader\<close>

text \<open>State 0: take an event and ask for the entries it needs.\<close>

definition needs_rxSar :: "extendedEvent \<Rightarrow> bool" where
  "needs_rxSar ev \<longleftrightarrow> ev_type ev \<in> {RT, TX, SYN_ACK, FIN, ACK_NODELAY, ACK}"

definition needs_txSar :: "extendedEvent \<Rightarrow> bool" where
  "needs_txSar ev \<longleftrightarrow> needs_rxSar ev \<or> ev_type ev = RST \<and> hasSessionID ev \<or> ev_type ev = SYN \<and> ev_rt_count ev \<noteq> 0"

definition ml_load :: "ml_st \<Rightarrow> ml_st" where
  "ml_load s =
     (case ml_eventEng2txEng_event s of
        [] \<Rightarrow> s\<lparr> ml_segmentCount := 0 \<rparr>
      | ev # evs \<Rightarrow>
          s\<lparr> ml_eventEng2txEng_event := evs, ml_curEvent := ev, ml_sarLoaded := False,
             ml_readCountFifo := ml_readCountFifo s @ [1],
             ml_txEng2rxSar_req := ml_txEng2rxSar_req s @ (if needs_rxSar ev then [ev_sessionID ev] else []),
             ml_txEng2txSar_upd_req := ml_txEng2txSar_upd_req s @
               (if needs_txSar ev then [txTxSarQuery_read (ev_sessionID ev)] else []),
             ml_FsmState := 1, ml_randomValue := ml_randomValue s + 1, ml_segmentCount := 0 \<rparr>)"

text \<open>A segment to the header stages, with the addresses from the session lookup.\<close>

definition ml_send :: "tx_engine_meta \<Rightarrow> ml_st \<Rightarrow> ml_st" where
  "ml_send m s =
     s\<lparr> ml_ipMetaFifo := ml_ipMetaFifo s @ [tem_length m], ml_tcpMetaFifo := ml_tcpMetaFifo s @ [m],
        ml_isLookUpFifo := ml_isLookUpFifo s @ [True],
        ml_txEng2sLookup_rev_req := ml_txEng2sLookup_rev_req s @ [ev_sessionID (ml_curEvent s)] \<rparr>"

definition ml_setRt :: "txRetransmitTimerSet \<Rightarrow> ml_st \<Rightarrow> ml_st" where
  "ml_setRt r s = s\<lparr> ml_setRetransmitTimer := ml_setRetransmitTimer s @ [r] \<rparr>"

text \<open>The flags and the receive window of a segment of an open connection.\<close>

definition ml_plain :: "rxSarReply \<Rightarrow> u32 \<Rightarrow> u16 \<Rightarrow> bool \<Rightarrow> tx_engine_meta \<Rightarrow> tx_engine_meta" where
  "ml_plain rxSar seqNumb len fin m = m\<lparr> tem_ackNumb := rsr_recvd rxSar, tem_seqNumb := seqNumb,
     tem_window_size := rsr_windowSize rxSar, tem_ack := True, tem_rst := False, tem_syn := False,
     tem_fin := fin, tem_length := len \<rparr>"

text \<open>The replies of the two tables, taken together.\<close>

definition ml_replies :: "ml_st \<Rightarrow> (rxSarReply \<times> txTxSarReply \<times> ml_st) option" where
  "ml_replies s =
     (case (ml_rxSar2txEng_rsp s, ml_txSar2txEng_upd_rsp s) of
        (r # rs, t # ts) \<Rightarrow> Some (r, t, s\<lparr> ml_rxSar2txEng_rsp := rs, ml_txSar2txEng_upd_rsp := ts, ml_rxSar := r \<rparr>)
      | _ \<Rightarrow> None)"

text \<open>The same with the registers of an event that is already loaded (\<^verbatim>\<open>ml_sarLoaded\<close>).\<close>

definition ml_entries :: "ml_st \<Rightarrow> (rxSarReply \<times> txTxSarReply \<times> ml_st) option" where
  "ml_entries s = (if ml_sarLoaded s then Some (ml_rxSar s, ml_txSarReg s, s) else ml_replies s)"

definition ml_tx :: "ml_st \<Rightarrow> ml_st" where
  "ml_tx s =
     (case ml_replies s of
        None \<Rightarrow> s
      | Some (rxSar, txSar, s1) \<Rightarrow>
          (let ev = ml_curEvent s;
               m = ml_plain rxSar (ttr_not_ackd txSar) (ev_length ev) False (ml_meta s);
               s2 = s1\<lparr> ml_meta := m,
                        ml_setProbeTimer := ml_setProbeTimer s @ (if 0x7FFF < ev_length ev then [ev_sessionID ev] else []),
                        ml_txEng2txSar_upd_req := ml_txEng2txSar_upd_req s @
                          [txTxSarQuery_mk (ev_sessionID ev) (ttr_not_ackd txSar + ucast (ev_length ev)) True False False False False],
                        ml_FsmState := 0 \<rparr>
           in if tem_length m \<noteq> 0
              then ml_setRt (txRetransmitTimerSet_RT (ev_sessionID ev))
                     ((ml_send m s2)\<lparr> ml_isDDRbypass := ml_isDDRbypass s @ [True] \<rparr>)
              else s2))"

text \<open>The slow start threshold after a time-out: half of the octets in flight, at least two segments.\<close>

definition rt_threshold :: "toe_config \<Rightarrow> win \<Rightarrow> win" where
  "rt_threshold cfg currLength =
     (if unat currLength > 4 * unat (MSS cfg) then currLength div 2 else of_nat (2 * unat (MSS cfg)))"

definition ml_rt :: "toe_config \<Rightarrow> ml_st \<Rightarrow> ml_st" where
  "ml_rt cfg s =
     (case ml_entries s of
        None \<Rightarrow> s
      | Some (rxSar, txSar, s1) \<Rightarrow>
          (let ev = ml_curEvent s; i = ev_sessionID ev; currLength = ttr_usedLength txSar;
               long = (unat currLength > unat (MSS cfg));
               m = ml_plain rxSar (ttr_ackd txSar) (if long then MSS cfg else ucast currLength) False (ml_meta s);
               s2 = (if \<not> ml_sarLoaded s \<and> ev_rt_count ev = 1
                     then s1\<lparr> ml_txEng2txSar_upd_req := ml_txEng2txSar_upd_req s @ [txTxSarRtQuery_mk i (rt_threshold cfg currLength)] \<rparr>
                     else s1);
               s3 = (if long
                     then s2\<lparr> ml_FsmState := (if ml_segmentCount s = 3 then 0 else ml_FsmState s),
                              ml_segmentCount := ml_segmentCount s + 1,
                              ml_txSarReg := txSar\<lparr> ttr_ackd := ttr_ackd txSar + ucast (MSS cfg),
                                                    ttr_usedLength := currLength - ucast (MSS cfg) \<rparr> \<rparr>
                     else if ttr_finSent txSar
                     then s2\<lparr> ml_curEvent := ev\<lparr> ev_type := FIN \<rparr>, ml_txSarReg := txSar \<rparr>
                     else s2\<lparr> ml_FsmState := 0, ml_txSarReg := txSar \<rparr>);
               s4 = (if tem_length m \<noteq> 0
                     then ml_setRt (txRetransmitTimerSet_RT i)
                            ((ml_send m s3)\<lparr> ml_txBufferReadCmd := ml_txBufferReadCmd s @
                                [mmCmd_mk (pkgAddr i (range_get (ttr_ackd txSar) 17 0)) (tem_length m)],
                              ml_isDDRbypass := ml_isDDRbypass s @ [False] \<rparr>)
                     else s3)
           in s4\<lparr> ml_meta := m, ml_sarLoaded := True \<rparr>))"

definition ml_ack :: "ml_st \<Rightarrow> ml_st" where
  "ml_ack s =
     (case ml_replies s of
        None \<Rightarrow> s
      | Some (rxSar, txSar, s1) \<Rightarrow>
          (let m = ml_plain rxSar (ttr_not_ackd txSar) 0 False (ml_meta s)
           in ml_send m (s1\<lparr> ml_meta := m, ml_FsmState := 0 \<rparr>)))"

text \<open>The first sequence number of a connection, and the next random value: \<^verbatim>\<open>(r << 6) - 1\<close> and
  \<^verbatim>\<open>(r * 8) xor r\<close>.\<close>

definition initial_seq :: "u32 \<Rightarrow> u32" where
  "initial_seq r = push_bit 6 r - 1"

definition next_random :: "u32 \<Rightarrow> u32" where
  "next_random r = (r * 8) XOR r"

text \<open>A new connection: the entry of the transmit table is set up behind the SYN.\<close>

definition ml_new_seq :: "ml_st \<Rightarrow> ml_st" where
  "ml_new_seq s =
     s\<lparr> ml_randomValue := next_random (ml_randomValue s),
        ml_txEng2txSar_upd_req := ml_txEng2txSar_upd_req s @
          [txTxSarQuery_mk (ev_sessionID (ml_curEvent s)) (initial_seq (ml_randomValue s) + 1) True True False False False] \<rparr>"

definition ml_syn :: "ml_st \<Rightarrow> ml_st" where
  "ml_syn s =
     (let ev = ml_curEvent s
      in if ev_rt_count ev \<noteq> 0 \<and> ml_txSar2txEng_upd_rsp s = [] then s
         else
           (let seqNumb = (if ev_rt_count ev \<noteq> 0 then ttr_ackd (hd (ml_txSar2txEng_upd_rsp s)) else initial_seq (ml_randomValue s));
                s1 = (if ev_rt_count ev \<noteq> 0 then s\<lparr> ml_txSar2txEng_upd_rsp := tl (ml_txSar2txEng_upd_rsp s) \<rparr> else ml_new_seq s);
                m = (ml_meta s)\<lparr> tem_seqNumb := seqNumb, tem_ackNumb := 0, tem_window_size := 0xFFFF, tem_length := 8,
                      tem_ack := False, tem_rst := False, tem_syn := True, tem_fin := False, tem_win_shift := of_nat WINDOW_SCALE_BITS \<rparr>
            in ml_setRt \<lparr> rts_sessionID = ev_sessionID ev, rts_type = SYN \<rparr>
                 (ml_send m (s1\<lparr> ml_meta := m, ml_FsmState := 0 \<rparr>))))"

definition ml_syn_ack :: "ml_st \<Rightarrow> ml_st" where
  "ml_syn_ack s =
     (case ml_replies s of
        None \<Rightarrow> s
      | Some (rxSar, txSar, s1) \<Rightarrow>
          (let ev = ml_curEvent s;
               seqNumb = (if ev_rt_count ev \<noteq> 0 then ttr_ackd txSar else initial_seq (ml_randomValue s));
               s2 = (if ev_rt_count ev \<noteq> 0 then s1 else ml_new_seq s1);
               m = (ml_meta s)\<lparr> tem_seqNumb := seqNumb, tem_ackNumb := rsr_recvd rxSar, tem_window_size := 0xFFFF,
                     tem_length := (if rsr_win_shift rxSar \<noteq> 0 then 8 else 4), tem_ack := True, tem_rst := False,
                     tem_syn := True, tem_fin := False, tem_win_shift := rsr_win_shift rxSar \<rparr>
           in ml_setRt \<lparr> rts_sessionID = ev_sessionID ev, rts_type = SYN_ACK \<rparr>
                (ml_send m (s2\<lparr> ml_meta := m, ml_FsmState := 0 \<rparr>))))"

definition ml_fin :: "ml_st \<Rightarrow> ml_st" where
  "ml_fin s =
     (case ml_entries s of
        None \<Rightarrow> s
      | Some (rxSar, txSar, s1) \<Rightarrow>
          (let ev = ml_curEvent s; rt = (ev_rt_count ev \<noteq> 0);
               m = ml_plain rxSar (if rt then ttr_not_ackd txSar - 1 else ttr_not_ackd txSar) 0 True (ml_meta s);
               s2 = (if rt then s1
                     else s1\<lparr> ml_txEng2txSar_upd_req := ml_txEng2txSar_upd_req s @
                       [txTxSarQuery_mk (ev_sessionID ev) (ttr_not_ackd txSar + 1) True False True True False] \<rparr>)
           in ml_setRt (txRetransmitTimerSet_RT (ev_sessionID ev)) (ml_send m (s2\<lparr> ml_meta := m, ml_FsmState := 0 \<rparr>))))"

definition ml_rst :: "ml_st \<Rightarrow> ml_st" where
  "ml_rst s =
     (let ev = ml_curEvent s
      in if \<not> hasSessionID ev
         then s\<lparr> ml_ipMetaFifo := ml_ipMetaFifo s @ [0],
                 ml_tcpMetaFifo := ml_tcpMetaFifo s @ [tx_engine_meta_mk 0 (getAckNumb ev) True True False False],
                 ml_isLookUpFifo := ml_isLookUpFifo s @ [False],
                 ml_tupleShortCutFifo := ml_tupleShortCutFifo s @ [ee_tuple ev], ml_FsmState := 0 \<rparr>
         else
           (case ml_txSar2txEng_upd_rsp s of
              [] \<Rightarrow> s
            | txSar # ts \<Rightarrow>
                s\<lparr> ml_txSar2txEng_upd_rsp := ts, ml_ipMetaFifo := ml_ipMetaFifo s @ [0],
                   ml_isLookUpFifo := ml_isLookUpFifo s @ [True],
                   ml_txEng2sLookup_rev_req := ml_txEng2sLookup_rev_req s @ [ev_sessionID ev],
                   ml_tcpMetaFifo := ml_tcpMetaFifo s @
                     [tx_engine_meta_mk (ttr_not_ackd txSar) (getAckNumb ev) True True False False],
                   ml_FsmState := 0 \<rparr>))"

definition metaLoader :: "toe_config \<Rightarrow> ml_st \<Rightarrow> ml_st" where
  "metaLoader cfg s =
     (if ml_FsmState s = 0 then ml_load s
      else (case ev_type (ml_curEvent s) of
              TX \<Rightarrow> ml_tx s
            | RT \<Rightarrow> ml_rt cfg s
            | ACK \<Rightarrow> ml_ack s
            | ACK_NODELAY \<Rightarrow> ml_ack s
            | SYN \<Rightarrow> ml_syn s
            | SYN_ACK \<Rightarrow> ml_syn_ack s
            | FIN \<Rightarrow> ml_fin s
            | RST \<Rightarrow> ml_rst s))"

section \<open>The tuple splitter\<close>

record tuple_splitter_st =
  ts_getMeta :: bool
  ts_isLookUp :: bool
  ts_sLookup2txEng_rev_rsp :: "fourTuple list"
  ts_tupleShortCutFifo :: "fourTuple list"
  ts_isLookUpFifo :: "bool list"
  ts_ipTupleFifo :: "twoTuple list"
  ts_tcpTupleFifo :: "fourTuple list"

definition ts_forward :: "fourTuple \<Rightarrow> tuple_splitter_st \<Rightarrow> tuple_splitter_st" where
  "ts_forward tuple s =
     s\<lparr> ts_ipTupleFifo := ts_ipTupleFifo s @ [\<lparr> tt_srcIp = ft_srcIp tuple, tt_dstIp = ft_dstIp tuple \<rparr>],
        ts_tcpTupleFifo := ts_tcpTupleFifo s @ [tuple], ts_getMeta := True \<rparr>"

definition tupleSplitter :: "tuple_splitter_st \<Rightarrow> tuple_splitter_st" where
  "tupleSplitter s =
     (if ts_getMeta s
      then (case ts_isLookUpFifo s of
              [] \<Rightarrow> s
            | b # bs \<Rightarrow> s\<lparr> ts_isLookUpFifo := bs, ts_isLookUp := b, ts_getMeta := False \<rparr>)
      else if ts_sLookup2txEng_rev_rsp s \<noteq> [] \<and> ts_isLookUp s
      then ts_forward (hd (ts_sLookup2txEng_rev_rsp s)) (s\<lparr> ts_sLookup2txEng_rev_rsp := tl (ts_sLookup2txEng_rev_rsp s) \<rparr>)
      else if ts_tupleShortCutFifo s \<noteq> [] \<and> \<not> ts_isLookUp s
      then ts_forward (hd (ts_tupleShortCutFifo s)) (s\<lparr> ts_tupleShortCutFifo := tl (ts_tupleShortCutFifo s) \<rparr>)
      else s)"

section \<open>Retransmission\<close>

text \<open>The reference: at most \<open>k\<close> segments of at most \<open>mss\<close> octets, starting at sequence number \<open>a\<close> with \<open>len\<close> octets to
  send.\<close>

fun rt_segments :: "nat \<Rightarrow> nat \<Rightarrow> u32 \<Rightarrow> nat \<Rightarrow> (u32 \<times> nat) list" where
  "rt_segments 0 mss a len = []"
| "rt_segments (Suc k) mss a len =
     (if len > mss then (a, mss) # rt_segments k mss (a + of_nat mss) (len - mss)
      else if len = 0 then [] else [(a, len)])"

text \<open>The octets of a list of segments, by sequence number.\<close>

definition seg_octets :: "(u32 \<times> nat) list \<Rightarrow> u32 list" where
  "seg_octets segs = concat (map (\<lambda>(a, l). map (\<lambda>j. a + of_nat j) [0..<l]) segs)"

lemma shift_octets: "map (\<lambda>j. (a :: u32) + of_nat mss + of_nat j) [0..<n] = map (\<lambda>j. a + of_nat j) [mss..<mss + n]"
  by (rule nth_equalityI) (simp_all add: ac_simps)

lemma rt_segments_octets:
  "seg_octets (rt_segments k mss a len) = map (\<lambda>j. a + of_nat j) [0..<min len (k * mss)]"
proof (induction k arbitrary: a len)
  case 0
  then show ?case by (simp add: seg_octets_def)
next
  case (Suc k)
  show ?case
  proof (cases "len > mss")
    case True
    have min: "min len (Suc k * mss) = mss + min (len - mss) (k * mss)" using True by simp
    have "seg_octets (rt_segments (Suc k) mss a len) =
        map (\<lambda>j. a + of_nat j) [0..<mss] @ seg_octets (rt_segments k mss (a + of_nat mss) (len - mss))"
      using True by (simp add: seg_octets_def)
    also have "\<dots> = map (\<lambda>j. a + of_nat j) [0..<mss] @ map (\<lambda>j. a + of_nat j) [mss..<mss + min (len - mss) (k * mss)]"
      by (simp only: Suc.IH shift_octets)
    also have "\<dots> = map (\<lambda>j. a + of_nat j) [0..<mss + min (len - mss) (k * mss)]"
      by (simp only: upt_add_eq_append [OF le0] map_append)
    finally show ?thesis by (simp only: min)
  next
    case False
    then have "min len (Suc k * mss) = len" by (simp add: min_def)
    with False show ?thesis by (cases "len = 0") (simp_all add: seg_octets_def)
  qed
qed

lemma rt_segments_bounds: "length (rt_segments k mss a len) \<le> k \<and> list_all (\<lambda>(_, l). l \<le> mss) (rt_segments k mss a len)"
  by (induction k mss a len rule: rt_segments.induct) auto

text \<open>The segments of a retransmission that have been sent between two states, with the reads of their octets from
  the ring.\<close>

definition rt_sent :: "u16 \<Rightarrow> (u32 \<times> nat) list \<Rightarrow> ml_st \<Rightarrow> ml_st \<Rightarrow> bool" where
  "rt_sent i segs s t \<longleftrightarrow>
     map (\<lambda>m. (tem_seqNumb m, unat (tem_length m))) (ml_tcpMetaFifo t) =
       map (\<lambda>m. (tem_seqNumb m, unat (tem_length m))) (ml_tcpMetaFifo s) @ segs
     \<and> ml_txBufferReadCmd t = ml_txBufferReadCmd s @
         map (\<lambda>(a, l). mmCmd_mk (pkgAddr i (range_get a 17 0)) (of_nat l)) segs"

lemma rt_sent_trans: "rt_sent i xs s t \<Longrightarrow> rt_sent i ys t u \<Longrightarrow> rt_sent i (xs @ ys) s u"
  by (simp add: rt_sent_def)

lemma ml_replies_frame:
  "ml_replies s = Some (r, t, s1) \<Longrightarrow> s1 = s\<lparr> ml_rxSar2txEng_rsp := ml_rxSar2txEng_rsp s1,
     ml_txSar2txEng_upd_rsp := ml_txSar2txEng_upd_rsp s1, ml_rxSar := r \<rparr>"
  by (auto simp: ml_replies_def split: list.splits)

lemma ml_entries_frame:
  assumes "ml_entries s = Some (r, t, s1)"
  shows "ml_rxSar s1 = r" "ml_tcpMetaFifo s1 = ml_tcpMetaFifo s" "ml_curEvent s1 = ml_curEvent s"
    "ml_FsmState s1 = ml_FsmState s" "ml_segmentCount s1 = ml_segmentCount s"
    "ml_txBufferReadCmd s1 = ml_txBufferReadCmd s"
  using assms by (auto simp: ml_entries_def ml_replies_def split: if_splits list.splits)

text \<open>One segment with more to follow.\<close>

lemma ml_rt_long:
  assumes "ml_entries s = Some (r, t, s1)" and "unat (ttr_usedLength t) > unat (MSS cfg)" and "MSS cfg \<noteq> 0"
    and "u = ml_rt cfg s" and "i = ev_sessionID (ml_curEvent s)"
  shows "rt_sent i [(ttr_ackd t, unat (MSS cfg))] s u \<and> ml_curEvent u = ml_curEvent s
    \<and> ml_segmentCount u = ml_segmentCount s + 1
    \<and> ml_FsmState u = (if ml_segmentCount s = 3 then 0 else ml_FsmState s)
    \<and> ml_entries u = Some (r, t\<lparr> ttr_ackd := ttr_ackd t + of_nat (unat (MSS cfg)),
        ttr_usedLength := ttr_usedLength t - ucast (MSS cfg) \<rparr>, u)"
proof -
  note frame = ml_entries_frame [OF assms(1)]
  have regs: "ml_sarLoaded u" "ml_rxSar u = r" "ml_txSarReg u = t\<lparr> ttr_ackd := ttr_ackd t + of_nat (unat (MSS cfg)),
        ttr_usedLength := ttr_usedLength t - ucast (MSS cfg) \<rparr>"
    using assms(2,3) frame by (simp_all add: assms(4) ml_rt_def assms(1) Let_def ml_setRt_def ml_send_def ml_plain_def)
  then have "ml_entries u = Some (r, t\<lparr> ttr_ackd := ttr_ackd t + of_nat (unat (MSS cfg)),
        ttr_usedLength := ttr_usedLength t - ucast (MSS cfg) \<rparr>, u)"
    by (simp add: ml_entries_def)
  with assms(2,3) frame show ?thesis
    by (simp add: assms(4,5) ml_rt_def assms(1) Let_def rt_sent_def ml_setRt_def ml_send_def ml_plain_def)
qed

text \<open>The last one.\<close>

lemma ml_rt_last:
  assumes "ml_entries s = Some (r, t, s1)" and "\<not> unat (ttr_usedLength t) > unat (MSS cfg)" and "\<not> ttr_finSent t"
    and "u = ml_rt cfg s" and "i = ev_sessionID (ml_curEvent s)"
  shows "rt_sent i (if ttr_usedLength t = 0 then [] else [(ttr_ackd t, unat (ttr_usedLength t))]) s u \<and> ml_FsmState u = 0"
proof -
  have "unat (ttr_usedLength t) < 2 ^ 16"
    using assms(2) unsigned_less [of "MSS cfg", where 'a = nat] by simp
  then have len: "unat (ucast (ttr_usedLength t) :: u16) = unat (ttr_usedLength t)"
    by (simp add: unsigned_ucast_eq take_bit_nat_eq_self)
  then have z: "(ucast (ttr_usedLength t) :: u16) = 0 \<longleftrightarrow> ttr_usedLength t = 0"
    by (metis unat_eq_zero)
  have w: "(of_nat (unat (ttr_usedLength t)) :: u16) = ucast (ttr_usedLength t)"
    by simp
  show ?thesis
    using assms(2,3) ml_entries_frame [OF assms(1)]
    by (simp add: assms(4,5) ml_rt_def assms(1) Let_def rt_sent_def ml_setRt_def ml_send_def ml_plain_def len z w)
qed

lemma rt_run:
  assumes "ml_entries s = Some (r, t, s1)" and "\<not> ttr_finSent t" and "MSS cfg \<noteq> 0"
    and "ml_FsmState s = 1" and "ev_type (ml_curEvent s) = RT" and "unat (ml_segmentCount s) = 3 - k" and "k \<le> 3"
  shows "\<exists>n \<le> Suc k. ml_FsmState ((metaLoader cfg ^^ n) s) = 0
    \<and> rt_sent (ev_sessionID (ml_curEvent s)) (rt_segments (Suc k) (unat (MSS cfg)) (ttr_ackd t) (unat (ttr_usedLength t)))
        s ((metaLoader cfg ^^ n) s)"
  using assms
proof (induction k arbitrary: s s1 t)
  case 0
  have step: "metaLoader cfg s = ml_rt cfg s" using 0 by (simp add: metaLoader_def)
  have three: "ml_segmentCount s = 3" using 0 by (simp add: word_unat_eq_iff)
  show ?case
    using ml_rt_long [OF 0(1) _ 0(3) refl refl] ml_rt_last [OF 0(1) _ 0(2) refl refl] three
    by (intro exI [of _ 1]) (auto simp: step unat_eq_0)
next
  case (Suc k)
  have step: "metaLoader cfg s = ml_rt cfg s" using Suc.prems by (simp add: metaLoader_def)
  show ?case
  proof (cases "unat (ttr_usedLength t) > unat (MSS cfg)")
    case False
    then show ?thesis
      using ml_rt_last [OF Suc.prems(1) False Suc.prems(2) refl refl]
      by (intro exI [of _ 1]) (auto simp: step unat_eq_0)
  next
    case True
    let ?u = "ml_rt cfg s"
    let ?t = "t\<lparr> ttr_ackd := ttr_ackd t + of_nat (unat (MSS cfg)), ttr_usedLength := ttr_usedLength t - ucast (MSS cfg) \<rparr>"
    note long = ml_rt_long [OF Suc.prems(1) True Suc.prems(3) refl refl]
    have lt: "unat (ml_segmentCount s) < 3" using Suc.prems(6,7) by simp
    then have cnt: "unat (ml_segmentCount s + 1) = 3 - k"
      using Suc.prems(6,7) by (subst unat_add_lem [THEN iffD1]) simp_all
    have ne: "ml_segmentCount s \<noteq> 3" using lt by auto
    have used: "unat (ttr_usedLength ?t) = unat (ttr_usedLength t) - unat (MSS cfg)"
    proof -
      have "(ucast (MSS cfg) :: win) \<le> ttr_usedLength t" using True by (simp add: word_le_nat_alt unat_ucast_up)
      then show ?thesis by (simp add: unat_sub unat_ucast_up)
    qed
    obtain n where n: "n \<le> Suc k" "ml_FsmState ((metaLoader cfg ^^ n) ?u) = 0"
      and sent: "rt_sent (ev_sessionID (ml_curEvent s))
        (rt_segments (Suc k) (unat (MSS cfg)) (ttr_ackd ?t) (unat (ttr_usedLength ?t))) ?u ((metaLoader cfg ^^ n) ?u)"
      using Suc.IH [of ?u ?t ?u] Suc.prems long cnt ne by auto
    have "rt_sent (ev_sessionID (ml_curEvent s)) (rt_segments (Suc (Suc k)) (unat (MSS cfg)) (ttr_ackd t) (unat (ttr_usedLength t)))
        s ((metaLoader cfg ^^ n) ?u)"
      using rt_sent_trans [OF conjunct1 [OF long] sent] True unfolding used by simp
    with n show ?thesis by (intro exI [of _ "Suc n"]) (simp add: funpow_swap1 step)
  qed
qed

text \<open>
  (C9) Retransmission.  When the entries of the session have arrived and no FIN has been sent, the retransmission is finished after at most four invocations.  The segments sent
  are those of the reference function: they carry, without gap or overlap and in order, the octets from the oldest
  unacknowledged one on, up to what is in flight or four segments of the maximum size, each segment is at
  most that long, and each is read from the ring position of its own sequence number.
\<close>

theorem rt_retransmits_flight:
  assumes "ml_FsmState s = 1" and "ev_type (ml_curEvent s) = RT" and "\<not> ml_sarLoaded s" and "ml_segmentCount s = 0"
    and "ml_rxSar2txEng_rsp s = r # rs" and "ml_txSar2txEng_upd_rsp s = t # ts" and "\<not> ttr_finSent t" and "MSS cfg \<noteq> 0"
  shows "\<exists>n segs. n \<le> 4 \<and> ml_FsmState ((metaLoader cfg ^^ n) s) = 0
    \<and> rt_sent (ev_sessionID (ml_curEvent s)) segs s ((metaLoader cfg ^^ n) s)
    \<and> segs = rt_segments 4 (unat (MSS cfg)) (ttr_ackd t) (unat (ttr_usedLength t))
    \<and> seg_octets segs = map (\<lambda>j. ttr_ackd t + of_nat j) [0..<min (unat (ttr_usedLength t)) (4 * unat (MSS cfg))]
    \<and> length segs \<le> 4 \<and> list_all (\<lambda>(_, l). l \<le> unat (MSS cfg)) segs"
proof -
  have "\<exists>s1. ml_entries s = Some (r, t, s1)"
    using assms(3,5,6) by (simp add: ml_entries_def ml_replies_def)
  then obtain s1 where e: "ml_entries s = Some (r, t, s1)" by blast
  have four: "Suc 3 = 4" by simp
  from rt_run [OF e assms(7,8,1,2), of 3] assms(4)
  obtain n where "n \<le> 4" "ml_FsmState ((metaLoader cfg ^^ n) s) = 0"
    "rt_sent (ev_sessionID (ml_curEvent s)) (rt_segments 4 (unat (MSS cfg)) (ttr_ackd t) (unat (ttr_usedLength t)))
        s ((metaLoader cfg ^^ n) s)"
    unfolding four by auto
  then show ?thesis
    using rt_segments_octets [of 4 "unat (MSS cfg)" "ttr_ackd t" "unat (ttr_usedLength t)"]
      rt_segments_bounds [of 4 "unat (MSS cfg)" "ttr_ackd t" "unat (ttr_usedLength t)"] by blast
qed

section \<open>The streams to the header stages\<close>

text \<open>
  What the header stages rely on: the lengths for the IP header are those of the segments, every segment says where its
  addresses come from, and each of the two sources has been asked once per segment that names it.
\<close>

definition ml_aligned :: "ml_st \<Rightarrow> bool" where
  "ml_aligned s \<longleftrightarrow> ml_ipMetaFifo s = map tem_length (ml_tcpMetaFifo s)
     \<and> length (ml_isLookUpFifo s) = length (ml_tcpMetaFifo s)
     \<and> length (ml_txEng2sLookup_rev_req s) = length (filter id (ml_isLookUpFifo s))
     \<and> length (ml_tupleShortCutFifo s) = length (filter Not (ml_isLookUpFifo s))"

lemma ml_aligned_cong:
  "\<lbrakk> ml_ipMetaFifo t = ml_ipMetaFifo s; ml_tcpMetaFifo t = ml_tcpMetaFifo s; ml_isLookUpFifo t = ml_isLookUpFifo s;
     ml_txEng2sLookup_rev_req t = ml_txEng2sLookup_rev_req s; ml_tupleShortCutFifo t = ml_tupleShortCutFifo s \<rbrakk>
   \<Longrightarrow> ml_aligned t = ml_aligned s"
  by (simp add: ml_aligned_def)

lemma ml_aligned_send [simp]: "ml_aligned s \<Longrightarrow> ml_aligned (ml_send m s)"
  by (simp add: ml_aligned_def ml_send_def)

lemma ml_aligned_upd [simp]:
  "ml_aligned (s\<lparr> ml_meta := m \<rparr>) = ml_aligned s" "ml_aligned (s\<lparr> ml_FsmState := f \<rparr>) = ml_aligned s"
  "ml_aligned (s\<lparr> ml_sarLoaded := b \<rparr>) = ml_aligned s" "ml_aligned (s\<lparr> ml_isDDRbypass := bs \<rparr>) = ml_aligned s"
  "ml_aligned (s\<lparr> ml_txSarReg := x \<rparr>) = ml_aligned s" "ml_aligned (s\<lparr> ml_curEvent := e \<rparr>) = ml_aligned s"
  "ml_aligned (s\<lparr> ml_segmentCount := c \<rparr>) = ml_aligned s" "ml_aligned (s\<lparr> ml_txEng2txSar_upd_req := qs \<rparr>) = ml_aligned s"
  "ml_aligned (s\<lparr> ml_setProbeTimer := is \<rparr>) = ml_aligned s" "ml_aligned (s\<lparr> ml_txBufferReadCmd := cs \<rparr>) = ml_aligned s"
  "ml_aligned (s\<lparr> ml_txSar2txEng_upd_rsp := ts \<rparr>) = ml_aligned s" "ml_aligned (ml_setRt r s) = ml_aligned s"
  "ml_aligned (ml_new_seq s) = ml_aligned s" "ml_aligned (ml_load s) = ml_aligned s"
  by (simp_all add: ml_aligned_def ml_setRt_def ml_new_seq_def ml_load_def split: list.split)

lemma ml_aligned_replies: "ml_replies s = Some (r, t, s1) \<Longrightarrow> ml_aligned s1 = ml_aligned s"
  by (rule ml_aligned_cong) (auto simp: ml_replies_def split: list.splits)

lemma ml_aligned_entries: "ml_entries s = Some (r, t, s1) \<Longrightarrow> ml_aligned s1 = ml_aligned s"
  by (auto simp: ml_entries_def ml_aligned_replies split: if_splits)

lemma ml_aligned_rst: "ml_aligned s \<Longrightarrow> ml_aligned (ml_rst s)"
  by (simp add: ml_rst_def Let_def ml_aligned_def tx_engine_meta_mk_def split: list.split)

lemma ml_aligned_step:
  assumes "ml_aligned s"
  shows "ml_aligned (metaLoader cfg s)"
proof -
  have tx: "ml_aligned (ml_tx s)"
    using assms by (cases "ml_replies s") (auto simp: ml_tx_def Let_def ml_aligned_replies)
  have rt: "ml_aligned (ml_rt cfg s)"
    using assms by (cases "ml_entries s") (auto simp: ml_rt_def Let_def ml_aligned_entries)
  have ack: "ml_aligned (ml_ack s)"
    using assms by (cases "ml_replies s") (auto simp: ml_ack_def Let_def ml_aligned_replies)
  have syn: "ml_aligned (ml_syn s)"
    using assms by (simp add: ml_syn_def Let_def)
  have syn_ack: "ml_aligned (ml_syn_ack s)"
    using assms by (cases "ml_replies s") (auto simp: ml_syn_ack_def Let_def ml_aligned_replies)
  have fin: "ml_aligned (ml_fin s)"
    using assms by (cases "ml_entries s") (auto simp: ml_fin_def Let_def ml_aligned_entries)
  show ?thesis
    using assms tx rt ack syn syn_ack fin ml_aligned_rst [OF assms]
    by (simp add: metaLoader_def split: eventType.split)
qed

text \<open>The loader with an environment that feeds its inputs and takes everything but the streams to the header stages.\<close>

inductive ml_move :: "toe_config \<Rightarrow> ml_st \<Rightarrow> ml_st \<Rightarrow> bool" for cfg where
  ml_run: "ml_move cfg s (metaLoader cfg s)"
| ml_env: "\<lbrakk> ml_ipMetaFifo t = ml_ipMetaFifo s; ml_tcpMetaFifo t = ml_tcpMetaFifo s; ml_isLookUpFifo t = ml_isLookUpFifo s;
     ml_txEng2sLookup_rev_req t = ml_txEng2sLookup_rev_req s; ml_tupleShortCutFifo t = ml_tupleShortCutFifo s;
     ml_FsmState t = ml_FsmState s; ml_curEvent t = ml_curEvent s \<rbrakk> \<Longrightarrow> ml_move cfg s t"

definition ml_start :: "ml_st \<Rightarrow> bool" where
  "ml_start s \<longleftrightarrow> ml_ipMetaFifo s = [] \<and> ml_tcpMetaFifo s = [] \<and> ml_isLookUpFifo s = []
     \<and> ml_txEng2sLookup_rev_req s = [] \<and> ml_tupleShortCutFifo s = [] \<and> ml_FsmState s = 0"

interpretation ml_sys: invariant_system ml_start "ml_move cfg" ml_aligned for cfg
proof unfold_locales
  show "ml_aligned s" if "ml_start s" for s using that by (simp add: ml_start_def ml_aligned_def)
  show "ml_aligned t" if "ml_aligned s" "ml_move cfg s t" for s t
    using that(2,1) by (cases rule: ml_move.cases) (auto simp: ml_aligned_step dest: ml_aligned_cong)
qed

text \<open>
  (C32) The streams of the header stages stay aligned.  In every reachable state of the loader, whatever events and table entries
  arrive, the lengths sent to the IP header stage are exactly the lengths of the segments, there is one address source
  per segment, the session lookup has been asked once per segment that names it and the short cut of the receive
  engine holds one tuple for each of the others.
\<close>

theorem tx_header_streams_aligned:
  assumes "reachable ml_start (ml_move cfg) s"
  shows "ml_ipMetaFifo s = map tem_length (ml_tcpMetaFifo s)
    \<and> length (ml_isLookUpFifo s) = length (ml_tcpMetaFifo s)
    \<and> length (ml_txEng2sLookup_rev_req s) = length (filter id (ml_isLookUpFifo s))
    \<and> length (ml_tupleShortCutFifo s) = length (filter Not (ml_isLookUpFifo s))"
  using ml_sys.invar_reachable [OF assms] by (simp add: ml_aligned_def)

section \<open>Addresses\<close>

lemma tupleSplitter_one:
  assumes "ts_getMeta s" and "ts_isLookUpFifo s = b # bs"
    and "ts_sLookup2txEng_rev_rsp s = (if b then tuple # q1 else q1)"
    and "ts_tupleShortCutFifo s = (if b then q2 else tuple # q2)"
  shows "tupleSplitter (tupleSplitter s) = s\<lparr> ts_isLookUp := b, ts_isLookUpFifo := bs, ts_sLookup2txEng_rev_rsp := q1,
     ts_tupleShortCutFifo := q2,
     ts_ipTupleFifo := ts_ipTupleFifo s @ [\<lparr> tt_srcIp = ft_srcIp tuple, tt_dstIp = ft_dstIp tuple \<rparr>],
     ts_tcpTupleFifo := ts_tcpTupleFifo s @ [tuple] \<rparr>"
  using assms by (cases b) (simp_all add: tupleSplitter_def ts_forward_def)

text \<open>
  Every segment gets the addresses meant for it.  If the two sources hold, in order, the tuples of the segments that name them, then two
  invocations per segment give the tuples to the two header stages in the order of the segments, with nothing
  left over.
\<close>

theorem tuples_in_segment_order:
  assumes "ts_getMeta s" and "ts_isLookUpFifo s = map fst jobs"
    and "ts_sLookup2txEng_rev_rsp s = map snd (filter fst jobs)"
    and "ts_tupleShortCutFifo s = map snd (filter (\<lambda>j. \<not> fst j) jobs)"
    and "t = (tupleSplitter ^^ (2 * length jobs)) s"
  shows "ts_tcpTupleFifo t = ts_tcpTupleFifo s @ map snd jobs
    \<and> ts_ipTupleFifo t = ts_ipTupleFifo s @ map (\<lambda>(_, u). \<lparr> tt_srcIp = ft_srcIp u, tt_dstIp = ft_dstIp u \<rparr>) jobs
    \<and> ts_isLookUpFifo t = [] \<and> ts_sLookup2txEng_rev_rsp t = [] \<and> ts_tupleShortCutFifo t = [] \<and> ts_getMeta t"
  using assms
proof (induction jobs arbitrary: s t)
  case Nil
  then show ?case by simp
next
  case (Cons job jobs)
  obtain b u where job: "job = (b, u)" by fastforce
  let ?s = "tupleSplitter (tupleSplitter s)"
  have one: "?s = s\<lparr> ts_isLookUp := b, ts_isLookUpFifo := map fst jobs,
      ts_sLookup2txEng_rev_rsp := map snd (filter fst jobs), ts_tupleShortCutFifo := map snd (filter (\<lambda>j. \<not> fst j) jobs),
      ts_ipTupleFifo := ts_ipTupleFifo s @ [\<lparr> tt_srcIp = ft_srcIp u, tt_dstIp = ft_dstIp u \<rparr>],
      ts_tcpTupleFifo := ts_tcpTupleFifo s @ [u] \<rparr>"
    using Cons.prems(1-4) by (intro tupleSplitter_one) (auto simp: job)
  have "t = (tupleSplitter ^^ (2 * length jobs)) ?s"
    using Cons.prems(5) by (simp add: funpow_swap1)
  then show ?case
    using Cons.IH [of ?s t] Cons.prems(1) by (simp add: one job)
qed

section \<open>Opening and closing\<close>

text \<open>
  A new connection starts at an aligned ring position.  The first SYN and the first SYN with ACK set the transmit entry of the session up with
  the number behind the SYN as the next octet, and that number is a multiple of 64, so the first octet of data lies at the start of
  the widest data word (512 bits).
\<close>

theorem new_connection_aligned:
  assumes "ml_FsmState s = 1" and "ev_rt_count (ml_curEvent s) = 0"
    and "ev_type (ml_curEvent s) = SYN \<or> ev_type (ml_curEvent s) = SYN_ACK \<and> ml_rxSar2txEng_rsp s \<noteq> [] \<and> ml_txSar2txEng_upd_rsp s \<noteq> []"
    and "t = metaLoader cfg s"
  shows "\<exists>m q. ml_tcpMetaFifo t = ml_tcpMetaFifo s @ [m] \<and> ml_txEng2txSar_upd_req t = ml_txEng2txSar_upd_req s @ [q]
    \<and> tem_syn m \<and> ttq_init q \<and> ttq_not_ackd q = tem_seqNumb m + 1 \<and> 64 dvd unat (ttq_not_ackd q)
    \<and> ttq_sessionID q = ev_sessionID (ml_curEvent s) \<and> ml_FsmState t = 0"
proof -
  have al: "64 dvd unat (push_bit 6 r)" for r :: u32
    by (simp add: push_bit_eq_mult unat_word_ariths dvd_mod)
  show ?thesis
    using assms(1-3) al
    by (auto simp: assms(4) metaLoader_def ml_syn_def ml_syn_ack_def ml_replies_def ml_new_seq_def ml_send_def ml_setRt_def
        Let_def txTxSarQuery_mk_def initial_seq_def neq_Nil_conv)
qed

text \<open>
  A fast retransmission (an RT event without a retry count) after the FIN has been sent does not repeat the FIN: the event is continued as a
  new FIN, which takes a new sequence number behind the old one.
\<close>

lemma fast_retransmit_sends_second_fin:
  assumes "ml_FsmState s = 1" and "ev_type (ml_curEvent s) = RT" and "ev_rt_count (ml_curEvent s) = 0" and "\<not> ml_sarLoaded s"
    and "ml_rxSar2txEng_rsp s = r # rs" and "ml_txSar2txEng_upd_rsp s = t # ts" and "ttr_finSent t"
    and "unat (ttr_usedLength t) \<le> unat (MSS cfg)"
  shows "\<exists>q. ml_txEng2txSar_upd_req (metaLoader cfg (metaLoader cfg s)) = ml_txEng2txSar_upd_req s @ [q]
    \<and> ttq_not_ackd q = ttr_not_ackd t + 1
    \<and> tem_seqNumb (last (ml_tcpMetaFifo (metaLoader cfg (metaLoader cfg s)))) = ttr_not_ackd t"
  using assms
  by (simp add: metaLoader_def ml_rt_def ml_fin_def ml_entries_def ml_replies_def Let_def ml_send_def ml_setRt_def
      ml_plain_def txTxSarQuery_mk_def)

section \<open>Concrete events\<close>

definition ml_init :: ml_st where
  "ml_init = \<lparr> ml_FsmState = 0, ml_sarLoaded = False, ml_curEvent = extendedEvent_of (event_mk TX 0),
     ml_randomValue = 0x562301af, ml_segmentCount = 0,
     ml_rxSar = \<lparr> rsr_recvd = 0, rsr_win_shift = 0, rsr_windowSize = 0 \<rparr>,
     ml_txSarReg = \<lparr> ttr_ackd = 0, ttr_not_ackd = 0, ttr_usableWindow = 0, ttr_app = 0, ttr_usedLength = 0,
       ttr_finReady = False, ttr_finSent = False \<rparr>,
     ml_meta = tx_engine_meta_mk 0 0 False False False False, ml_eventEng2txEng_event = [], ml_rxSar2txEng_rsp = [],
     ml_txSar2txEng_upd_rsp = [], ml_txEng2rxSar_req = [], ml_txEng2txSar_upd_req = [], ml_setRetransmitTimer = [],
     ml_setProbeTimer = [], ml_ipMetaFifo = [], ml_tcpMetaFifo = [], ml_txBufferReadCmd = [], ml_txEng2sLookup_rev_req = [],
     ml_isLookUpFifo = [], ml_isDDRbypass = [], ml_tupleShortCutFifo = [], ml_readCountFifo = [] \<rparr>"

definition ml_rt_ex :: ml_st where
  "ml_rt_ex = ml_init\<lparr> ml_FsmState := 1, ml_curEvent := extendedEvent_of (event_mk RT 4),
     ml_rxSar2txEng_rsp := [\<lparr> rsr_recvd = 5, rsr_win_shift = 0, rsr_windowSize = 100 \<rparr>],
     ml_txSar2txEng_upd_rsp := [\<lparr> ttr_ackd = - 1, ttr_not_ackd = 4999, ttr_usableWindow = 0, ttr_app = 4999,
       ttr_usedLength = 5000, ttr_finReady = False, ttr_finSent = False \<rparr>] \<rparr>"

theorem rt_retransmits_flight_witness:
  "\<exists>n \<le> 4. map (\<lambda>m. (tem_seqNumb m, unat (tem_length m))) (ml_tcpMetaFifo ((metaLoader default_config ^^ n) ml_rt_ex))
     = [(- 1, 4096), (4095, 904)]"
proof -
  obtain n where "n \<le> 4" and "rt_sent (ev_sessionID (ml_curEvent ml_rt_ex)) (rt_segments 4 4096 (- 1) 5000) ml_rt_ex
      ((metaLoader default_config ^^ n) ml_rt_ex)"
    using rt_retransmits_flight [of ml_rt_ex "\<lparr> rsr_recvd = 5, rsr_win_shift = 0, rsr_windowSize = 100 \<rparr>" "[]"
        "\<lparr> ttr_ackd = - 1, ttr_not_ackd = 4999, ttr_usableWindow = 0, ttr_app = 4999, ttr_usedLength = 5000,
          ttr_finReady = False, ttr_finSent = False \<rparr>" "[]" default_config]
    by (auto simp: ml_rt_ex_def ml_init_def default_config_def event_defs)
  moreover have "rt_segments 4 4096 (- 1) 5000 = [(- 1, 4096), (4095, 904)]"
    by code_simp
  ultimately show ?thesis by (intro exI [of _ n]) (simp add: rt_sent_def ml_rt_ex_def ml_init_def)
qed

theorem tx_header_streams_aligned_witness:
  "ml_ipMetaFifo (metaLoader default_config (metaLoader default_config (ml_init\<lparr> ml_eventEng2txEng_event :=
      [extendedEvent_of (event_mk SYN 3)] \<rparr>))) =
   map tem_length (ml_tcpMetaFifo (metaLoader default_config (metaLoader default_config (ml_init\<lparr> ml_eventEng2txEng_event :=
      [extendedEvent_of (event_mk SYN 3)] \<rparr>))))"
proof -
  let ?s = "ml_init\<lparr> ml_eventEng2txEng_event := [extendedEvent_of (event_mk SYN 3)] \<rparr>"
  have "reachable ml_start (ml_move default_config) ?s"
    by (rule reachable_init) (simp add: ml_start_def ml_init_def)
  then have "reachable ml_start (ml_move default_config) (metaLoader default_config ?s)"
    by (rule reachable_step) (rule ml_run)
  then have "reachable ml_start (ml_move default_config) (metaLoader default_config (metaLoader default_config ?s))"
    by (rule reachable_step) (rule ml_run)
  from tx_header_streams_aligned [OF this] show ?thesis by blast
qed

theorem tuples_in_segment_order_witness:
  "ts_tcpTupleFifo ((tupleSplitter ^^ 4) \<lparr> ts_getMeta = True, ts_isLookUp = False,
      ts_sLookup2txEng_rev_rsp = [fourTuple_mk 1 2 3 4], ts_tupleShortCutFifo = [fourTuple_mk 5 6 7 8],
      ts_isLookUpFifo = [False, True], ts_ipTupleFifo = [], ts_tcpTupleFifo = [] \<rparr>)
   = [fourTuple_mk 5 6 7 8, fourTuple_mk 1 2 3 4]"
  using tuples_in_segment_order [of "\<lparr> ts_getMeta = True, ts_isLookUp = False,
      ts_sLookup2txEng_rev_rsp = [fourTuple_mk 1 2 3 4], ts_tupleShortCutFifo = [fourTuple_mk 5 6 7 8],
      ts_isLookUpFifo = [False, True], ts_ipTupleFifo = [], ts_tcpTupleFifo = [] \<rparr>"
      "[(False, fourTuple_mk 5 6 7 8), (True, fourTuple_mk 1 2 3 4)]", OF _ _ _ _ refl]
  by simp

theorem new_connection_aligned_witness:
  "\<exists>m q. ml_tcpMetaFifo (metaLoader default_config (ml_init\<lparr> ml_FsmState := 1, ml_curEvent := extendedEvent_of (event_mk SYN 3) \<rparr>)) = [m]
    \<and> ml_txEng2txSar_upd_req (metaLoader default_config (ml_init\<lparr> ml_FsmState := 1, ml_curEvent := extendedEvent_of (event_mk SYN 3) \<rparr>)) = [q]
    \<and> ttq_not_ackd q = tem_seqNumb m + 1 \<and> 64 dvd unat (ttq_not_ackd q)"
  using new_connection_aligned [of "ml_init\<lparr> ml_FsmState := 1, ml_curEvent := extendedEvent_of (event_mk SYN 3) \<rparr>", OF _ _ _ refl,
      of default_config]
  by (auto simp: ml_init_def event_defs)

end
