(* ===== verification/Rx_Engine.thy ===== *)
theory Rx_Engine
  imports State_Table
begin

text \<open>
  The control part of the receive engine (\<^verbatim>\<open>rx_engine/rx_engine.cpp\<close>): \<^verbatim>\<open>rxMetadataHandler\<close>, which asks
  the session lookup for the session of a segment, and \<^verbatim>\<open>rxTcpFSM\<close>, the TCP state machine, with
  \<^verbatim>\<open>rxPackageDropper\<close> behind them and \<^verbatim>\<open>rxEventMerger\<close>.

  \<open>rxTcpFSM\<close> is split along the \<^verbatim>\<open>switch (control_bits)\<close> of the code: \<open>fsm_ack\<close>, \<open>fsm_syn\<close>,
  \<open>fsm_syn_ack\<close>, \<open>fsm_fin\<close> and \<open>fsm_other\<close>, and \<open>fsm_ack\<close> along its sections.  Both builds are
  modelled: with the packet memory (out-of-order segments are kept) and with \<^verbatim>\<open>RX_DDR_BYPASS\<close>.
  The local \<^verbatim>\<open>txSar\<close> of the code is not initialised; what it holds before it is read is the
  argument \<open>junk\<close>.

  Arithmetic is that of the source: \<^verbatim>\<open>ap_uint\<close> sums and differences grow and are cut only when they
  are assigned, so comparisons of sums are comparisons of numbers, not of 32-bit words.

  The lemmas show that every segment writes the session it has read back exactly once and with a
  state that the TCP state machine allows, that an acknowledgement is taken exactly when it lies between the
  oldest unacknowledged octet and the next octet to send, that accepted payload never overtakes the
  application, that the congestion window never wraps, and how the drop decisions of the two stages
  fit together.
\<close>

section \<open>Data\<close>

record rxEngineMetaData =
  rem_seqNumb :: u32
  rem_ackNumb :: u32
  rem_winSize :: u16
  rem_winScale :: u4
  rem_length :: u16
  rem_ack :: bool
  rem_rst :: bool
  rem_syn :: bool
  rem_fin :: bool
  rem_dataOffset :: u4

record rxFsmMetaData =
  rfm_sessionID :: u16
  rfm_srcIpAddress :: u32
  rfm_dstIpPort :: u16
  rfm_meta :: rxEngineMetaData
  rfm_srcIpPort :: u16

definition openStatus_full :: "u16 \<Rightarrow> u8 \<Rightarrow> u32 \<Rightarrow> u16 \<Rightarrow> openStatus" where
  "openStatus_full i success ip port =
     \<lparr> os_sessionID = i, os_success = success, os_ip = ip, os_port = port \<rparr>"

definition rxRetransmitTimerUpdate_mk :: "u16 \<Rightarrow> bool \<Rightarrow> rxRetransmitTimerUpdate" where
  "rxRetransmitTimerUpdate_mk i stop = \<lparr> rtu_sessionID = i, rtu_stop = stop \<rparr>"

section \<open>The metadata handler\<close>

datatype mhStateType = META | LOOKUP

record mh_st =
  mh_state :: mhStateType
  mh_meta :: rxEngineMetaData
  mh_srcIpAddress :: u32
  mh_dstIpPort :: u16
  mh_srcIpPort :: u16
  mh_metaDataFifo :: "rxEngineMetaData list"
  mh_portTable2rxEng_rsp :: "bool list"
  mh_tupleBuffer :: "fourTuple list"
  mh_sLookup2rxEng_rsp :: "sessionLookupReply list"
  mh_rxEng2sLookup_req :: "sessionLookupQuery list"
  mh_setEvent :: "extendedEvent list"
  mh_dropDataFifo :: "bool list"
  mh_fsmMetaDataFifo :: "rxFsmMetaData list"

text \<open>The octets of an address or a port in the opposite order, written out in the code.\<close>

definition mh_swap32 :: "u32 \<Rightarrow> u32" where
  "mh_swap32 w =
     range_set (range_set (range_set (range_set (0 :: u32)
       7 0 (range_get w 31 24 :: u8)) 15 8 (range_get w 23 16 :: u8))
       23 16 (range_get w 15 8 :: u8)) 31 24 (range_get w 7 0 :: u8)"

definition mh_swap16 :: "u16 \<Rightarrow> u16" where
  "mh_swap16 w = range_set (range_set (0 :: u16) 7 0 (range_get w 15 8 :: u8)) 15 8 (range_get w 7 0 :: u8)"

definition switchedTuple :: "fourTuple \<Rightarrow> fourTuple" where
  "switchedTuple tuple = \<lparr> ft_srcIp = ft_dstIp tuple, ft_dstIp = ft_srcIp tuple,
     ft_srcPort = ft_dstPort tuple, ft_dstPort = ft_srcPort tuple \<rparr>"

text \<open>A segment for a closed port: a reset is answered unless the segment is one, and its payload is
  dropped.\<close>

definition mh_closed_port :: "rxEngineMetaData \<Rightarrow> fourTuple \<Rightarrow> mh_st \<Rightarrow> mh_st" where
  "mh_closed_port m tuple s =
     s\<lparr> mh_setEvent := mh_setEvent s @
          (if rem_rst m then []
           else if rem_syn m \<or> rem_fin m
           then [extendedEvent_mk (rstEvent_nosession (rem_seqNumb m + ucast (rem_length m) + 1)) (switchedTuple tuple)]
           else [extendedEvent_mk (rstEvent_nosession (rem_seqNumb m + ucast (rem_length m))) (switchedTuple tuple)]),
        mh_dropDataFifo := mh_dropDataFifo s @ (if rem_length m \<noteq> 0 then [True] else []) \<rparr>"

definition rxMetadataHandler :: "mh_st \<Rightarrow> mh_st" where
  "rxMetadataHandler s =
     (case mh_state s of
        META \<Rightarrow>
          (case (mh_metaDataFifo s, mh_portTable2rxEng_rsp s, mh_tupleBuffer s) of
             (m # ms, portIsOpen # ps, tuple # ts) \<Rightarrow>
               (let s1 = s\<lparr> mh_metaDataFifo := ms, mh_portTable2rxEng_rsp := ps, mh_tupleBuffer := ts,
                            mh_meta := m, mh_srcIpAddress := mh_swap32 (ft_srcIp tuple),
                            mh_dstIpPort := mh_swap16 (ft_dstPort tuple),
                            mh_srcIpPort := mh_swap16 (ft_srcPort tuple) \<rparr>
                in if \<not> portIsOpen then mh_closed_port m tuple s1
                   else s1\<lparr> mh_rxEng2sLookup_req := mh_rxEng2sLookup_req s @
                              [\<lparr> slq_tuple = tuple,
                                 slq_allowCreation = (rem_syn m \<and> \<not> rem_rst m \<and> \<not> rem_fin m) \<rparr>],
                            mh_state := LOOKUP \<rparr>)
           | _ \<Rightarrow> s)
      | LOOKUP \<Rightarrow>
          (case mh_sLookup2rxEng_rsp s of
             lup # ls \<Rightarrow>
               s\<lparr> mh_sLookup2rxEng_rsp := ls, mh_state := META,
                  mh_fsmMetaDataFifo := mh_fsmMetaDataFifo s @
                    (if slr_hit lup
                     then [\<lparr> rfm_sessionID = slr_sessionID lup, rfm_srcIpAddress = mh_srcIpAddress s,
                             rfm_dstIpPort = mh_dstIpPort s, rfm_meta = mh_meta s,
                             rfm_srcIpPort = mh_srcIpPort s \<rparr>]
                     else []),
                  mh_dropDataFifo := mh_dropDataFifo s @
                    (if rem_length (mh_meta s) \<noteq> 0 then [\<not> slr_hit lup] else []) \<rparr>
           | [] \<Rightarrow> s))"

section \<open>The TCP state machine\<close>

datatype fsmStateType = LOAD | TRANSITION

record rx_fsm_st =
  fsm_state :: fsmStateType
  fsm_meta :: rxFsmMetaData
  fsm_txSarRequest :: bool
  rf_fsmMetaDataFifo :: "rxFsmMetaData list"
  rf_stateTable2rxEng_upd_rsp :: "sessionState list"
  rf_rxSar2rxEng_upd_rsp :: "rxSarEntry list"
  rf_txSar2rxEng_upd_rsp :: "rxTxSarReply list"
  rf_rxEng2stateTable_upd_req :: "stateQuery list"
  rf_rxEng2rxSar_upd_req :: "rxSarRecvd list"
  rf_rxEng2txSar_upd_req :: "rxTxSarQuery list"
  rf_clearRetransmitTimer :: "rxRetransmitTimerUpdate list"
  rf_clearProbeTimer :: "u16 list"
  rf_setCloseTimer :: "u16 list"
  rf_openConStatus :: "openStatus list"
  rf_setEvent :: "event list"
  rf_dropDataFifo :: "bool list"
  rf_rxBufferWriteCmd :: "mmCmd list"
  rf_rxApp_notification :: "appNotification list"

text \<open>Writes to the output streams.\<close>

abbreviation wr_state :: "u16 \<Rightarrow> sessionState \<Rightarrow> rx_fsm_st \<Rightarrow> rx_fsm_st" where
  "wr_state i st s \<equiv> s\<lparr> rf_rxEng2stateTable_upd_req := rf_rxEng2stateTable_upd_req s @ [stateQuery_write i st] \<rparr>"

abbreviation wr_rxSar :: "rxSarRecvd \<Rightarrow> rx_fsm_st \<Rightarrow> rx_fsm_st" where
  "wr_rxSar q s \<equiv> s\<lparr> rf_rxEng2rxSar_upd_req := rf_rxEng2rxSar_upd_req s @ [q] \<rparr>"

abbreviation wr_txSar :: "rxTxSarQuery \<Rightarrow> rx_fsm_st \<Rightarrow> rx_fsm_st" where
  "wr_txSar q s \<equiv> s\<lparr> rf_rxEng2txSar_upd_req := rf_rxEng2txSar_upd_req s @ [q] \<rparr>"

abbreviation wr_clearRt :: "u16 \<Rightarrow> bool \<Rightarrow> rx_fsm_st \<Rightarrow> rx_fsm_st" where
  "wr_clearRt i stop s \<equiv> s\<lparr> rf_clearRetransmitTimer := rf_clearRetransmitTimer s @ [rxRetransmitTimerUpdate_mk i stop] \<rparr>"

abbreviation wr_clearProbe :: "u16 \<Rightarrow> rx_fsm_st \<Rightarrow> rx_fsm_st" where
  "wr_clearProbe i s \<equiv> s\<lparr> rf_clearProbeTimer := rf_clearProbeTimer s @ [i] \<rparr>"

abbreviation wr_closeTimer :: "u16 \<Rightarrow> rx_fsm_st \<Rightarrow> rx_fsm_st" where
  "wr_closeTimer i s \<equiv> s\<lparr> rf_setCloseTimer := rf_setCloseTimer s @ [i] \<rparr>"

abbreviation wr_open :: "openStatus \<Rightarrow> rx_fsm_st \<Rightarrow> rx_fsm_st" where
  "wr_open r s \<equiv> s\<lparr> rf_openConStatus := rf_openConStatus s @ [r] \<rparr>"

abbreviation wr_event :: "event \<Rightarrow> rx_fsm_st \<Rightarrow> rx_fsm_st" where
  "wr_event e s \<equiv> s\<lparr> rf_setEvent := rf_setEvent s @ [e] \<rparr>"

abbreviation wr_drop :: "bool \<Rightarrow> rx_fsm_st \<Rightarrow> rx_fsm_st" where
  "wr_drop b s \<equiv> s\<lparr> rf_dropDataFifo := rf_dropDataFifo s @ [b] \<rparr>"

abbreviation wr_cmd :: "mmCmd \<Rightarrow> rx_fsm_st \<Rightarrow> rx_fsm_st" where
  "wr_cmd c s \<equiv> s\<lparr> rf_rxBufferWriteCmd := rf_rxBufferWriteCmd s @ [c] \<rparr>"

abbreviation wr_notify :: "rxFsmMetaData \<Rightarrow> u16 \<Rightarrow> bool \<Rightarrow> rx_fsm_st \<Rightarrow> rx_fsm_st" where
  "wr_notify m len closed s \<equiv> s\<lparr> rf_rxApp_notification := rf_rxApp_notification s @
     [appNotification_mk (rfm_sessionID m) len (rfm_srcIpAddress m) (rfm_dstIpPort m) closed] \<rparr>"

subsection \<open>A segment with ACK only\<close>

text \<open>Slow start below the threshold, then a fixed increment; \<^verbatim>\<open>slowstart_threshold - MSS\<close> is a signed
  number.\<close>

definition next_cong_window :: "toe_config \<Rightarrow> rxTxSarReply \<Rightarrow> win" where
  "next_cong_window cfg txSar =
     (if int (unat (rtr_cong_window txSar)) \<le> int (unat (rtr_slowstart_threshold txSar)) - int (unat (MSS cfg))
      then rtr_cong_window txSar + ucast (MSS cfg)
      else if unat (rtr_cong_window txSar) \<le> CONGESTION_WINDOW_MAX
      then rtr_cong_window txSar + 365
      else rtr_cong_window txSar)"

definition is_dup_ack :: "rxEngineMetaData \<Rightarrow> rxTxSarReply \<Rightarrow> bool" where
  "is_dup_ack m txSar \<longleftrightarrow> rem_ackNumb m = rtr_prevAck txSar \<and> rtr_prevAck txSar \<noteq> rtr_nextByte txSar"

text \<open>\<^verbatim>\<open>Check if new ACK arrived\<close>: the local copy of the transmit entry afterwards.\<close>

definition ack_txSar :: "toe_config \<Rightarrow> rxEngineMetaData \<Rightarrow> rxTxSarReply \<Rightarrow> rxTxSarReply" where
  "ack_txSar cfg m txSar =
     (if is_dup_ack m txSar
      then (if rem_length m = 0 then txSar\<lparr> rtr_count := rtr_count txSar + 1 \<rparr> else txSar)
      else txSar\<lparr> rtr_cong_window := next_cong_window cfg txSar, rtr_count := 0,
                  rtr_fastRetransmitted := False \<rparr>)"

definition ack_in_window :: "rxEngineMetaData \<Rightarrow> rxTxSarReply \<Rightarrow> bool" where
  "ack_in_window m txSar \<longleftrightarrow>
     (rtr_prevAck txSar \<le> rem_ackNumb m \<and> rem_ackNumb m \<le> rtr_nextByte txSar)
     \<or> ((rtr_prevAck txSar \<le> rem_ackNumb m \<or> rem_ackNumb m \<le> rtr_nextByte txSar)
        \<and> rtr_nextByte txSar < rtr_prevAck txSar)"

definition ack_update_txSar :: "rxFsmMetaData \<Rightarrow> bool \<Rightarrow> rxTxSarReply \<Rightarrow> rx_fsm_st \<Rightarrow> rx_fsm_st" where
  "ack_update_txSar m dup txSar s =
     (let s1 = (if dup then s else wr_clearProbe (rfm_sessionID m) s)
      in if ack_in_window (rfm_meta m) txSar
         then wr_txSar (rxTxSarQuery_write (rfm_sessionID m) (rem_ackNumb (rfm_meta m)) (rem_winSize (rfm_meta m))
                (rtr_cong_window txSar) (rtr_count txSar) (rtr_count txSar = 3 \<or> rtr_fastRetransmitted txSar)) s1
         else s1)"

text \<open>The free part of the ring behind the highest octet received.\<close>

definition rx_free_space :: "rxSarEntry \<Rightarrow> win" where
  "rx_free_space rxSar = (rse_appd rxSar - range_get (rse_head rxSar) 17 0) - 1"

definition seg_end :: "rxEngineMetaData \<Rightarrow> u32" where
  "seg_end m = rem_seqNumb m + ucast (rem_length m)"

text \<open>The conditions of the branches, in the order of the code.\<close>

definition ooo_in_order :: "rxEngineMetaData \<Rightarrow> rxSarEntry \<Rightarrow> bool" where
  "ooo_in_order m rxSar \<longleftrightarrow> \<not> rse_gap rxSar \<and> rem_seqNumb m = rse_recvd rxSar
     \<and> unat (rx_free_space rxSar) > unat (rem_length m)"

definition ooo_new_gap :: "rxEngineMetaData \<Rightarrow> rxSarEntry \<Rightarrow> bool" where
  "ooo_new_gap m rxSar \<longleftrightarrow> \<not> rse_gap rxSar \<and> rem_seqNumb m > rse_recvd rxSar
     \<and> rx_free_space rxSar > range_get (seg_end m - rse_head rxSar) 17 0"

definition ooo_after_head :: "rxEngineMetaData \<Rightarrow> rxSarEntry \<Rightarrow> bool" where
  "ooo_after_head m rxSar \<longleftrightarrow> rse_gap rxSar \<and> rem_seqNumb m = rse_head rxSar
     \<and> unat (rx_free_space rxSar) > unat (rem_length m)"

definition ooo_after_recvd :: "rxEngineMetaData \<Rightarrow> rxSarEntry \<Rightarrow> bool" where
  "ooo_after_recvd m rxSar \<longleftrightarrow> rse_gap rxSar \<and> rem_seqNumb m = rse_recvd rxSar"

text \<open>An accepted segment: the new pointers, the write to the packet memory, the notification and the
  decision not to drop.\<close>

definition ooo_accept :: "rxFsmMetaData \<Rightarrow> rxSarRecvd \<Rightarrow> u16 \<Rightarrow> rx_fsm_st \<Rightarrow> rx_fsm_st" where
  "ooo_accept m q len s =
     wr_drop False (wr_notify m len False
       (wr_cmd (mmCmd_mk (pkgAddr (rfm_sessionID m) (range_get (rem_seqNumb (rfm_meta m)) 17 0)) (rem_length (rfm_meta m)))
         (wr_rxSar q s)))"

definition ack_payload_ooo :: "rxFsmMetaData \<Rightarrow> rxSarEntry \<Rightarrow> rx_fsm_st \<Rightarrow> rx_fsm_st" where
  "ack_payload_ooo m rxSar s =
     (let i = rfm_sessionID m; d = rfm_meta m; e = seg_end d
      in if rem_length d = 0 then s
         else if ooo_in_order d rxSar
         then ooo_accept m (rxSarRecvd_write i e e (rse_offset rxSar) (rse_gap rxSar)) (rem_length d) s
         else if ooo_new_gap d rxSar
         then ooo_accept m (rxSarRecvd_write i (rse_recvd rxSar) e (rem_seqNumb d) True) 0 s
         else if ooo_after_head d rxSar
         then ooo_accept m (rxSarRecvd_write i (rse_recvd rxSar) e (rse_offset rxSar) (rse_gap rxSar)) 0 s
         else if ooo_after_recvd d rxSar
         then (if unat (rem_seqNumb d) + unat (rem_length d) = unat (rse_offset rxSar)
               then ooo_accept m (rxSarRecvd_write i (rse_head rxSar) (rse_head rxSar) (rse_offset rxSar) False)
                      (ucast (range_get (rse_head rxSar - rem_seqNumb d) 17 0 :: win)) s
               else if unat (rem_seqNumb d) + unat (rem_length d) < unat (rse_offset rxSar)
               then ooo_accept m (rxSarRecvd_write i e (rse_head rxSar) (rse_offset rxSar) (rse_gap rxSar)) (rem_length d) s
               else s)
         else wr_drop True s)"

text \<open>Without the packet memory: room is what the counters of the receive FIFO leave.\<close>

definition bypass_in_order :: "u16 \<Rightarrow> u16 \<Rightarrow> rxEngineMetaData \<Rightarrow> rxSarEntry \<Rightarrow> bool" where
  "bypass_in_order data_count max_data_count m rxSar \<longleftrightarrow>
     rem_seqNumb m = rse_recvd rxSar \<and> int (unat max_data_count) - int (unat data_count) > 375"

definition ack_payload_bypass :: "u16 \<Rightarrow> u16 \<Rightarrow> rxFsmMetaData \<Rightarrow> rxSarEntry \<Rightarrow> rx_fsm_st \<Rightarrow> rx_fsm_st" where
  "ack_payload_bypass data_count max_data_count m rxSar s =
     (let d = rfm_meta m; e = seg_end d
      in if rem_length d = 0 then s
         else if bypass_in_order data_count max_data_count d rxSar
         then wr_drop False (wr_notify m (rem_length d) False
                (wr_rxSar (rxSarRecvd_write (rfm_sessionID m) e e (rse_offset rxSar) (rse_gap rxSar)) s))
         else wr_drop True s)"

definition ack_event :: "toe_config \<Rightarrow> u16 \<Rightarrow> u16 \<Rightarrow> rxFsmMetaData \<Rightarrow> rxSarEntry \<Rightarrow> rxTxSarReply \<Rightarrow> rx_fsm_st \<Rightarrow> rx_fsm_st" where
  "ack_event cfg data_count max_data_count m rxSar txSar s =
     (let d = rfm_meta m
      in if FAST_RETRANSMIT cfg \<and> rtr_count txSar = 3 \<and> \<not> rtr_fastRetransmitted txSar
         then wr_event (event_mk RT (rfm_sessionID m)) s
         else if rem_length d \<noteq> 0
         then (if (if RX_DDR_BYPASS cfg then bypass_in_order data_count max_data_count d rxSar else ooo_in_order d rxSar)
               then wr_event (event_mk ACK (rfm_sessionID m)) s
               else wr_event (event_mk ACK_NODELAY (rfm_sessionID m)) s)
         else s)"

definition ack_state :: "rxFsmMetaData \<Rightarrow> sessionState \<Rightarrow> rxTxSarReply \<Rightarrow> rx_fsm_st \<Rightarrow> rx_fsm_st" where
  "ack_state m tcpState txSar s =
     (let i = rfm_sessionID m
      in if rem_ackNumb (rfm_meta m) = rtr_nextByte txSar
         then (case tcpState of
                 SYN_RECEIVED \<Rightarrow> wr_state i ESTABLISHED s
               | CLOSING \<Rightarrow> wr_closeTimer i (wr_state i TIME_WAIT s)
               | LAST_ACK \<Rightarrow> wr_state i CLOSED s
               | _ \<Rightarrow> wr_state i tcpState s)
         else wr_state i tcpState s)"

definition fsm_ack :: "toe_config \<Rightarrow> u16 \<Rightarrow> u16 \<Rightarrow> rxFsmMetaData \<Rightarrow> sessionState \<Rightarrow> rxSarEntry \<Rightarrow> rxTxSarReply
    \<Rightarrow> rx_fsm_st \<Rightarrow> rx_fsm_st" where
  "fsm_ack cfg data_count max_data_count m tcpState rxSar txSar s =
     (let i = rfm_sessionID m; d = rfm_meta m;
          s1 = wr_clearRt i (rem_ackNumb d = rtr_nextByte txSar) s
      in if tcpState \<in> {ESTABLISHED, SYN_RECEIVED, FIN_WAIT_1, CLOSING, LAST_ACK}
         then (let txSar' = ack_txSar cfg d txSar;
                   s2 = ack_update_txSar m (is_dup_ack d txSar) txSar' s1;
                   s3 = (if RX_DDR_BYPASS cfg then ack_payload_bypass data_count max_data_count m rxSar s2
                         else ack_payload_ooo m rxSar s2);
                   s4 = ack_event cfg data_count max_data_count m rxSar txSar' s3
               in ack_state m tcpState txSar' s4)
         else (let s2 = wr_event (rstEvent_session i (seg_end d)) s1;
                   s3 = (if rem_length d \<noteq> 0 then wr_drop True s2 else s2)
               in wr_state i tcpState s3))"

subsection \<open>SYN, SYN with ACK, FIN with ACK, and everything else\<close>

text \<open>\<^verbatim>\<open>rx_win_shift\<close> of the code: scaling is used only if the peer offers it.\<close>

definition rx_win_shift_of :: "rxEngineMetaData \<Rightarrow> u4" where
  "rx_win_shift_of m = (if rem_winScale m = 0 then 0 else of_nat WINDOW_SCALE_BITS)"

definition fsm_syn :: "rxFsmMetaData \<Rightarrow> sessionState \<Rightarrow> rxSarEntry \<Rightarrow> rxTxSarReply \<Rightarrow> rx_fsm_st \<Rightarrow> rx_fsm_st" where
  "fsm_syn m tcpState rxSar junk s =
     (let i = rfm_sessionID m; d = rfm_meta m
      in if tcpState = CLOSED \<or> tcpState = SYN_SENT
         then wr_state i SYN_RECEIVED (wr_event (event_mk SYN_ACK i)
                (wr_txSar (rxTxSarQuery_init i 0 (rem_winSize d) (rtr_cong_window junk) 0 False (rem_winScale d))
                  (wr_rxSar (rxSarRecvd_init i (rem_seqNumb d + 1) (rem_seqNumb d + 1) 0 False (rx_win_shift_of d)) s)))
         else if tcpState = SYN_RECEIVED
         then (if unat (rem_seqNumb d) + 1 = unat (rse_recvd rxSar)
               then wr_state i tcpState (wr_event (event_rt SYN_ACK i 1) s)
               else wr_state i CLOSED (wr_event (rstEvent_session i (rem_seqNumb d + 1)) s))
         else wr_state i tcpState (wr_event (event_mk ACK_NODELAY i) s))"

definition fsm_syn_ack :: "rxFsmMetaData \<Rightarrow> sessionState \<Rightarrow> rxTxSarReply \<Rightarrow> rx_fsm_st \<Rightarrow> rx_fsm_st" where
  "fsm_syn_ack m tcpState txSar s =
     (let i = rfm_sessionID m; d = rfm_meta m;
          s1 = wr_clearRt i (rem_ackNumb d = rtr_nextByte txSar) s
      in if tcpState = SYN_SENT \<and> rem_ackNumb d = rtr_nextByte txSar
         then wr_open (openStatus_full i 1 (rfm_srcIpAddress m) (rfm_srcIpPort m))
                (wr_state i ESTABLISHED (wr_event (event_mk ACK_NODELAY i)
                  (wr_txSar (rxTxSarQuery_init i (rem_ackNumb d) (rem_winSize d) (rtr_cong_window txSar) 0 False (rem_winScale d))
                    (wr_rxSar (rxSarRecvd_init i (rem_seqNumb d + 1) (rem_seqNumb d + 1) 0 False (rx_win_shift_of d)) s1))))
         else if tcpState = SYN_SENT
         then wr_state i CLOSED (wr_event (rstEvent_session i (seg_end d + 1)) s1)
         else wr_state i tcpState (wr_event (event_mk ACK_NODELAY i) s1))"

definition fsm_fin :: "toe_config \<Rightarrow> rxFsmMetaData \<Rightarrow> sessionState \<Rightarrow> rxSarEntry \<Rightarrow> rxTxSarReply \<Rightarrow> rx_fsm_st \<Rightarrow> rx_fsm_st" where
  "fsm_fin cfg m tcpState rxSar txSar s =
     (let i = rfm_sessionID m; d = rfm_meta m;
          s1 = wr_clearRt i (rem_ackNumb d = rtr_nextByte txSar) s
      in if (tcpState = ESTABLISHED \<or> tcpState = FIN_WAIT_1 \<or> tcpState = FIN_WAIT_2) \<and> rse_recvd rxSar = rem_seqNumb d
         then (let s2 = wr_clearProbe i
                     (wr_rxSar (rxSarRecvd_write i (seg_end d + 1) (seg_end d + 1) (rse_offset rxSar) (rse_gap rxSar))
                       (wr_txSar (rxTxSarQuery_write i (rem_ackNumb d) (rem_winSize d) (rtr_cong_window txSar)
                           (rtr_count txSar) (rtr_fastRetransmitted txSar)) s1));
                   s3 = (if rem_length d \<noteq> 0
                         then wr_drop False (wr_notify m (rem_length d) True
                                (if RX_DDR_BYPASS cfg then s2
                                 else wr_cmd (mmCmd_mk (pkgAddr i (range_get (rem_seqNumb d) 17 0)) (rem_length d)) s2))
                         else if tcpState = ESTABLISHED then wr_notify m 0 True s2
                         else s2)
               in if tcpState = ESTABLISHED
                  then wr_state i LAST_ACK (wr_event (event_mk FIN i) s3)
                  else if rem_ackNumb d = rtr_nextByte txSar
                  then wr_event (event_mk ACK i) (wr_closeTimer i (wr_state i TIME_WAIT s3))
                  else wr_event (event_mk ACK i) (wr_state i CLOSING s3))
         else (let s2 = wr_state i tcpState (wr_event (event_mk ACK i) s1)
               in if rem_length d \<noteq> 0 then wr_drop True s2 else s2))"

definition fsm_other :: "rxFsmMetaData \<Rightarrow> sessionState \<Rightarrow> rxSarEntry \<Rightarrow> rxTxSarReply \<Rightarrow> rx_fsm_st \<Rightarrow> rx_fsm_st" where
  "fsm_other m tcpState rxSar txSar s =
     (let i = rfm_sessionID m; d = rfm_meta m
      in if rem_rst d
         then (if tcpState = SYN_SENT
               then (if rem_ackNumb d = rtr_nextByte txSar
                     then wr_clearRt i True (wr_state i CLOSED
                            (wr_open (openStatus_full i 0 (rfm_srcIpAddress m) (rfm_srcIpPort m)) s))
                     else wr_state i tcpState s)
               else if rem_seqNumb d = rse_recvd rxSar
               then wr_clearRt i True (wr_state i CLOSED (wr_notify m 0 True s))
               else wr_state i tcpState s)
         else wr_state i tcpState s)"

subsection \<open>One invocation\<close>

definition control_bits :: "rxEngineMetaData \<Rightarrow> u4" where
  "control_bits m = of_bool (rem_ack m) + 2 * of_bool (rem_syn m) + 4 * of_bool (rem_fin m) + 8 * of_bool (rem_rst m)"

definition fsm_load :: "rx_fsm_st \<Rightarrow> rx_fsm_st" where
  "fsm_load s =
     (case rf_fsmMetaDataFifo s of
        [] \<Rightarrow> s
      | m # ms \<Rightarrow>
          s\<lparr> rf_fsmMetaDataFifo := ms, fsm_meta := m, fsm_state := TRANSITION,
             rf_rxEng2stateTable_upd_req := rf_rxEng2stateTable_upd_req s @ [stateQuery_read (rfm_sessionID m)],
             rf_rxEng2rxSar_upd_req := rf_rxEng2rxSar_upd_req s @ [rxSarRecvd_read (rfm_sessionID m)],
             rf_rxEng2txSar_upd_req := rf_rxEng2txSar_upd_req s @
               (if rem_ack (rfm_meta m) then [rxTxSarQuery_read (rfm_sessionID m)] else []),
             fsm_txSarRequest := (rem_ack (rfm_meta m) \<or> fsm_txSarRequest s) \<rparr>)"

definition fsm_ready :: "rx_fsm_st \<Rightarrow> bool" where
  "fsm_ready s \<longleftrightarrow> rf_stateTable2rxEng_upd_rsp s \<noteq> [] \<and> rf_rxSar2rxEng_upd_rsp s \<noteq> []
     \<and> \<not> (fsm_txSarRequest s \<and> rf_txSar2rxEng_upd_rsp s = [])"

definition fsm_dispatch :: "toe_config \<Rightarrow> u16 \<Rightarrow> u16 \<Rightarrow> rxFsmMetaData \<Rightarrow> sessionState \<Rightarrow> rxSarEntry \<Rightarrow> rxTxSarReply
    \<Rightarrow> rx_fsm_st \<Rightarrow> rx_fsm_st" where
  "fsm_dispatch cfg data_count max_data_count m tcpState rxSar txSar s =
     (let bits = control_bits (rfm_meta m)
      in if bits = 1 then fsm_ack cfg data_count max_data_count m tcpState rxSar txSar s
         else if bits = 2 then fsm_syn m tcpState rxSar txSar s
         else if bits = 3 then fsm_syn_ack m tcpState txSar s
         else if bits = 5 then fsm_fin cfg m tcpState rxSar txSar s
         else fsm_other m tcpState rxSar txSar s)"

text \<open>A plain SYN does not read the transmit entry; everything else takes the reply if there is one.\<close>

definition fsm_txSar :: "rxTxSarReply \<Rightarrow> rx_fsm_st \<Rightarrow> rxTxSarReply" where
  "fsm_txSar junk s =
     (if control_bits (rfm_meta (fsm_meta s)) = 2 \<or> rf_txSar2rxEng_upd_rsp s = [] then junk
      else hd (rf_txSar2rxEng_upd_rsp s))"

definition fsm_take :: "rx_fsm_st \<Rightarrow> rx_fsm_st" where
  "fsm_take s =
     s\<lparr> fsm_state := LOAD, fsm_txSarRequest := False,
        rf_stateTable2rxEng_upd_rsp := tl (rf_stateTable2rxEng_upd_rsp s),
        rf_rxSar2rxEng_upd_rsp := tl (rf_rxSar2rxEng_upd_rsp s),
        rf_txSar2rxEng_upd_rsp :=
          (if control_bits (rfm_meta (fsm_meta s)) = 2 then rf_txSar2rxEng_upd_rsp s
           else tl (rf_txSar2rxEng_upd_rsp s)) \<rparr>"

definition rxTcpFSM :: "toe_config \<Rightarrow> u16 \<Rightarrow> u16 \<Rightarrow> rxTxSarReply \<Rightarrow> rx_fsm_st \<Rightarrow> rx_fsm_st" where
  "rxTcpFSM cfg data_count max_data_count junk s =
     (case fsm_state s of
        LOAD \<Rightarrow> fsm_load s
      | TRANSITION \<Rightarrow>
          (if fsm_ready s
           then fsm_dispatch cfg data_count max_data_count (fsm_meta s) (hd (rf_stateTable2rxEng_upd_rsp s))
                  (hd (rf_rxSar2rxEng_upd_rsp s)) (fsm_txSar junk s) (fsm_take s)
           else s))"

section \<open>Dropping payload and merging events\<close>

datatype tpfStateType = READ_DROP1 | READ_DROP2 | FWD | DROP

text \<open>A word of the data stream: its content is not looked at, only its \<^verbatim>\<open>last\<close> flag.\<close>

record 'w dropper_st =
  tpf_state :: tpfStateType
  pd_dataIn :: "('w \<times> bool) list"
  pd_dropFifoIn1 :: "bool list"
  pd_dropFifoIn2 :: "bool list"
  pd_rxBufferDataOut :: "('w \<times> bool) list"

definition rxPackageDropper :: "'w dropper_st \<Rightarrow> 'w dropper_st" where
  "rxPackageDropper s =
     (case tpf_state s of
        READ_DROP1 \<Rightarrow>
          (case pd_dropFifoIn1 s of
             d # ds \<Rightarrow> s\<lparr> pd_dropFifoIn1 := ds, tpf_state := (if d then DROP else READ_DROP2) \<rparr>
           | [] \<Rightarrow> s)
      | READ_DROP2 \<Rightarrow>
          (case pd_dropFifoIn2 s of
             d # ds \<Rightarrow> s\<lparr> pd_dropFifoIn2 := ds, tpf_state := (if d then DROP else FWD) \<rparr>
           | [] \<Rightarrow> s)
      | FWD \<Rightarrow>
          (case pd_dataIn s of
             w # ws \<Rightarrow> s\<lparr> pd_dataIn := ws, tpf_state := (if snd w then READ_DROP1 else FWD),
                          pd_rxBufferDataOut := pd_rxBufferDataOut s @ [w] \<rparr>
           | [] \<Rightarrow> s)
      | DROP \<Rightarrow>
          (case pd_dataIn s of
             w # ws \<Rightarrow> s\<lparr> pd_dataIn := ws, tpf_state := (if snd w then READ_DROP1 else DROP) \<rparr>
           | [] \<Rightarrow> s))"

definition rxEventMerger :: "extendedEvent list \<times> event list \<times> extendedEvent list
    \<Rightarrow> extendedEvent list \<times> event list \<times> extendedEvent list" where
  "rxEventMerger = (\<lambda>(in1, in2, out).
     case in1 of x # xs \<Rightarrow> (xs, in2, out @ [x])
     | [] \<Rightarrow> (case in2 of y # ys \<Rightarrow> (in1, ys, out @ [extendedEvent_of y]) | [] \<Rightarrow> (in1, in2, out)))"

section \<open>What each part of the state machine touches\<close>

lemmas fsm_parts_defs = ack_update_txSar_def ooo_accept_def ack_payload_ooo_def ack_payload_bypass_def
  ack_event_def ack_state_def

lemma ack_update_txSar_frame [simp]:
  "rf_rxEng2stateTable_upd_req (ack_update_txSar m dup txSar s) = rf_rxEng2stateTable_upd_req s"
  "rf_rxEng2rxSar_upd_req (ack_update_txSar m dup txSar s) = rf_rxEng2rxSar_upd_req s"
  "rf_setEvent (ack_update_txSar m dup txSar s) = rf_setEvent s"
  "rf_dropDataFifo (ack_update_txSar m dup txSar s) = rf_dropDataFifo s"
  "fsm_state (ack_update_txSar m dup txSar s) = fsm_state s"
  by (simp_all add: ack_update_txSar_def Let_def)

lemma ooo_accept_frame [simp]:
  "rf_rxEng2stateTable_upd_req (ooo_accept m q len s) = rf_rxEng2stateTable_upd_req s"
  "rf_rxEng2txSar_upd_req (ooo_accept m q len s) = rf_rxEng2txSar_upd_req s"
  "rf_rxEng2rxSar_upd_req (ooo_accept m q len s) = rf_rxEng2rxSar_upd_req s @ [q]"
  "rf_setEvent (ooo_accept m q len s) = rf_setEvent s"
  "rf_dropDataFifo (ooo_accept m q len s) = rf_dropDataFifo s @ [False]"
  "fsm_state (ooo_accept m q len s) = fsm_state s"
  by (simp_all add: ooo_accept_def)

lemma ack_payload_ooo_frame [simp]:
  "rf_rxEng2stateTable_upd_req (ack_payload_ooo m rxSar s) = rf_rxEng2stateTable_upd_req s"
  "rf_rxEng2txSar_upd_req (ack_payload_ooo m rxSar s) = rf_rxEng2txSar_upd_req s"
  "rf_setEvent (ack_payload_ooo m rxSar s) = rf_setEvent s"
  "fsm_state (ack_payload_ooo m rxSar s) = fsm_state s"
  by (simp_all add: ack_payload_ooo_def Let_def)

lemma ack_payload_bypass_frame [simp]:
  "rf_rxEng2stateTable_upd_req (ack_payload_bypass c c' m rxSar s) = rf_rxEng2stateTable_upd_req s"
  "rf_rxEng2txSar_upd_req (ack_payload_bypass c c' m rxSar s) = rf_rxEng2txSar_upd_req s"
  "rf_setEvent (ack_payload_bypass c c' m rxSar s) = rf_setEvent s"
  "fsm_state (ack_payload_bypass c c' m rxSar s) = fsm_state s"
  by (simp_all add: ack_payload_bypass_def Let_def)

lemma ack_event_frame [simp]:
  "rf_rxEng2stateTable_upd_req (ack_event cfg c c' m rxSar txSar s) = rf_rxEng2stateTable_upd_req s"
  "rf_rxEng2txSar_upd_req (ack_event cfg c c' m rxSar txSar s) = rf_rxEng2txSar_upd_req s"
  "rf_rxEng2rxSar_upd_req (ack_event cfg c c' m rxSar txSar s) = rf_rxEng2rxSar_upd_req s"
  "rf_dropDataFifo (ack_event cfg c c' m rxSar txSar s) = rf_dropDataFifo s"
  "fsm_state (ack_event cfg c c' m rxSar txSar s) = fsm_state s"
  by (simp_all add: ack_event_def Let_def)

text \<open>The state that \<open>ack_state\<close> writes back.\<close>

definition ack_next :: "bool \<Rightarrow> sessionState \<Rightarrow> sessionState" where
  "ack_next all_acked st =
     (if all_acked then (case st of SYN_RECEIVED \<Rightarrow> ESTABLISHED | CLOSING \<Rightarrow> TIME_WAIT | LAST_ACK \<Rightarrow> CLOSED | _ \<Rightarrow> st)
      else st)"

lemma ack_state_frame [simp]:
  "rf_rxEng2stateTable_upd_req (ack_state m st txSar s) = rf_rxEng2stateTable_upd_req s @
     [stateQuery_write (rfm_sessionID m) (ack_next (rem_ackNumb (rfm_meta m) = rtr_nextByte txSar) st)]"
  "rf_rxEng2txSar_upd_req (ack_state m st txSar s) = rf_rxEng2txSar_upd_req s"
  "rf_rxEng2rxSar_upd_req (ack_state m st txSar s) = rf_rxEng2rxSar_upd_req s"
  "rf_setEvent (ack_state m st txSar s) = rf_setEvent s"
  "rf_dropDataFifo (ack_state m st txSar s) = rf_dropDataFifo s"
  "fsm_state (ack_state m st txSar s) = fsm_state s"
  by (cases st; simp add: ack_state_def ack_next_def Let_def)+

lemma ack_txSar_frame [simp]:
  "rtr_nextByte (ack_txSar cfg d txSar) = rtr_nextByte txSar" "rtr_prevAck (ack_txSar cfg d txSar) = rtr_prevAck txSar"
  by (simp_all add: ack_txSar_def)

section \<open>The TCP state diagram\<close>

text \<open>
  The edges of the TCP state diagram for a received segment.  CLOSE-WAIT has no state of its own: a
  FIN from the peer is answered with our FIN at once, so ESTABLISHED goes to LAST-ACK.  \<open>all_acked\<close>: the segment acknowledges
  everything sent; \<open>expected\<close>: it starts at the next octet expected.
\<close>

inductive tcp_edge :: "rxEngineMetaData \<Rightarrow> bool \<Rightarrow> bool \<Rightarrow> sessionState \<Rightarrow> sessionState \<Rightarrow> bool" where
  stay: "tcp_edge m a e st st"
| passive_open: "\<lbrakk> rem_syn m; \<not> rem_ack m; st = CLOSED \<or> st = SYN_SENT \<rbrakk> \<Longrightarrow> tcp_edge m a e st SYN_RECEIVED"
| active_open: "\<lbrakk> rem_syn m; rem_ack m \<rbrakk> \<Longrightarrow> tcp_edge m True e SYN_SENT ESTABLISHED"
| bad_syn_ack: "\<lbrakk> rem_syn m; rem_ack m \<rbrakk> \<Longrightarrow> tcp_edge m False e SYN_SENT CLOSED"
| bad_syn: "\<lbrakk> rem_syn m; \<not> rem_ack m \<rbrakk> \<Longrightarrow> tcp_edge m a e SYN_RECEIVED CLOSED"
| syn_acked: "rem_ack m \<Longrightarrow> tcp_edge m True e SYN_RECEIVED ESTABLISHED"
| peer_closes: "rem_fin m \<Longrightarrow> tcp_edge m a True ESTABLISHED LAST_ACK"
| both_close: "\<lbrakk> rem_fin m; st = FIN_WAIT_1 \<or> st = FIN_WAIT_2 \<rbrakk> \<Longrightarrow> tcp_edge m False True st CLOSING"
| closed_by_peer: "\<lbrakk> rem_fin m; st = FIN_WAIT_1 \<or> st = FIN_WAIT_2 \<rbrakk> \<Longrightarrow> tcp_edge m True True st TIME_WAIT"
| fin_acked: "rem_ack m \<Longrightarrow> tcp_edge m True e CLOSING TIME_WAIT"
| last_acked: "rem_ack m \<Longrightarrow> tcp_edge m True e LAST_ACK CLOSED"
| refused: "rem_rst m \<Longrightarrow> tcp_edge m True e SYN_SENT CLOSED"
| reset: "\<lbrakk> rem_rst m; st \<noteq> SYN_SENT \<rbrakk> \<Longrightarrow> tcp_edge m a True st CLOSED"

inductive_simps tcp_edge_simps: "tcp_edge m a e st st'"

lemma control_bits_cases:
  "control_bits m = 1 \<longleftrightarrow> rem_ack m \<and> \<not> rem_syn m \<and> \<not> rem_fin m \<and> \<not> rem_rst m"
  "control_bits m = 2 \<longleftrightarrow> \<not> rem_ack m \<and> rem_syn m \<and> \<not> rem_fin m \<and> \<not> rem_rst m"
  "control_bits m = 3 \<longleftrightarrow> rem_ack m \<and> rem_syn m \<and> \<not> rem_fin m \<and> \<not> rem_rst m"
  "control_bits m = 5 \<longleftrightarrow> rem_ack m \<and> \<not> rem_syn m \<and> rem_fin m \<and> \<not> rem_rst m"
  by (cases "rem_ack m"; cases "rem_syn m"; cases "rem_fin m"; cases "rem_rst m"; simp add: control_bits_def)+

text \<open>Every case writes the session back once.\<close>

lemma fsm_ack_state_req:
  "rf_rxEng2stateTable_upd_req (fsm_ack cfg c c' m st rxSar txSar s) = rf_rxEng2stateTable_upd_req s @
     [stateQuery_write (rfm_sessionID m)
       (if st \<in> {ESTABLISHED, SYN_RECEIVED, FIN_WAIT_1, CLOSING, LAST_ACK}
        then ack_next (rem_ackNumb (rfm_meta m) = rtr_nextByte txSar) st else st)]"
  by (simp add: fsm_ack_def Let_def)

lemma fsm_syn_state_req:
  "rf_rxEng2stateTable_upd_req (fsm_syn m st rxSar txSar s) = rf_rxEng2stateTable_upd_req s @
     [stateQuery_write (rfm_sessionID m)
       (if st = CLOSED \<or> st = SYN_SENT then SYN_RECEIVED
        else if st = SYN_RECEIVED \<and> unat (rem_seqNumb (rfm_meta m)) + 1 \<noteq> unat (rse_recvd rxSar) then CLOSED else st)]"
  by (simp add: fsm_syn_def Let_def)

lemma fsm_syn_ack_state_req:
  "rf_rxEng2stateTable_upd_req (fsm_syn_ack m st txSar s) = rf_rxEng2stateTable_upd_req s @
     [stateQuery_write (rfm_sessionID m)
       (if st = SYN_SENT then if rem_ackNumb (rfm_meta m) = rtr_nextByte txSar then ESTABLISHED else CLOSED else st)]"
  by (simp add: fsm_syn_ack_def Let_def)

lemma fsm_fin_state_req:
  "rf_rxEng2stateTable_upd_req (fsm_fin cfg m st rxSar txSar s) = rf_rxEng2stateTable_upd_req s @
     [stateQuery_write (rfm_sessionID m)
       (if (st = ESTABLISHED \<or> st = FIN_WAIT_1 \<or> st = FIN_WAIT_2) \<and> rse_recvd rxSar = rem_seqNumb (rfm_meta m)
        then if st = ESTABLISHED then LAST_ACK
             else if rem_ackNumb (rfm_meta m) = rtr_nextByte txSar then TIME_WAIT else CLOSING
        else st)]"
  by (simp add: fsm_fin_def Let_def)

lemma fsm_other_state_req:
  "rf_rxEng2stateTable_upd_req (fsm_other m st rxSar txSar s) = rf_rxEng2stateTable_upd_req s @
     [stateQuery_write (rfm_sessionID m)
       (if rem_rst (rfm_meta m)
           \<and> (if st = SYN_SENT then rem_ackNumb (rfm_meta m) = rtr_nextByte txSar
              else rem_seqNumb (rfm_meta m) = rse_recvd rxSar) then CLOSED else st)]"
  by (simp add: fsm_other_def Let_def)

lemmas fsm_state_reqs = fsm_ack_state_req fsm_syn_state_req fsm_syn_ack_state_req fsm_fin_state_req fsm_other_state_req

lemma ack_next_edge: "rem_ack m \<Longrightarrow> tcp_edge m a e st (ack_next a st)"
  by (cases st; cases a; simp add: ack_next_def tcp_edge.intros)

lemma fsm_dispatch_writes_back:
  "\<exists>st'. rf_rxEng2stateTable_upd_req (fsm_dispatch cfg c c' m st rxSar txSar s) =
       rf_rxEng2stateTable_upd_req s @ [stateQuery_write (rfm_sessionID m) st']
     \<and> tcp_edge (rfm_meta m) (rem_ackNumb (rfm_meta m) = rtr_nextByte txSar) (rem_seqNumb (rfm_meta m) = rse_recvd rxSar) st st'"
proof -
  let ?d = "rfm_meta m"
  let ?edge = "tcp_edge ?d (rem_ackNumb ?d = rtr_nextByte txSar) (rem_seqNumb ?d = rse_recvd rxSar) st"
  have e_ack: "?edge (if st \<in> {ESTABLISHED, SYN_RECEIVED, FIN_WAIT_1, CLOSING, LAST_ACK}
      then ack_next (rem_ackNumb ?d = rtr_nextByte txSar) st else st)" if "control_bits ?d = 1"
    using that by (simp add: control_bits_cases ack_next_edge tcp_edge.stay)
  have e_syn: "?edge (if st = CLOSED \<or> st = SYN_SENT then SYN_RECEIVED
      else if st = SYN_RECEIVED \<and> unat (rem_seqNumb ?d) + 1 \<noteq> unat (rse_recvd rxSar) then CLOSED else st)"
    if "control_bits ?d = 2"
    using that by (auto simp: control_bits_cases intro: tcp_edge.intros)
  have e_syn_ack: "?edge (if st = SYN_SENT then if rem_ackNumb ?d = rtr_nextByte txSar then ESTABLISHED else CLOSED else st)"
    if "control_bits ?d = 3"
    using that by (auto simp: control_bits_cases intro: tcp_edge.intros)
  have e_fin: "?edge (if (st = ESTABLISHED \<or> st = FIN_WAIT_1 \<or> st = FIN_WAIT_2) \<and> rse_recvd rxSar = rem_seqNumb ?d
      then if st = ESTABLISHED then LAST_ACK else if rem_ackNumb ?d = rtr_nextByte txSar then TIME_WAIT else CLOSING
      else st)" if "control_bits ?d = 5"
    using that by (auto simp: control_bits_cases intro: tcp_edge.intros)
  have e_other: "?edge (if rem_rst ?d \<and> (if st = SYN_SENT then rem_ackNumb ?d = rtr_nextByte txSar
      else rem_seqNumb ?d = rse_recvd rxSar) then CLOSED else st)"
    by (auto intro: tcp_edge.intros)
  consider (ack) "control_bits ?d = 1" | (syn) "control_bits ?d = 2" | (syn_ack) "control_bits ?d = 3"
    | (fin) "control_bits ?d = 5"
    | (other) "control_bits ?d \<noteq> 1" "control_bits ?d \<noteq> 2" "control_bits ?d \<noteq> 3" "control_bits ?d \<noteq> 5"
    by blast
  then show ?thesis
  proof cases
    case ack
    then show ?thesis
      by (intro exI conjI [rotated], rule e_ack)
        (simp_all add: fsm_dispatch_def Let_def fsm_ack_state_req)
  next
    case syn
    then show ?thesis
      by (intro exI conjI [rotated], rule e_syn)
        (simp_all add: fsm_dispatch_def Let_def fsm_syn_state_req)
  next
    case syn_ack
    then show ?thesis
      by (intro exI conjI [rotated], rule e_syn_ack)
        (simp_all add: fsm_dispatch_def Let_def fsm_syn_ack_state_req)
  next
    case fin
    then show ?thesis
      by (intro exI conjI [rotated], rule e_fin)
        (simp_all add: fsm_dispatch_def Let_def fsm_fin_state_req)
  next
    case other
    show ?thesis
      by (intro exI conjI [rotated], rule e_other) (use other in \<open>simp add: fsm_dispatch_def Let_def fsm_other_state_req\<close>)
  qed
qed

text \<open>What the state machine does in one invocation.\<close>

lemma fsm_take_frame [simp]:
  "fsm_state (fsm_take s) = LOAD" "rf_rxEng2stateTable_upd_req (fsm_take s) = rf_rxEng2stateTable_upd_req s"
  "rf_rxEng2txSar_upd_req (fsm_take s) = rf_rxEng2txSar_upd_req s"
  "rf_rxEng2rxSar_upd_req (fsm_take s) = rf_rxEng2rxSar_upd_req s"
  "rf_setEvent (fsm_take s) = rf_setEvent s" "rf_dropDataFifo (fsm_take s) = rf_dropDataFifo s"
  by (simp_all add: fsm_take_def)

lemma fsm_state_dispatch [simp]: "fsm_state (fsm_dispatch cfg c c' m st rxSar txSar s) = fsm_state s"
  by (simp add: fsm_dispatch_def fsm_ack_def fsm_syn_def fsm_syn_ack_def fsm_fin_def fsm_other_def Let_def)

text \<open>
  (C1) The TCP state machine.  When the replies of the tables are there, a segment is processed in one
  invocation: the session that was read from the state table is written back exactly once, and the new
  state is the old one or a successor in the TCP state diagram under the segment's flags, its
  acknowledgement number and its sequence number.
\<close>

theorem rx_segment_follows_tcp:
  assumes "fsm_state s = TRANSITION" and "fsm_ready s"
    and "rf_stateTable2rxEng_upd_rsp s = st # sts" and "rf_rxSar2rxEng_upd_rsp s = rxSar # es"
    and "m = rfm_meta (fsm_meta s)" and "txSar = fsm_txSar junk s"
  shows "\<exists>st'. rf_rxEng2stateTable_upd_req (rxTcpFSM cfg c c' junk s) = rf_rxEng2stateTable_upd_req s @
        [stateQuery_write (rfm_sessionID (fsm_meta s)) st']
      \<and> tcp_edge m (rem_ackNumb m = rtr_nextByte txSar) (rem_seqNumb m = rse_recvd rxSar) st st'
      \<and> fsm_state (rxTcpFSM cfg c c' junk s) = LOAD"
  using fsm_dispatch_writes_back [of cfg c c' "fsm_meta s" st rxSar txSar "fsm_take s"] assms
  by (simp add: rxTcpFSM_def)

section \<open>The lock protocol of the state table\<close>

definition fsm_owed :: "rx_fsm_st \<Rightarrow> stateQuery list" where
  "fsm_owed s = (case fsm_state s of LOAD \<Rightarrow> [] | TRANSITION \<Rightarrow> [stateQuery_write (rfm_sessionID (fsm_meta s)) CLOSED])"

definition fsm_protocol :: "rx_fsm_st \<Rightarrow> bool" where
  "fsm_protocol s \<longleftrightarrow> alternates None (rf_rxEng2stateTable_upd_req s @ fsm_owed s)"

text \<open>The state machine and its environment: segments and replies arrive, outputs other than the requests to the state
  table are taken.\<close>

inductive fsm_move :: "toe_config \<Rightarrow> rx_fsm_st \<Rightarrow> rx_fsm_st \<Rightarrow> bool" for cfg where
  fsm_run: "fsm_move cfg s (rxTcpFSM cfg c c' junk s)"
| fsm_env: "\<lbrakk> fsm_state t = fsm_state s; fsm_meta t = fsm_meta s; fsm_txSarRequest t = fsm_txSarRequest s;
     rf_rxEng2stateTable_upd_req t = rf_rxEng2stateTable_upd_req s \<rbrakk> \<Longrightarrow> fsm_move cfg s t"

definition fsm_start :: "rx_fsm_st \<Rightarrow> bool" where
  "fsm_start s \<longleftrightarrow> fsm_state s = LOAD \<and> \<not> fsm_txSarRequest s \<and> rf_rxEng2stateTable_upd_req s = []"

lemma fsm_protocol_cong:
  "\<lbrakk> fsm_state t = fsm_state s; fsm_meta t = fsm_meta s; rf_rxEng2stateTable_upd_req t = rf_rxEng2stateTable_upd_req s \<rbrakk>
    \<Longrightarrow> fsm_protocol t = fsm_protocol s"
  by (cases "fsm_state s") (simp_all add: fsm_protocol_def fsm_owed_def)

lemma fsm_protocol_load:
  assumes "fsm_state s = LOAD" "fsm_protocol s"
  shows "fsm_protocol (fsm_load s)"
proof (cases "rf_fsmMetaDataFifo s")
  case (Cons m ms)
  then show ?thesis
    using assms alternates_snoc_pair [of None "rf_rxEng2stateTable_upd_req s" "stateQuery_read (rfm_sessionID m)"
        "stateQuery_write (rfm_sessionID m) CLOSED"]
    by (simp add: fsm_protocol_def fsm_owed_def fsm_load_def stateQuery_read_def stateQuery_write_def)
qed (use assms in \<open>simp add: fsm_load_def\<close>)

lemma fsm_protocol_transition:
  assumes "fsm_state s = TRANSITION" "fsm_protocol s" "fsm_state t = LOAD"
    and "rf_rxEng2stateTable_upd_req t = rf_rxEng2stateTable_upd_req s @ [stateQuery_write (rfm_sessionID (fsm_meta s)) st']"
  shows "fsm_protocol t"
  using assms alternates_replace_last [of None "rf_rxEng2stateTable_upd_req s"
      "stateQuery_write (rfm_sessionID (fsm_meta s)) CLOSED" "stateQuery_write (rfm_sessionID (fsm_meta s)) st'"]
  by (simp add: fsm_protocol_def fsm_owed_def stateQuery_write_def)

lemma rxTcpFSM_writes_back:
  assumes "fsm_state s = TRANSITION" and "fsm_ready s"
  shows "\<exists>st'. rf_rxEng2stateTable_upd_req (rxTcpFSM cfg c c' junk s) = rf_rxEng2stateTable_upd_req s @
        [stateQuery_write (rfm_sessionID (fsm_meta s)) st'] \<and> fsm_state (rxTcpFSM cfg c c' junk s) = LOAD"
  using fsm_dispatch_writes_back [of cfg c c' "fsm_meta s" "hd (rf_stateTable2rxEng_upd_rsp s)"
      "hd (rf_rxSar2rxEng_upd_rsp s)" "fsm_txSar junk s" "fsm_take s"] assms
  by (auto simp: rxTcpFSM_def)

lemma fsm_protocol_step: "fsm_protocol s \<Longrightarrow> fsm_protocol (rxTcpFSM cfg c c' junk s)"
proof (cases "fsm_state s")
  case LOAD
  then show "fsm_protocol s \<Longrightarrow> ?thesis" by (simp add: rxTcpFSM_def fsm_protocol_load)
next
  case TRANSITION
  assume p: "fsm_protocol s"
  show ?thesis
  proof (cases "fsm_ready s")
    case True
    with TRANSITION p show ?thesis using rxTcpFSM_writes_back fsm_protocol_transition by blast
  next
    case False
    with TRANSITION p show ?thesis by (simp add: rxTcpFSM_def)
  qed
qed

interpretation rx_client: lock_client fsm_start "fsm_move cfg" fsm_protocol rf_rxEng2stateTable_upd_req fsm_owed for cfg
proof unfold_locales
  show "fsm_protocol s" if "fsm_start s" for s
    using that by (simp add: fsm_start_def fsm_protocol_def fsm_owed_def)
  show "fsm_protocol t" if "fsm_protocol s" "fsm_move cfg s t" for s t
    using that(2,1) by (cases rule: fsm_move.cases) (auto simp: fsm_protocol_step dest: fsm_protocol_cong)
qed (simp add: fsm_protocol_def)

text \<open>
  (C2) The receive engine keeps the lock protocol of the state table: in every reachable state the sequence of its requests,
  followed by the write-back it owes while a segment is being processed, reads a session only without a
  lock and writes each session it has read back before the next request.  No branch of the state machine
  forgets to return the lock.
\<close>

theorem rx_engine_lock_protocol:
  assumes "reachable fsm_start (fsm_move cfg) s"
  shows "alternates None (rf_rxEng2stateTable_upd_req s @ fsm_owed s)"
  by (rule rx_client.keeps_protocol [OF assms])

section \<open>Acknowledgements\<close>

text \<open>A segment whose session, receive entry and transmit entry have been loaded.\<close>

definition seg_loaded :: "rx_fsm_st \<Rightarrow> rxFsmMetaData \<Rightarrow> sessionState \<Rightarrow> rxSarEntry \<Rightarrow> rxTxSarReply \<Rightarrow> bool" where
  "seg_loaded s m st rxSar txSar \<longleftrightarrow> fsm_state s = TRANSITION \<and> fsm_meta s = m
     \<and> rf_stateTable2rxEng_upd_rsp s \<noteq> [] \<and> hd (rf_stateTable2rxEng_upd_rsp s) = st
     \<and> rf_rxSar2rxEng_upd_rsp s \<noteq> [] \<and> hd (rf_rxSar2rxEng_upd_rsp s) = rxSar
     \<and> rf_txSar2rxEng_upd_rsp s \<noteq> [] \<and> hd (rf_txSar2rxEng_upd_rsp s) = txSar"

lemma rxTcpFSM_loaded:
  "\<lbrakk> seg_loaded s m st rxSar txSar; control_bits (rfm_meta m) \<noteq> 2 \<rbrakk> \<Longrightarrow>
   rxTcpFSM cfg c c' junk s = fsm_dispatch cfg c c' m st rxSar txSar (fsm_take s)"
  by (auto simp: seg_loaded_def rxTcpFSM_def fsm_ready_def fsm_txSar_def)

definition synchronised :: "sessionState \<Rightarrow> bool" where
  "synchronised st \<longleftrightarrow> st \<in> {ESTABLISHED, SYN_RECEIVED, FIN_WAIT_1, CLOSING, LAST_ACK}"

text \<open>The three comparisons of the code are one comparison of distances on the circle of sequence numbers.\<close>

lemma ack_in_window_iff:
  "ack_in_window m txSar \<longleftrightarrow> wdist (rtr_prevAck txSar) (rem_ackNumb m) \<le> wdist (rtr_prevAck txSar) (rtr_nextByte txSar)"
proof -
  have "unat (rtr_prevAck txSar) < 2 ^ 32" "unat (rem_ackNumb m) < 2 ^ 32" "unat (rtr_nextByte txSar) < 2 ^ 32"
    using unsigned_less [of "rtr_prevAck txSar", where 'a = nat] unsigned_less [of "rem_ackNumb m", where 'a = nat]
      unsigned_less [of "rtr_nextByte txSar", where 'a = nat] by simp_all
  then show ?thesis
    by (auto simp: ack_in_window_def wdist_if word_le_nat_alt word_less_nat_alt)
qed

lemma fsm_ack_txSar_req:
  assumes "synchronised st"
  shows "rf_rxEng2txSar_upd_req (fsm_ack cfg c c' m st rxSar txSar s) = rf_rxEng2txSar_upd_req s @
     (if ack_in_window (rfm_meta m) txSar
      then [let t = ack_txSar cfg (rfm_meta m) txSar
            in rxTxSarQuery_write (rfm_sessionID m) (rem_ackNumb (rfm_meta m)) (rem_winSize (rfm_meta m))
                 (rtr_cong_window t) (rtr_count t) (rtr_count t = 3 \<or> rtr_fastRetransmitted t)]
      else [])"
proof -
  have "ack_in_window (rfm_meta m) (ack_txSar cfg (rfm_meta m) txSar) = ack_in_window (rfm_meta m) txSar"
    by (simp add: ack_in_window_def)
  with assms show ?thesis by (simp add: fsm_ack_def synchronised_def Let_def ack_update_txSar_def)
qed

text \<open>
  (C3) Which acknowledgements are taken.  In a synchronised state, a plain acknowledgement updates the transmit
  entry exactly when its number lies, going up from the oldest unacknowledged octet, not beyond the next
  octet to send; the distance is that on the circle of the \<open>2 ^ 32\<close> sequence numbers, so the test is right
  across their wrap-around.  The number written is the number acknowledged.
\<close>

theorem ack_taken_iff_in_flight:
  assumes "seg_loaded s m st rxSar txSar" and "control_bits (rfm_meta m) = 1" and "synchronised st"
    and "t = rxTcpFSM cfg c c' junk s"
  shows "(wdist (rtr_prevAck txSar) (rem_ackNumb (rfm_meta m)) \<le> wdist (rtr_prevAck txSar) (rtr_nextByte txSar)
      \<longrightarrow> (\<exists>q. rf_rxEng2txSar_upd_req t = rf_rxEng2txSar_upd_req s @ [q] \<and> rtq_write q
            \<and> rtq_sessionID q = rfm_sessionID m \<and> rtq_ackd q = rem_ackNumb (rfm_meta m)
            \<and> rtq_recv_window q = rem_winSize (rfm_meta m)))
    \<and> (wdist (rtr_prevAck txSar) (rem_ackNumb (rfm_meta m)) > wdist (rtr_prevAck txSar) (rtr_nextByte txSar)
      \<longrightarrow> rf_rxEng2txSar_upd_req t = rf_rxEng2txSar_upd_req s)"
proof -
  have t: "t = fsm_ack cfg c c' m st rxSar txSar (fsm_take s)"
    using rxTcpFSM_loaded [OF assms(1)] assms(2,4) by (simp add: fsm_dispatch_def)
  show ?thesis
    by (simp add: t fsm_ack_txSar_req [OF assms(3)] ack_in_window_iff Let_def rxTxSarQuery_write_def)
qed

text \<open>
  (C40) The congestion window never wraps.  It stays or grows by one maximum segment size or by 365
  octets, as numbers and not only modulo \<open>2 ^ 18\<close>, and it is bounded by what it was, the slow start
  threshold and \<open>CONGESTION_WINDOW_MAX + 365\<close>, which fits its 18 bits.
\<close>

theorem cong_window_never_wraps:
  "unat (next_cong_window cfg txSar) \<in> {unat (rtr_cong_window txSar), unat (rtr_cong_window txSar) + 365,
      unat (rtr_cong_window txSar) + unat (MSS cfg)}
   \<and> unat (next_cong_window cfg txSar) \<le>
      Max {unat (rtr_cong_window txSar), unat (rtr_slowstart_threshold txSar), CONGESTION_WINDOW_MAX + 365}"
proof -
  let ?w = "rtr_cong_window txSar" and ?t = "rtr_slowstart_threshold txSar"
  have lim: "unat ?w < 2 ^ 18" "unat ?t < 2 ^ 18"
    using unsigned_less [of ?w, where 'a = nat] unsigned_less [of ?t, where 'a = nat] by simp_all
  have mss: "unat (ucast (MSS cfg) :: win) = unat (MSS cfg)" by (simp add: unat_ucast_up)
  have slow: "unat (?w + ucast (MSS cfg)) = unat ?w + unat (MSS cfg)"
    if "int (unat ?w) \<le> int (unat ?t) - int (unat (MSS cfg))"
  proof -
    have "unat ?w + unat (MSS cfg) < 2 ^ 18" using that lim by linarith
    then show ?thesis by (subst unat_add_lem [THEN iffD1]) (simp_all add: mss)
  qed
  have avoid: "unat (?w + 365) = unat ?w + 365" if "unat ?w \<le> CONGESTION_WINDOW_MAX"
    using that by (subst unat_add_lem [THEN iffD1]) (simp_all add: CONGESTION_WINDOW_MAX_def BUFFER_SIZE_def)
  consider (slow) "int (unat ?w) \<le> int (unat ?t) - int (unat (MSS cfg))"
    | (avoid) "\<not> int (unat ?w) \<le> int (unat ?t) - int (unat (MSS cfg))" "unat ?w \<le> CONGESTION_WINDOW_MAX"
    | (full) "\<not> int (unat ?w) \<le> int (unat ?t) - int (unat (MSS cfg))" "\<not> unat ?w \<le> CONGESTION_WINDOW_MAX"
    by blast
  then show ?thesis
  proof cases
    case slow
    then have "unat ?w + unat (MSS cfg) \<le> unat ?t" by linarith
    with slow show ?thesis by (simp add: next_cong_window_def \<open>_ \<Longrightarrow> unat (?w + ucast (MSS cfg)) = _\<close>)
  next
    case avoid
    then show ?thesis by (simp add: next_cong_window_def \<open>_ \<Longrightarrow> unat (?w + 365) = _\<close>)
  next
    case full
    then show ?thesis by (simp add: next_cong_window_def)
  qed
qed

section \<open>Fast retransmission\<close>

text \<open>What the transmit SAR table returns after it has stored the update: the fields that the update writes.\<close>

definition store_ack :: "rxTxSarReply \<Rightarrow> rxTxSarQuery \<Rightarrow> rxTxSarReply" where
  "store_ack x q = x\<lparr> rtr_prevAck := rtq_ackd q, rtr_cong_window := rtq_cong_window q, rtr_count := rtq_count q,
     rtr_fastRetransmitted := rtq_fastRetransmitted q \<rparr>"

text \<open>The same segment \<open>n\<close> times, each time with the transmit entry as the previous one left it.\<close>

primrec same_ack_run :: "toe_config \<Rightarrow> rxFsmMetaData \<Rightarrow> sessionState \<Rightarrow> rxSarEntry \<Rightarrow> nat \<Rightarrow> rxTxSarReply \<times> rx_fsm_st
    \<Rightarrow> rxTxSarReply \<times> rx_fsm_st" where
  "same_ack_run cfg m st rxSar 0 xs = xs"
| "same_ack_run cfg m st rxSar (Suc n) xs =
     (let (x, s) = same_ack_run cfg m st rxSar n xs;
          s' = fsm_ack cfg 0 0 m st rxSar x s
      in (store_ack x (last (rf_rxEng2txSar_upd_req s')), s'))"

lemma fsm_ack_dup:
  assumes "FAST_RETRANSMIT cfg" "synchronised st" "rem_length (rfm_meta m) = 0" "is_dup_ack (rfm_meta m) x"
  shows "rf_setEvent (fsm_ack cfg c c' m st rxSar x s) = rf_setEvent s @
      (if rtr_count x = 2 \<and> \<not> rtr_fastRetransmitted x then [event_mk RT (rfm_sessionID m)] else [])"
    and "store_ack x (last (rf_rxEng2txSar_upd_req (fsm_ack cfg c c' m st rxSar x s))) =
      x\<lparr> rtr_count := rtr_count x + 1, rtr_fastRetransmitted := (rtr_count x = 2 \<or> rtr_fastRetransmitted x) \<rparr>"
proof -
  have tx: "ack_txSar cfg (rfm_meta m) x = x\<lparr> rtr_count := rtr_count x + 1 \<rparr>"
    using assms(3,4) by (simp add: ack_txSar_def)
  have three: "rtr_count x + 1 = 3 \<longleftrightarrow> rtr_count x = 2"
    using add_right_cancel [of "rtr_count x" 1 2] by simp
  show "rf_setEvent (fsm_ack cfg c c' m st rxSar x s) = rf_setEvent s @
      (if rtr_count x = 2 \<and> \<not> rtr_fastRetransmitted x then [event_mk RT (rfm_sessionID m)] else [])"
    using assms(1-3) by (simp add: fsm_ack_def synchronised_def tx three Let_def ack_event_def)
  have "ack_in_window (rfm_meta m) x"
    using assms(4) by (simp add: ack_in_window_iff is_dup_ack_def wdist_def)
  then show "store_ack x (last (rf_rxEng2txSar_upd_req (fsm_ack cfg c c' m st rxSar x s))) =
      x\<lparr> rtr_count := rtr_count x + 1, rtr_fastRetransmitted := (rtr_count x = 2 \<or> rtr_fastRetransmitted x) \<rparr>"
    using assms(4) by (simp add: fsm_ack_txSar_req [OF assms(2)] tx three Let_def store_ack_def
        rxTxSarQuery_write_def is_dup_ack_def)
qed

lemma same_ack_run_dup:
  assumes "FAST_RETRANSMIT cfg" "synchronised st" "rem_length (rfm_meta m) = 0" "is_dup_ack (rfm_meta m) x"
    and "rtr_count x = 0" "\<not> rtr_fastRetransmitted x"
  shows "fst (same_ack_run cfg m st rxSar n (x, s)) = x\<lparr> rtr_count := of_nat n, rtr_fastRetransmitted := (3 \<le> n) \<rparr>
    \<and> rf_setEvent (snd (same_ack_run cfg m st rxSar n (x, s))) =
        rf_setEvent s @ (if 3 \<le> n then [event_mk RT (rfm_sessionID m)] else [])"
proof (induction n)
  case 0
  then show ?case using assms(5,6) by simp
next
  case (Suc n)
  obtain y t where r: "same_ack_run cfg m st rxSar n (x, s) = (y, t)" by fastforce
  have y: "y = x\<lparr> rtr_count := of_nat n, rtr_fastRetransmitted := (3 \<le> n) \<rparr>"
    and t: "rf_setEvent t = rf_setEvent s @ (if 3 \<le> n then [event_mk RT (rfm_sessionID m)] else [])"
    using Suc by (simp_all add: r)
  have dup: "is_dup_ack (rfm_meta m) y" using assms(4) by (simp add: y is_dup_ack_def)
  have two: "(of_nat n :: u2) = 2 \<longleftrightarrow> n mod 4 = 2"
    using word_of_nat_eq_iff [of n 2, where 'a = 2] by (simp add: take_bit_eq_mod)
  have run: "same_ack_run cfg m st rxSar (Suc n) (x, s) =
      (store_ack y (last (rf_rxEng2txSar_upd_req (fsm_ack cfg 0 0 m st rxSar y t))), fsm_ack cfg 0 0 m st rxSar y t)"
    by (simp add: r Let_def)
  show ?case
    unfolding run fst_conv snd_conv fsm_ack_dup [OF assms(1-3) dup]
    by (cases "n = 2"; cases "3 \<le> n") (auto simp: y t two add.commute)
qed

text \<open>
  Fast retransmission happens once.  Any number of duplicate acknowledgements without payload, none of
  which is preceded by a new acknowledgement, requests a retransmission exactly when there are at least three of them,
  and only one, although the duplicate counter has two bits and runs over.
\<close>

theorem dup_acks_retransmit_once:
  assumes "FAST_RETRANSMIT cfg" and "synchronised st" and "rem_length (rfm_meta m) = 0"
    and "rem_ackNumb (rfm_meta m) = rtr_prevAck x" and "rtr_prevAck x \<noteq> rtr_nextByte x"
    and "rtr_count x = 0" and "\<not> rtr_fastRetransmitted x"
  shows "rf_setEvent (snd (same_ack_run cfg m st rxSar n (x, s))) =
    rf_setEvent s @ (if 3 \<le> n then [event_mk RT (rfm_sessionID m)] else [])"
  using same_ack_run_dup [of cfg st m x rxSar n s] assms by (simp add: is_dup_ack_def)

section \<open>Payload without the packet memory\<close>

lemma fsm_ack_bypass:
  assumes "RX_DDR_BYPASS cfg" and "acc = (synchronised st \<and> bypass_in_order c c' (rfm_meta m) rxSar)"
    and "e = seg_end (rfm_meta m)"
  shows "rf_dropDataFifo (fsm_ack cfg c c' m st rxSar txSar s) = rf_dropDataFifo s @
      (if rem_length (rfm_meta m) = 0 then [] else [\<not> acc])"
    and "rf_rxEng2rxSar_upd_req (fsm_ack cfg c c' m st rxSar txSar s) = rf_rxEng2rxSar_upd_req s @
      (if rem_length (rfm_meta m) \<noteq> 0 \<and> acc
       then [rxSarRecvd_write (rfm_sessionID m) e e (rse_offset rxSar) (rse_gap rxSar)] else [])"
  using assms by (simp_all add: fsm_ack_def ack_payload_bypass_def synchronised_def Let_def)

lemma fsm_fin_bypass:
  assumes "acc = (st \<in> {ESTABLISHED, FIN_WAIT_1, FIN_WAIT_2} \<and> rem_seqNumb (rfm_meta m) = rse_recvd rxSar)"
    and "e = seg_end (rfm_meta m) + 1"
  shows "rf_dropDataFifo (fsm_fin cfg m st rxSar txSar s) = rf_dropDataFifo s @
      (if rem_length (rfm_meta m) = 0 then [] else [\<not> acc])"
    and "rf_rxEng2rxSar_upd_req (fsm_fin cfg m st rxSar txSar s) = rf_rxEng2rxSar_upd_req s @
      (if acc then [rxSarRecvd_write (rfm_sessionID m) e e (rse_offset rxSar) (rse_gap rxSar)] else [])"
  using assms by (auto simp: fsm_fin_def Let_def)

lemma bypass_room: "bypass_in_order c c' d rxSar \<longleftrightarrow> rem_seqNumb d = rse_recvd rxSar \<and> unat c + 375 < unat c'"
  unfolding bypass_in_order_def by (intro conj_cong refl) linarith


text \<open>The other segments leave the decision out, also when they carry payload, although the first stage has
  announced it.\<close>

theorem no_decision_for_other_segments:
  assumes "fsm_state s = TRANSITION" and "control_bits (rfm_meta (fsm_meta s)) \<noteq> 1" and "control_bits (rfm_meta (fsm_meta s)) \<noteq> 5"
  shows "rf_dropDataFifo (rxTcpFSM cfg c c' junk s) = rf_dropDataFifo s"
proof -
  have "rf_dropDataFifo (fsm_dispatch cfg c c' m st rxSar txSar u) = rf_dropDataFifo u"
    if "control_bits (rfm_meta m) \<noteq> 1" "control_bits (rfm_meta m) \<noteq> 5" for m st rxSar txSar u
    using that by (simp add: fsm_dispatch_def fsm_syn_def fsm_syn_ack_def fsm_other_def Let_def)
  with assms show ?thesis by (simp add: rxTcpFSM_def)
qed

section \<open>Payload with the packet memory\<close>

lemma range_get_low: "(range_get (w :: u32) 17 0 :: win) = ucast w"
  by (rule bit_word_eqI) (simp add: bit_range_get bit_simps)

lemma ring_advance:
  fixes a h d :: win
  assumes "unat (a - h - 1) > unat d"
  shows "wdist a (h + d) = wdist a h + unat d \<and> wdist a (h + d) < 2 ^ 18 - 1"
proof -
  have sum: "unat (a - h - 1) + wdist a h = 2 ^ 18 - 1" using free_plus_used [of a h] by simp
  have "wdist a (h + d) = unat ((h - a) + d)" by (simp add: wdist_def algebra_simps)
  also have "\<dots> = unat (h - a) + unat d"
    using sum assms by (subst unat_add_lem [THEN iffD1]) (simp_all add: wdist_def)
  finally show ?thesis using sum assms by (simp add: wdist_def)
qed

lemma ucast_seg_end: "(ucast (seg_end d) :: win) = ucast (rem_seqNumb d) + ucast (rem_length d)"
proof -
  have "(ucast (ucast l :: u32) :: win) = ucast l" for l :: u16
    by (rule bit_word_eqI) (auto simp: bit_simps dest: bit_imp_le_length)
  then show ?thesis by (simp add: seg_end_def ucast_down_add)
qed

text \<open>The highest octet moves ahead on the ring, and never onto the application's pointer.\<close>

definition head_ok :: "rxSarEntry \<Rightarrow> rxSarRecvd \<Rightarrow> bool" where
  "head_ok rxSar q \<longleftrightarrow> wdist (rse_appd rxSar) (ucast (rse_head rxSar)) \<le> wdist (rse_appd rxSar) (ucast (rsv_head q))
     \<and> wdist (rse_appd rxSar) (ucast (rsv_head q)) < 2 ^ 18 - 1
     \<and> (rsv_gap q \<or> rsv_head q = rsv_recvd q)"

lemma head_ok_append:
  assumes "rem_seqNumb d = rse_head rxSar" and "unat (rx_free_space rxSar) > unat (rem_length d)"
    and "rsv_head q = seg_end d" and "rsv_gap q \<or> rsv_head q = rsv_recvd q"
  shows "head_ok rxSar q"
proof -
  have "unat (ucast (rem_length d) :: win) = unat (rem_length d)" by (simp add: unat_ucast_up)
  with ring_advance [of "ucast (rem_length d)" "rse_appd rxSar" "ucast (rse_head rxSar)"] assms
  show ?thesis by (simp add: head_ok_def rx_free_space_def range_get_low ucast_seg_end)
qed

lemma head_ok_gap:
  assumes "ooo_new_gap d rxSar" and "rsv_head q = seg_end d" and "rsv_gap q"
  shows "head_ok rxSar q"
proof -
  have "rse_head rxSar + (seg_end d - rse_head rxSar) = seg_end d" by simp
  then have "(ucast (rse_head rxSar) :: win) + ucast (seg_end d - rse_head rxSar) = ucast (seg_end d)"
    by (metis ucast_down_add [where 'a = 32 and 'b = 18, of "rse_head rxSar" "seg_end d - rse_head rxSar", simplified])
  with ring_advance [of "ucast (seg_end d - rse_head rxSar)" "rse_appd rxSar" "ucast (rse_head rxSar)"] assms
  show ?thesis
    by (simp add: head_ok_def ooo_new_gap_def rx_free_space_def range_get_low word_less_nat_alt)
qed

lemma head_ok_same:
  "\<lbrakk> wdist (rse_appd rxSar) (ucast (rse_head rxSar)) < 2 ^ 18 - 1; rsv_head q = rse_head rxSar;
     rsv_gap q \<or> rsv_head q = rsv_recvd q \<rbrakk> \<Longrightarrow> head_ok rxSar q"
  by (simp add: head_ok_def)


section \<open>From the parser to the state machine\<close>

lemma getAckNumb_rstEvent: "getAckNumb (extendedEvent_mk (rstEvent_nosession q) tuple) = q"
proof -
  have "range_set (range_set (0 :: u32) 31 16 (range_get q 31 16 :: win)) 15 0 (range_get q 15 0 :: u16) = q"
    by (rule bit_word_eqI) (auto simp: range_bits)
  then show ?thesis by (simp add: getAckNumb_def event_defs)
qed

lemma rst_event_fields:
  "ee_tuple (extendedEvent_mk (rstEvent_nosession q) tuple) = tuple"
  "hasSessionID (extendedEvent_mk (rstEvent_nosession q) tuple) = False"
  "ev_type (extendedEvent_mk (rstEvent_nosession q) tuple) = RST"
  by (simp_all add: event_defs hasSessionID_def)

text \<open>
  A segment for a closed port.  It is answered with one reset, unless it is a reset itself; the reset
  goes back along the reversed addresses and acknowledges exactly the sequence space of the segment, a SYN
  or FIN counting as one octet; the payload is dropped, the session lookup is not asked, and nothing
  reaches the state machine.
\<close>

theorem closed_port_answered_with_reset:
  assumes "mh_state s = META" and "mh_metaDataFifo s = m # ms" and "mh_portTable2rxEng_rsp s = False # ps"
    and "mh_tupleBuffer s = tuple # ts" and "t = rxMetadataHandler s"
  shows "(\<exists>es. mh_setEvent t = mh_setEvent s @ es \<and> length es = (if rem_rst m then 0 else 1)
      \<and> list_all (\<lambda>e. ev_type e = RST \<and> \<not> hasSessionID e \<and> ee_tuple e = switchedTuple tuple
          \<and> getAckNumb e = rem_seqNumb m + ucast (rem_length m) + of_bool (rem_syn m \<or> rem_fin m)) es)
    \<and> mh_dropDataFifo t = mh_dropDataFifo s @ (if rem_length m = 0 then [] else [True])
    \<and> mh_rxEng2sLookup_req t = mh_rxEng2sLookup_req s \<and> mh_fsmMetaDataFifo t = mh_fsmMetaDataFifo s \<and> mh_state t = META"
  using assms
  by (auto simp: rxMetadataHandler_def mh_closed_port_def Let_def getAckNumb_rstEvent rst_event_fields)

text \<open>
  A segment for an open port.  The session lookup is asked once, with the right to create a session exactly for a SYN
  without RST and FIN.  Its answer decides: with a session the segment goes to the state machine, otherwise
  it goes nowhere, and its payload, if there is any, gets exactly one decision that says the same.
\<close>

theorem open_port_looked_up:
  assumes "mh_state s = META" and "mh_metaDataFifo s = m # ms" and "mh_portTable2rxEng_rsp s = True # ps"
    and "mh_tupleBuffer s = tuple # ts" and "mh_sLookup2rxEng_rsp s = []"
    and "t = rxMetadataHandler s" and "u = rxMetadataHandler (t\<lparr> mh_sLookup2rxEng_rsp := [lup] \<rparr>)"
  shows "mh_rxEng2sLookup_req t = mh_rxEng2sLookup_req s @
      [\<lparr> slq_tuple = tuple, slq_allowCreation = (rem_syn m \<and> \<not> rem_rst m \<and> \<not> rem_fin m) \<rparr>]
    \<and> rxMetadataHandler t = t \<and> mh_state u = META \<and> mh_setEvent u = mh_setEvent s
    \<and> mh_dropDataFifo u = mh_dropDataFifo s @ (if rem_length m = 0 then [] else [\<not> slr_hit lup])
    \<and> (if slr_hit lup
       then \<exists>f. mh_fsmMetaDataFifo u = mh_fsmMetaDataFifo s @ [f] \<and> rfm_sessionID f = slr_sessionID lup \<and> rfm_meta f = m
       else mh_fsmMetaDataFifo u = mh_fsmMetaDataFifo s)"
  using assms by (auto simp: rxMetadataHandler_def Let_def)

section \<open>The payload path\<close>

definition pd_forward :: "'w \<times> bool \<Rightarrow> 'w dropper_st \<Rightarrow> 'w dropper_st" where
  "pd_forward w s = s\<lparr> pd_dataIn := tl (pd_dataIn s), tpf_state := (if snd w then READ_DROP1 else FWD),
     pd_rxBufferDataOut := pd_rxBufferDataOut s @ [w] \<rparr>"

definition pd_discard :: "'w \<times> bool \<Rightarrow> 'w dropper_st \<Rightarrow> 'w dropper_st" where
  "pd_discard w s = s\<lparr> pd_dataIn := tl (pd_dataIn s), tpf_state := (if snd w then READ_DROP1 else DROP) \<rparr>"

interpretation pd_fwd: packet_mover rxPackageDropper "\<lambda>s. tpf_state s = FWD" pd_dataIn pd_forward
  by unfold_locales (simp_all add: rxPackageDropper_def pd_forward_def)

interpretation pd_drp: packet_mover rxPackageDropper "\<lambda>s. tpf_state s = DROP" pd_dataIn pd_discard
  by unfold_locales (simp_all add: rxPackageDropper_def pd_discard_def)

lemma pd_forward_packet:
  "\<lbrakk> p \<noteq> []; pd_dataIn s = p @ rest \<rbrakk> \<Longrightarrow> fold pd_forward p s = s\<lparr> pd_dataIn := rest,
     tpf_state := (if snd (last p) then READ_DROP1 else FWD), pd_rxBufferDataOut := pd_rxBufferDataOut s @ p \<rparr>"
proof (induction p arbitrary: s)
  case (Cons w p)
  then show ?case using Cons.IH [of "pd_forward w s"] by (cases "p = []") (simp_all add: pd_forward_def)
qed simp

lemma pd_discard_packet:
  "\<lbrakk> p \<noteq> []; pd_dataIn s = p @ rest \<rbrakk> \<Longrightarrow> fold pd_discard p s = s\<lparr> pd_dataIn := rest,
     tpf_state := (if snd (last p) then READ_DROP1 else DROP) \<rparr>"
proof (induction p arbitrary: s)
  case (Cons w p)
  then show ?case using Cons.IH [of "pd_discard w s"] by (cases "p = []") (simp_all add: pd_discard_def)
qed simp

text \<open>The packets of the data stream with the decisions of the two stages; the second stage decides only what the first
  lets pass.\<close>

definition decisions2 :: "(bool \<times> bool \<times> ('w \<times> bool) list) list \<Rightarrow> bool list" where
  "decisions2 jobs = map (\<lambda>(_, d2, _). d2) (filter (\<lambda>(d1, _, _). \<not> d1) jobs)"

definition kept :: "(bool \<times> bool \<times> ('w \<times> bool) list) list \<Rightarrow> ('w \<times> bool) list" where
  "kept jobs = concat (map (\<lambda>(_, _, p). p) (filter (\<lambda>(d1, d2, _). \<not> d1 \<and> \<not> d2) jobs))"

lemma dropper_one:
  assumes "tpf_state s = READ_DROP1" and "is_packet p" and "pd_dataIn s = p @ rest"
    and "pd_dropFifoIn1 s = d1 # q1" and "pd_dropFifoIn2 s = (if d1 then q2 else d2 # q2)"
  shows "(rxPackageDropper ^^ (length p + (if d1 then 1 else 2))) s = s\<lparr> pd_dataIn := rest, pd_dropFifoIn1 := q1,
     pd_dropFifoIn2 := q2, pd_rxBufferDataOut := pd_rxBufferDataOut s @ (if d1 \<or> d2 then [] else p) \<rparr>"
proof -
  have p: "p \<noteq> []" "snd (last p)" using assms(2) by (simp_all add: is_packet_def)
  let ?t = "\<lambda>b. s\<lparr> pd_dropFifoIn1 := q1, pd_dropFifoIn2 := q2, tpf_state := b \<rparr>"
  have dropped: "(rxPackageDropper ^^ length p) (?t DROP) = ?t READ_DROP1 \<lparr> pd_dataIn := rest \<rparr>"
    using pd_drp.moves_packet [OF assms(2), of "?t DROP" rest] pd_discard_packet [OF p(1), of "?t DROP" rest] assms(3) p(2)
    by simp
  have forwarded: "(rxPackageDropper ^^ length p) (?t FWD) = ?t READ_DROP1 \<lparr> pd_dataIn := rest,
      pd_rxBufferDataOut := pd_rxBufferDataOut s @ p \<rparr>"
    using pd_fwd.moves_packet [OF assms(2), of "?t FWD" rest] pd_forward_packet [OF p(1), of "?t FWD" rest] assms(3) p(2)
    by simp
  show ?thesis
  proof (cases d1)
    case True
    then have "rxPackageDropper s = ?t DROP" using assms(1,4,5) by (simp add: rxPackageDropper_def)
    with True dropped assms(1) show ?thesis by (simp add: funpow_swap1)
  next
    case False
    then have "rxPackageDropper (rxPackageDropper s) = ?t (if d2 then DROP else FWD)"
      using assms(1,4,5) by (simp add: rxPackageDropper_def)
    with False dropped forwarded assms(1) show ?thesis by (cases d2) (simp_all add: funpow_swap1 numeral_2_eq_2)
  qed
qed

text \<open>
  (C22) The payload path keeps exactly what both stages keep.  For any sequence of packets with the decision of the
  first stage for each and the decision of the second stage for those the first lets pass, the module ends with the decisions and
  the packets used up and has written exactly the kept packets, whole and in order; it needs at most two
  invocations per packet and one per word.
\<close>

theorem dropper_keeps_accepted:
  assumes "tpf_state s = READ_DROP1" and "list_all (\<lambda>(_, _, p). is_packet p) jobs"
    and "pd_dataIn s = concat (map (\<lambda>(_, _, p). p) jobs) @ rest"
    and "pd_dropFifoIn1 s = map fst jobs @ q1" and "pd_dropFifoIn2 s = decisions2 jobs @ q2"
  shows "\<exists>n \<le> sum_list (map (\<lambda>(_, _, p). length p + 2) jobs). (rxPackageDropper ^^ n) s =
    s\<lparr> pd_dataIn := rest, pd_dropFifoIn1 := q1, pd_dropFifoIn2 := q2,
       pd_rxBufferDataOut := pd_rxBufferDataOut s @ kept jobs \<rparr>"
  using assms
proof (induction jobs arbitrary: s)
  case Nil
  then have "s\<lparr> pd_dataIn := rest, pd_dropFifoIn1 := q1, pd_dropFifoIn2 := q2,
       pd_rxBufferDataOut := pd_rxBufferDataOut s @ kept [] \<rparr> = s"
    by (simp add: kept_def decisions2_def)
  then show ?case by simp
next
  case (Cons job jobs)
  obtain d1 d2 p where job: "job = (d1, d2, p)" by (metis prod_cases3)
  let ?k = "length p + (if d1 then 1 else 2)"
  let ?u = "s\<lparr> pd_dataIn := concat (map (\<lambda>(_, _, p). p) jobs) @ rest, pd_dropFifoIn1 := map fst jobs @ q1,
      pd_dropFifoIn2 := decisions2 jobs @ q2, pd_rxBufferDataOut := pd_rxBufferDataOut s @ (if d1 \<or> d2 then [] else p) \<rparr>"
  have first: "(rxPackageDropper ^^ ?k) s = ?u"
    using Cons.prems by (intro dropper_one) (simp_all add: job decisions2_def)
  obtain n where n: "n \<le> sum_list (map (\<lambda>(_, _, p). length p + 2) jobs)"
    and run: "(rxPackageDropper ^^ n) ?u = ?u\<lparr> pd_dataIn := rest, pd_dropFifoIn1 := q1, pd_dropFifoIn2 := q2,
       pd_rxBufferDataOut := pd_rxBufferDataOut ?u @ kept jobs \<rparr>"
    using Cons.IH [of ?u] Cons.prems(1,2) by (auto simp: job)
  have "(rxPackageDropper ^^ (n + ?k)) s = (rxPackageDropper ^^ n) ?u"
    by (simp only: funpow_add [of n ?k] comp_apply first)
  with run have "(rxPackageDropper ^^ (n + ?k)) s = s\<lparr> pd_dataIn := rest, pd_dropFifoIn1 := q1, pd_dropFifoIn2 := q2,
       pd_rxBufferDataOut := pd_rxBufferDataOut s @ kept (job # jobs) \<rparr>"
    by (simp add: job kept_def)
  moreover have "n + ?k \<le> sum_list (map (\<lambda>(_, _, p). length p + 2) (job # jobs))" using n by (simp add: job)
  ultimately show ?case by blast
qed

section \<open>Concrete segments\<close>

definition seg_ex :: rxEngineMetaData where
  "seg_ex = \<lparr> rem_seqNumb = 1000, rem_ackNumb = 77, rem_winSize = 512, rem_winScale = 0, rem_length = 0, rem_ack = True,
     rem_rst = False, rem_syn = False, rem_fin = False, rem_dataOffset = 5 \<rparr>"

definition rxSar_ex :: rxSarEntry where
  "rxSar_ex = \<lparr> rse_recvd = 1000, rse_appd = 1000, rse_win_shift = 0, rse_head = 1000, rse_offset = 0, rse_gap = False \<rparr>"

definition txSar_ex :: rxTxSarReply where
  "txSar_ex = \<lparr> rtr_prevAck = 70, rtr_nextByte = 90, rtr_cong_window = 14600, rtr_slowstart_threshold = 65535,
     rtr_count = 0, rtr_fastRetransmitted = False \<rparr>"

definition fsm_ex :: "rxEngineMetaData \<Rightarrow> sessionState \<Rightarrow> rx_fsm_st" where
  "fsm_ex d st = \<lparr> fsm_state = TRANSITION,
     fsm_meta = \<lparr> rfm_sessionID = 3, rfm_srcIpAddress = 9, rfm_dstIpPort = 80, rfm_meta = d, rfm_srcIpPort = 5000 \<rparr>,
     fsm_txSarRequest = rem_ack d, rf_fsmMetaDataFifo = [], rf_stateTable2rxEng_upd_rsp = [st],
     rf_rxSar2rxEng_upd_rsp = [rxSar_ex], rf_txSar2rxEng_upd_rsp = [txSar_ex], rf_rxEng2stateTable_upd_req = [],
     rf_rxEng2rxSar_upd_req = [], rf_rxEng2txSar_upd_req = [], rf_clearRetransmitTimer = [], rf_clearProbeTimer = [],
     rf_setCloseTimer = [], rf_openConStatus = [], rf_setEvent = [], rf_dropDataFifo = [], rf_rxBufferWriteCmd = [],
     rf_rxApp_notification = [] \<rparr>"

lemmas seg_ex_defs = fsm_ex_def seg_ex_def rxSar_ex_def txSar_ex_def

lemma seg_loaded_ex: "seg_loaded (fsm_ex d st) (fsm_meta (fsm_ex d st)) st rxSar_ex txSar_ex"
  by (simp add: seg_loaded_def fsm_ex_def)

text \<open>
  Out-of-window data in the build with packet memory: the room is compared on the low 18 bits only, so a segment that
  starts one whole ring behind the next expected octet is taken for one that fits, and is written over the
  place of the octets expected next.
\<close>

lemma gap_test_ignores_high_bits:
  "ooo_new_gap (seg_ex\<lparr> rem_seqNumb := 1000 + 2 ^ 18, rem_length := 100 \<rparr>) rxSar_ex
   \<and> (range_get (1000 + 2 ^ 18 :: u32) 17 0 :: win) = range_get (rse_recvd rxSar_ex) 17 0"
  by (simp add: ooo_new_gap_def seg_ex_def rxSar_ex_def seg_end_def rx_free_space_def range_get_low)

text \<open>
  A repeated SYN with the highest sequence number is not recognised: the sum of the sequence number and 1 is not cut to 32 bits
  before the comparison, so the connection is reset instead of answered again.
\<close>

lemma repeated_syn_wrap_resets:
  "rem_seqNumb d = - 1 \<Longrightarrow> rse_recvd rxSar = rem_seqNumb d + 1 \<Longrightarrow> d = rfm_meta m \<Longrightarrow>
   rf_rxEng2stateTable_upd_req (fsm_syn m SYN_RECEIVED rxSar txSar s) =
     rf_rxEng2stateTable_upd_req s @ [stateQuery_write (rfm_sessionID m) CLOSED]"
  by (simp add: fsm_syn_state_req)

text \<open>
  With a gap, a segment at the next expected octet that reaches into the data behind the gap gets no decision at
  all: the payload path waits for one that belongs to a later segment.
\<close>

lemma overlapping_fill_undecided:
  assumes "rem_length (rfm_meta m) \<noteq> 0" and "rse_gap rxSar" and "rem_seqNumb (rfm_meta m) = rse_recvd rxSar"
    and "rse_recvd rxSar \<noteq> rse_head rxSar"
    and "unat (rem_seqNumb (rfm_meta m)) + unat (rem_length (rfm_meta m)) > unat (rse_offset rxSar)"
  shows "ack_payload_ooo m rxSar s = s"
  using assms by (simp add: ack_payload_ooo_def ooo_in_order_def ooo_new_gap_def ooo_after_head_def ooo_after_recvd_def Let_def)

theorem rx_segment_follows_tcp_witness:
  "\<exists>st'. rf_rxEng2stateTable_upd_req (rxTcpFSM default_config 0 1000 txSar_ex (fsm_ex (seg_ex\<lparr> rem_fin := True \<rparr>) ESTABLISHED))
      = [stateQuery_write 3 st']
    \<and> tcp_edge (seg_ex\<lparr> rem_fin := True \<rparr>) False True ESTABLISHED st'
    \<and> fsm_state (rxTcpFSM default_config 0 1000 txSar_ex (fsm_ex (seg_ex\<lparr> rem_fin := True \<rparr>) ESTABLISHED)) = LOAD"
  using rx_segment_follows_tcp [of "fsm_ex (seg_ex\<lparr> rem_fin := True \<rparr>) ESTABLISHED" ESTABLISHED "[]" rxSar_ex "[]"
      "seg_ex\<lparr> rem_fin := True \<rparr>" txSar_ex txSar_ex default_config 0 1000]
  by (simp add: seg_ex_defs fsm_ready_def fsm_txSar_def control_bits_def)

theorem rx_engine_lock_protocol_witness:
  "alternates None (rf_rxEng2stateTable_upd_req (rxTcpFSM default_config 0 1000 txSar_ex
      ((fsm_ex seg_ex ESTABLISHED)\<lparr> fsm_state := LOAD, fsm_txSarRequest := False,
        rf_fsmMetaDataFifo := [fsm_meta (fsm_ex seg_ex ESTABLISHED)] \<rparr>)) @ [stateQuery_write 3 CLOSED])"
proof -
  let ?s = "(fsm_ex seg_ex ESTABLISHED)\<lparr> fsm_state := LOAD, fsm_txSarRequest := False,
      rf_fsmMetaDataFifo := [fsm_meta (fsm_ex seg_ex ESTABLISHED)] \<rparr>"
  let ?t = "rxTcpFSM default_config 0 1000 txSar_ex ?s"
  have "reachable fsm_start (fsm_move default_config) ?s"
    by (rule reachable_init) (simp add: fsm_start_def fsm_ex_def)
  then have "reachable fsm_start (fsm_move default_config) ?t" by (rule reachable_step) (rule fsm_run)
  from rx_engine_lock_protocol [OF this] show ?thesis
    by (simp add: fsm_owed_def rxTcpFSM_def fsm_load_def fsm_ex_def)
qed

theorem ack_taken_iff_in_flight_witness:
  "\<exists>q. rf_rxEng2txSar_upd_req (rxTcpFSM default_config 0 1000 txSar_ex (fsm_ex seg_ex ESTABLISHED)) = [q] \<and> rtq_ackd q = 77"
  using ack_taken_iff_in_flight [OF seg_loaded_ex [of seg_ex ESTABLISHED] _ _ refl, of default_config 0 1000 txSar_ex]
  by (auto simp: seg_ex_defs control_bits_def synchronised_def wdist_def)

theorem dup_acks_retransmit_once_witness:
  "rf_setEvent (snd (same_ack_run default_config (fsm_meta (fsm_ex (seg_ex\<lparr> rem_ackNumb := 70 \<rparr>) ESTABLISHED)) ESTABLISHED rxSar_ex 7
     (txSar_ex, fsm_ex (seg_ex\<lparr> rem_ackNumb := 70 \<rparr>) ESTABLISHED))) = [event_mk RT 3]"
  using dup_acks_retransmit_once [of default_config ESTABLISHED "fsm_meta (fsm_ex (seg_ex\<lparr> rem_ackNumb := 70 \<rparr>) ESTABLISHED)"
      txSar_ex rxSar_ex 7 "fsm_ex (seg_ex\<lparr> rem_ackNumb := 70 \<rparr>) ESTABLISHED"]
  by (simp add: seg_ex_defs synchronised_def default_config_def)



definition mh_ex :: "bool \<Rightarrow> mh_st" where
  "mh_ex open = \<lparr> mh_state = META, mh_meta = seg_ex, mh_srcIpAddress = 0, mh_dstIpPort = 0, mh_srcIpPort = 0,
     mh_metaDataFifo = [seg_ex\<lparr> rem_syn := True, rem_length := 8 \<rparr>], mh_portTable2rxEng_rsp = [open],
     mh_tupleBuffer = [fourTuple_mk 1 2 3 4], mh_sLookup2rxEng_rsp = [], mh_rxEng2sLookup_req = [], mh_setEvent = [],
     mh_dropDataFifo = [], mh_fsmMetaDataFifo = [] \<rparr>"

theorem closed_port_answered_with_reset_witness:
  "\<exists>e. mh_setEvent (rxMetadataHandler (mh_ex False)) = [e] \<and> getAckNumb e = 1009"
  using closed_port_answered_with_reset [of "mh_ex False" "seg_ex\<lparr> rem_syn := True, rem_length := 8 \<rparr>" "[]" "[]"
      "fourTuple_mk 1 2 3 4" "[]", OF _ _ _ _ refl]
  by (auto simp: mh_ex_def seg_ex_def length_Suc_conv)

theorem open_port_looked_up_witness:
  "mh_dropDataFifo (rxMetadataHandler ((rxMetadataHandler (mh_ex True))\<lparr> mh_sLookup2rxEng_rsp :=
      [\<lparr> slr_sessionID = 6, slr_hit = False \<rparr>] \<rparr>)) = [True]"
  using open_port_looked_up [of "mh_ex True" "seg_ex\<lparr> rem_syn := True, rem_length := 8 \<rparr>" "[]" "[]"
      "fourTuple_mk 1 2 3 4" "[]", OF _ _ _ _ _ refl refl, of "\<lparr> slr_sessionID = 6, slr_hit = False \<rparr>"]
  by (simp add: mh_ex_def seg_ex_def)

definition pd_ex :: "string dropper_st" where
  "pd_ex = \<lparr> tpf_state = READ_DROP1, pd_dataIn = [(''a'', False), (''b'', True), (''c'', True)],
     pd_dropFifoIn1 = [False, True], pd_dropFifoIn2 = [False], pd_rxBufferDataOut = [] \<rparr>"

definition pd_jobs :: "(bool \<times> bool \<times> (string \<times> bool) list) list" where
  "pd_jobs = [(False, False, [(''a'', False), (''b'', True)]), (True, False, [(''c'', True)])]"

theorem dropper_keeps_accepted_witness:
  "\<exists>n \<le> 7. pd_rxBufferDataOut ((rxPackageDropper ^^ n) pd_ex) = [(''a'', False), (''b'', True)]"
proof -
  have jobs: "list_all (\<lambda>(_, _, p). is_packet p) pd_jobs" "pd_dataIn pd_ex = concat (map (\<lambda>(_, _, p). p) pd_jobs) @ []"
    "pd_dropFifoIn1 pd_ex = map fst pd_jobs @ []" "pd_dropFifoIn2 pd_ex = decisions2 pd_jobs @ []"
    "tpf_state pd_ex = READ_DROP1" "pd_rxBufferDataOut pd_ex = []" "sum_list (map (\<lambda>(_, _, p). length p + 2) pd_jobs) = 7"
    "kept pd_jobs = [(''a'', False), (''b'', True)]"
    by (simp_all add: pd_ex_def pd_jobs_def is_packet_def decisions2_def kept_def)
  from dropper_keeps_accepted [OF jobs(5,1-4)] obtain n where "n \<le> 7"
    and "(rxPackageDropper ^^ n) pd_ex = pd_ex\<lparr> pd_dataIn := [], pd_dropFifoIn1 := [], pd_dropFifoIn2 := [],
       pd_rxBufferDataOut := kept pd_jobs \<rparr>"
    unfolding jobs(6,7) by auto
  then show ?thesis by (intro exI [of _ n]) (simp add: jobs(8))
qed

end
