(* ===== verification/Rx_Stages.thy ===== *)
theory Rx_Stages
  imports Rx_Engine
begin

text \<open>
  Stages of the receive engine around the state machine (\<^verbatim>\<open>rx_engine/rx_engine.cpp\<close>): the parser of the TCP options
  (\<^verbatim>\<open>parse_optional_header_fields\<close>), which looks for the window scale of a SYN, \<^verbatim>\<open>merge_header_meta\<close>, which puts it
  into the metadata, and \<^verbatim>\<open>rxAppNotificationDelayer\<close>, which holds a notification back until its data is in memory.

  The lemmas show that the parser ends within 41 invocations or has met an option of length zero, on which it hangs,
  that every header gets its own window scale, that the buffer of held notifications does not overflow, and that the application is
  notified of exactly the data whose writes succeeded.
\<close>

section \<open>The option parser\<close>

type_synonym u320 = "320 word"

datatype poStateType = PO_IDLE | PO_PARSE

record option_parser_st =
  po_state :: poStateType
  po_dataOffset :: u4
  po_fields :: u320
  po_dataOffsetIn :: "u4 list"
  po_optionalHeaderFieldsIn :: "u320 list"
  po_windowScaleOut :: "u4 list"

definition optionKind :: "u320 \<Rightarrow> u8" where "optionKind f = range_get f 7 0"

definition optionLength :: "u320 \<Rightarrow> u8" where "optionLength f = range_get f 15 8"

text \<open>\<^verbatim>\<open>dataOffset -= optionLength; fields = (fields >> (optionLength*8))\<close> after every option.\<close>

definition po_skip :: "u8 \<Rightarrow> option_parser_st \<Rightarrow> option_parser_st" where
  "po_skip len s = s\<lparr> po_dataOffset := po_dataOffset s - ucast len, po_fields := drop_bit (unat len * 8) (po_fields s) \<rparr>"

definition po_done :: "u4 \<Rightarrow> option_parser_st \<Rightarrow> option_parser_st" where
  "po_done w s = s\<lparr> po_windowScaleOut := po_windowScaleOut s @ [w], po_state := PO_IDLE \<rparr>"

definition parse_optional_header_fields :: "option_parser_st \<Rightarrow> option_parser_st" where
  "parse_optional_header_fields s =
     (case po_state s of
        PO_IDLE \<Rightarrow>
          (case (po_dataOffsetIn s, po_optionalHeaderFieldsIn s) of
             (d # ds, f # fs) \<Rightarrow> s\<lparr> po_dataOffsetIn := ds, po_optionalHeaderFieldsIn := fs, po_dataOffset := d,
                                   po_fields := f, po_state := PO_PARSE \<rparr>
           | _ \<Rightarrow> s)
      | PO_PARSE \<Rightarrow>
          (let kind = optionKind (po_fields s); len = optionLength (po_fields s)
           in if kind = 0 then po_skip len (po_done 0 s)
              else if kind = 1 then po_skip 1 s
              else if kind = 3 then po_skip len (po_done (range_get (po_fields s) 19 16) s)
              else if unat (po_dataOffset s) = unat len then po_skip len (po_done 0 s)
              else po_skip len s))"

text \<open>A state in which the parser stays for ever: an option of length zero that is not the last.\<close>

definition po_hangs :: "option_parser_st \<Rightarrow> bool" where
  "po_hangs s \<longleftrightarrow> po_state s = PO_PARSE \<and> parse_optional_header_fields s = s"

definition po_finished :: "option_parser_st \<Rightarrow> option_parser_st \<Rightarrow> bool" where
  "po_finished s t \<longleftrightarrow> po_state t = PO_IDLE \<and> (\<exists>w. po_windowScaleOut t = po_windowScaleOut s @ [w])
     \<and> po_dataOffsetIn t = po_dataOffsetIn s \<and> po_optionalHeaderFieldsIn t = po_optionalHeaderFieldsIn s"

lemma po_finished_skip: "po_finished s t \<Longrightarrow> po_finished s (po_skip len t)"
  by (simp add: po_finished_def po_skip_def)

lemma po_finished_done: "po_finished s (po_done w s)"
  by (simp add: po_finished_def po_done_def)

lemma po_finished_skipped: "po_finished (po_skip len s) t \<Longrightarrow> po_finished s t"
  by (simp add: po_finished_def po_skip_def)

text \<open>What one invocation does to an option.\<close>

lemma parse_one:
  assumes "po_state s = PO_PARSE"
  obtains (finish) "po_finished s (parse_optional_header_fields s)"
    | (hang) "po_hangs s"
    | (skip) len where "len \<noteq> 0" "parse_optional_header_fields s = po_skip len s"
proof -
  let ?k = "optionKind (po_fields s)" and ?l = "optionLength (po_fields s)"
  consider (fin) "?k = 0 \<or> ?k = 3 \<or> (?k \<noteq> 1 \<and> unat (po_dataOffset s) = unat ?l)"
    | (nop) "?k = 1" | (zero) "?k \<notin> {0, 1, 3}" "unat (po_dataOffset s) \<noteq> unat ?l" "?l = 0"
    | (other) "?k \<notin> {0, 1, 3}" "unat (po_dataOffset s) \<noteq> unat ?l" "?l \<noteq> 0" by blast
  then show thesis
  proof cases
    case fin
    then have "po_finished s (parse_optional_header_fields s)"
      using assms by (auto simp: parse_optional_header_fields_def Let_def po_finished_skip po_finished_done)
    then show thesis by (rule finish)
  next
    case nop
    then show thesis using assms by (intro skip [of 1]) (simp_all add: parse_optional_header_fields_def Let_def)
  next
    case zero
    then have "po_hangs s"
      using assms by (simp add: po_hangs_def parse_optional_header_fields_def Let_def po_skip_def)
    then show thesis by (rule hang)
  next
    case other
    then show thesis using assms by (intro skip [of ?l]) (simp_all add: parse_optional_header_fields_def Let_def)
  qed
qed

lemma parse_run:
  assumes "po_state s = PO_PARSE" and "drop_bit (8 * k) (po_fields s) = 0"
  shows "(\<exists>n \<le> Suc k. po_finished s ((parse_optional_header_fields ^^ n) s))
    \<or> (\<exists>n \<le> k. po_hangs ((parse_optional_header_fields ^^ n) s))"
  using assms
proof (induction k arbitrary: s)
  case 0
  then have "optionKind (po_fields s) = 0" by (simp add: optionKind_def range_get_def)
  with 0 have "po_finished s (parse_optional_header_fields s)"
    by (simp add: parse_optional_header_fields_def Let_def po_finished_skip po_finished_done)
  then show ?case by (intro disjI1 exI [of _ 1]) simp
next
  case (Suc k)
  from Suc.prems(1) show ?case
  proof (cases rule: parse_one)
    case finish
    then show ?thesis by (intro disjI1 exI [of _ 1]) simp
  next
    case hang
    then show ?thesis by (intro disjI2 exI [of _ 0]) simp
  next
    case (skip len)
    let ?t = "po_skip len s"
    have "1 \<le> unat len" using skip(1) by (metis One_nat_def Suc_leI unat_gt_0)
    then have "8 * k + unat len * 8 = (unat len - 1) * 8 + 8 * Suc k" by (simp add: algebra_simps)
    moreover have "drop_bit (8 * k) (po_fields ?t) = drop_bit (8 * k + unat len * 8) (po_fields s)"
      by (simp add: po_skip_def drop_bit_drop_bit)
    ultimately have "drop_bit (8 * k) (po_fields ?t) = drop_bit ((unat len - 1) * 8) (drop_bit (8 * Suc k) (po_fields s))"
      by (simp only: drop_bit_drop_bit)
    then have "drop_bit (8 * k) (po_fields ?t) = 0" by (simp only: Suc.prems(2) drop_bit_of_0)
    moreover have "po_state ?t = PO_PARSE" using Suc.prems(1) by (simp add: po_skip_def)
    ultimately consider (fin) n where "n \<le> Suc k" "po_finished ?t ((parse_optional_header_fields ^^ n) ?t)"
      | (hang) n where "n \<le> k" "po_hangs ((parse_optional_header_fields ^^ n) ?t)"
      using Suc.IH [of ?t] by blast
    then show ?thesis
    proof cases
      case fin
      then show ?thesis
        using skip(2) by (intro disjI1 exI [of _ "Suc n"]) (simp add: funpow_swap1 po_finished_skipped)
    next
      case hang
      then show ?thesis using skip(2) by (intro disjI2 exI [of _ "Suc n"]) (simp add: funpow_swap1)
    qed
  qed
qed

text \<open>
  (C30) The option parser ends or hangs.  Whatever 40 octets of options it is given, the parser either is idle again after at
  most 41 invocations, having written exactly one window scale and touched no other header, or within 40 invocations it
  stands before an option of length zero, in a state that it never leaves.
\<close>

theorem option_parser_ends_or_hangs:
  assumes "po_state s = PO_PARSE"
  shows "(\<exists>n \<le> 41. po_finished s ((parse_optional_header_fields ^^ n) s))
    \<or> (\<exists>n \<le> 40. po_hangs ((parse_optional_header_fields ^^ n) s))"
proof -
  have "drop_bit 320 (po_fields s) = 0"
    by (rule bit_word_eqI) (auto simp: bit_simps dest: bit_imp_le_length)
  then show ?thesis using parse_run [OF assms, of 40] by simp
qed

lemma hangs_forever: "po_hangs s \<Longrightarrow> (parse_optional_header_fields ^^ n) s = s"
  by (induction n) (simp_all add: po_hangs_def)

text \<open>A SYN whose first option has kind 2 and length 0 stops the parser for good: no header behind it gets a window scale.\<close>

definition po_ex :: "u320 \<Rightarrow> u4 \<Rightarrow> option_parser_st" where
  "po_ex f d = \<lparr> po_state = PO_PARSE, po_dataOffset = d, po_fields = f, po_dataOffsetIn = [], po_optionalHeaderFieldsIn = [],
     po_windowScaleOut = [] \<rparr>"

lemma zero_length_option_hangs: "po_hangs (po_ex 0x0002 1)"
  by (simp add: po_hangs_def po_ex_def parse_optional_header_fields_def optionKind_def optionLength_def range_get_def
      po_skip_def Let_def)

text \<open>
  The offset counts words of 32 bits and the option length octets, but they are compared: with four words of options that begin with
  the maximum segment size (kind 2, length 4), the parser stops there and reports no scaling, although a window scale of 7
  follows.
\<close>

lemma window_scale_missed:
  "po_windowScaleOut (parse_optional_header_fields (po_ex 0x07030301b4050402 4)) = [0]
   \<and> po_windowScaleOut ((parse_optional_header_fields ^^ 3) (po_ex 0x07030301b4050402 5)) = [7]"
  by code_simp

section \<open>Merging the window scale into the metadata\<close>

record merge_meta_st =
  mm_state :: u1
  mm_meta :: rxEngineMetaData
  mm_winScaleFifo :: "u4 list"
  mm_headerMetaFifo :: "rxEngineMetaData list"
  mm_metaDataFifo :: "rxEngineMetaData list"

definition merge_header_meta :: "merge_meta_st \<Rightarrow> merge_meta_st" where
  "merge_header_meta s =
     (if mm_state s = 0
      then (case mm_headerMetaFifo s of
              [] \<Rightarrow> s
            | m # ms \<Rightarrow>
                if rem_syn m \<and> rem_dataOffset m > 5
                then s\<lparr> mm_headerMetaFifo := ms, mm_meta := m, mm_state := 1 \<rparr>
                else s\<lparr> mm_headerMetaFifo := ms, mm_meta := m\<lparr> rem_winScale := 0 \<rparr>,
                        mm_metaDataFifo := mm_metaDataFifo s @ [m\<lparr> rem_winScale := 0 \<rparr>] \<rparr>)
      else (case mm_winScaleFifo s of
              [] \<Rightarrow> s
            | w # ws \<Rightarrow>
                (let m = (mm_meta s)\<lparr> rem_winScale := w \<rparr>
                 in s\<lparr> mm_winScaleFifo := ws, mm_meta := m, mm_metaDataFifo := mm_metaDataFifo s @ [m], mm_state := 0 \<rparr>)))"

definition has_options :: "rxEngineMetaData \<Rightarrow> bool" where
  "has_options m \<longleftrightarrow> rem_syn m \<and> rem_dataOffset m > 5"

text \<open>
  Every header gets its own window scale.  For headers and the scales of those among them that are SYN segments with
  options, in order, at most two invocations per header send all headers on, in order, each with its own scale and the
  others with scale 0, and use up exactly these scales.
\<close>

theorem headers_get_own_scale:
  assumes "mm_state s = 0" and "mm_headerMetaFifo s = map fst jobs"
    and "mm_winScaleFifo s = map snd (filter (\<lambda>j. has_options (fst j)) jobs) @ rest"
  shows "\<exists>n \<le> 2 * length jobs. \<exists>t. t = (merge_header_meta ^^ n) s \<and> mm_state t = 0 \<and> mm_headerMetaFifo t = []
    \<and> mm_winScaleFifo t = rest \<and> mm_metaDataFifo t = mm_metaDataFifo s @
        map (\<lambda>(m, w). m\<lparr> rem_winScale := (if has_options m then w else 0) \<rparr>) jobs"
  using assms
proof (induction jobs arbitrary: s)
  case Nil
  then show ?case by simp
next
  case (Cons job jobs)
  obtain m w where job: "job = (m, w)" by fastforce
  define k :: nat where "k = (if has_options m then 2 else 1)"
  let ?u = "(merge_header_meta ^^ k) s"
  have u: "mm_state ?u = 0" "mm_headerMetaFifo ?u = map fst jobs"
    "mm_winScaleFifo ?u = map snd (filter (\<lambda>j. has_options (fst j)) jobs) @ rest"
    "mm_metaDataFifo ?u = mm_metaDataFifo s @ [m\<lparr> rem_winScale := (if has_options m then w else 0) \<rparr>]"
    using Cons.prems by (auto simp: job k_def merge_header_meta_def has_options_def Let_def numeral_2_eq_2)
  obtain n where n: "n \<le> 2 * length jobs" "mm_state ((merge_header_meta ^^ n) ?u) = 0"
    "mm_headerMetaFifo ((merge_header_meta ^^ n) ?u) = []" "mm_winScaleFifo ((merge_header_meta ^^ n) ?u) = rest"
    "mm_metaDataFifo ((merge_header_meta ^^ n) ?u) = mm_metaDataFifo ?u @
        map (\<lambda>(m, w). m\<lparr> rem_winScale := (if has_options m then w else 0) \<rparr>) jobs"
    using Cons.IH [OF u(1-3)] by blast
  have "(merge_header_meta ^^ (n + k)) s = (merge_header_meta ^^ n) ?u" by (simp only: funpow_add comp_apply)
  moreover have "n + k \<le> 2 * length (job # jobs)" using n(1) by (simp add: k_def)
  ultimately show ?case
    using n(2-) u(4) by (intro exI [of _ "n + k"]) (simp add: job)
qed

section \<open>Holding notifications back\<close>

record notif_delay_st =
  nd_doubleAccessFlag :: bool
  nd_fifoCount :: "5 word"
  nd_status1 :: mmStatus
  nd_status2 :: mmStatus
  nd_notification :: appNotification
  nd_notificationBuffer :: "appNotification list"
  nd_rxWriteStatusIn :: "mmStatus list"
  nd_internalNotificationFifoIn :: "appNotification list"
  nd_doubleAccess :: "bool list"
  nd_notificationOut :: "appNotification list"

definition nd_release :: "bool \<Rightarrow> notif_delay_st \<Rightarrow> notif_delay_st" where
  "nd_release okay s =
     (if okay \<and> an_length (nd_notification s) \<noteq> 0
      then s\<lparr> nd_fifoCount := nd_fifoCount s - 1, nd_notificationOut := nd_notificationOut s @ [nd_notification s] \<rparr>
      else s\<lparr> nd_fifoCount := nd_fifoCount s - 1 \<rparr>)"

definition nd_accept :: "notif_delay_st \<Rightarrow> notif_delay_st" where
  "nd_accept s =
     (case nd_internalNotificationFifoIn s of
        n # q \<Rightarrow>
          if nd_fifoCount s < 31
          then (let s1 = s\<lparr> nd_internalNotificationFifoIn := q, nd_notification := n \<rparr>
                in if an_closed n \<and> an_length n = 0
                   then s1\<lparr> nd_notificationOut := nd_notificationOut s @ [n] \<rparr>
                   else s1\<lparr> nd_notificationBuffer := nd_notificationBuffer s @ [n], nd_fifoCount := nd_fifoCount s + 1 \<rparr>)
          else s
      | [] \<Rightarrow> s)"

definition rxAppNotificationDelayer :: "notif_delay_st \<Rightarrow> notif_delay_st" where
  "rxAppNotificationDelayer s =
     (if nd_doubleAccessFlag s
      then (case nd_rxWriteStatusIn s of
              [] \<Rightarrow> s
            | st # q \<Rightarrow> (nd_release (ms_okay (nd_status1 s) \<and> ms_okay st) (s\<lparr> nd_rxWriteStatusIn := q, nd_status2 := st \<rparr>))
                         \<lparr> nd_doubleAccessFlag := False \<rparr>)
      else (case (nd_rxWriteStatusIn s, nd_notificationBuffer s, nd_doubleAccess s) of
              (st # q, n # ns, d # ds) \<Rightarrow>
                (let s1 = s\<lparr> nd_rxWriteStatusIn := q, nd_status1 := st, nd_notificationBuffer := ns, nd_notification := n,
                             nd_doubleAccess := ds, nd_doubleAccessFlag := d \<rparr>
                 in if d then s1 else nd_release (ms_okay st) s1)
            | _ \<Rightarrow> nd_accept s))"

text \<open>The count of what is held, including the notification whose second access is still under way.\<close>

definition nd_invar :: "notif_delay_st \<Rightarrow> bool" where
  "nd_invar s \<longleftrightarrow> unat (nd_fifoCount s) = length (nd_notificationBuffer s) + of_bool (nd_doubleAccessFlag s)"

definition nd_init :: "notif_delay_st \<Rightarrow> bool" where
  "nd_init s \<longleftrightarrow> \<not> nd_doubleAccessFlag s \<and> nd_fifoCount s = 0 \<and> nd_notificationBuffer s = []"

text \<open>The module and its surroundings: the data mover, the state machine and the writer add to its inputs, and the application
  reads its output, at any time.\<close>

inductive nd_step :: "notif_delay_st \<Rightarrow> notif_delay_st \<Rightarrow> bool" where
  nd_module: "nd_step s (rxAppNotificationDelayer s)"
| nd_environment: "nd_step s (s\<lparr> nd_rxWriteStatusIn := nd_rxWriteStatusIn s @ sts, nd_doubleAccess := nd_doubleAccess s @ ds,
     nd_internalNotificationFifoIn := nd_internalNotificationFifoIn s @ ns, nd_notificationOut := out \<rparr>)"

lemma nd_count_up:
  assumes "(c :: 5 word) < 31"
  shows "unat (c + 1) = Suc (unat c)"
  using assms by (simp add: word_less_nat_alt unat_word_ariths(1))

lemma nd_count_down:
  assumes "unat (c :: 5 word) = Suc k"
  shows "unat (c - 1) = k"
  using assms by (simp add: unat_sub word_le_nat_alt)

lemma nd_invar_module:
  assumes "nd_invar s"
  shows "nd_invar (rxAppNotificationDelayer s)"
proof (cases "nd_doubleAccessFlag s")
  case True
  then have "unat (nd_fifoCount s) = Suc (length (nd_notificationBuffer s))" using assms by (simp add: nd_invar_def)
  then show ?thesis
    using True assms nd_count_down [of "nd_fifoCount s"]
    by (auto simp: rxAppNotificationDelayer_def nd_invar_def nd_release_def split: list.split)
next
  case False
  have accept: "nd_invar (nd_accept s)"
    using assms False nd_count_up [of "nd_fifoCount s"]
    by (auto simp: nd_accept_def nd_invar_def Let_def split: list.split)
  show ?thesis
  proof (cases "nd_rxWriteStatusIn s = [] \<or> nd_notificationBuffer s = [] \<or> nd_doubleAccess s = []")
    case True
    then have "rxAppNotificationDelayer s = nd_accept s"
      using False by (auto simp: rxAppNotificationDelayer_def split: list.split)
    then show ?thesis using accept by simp
  next
    case work: False
    then show ?thesis
      using False assms nd_count_down [of "nd_fifoCount s"]
      by (auto simp: rxAppNotificationDelayer_def neq_Nil_conv nd_invar_def nd_release_def Let_def split: if_splits)
  qed
qed

interpretation nd: invariant_system nd_init nd_step nd_invar
proof
  show "nd_init s \<Longrightarrow> nd_invar s" for s by (simp add: nd_init_def nd_invar_def)
  show "nd_invar s \<Longrightarrow> nd_step s t \<Longrightarrow> nd_invar t" for s t
    by (erule nd_step.cases) (simp_all add: nd_invar_module, simp add: nd_invar_def)
qed

text \<open>
  The buffer of held notifications does not overflow.  In every reachable state, whatever arrives and in whatever order, the
  5-bit counter is the number of notifications held (with the one whose second access is under way), and the buffer of 32
  holds at most 31 of them.
\<close>

theorem held_notifications_bounded:
  assumes "reachable nd_init nd_step s"
  shows "unat (nd_fifoCount s) = length (nd_notificationBuffer s) + of_bool (nd_doubleAccessFlag s)
    \<and> length (nd_notificationBuffer s) \<le> 31"
proof -
  have "nd_invar s" using assms by (rule nd.invar_reachable)
  then show ?thesis using unsigned_less [of "nd_fifoCount s", where 'a = nat] by (simp add: nd_invar_def)
qed

text \<open>The statuses of the accesses of a notification: one, or two when the write was split.\<close>

type_synonym nd_job = "appNotification \<times> mmStatus \<times> mmStatus option"

definition nd_statuses :: "nd_job \<Rightarrow> mmStatus list" where
  "nd_statuses = (\<lambda>(_, st, st'). st # (case st' of None \<Rightarrow> [] | Some t \<Rightarrow> [t]))"

definition nd_good :: "nd_job \<Rightarrow> bool" where
  "nd_good j \<longleftrightarrow> list_all ms_okay (nd_statuses j) \<and> an_length (fst j) \<noteq> 0"

lemma nd_one:
  assumes "\<not> nd_doubleAccessFlag s" and "nd_notificationBuffer s = fst j # ns"
    and "nd_rxWriteStatusIn s = nd_statuses j @ q" and "nd_doubleAccess s = (snd (snd j) \<noteq> None) # ds"
    and "t = (rxAppNotificationDelayer ^^ length (nd_statuses j)) s"
  shows "\<not> nd_doubleAccessFlag t \<and> nd_notificationBuffer t = ns \<and> nd_rxWriteStatusIn t = q \<and> nd_doubleAccess t = ds
    \<and> nd_notificationOut t = nd_notificationOut s @ (if nd_good j then [fst j] else [])
    \<and> nd_internalNotificationFifoIn t = nd_internalNotificationFifoIn s"
proof -
  obtain n st st' where j: "j = (n, st, st')" by (metis prod_cases3)
  show ?thesis
  proof (cases st')
    case None
    then show ?thesis
      using assms by (auto simp: j rxAppNotificationDelayer_def nd_statuses_def nd_release_def nd_good_def Let_def)
  next
    case (Some st2)
    let ?u = "s\<lparr> nd_rxWriteStatusIn := st2 # q, nd_status1 := st, nd_notificationBuffer := ns, nd_notification := n,
        nd_doubleAccess := ds, nd_doubleAccessFlag := True \<rparr>"
    have "rxAppNotificationDelayer s = ?u"
      using assms(1-4) Some by (simp add: j rxAppNotificationDelayer_def nd_statuses_def Let_def)
    then have "t = rxAppNotificationDelayer ?u" using assms(5) Some by (simp add: j nd_statuses_def)
    then show ?thesis using Some by (auto simp: j rxAppNotificationDelayer_def nd_release_def nd_good_def nd_statuses_def)
  qed
qed

text \<open>
  (C31) The application is notified of data that is in memory.  For held notifications and the statuses of their writes, one or
  two each, as many invocations as there are statuses give the application exactly the notifications of data whose writes all
  succeeded, in order and each once, and leave nothing of these behind.
\<close>

theorem notified_when_in_memory:
  assumes "\<not> nd_doubleAccessFlag s" and "nd_notificationBuffer s = map fst jobs"
    and "nd_rxWriteStatusIn s = concat (map nd_statuses jobs) @ q"
    and "nd_doubleAccess s = map (\<lambda>(_, _, st'). st' \<noteq> None) jobs @ ds"
    and "t = (rxAppNotificationDelayer ^^ length (concat (map nd_statuses jobs))) s"
  shows "\<not> nd_doubleAccessFlag t \<and> nd_notificationBuffer t = [] \<and> nd_rxWriteStatusIn t = q \<and> nd_doubleAccess t = ds
    \<and> nd_notificationOut t = nd_notificationOut s @ map fst (filter nd_good jobs)"
  using assms
proof (induction jobs arbitrary: s)
  case Nil
  then show ?case by simp
next
  case (Cons j jobs)
  define u where "u = (rxAppNotificationDelayer ^^ length (nd_statuses j)) s"
  have "nd_doubleAccess s = (snd (snd j) \<noteq> None) # map (\<lambda>(_, _, st'). st' \<noteq> None) jobs @ ds"
    using Cons.prems(4) by (simp add: case_prod_unfold)
  then have u: "\<not> nd_doubleAccessFlag u" "nd_notificationBuffer u = map fst jobs"
    "nd_rxWriteStatusIn u = concat (map nd_statuses jobs) @ q" "nd_doubleAccess u = map (\<lambda>(_, _, st'). st' \<noteq> None) jobs @ ds"
    "nd_notificationOut u = nd_notificationOut s @ (if nd_good j then [fst j] else [])"
    using nd_one [OF Cons.prems(1) _ _ _ u_def] Cons.prems(2,3) by simp_all
  have "t = (rxAppNotificationDelayer ^^ length (concat (map nd_statuses jobs))) u"
    unfolding Cons.prems(5) u_def
    by (simp only: list.map concat.simps length_append add.commute [of "length (nd_statuses j)"] funpow_add comp_apply)
  then show ?case using Cons.IH [OF u(1-4)] u(5) by simp
qed

section \<open>Concrete runs\<close>

theorem option_parser_ends_or_hangs_witness:
  "(\<exists>n \<le> 41. po_finished (po_ex 0x07030301b4050402 5) ((parse_optional_header_fields ^^ n) (po_ex 0x07030301b4050402 5)))
    \<or> (\<exists>n \<le> 40. po_hangs ((parse_optional_header_fields ^^ n) (po_ex 0x07030301b4050402 5)))"
  using option_parser_ends_or_hangs [of "po_ex 0x07030301b4050402 5"] by (simp add: po_ex_def)

definition mm_ex :: merge_meta_st where
  "mm_ex = \<lparr> mm_state = 0, mm_meta = seg_ex, mm_winScaleFifo = [7],
     mm_headerMetaFifo = [seg_ex, seg_ex\<lparr> rem_syn := True, rem_dataOffset := 7 \<rparr>], mm_metaDataFifo = [] \<rparr>"

theorem headers_get_own_scale_witness:
  "\<exists>n \<le> 4. map rem_winScale (mm_metaDataFifo ((merge_header_meta ^^ n) mm_ex)) = [0, 7]"
proof -
  let ?jobs = "[(seg_ex, 0 :: u4), (seg_ex\<lparr> rem_syn := True, rem_dataOffset := 7 \<rparr>, 7)]"
  have opt: "\<not> has_options seg_ex" "has_options (seg_ex\<lparr> rem_syn := True, rem_dataOffset := 7 \<rparr>)"
    by (simp_all add: has_options_def seg_ex_def)
  have "\<exists>n \<le> 2 * length ?jobs. \<exists>t. t = (merge_header_meta ^^ n) mm_ex \<and> mm_state t = 0 \<and> mm_headerMetaFifo t = []
      \<and> mm_winScaleFifo t = [] \<and> mm_metaDataFifo t = mm_metaDataFifo mm_ex @
        map (\<lambda>(m, w). m\<lparr> rem_winScale := (if has_options m then w else 0) \<rparr>) ?jobs"
    by (intro headers_get_own_scale) (simp_all add: mm_ex_def opt)
  then show ?thesis by (auto simp: opt mm_ex_def)
qed

definition st_ok :: mmStatus where
  "st_ok = \<lparr> ms_tag = 0, ms_interr = False, ms_decerr = False, ms_slverr = False, ms_okay = True \<rparr>"

definition nd_ex :: notif_delay_st where
  "nd_ex = \<lparr> nd_doubleAccessFlag = False, nd_fifoCount = 2, nd_status1 = st_ok, nd_status2 = st_ok,
     nd_notification = appNotification_mk 0 0 0 0 False,
     nd_notificationBuffer = [appNotification_mk 3 20 9 80 False, appNotification_mk 4 30 9 80 False],
     nd_rxWriteStatusIn = [st_ok, st_ok, st_ok\<lparr> ms_okay := False \<rparr>], nd_internalNotificationFifoIn = [],
     nd_doubleAccess = [True, False], nd_notificationOut = [] \<rparr>"

theorem held_notifications_bounded_witness:
  "length (nd_notificationBuffer (rxAppNotificationDelayer (nd_ex\<lparr> nd_fifoCount := 0, nd_notificationBuffer := [],
     nd_internalNotificationFifoIn := [appNotification_mk 3 20 9 80 False] \<rparr>))) \<le> 31"
proof -
  let ?s = "nd_ex\<lparr> nd_fifoCount := 0, nd_notificationBuffer := [],
     nd_internalNotificationFifoIn := [appNotification_mk 3 20 9 80 False] \<rparr>"
  have "nd_init ?s" by (simp add: nd_init_def nd_ex_def)
  then have "reachable nd_init nd_step (rxAppNotificationDelayer ?s)"
    by (blast intro: reachable_init reachable_step nd_module)
  then show ?thesis using held_notifications_bounded by blast
qed

theorem notified_when_in_memory_witness:
  "nd_notificationOut ((rxAppNotificationDelayer ^^ 3) nd_ex) = [appNotification_mk 3 20 9 80 False]"
  using notified_when_in_memory [of nd_ex "[(appNotification_mk 3 20 9 80 False, st_ok, Some st_ok),
      (appNotification_mk 4 30 9 80 False, st_ok\<lparr> ms_okay := False \<rparr>, None)]" "[]" "[]", OF _ _ _ _ refl]
  by (simp add: nd_ex_def nd_statuses_def nd_good_def st_ok_def appNotification_mk_def numeral_3_eq_3)

end
