(* ===== verification/Rx_Sar_Table.thy ===== *)
theory Rx_Sar_Table
  imports Toe_Types
begin

text \<open>
  The receive segmentation-and-reassembly table (\<^verbatim>\<open>rx_sar_table/rx_sar_table.cpp\<close>).

  The state record holds the static table and the module's six streams.  One invocation of the
  module is \<open>rx_sar_table\<close>: the TX engine's reads go first, then the receive application interface,
  then the RX engine.  The lemmas show that the window offered to the peer never exceeds the free
  part of the ring, that a request touches its own session only, that every request is served within
  as many invocations as requests wait, and that a read returns what was last written.
\<close>

unbundle bit_operations_syntax

record rx_sar_st =
  rx_table :: "u16 \<Rightarrow> rxSarEntry"
  rs_rxEng2rxSar_upd_req :: "rxSarRecvd list"
  rs_rxApp2rxSar_upd_req :: "rxSarAppd list"
  rs_txEng2rxSar_req :: "u16 list"
  rs_rxSar2rxEng_upd_rsp :: "rxSarEntry list"
  rs_rxSar2rxApp_upd_rsp :: "rxSarAppd list"
  rs_rxSar2txEng_rsp :: "rxSarReply list"

section \<open>The module\<close>

definition rxSarReply_of :: "rxSarEntry \<Rightarrow> rxSarReply" where
  "rxSarReply_of entry =
     (let actualWindowSize = (rse_appd entry - (ucast (rse_recvd entry) :: win)) - 1
      in \<lparr> rsr_recvd = rse_recvd entry, rsr_win_shift = rse_win_shift entry,
           rsr_windowSize = ucast (drop_bit (unat (rse_win_shift entry)) actualWindowSize) \<rparr>)"

definition rxSar_update :: "rxSarRecvd \<Rightarrow> rxSarEntry \<Rightarrow> rxSarEntry" where
  "rxSar_update in_recvd e =
     (let e1 = e\<lparr> rse_recvd := rsv_recvd in_recvd, rse_head := rsv_head in_recvd,
                  rse_offset := rsv_offset in_recvd, rse_gap := rsv_gap in_recvd \<rparr>
      in if rsv_init in_recvd
         then e1\<lparr> rse_appd := ucast (rsv_recvd in_recvd), rse_win_shift := rsv_win_shift in_recvd \<rparr>
         else e1)"

definition rx_sar_table :: "rx_sar_st \<Rightarrow> rx_sar_st" where
  "rx_sar_table s =
     (case rs_txEng2rxSar_req s of
        addr # q \<Rightarrow>
          s\<lparr> rs_txEng2rxSar_req := q,
             rs_rxSar2txEng_rsp := rs_rxSar2txEng_rsp s @ [rxSarReply_of (rx_table s addr)] \<rparr>
      | [] \<Rightarrow>
     (case rs_rxApp2rxSar_upd_req s of
        in_appd # q \<Rightarrow>
          (if rsa_write in_appd
           then s\<lparr> rs_rxApp2rxSar_upd_req := q,
                   rx_table := (rx_table s)(rsa_sessionID in_appd :=
                     (rx_table s (rsa_sessionID in_appd))\<lparr> rse_appd := rsa_appd in_appd \<rparr>) \<rparr>
           else s\<lparr> rs_rxApp2rxSar_upd_req := q,
                   rs_rxSar2rxApp_upd_rsp := rs_rxSar2rxApp_upd_rsp s @
                     [rxSarAppd_write (rsa_sessionID in_appd)
                        (rse_appd (rx_table s (rsa_sessionID in_appd)))] \<rparr>)
      | [] \<Rightarrow>
     (case rs_rxEng2rxSar_upd_req s of
        in_recvd # q \<Rightarrow>
          (if rsv_write in_recvd
           then s\<lparr> rs_rxEng2rxSar_upd_req := q,
                   rx_table := (rx_table s)(rsv_sessionID in_recvd :=
                     rxSar_update in_recvd (rx_table s (rsv_sessionID in_recvd))) \<rparr>
           else s\<lparr> rs_rxEng2rxSar_upd_req := q,
                   rs_rxSar2rxEng_upd_rsp := rs_rxSar2rxEng_upd_rsp s @
                     [rx_table s (rsv_sessionID in_recvd)] \<rparr>)
      | [] \<Rightarrow> s)))"

section \<open>Interfaces\<close>

definition rx_sar_backlog :: "rx_sar_st \<Rightarrow> nat" where
  "rx_sar_backlog s = length (rs_txEng2rxSar_req s) + length (rs_rxApp2rxSar_upd_req s)
     + length (rs_rxEng2rxSar_upd_req s)"

definition rx_sar_target :: "rx_sar_st \<Rightarrow> u16 option" where
  "rx_sar_target s =
     (if rs_txEng2rxSar_req s \<noteq> [] then None
      else if rs_rxApp2rxSar_upd_req s \<noteq> []
      then Some (rsa_sessionID (hd (rs_rxApp2rxSar_upd_req s)))
      else if rs_rxEng2rxSar_upd_req s \<noteq> []
      then Some (rsv_sessionID (hd (rs_rxEng2rxSar_upd_req s)))
      else None)"

interpretation rx_sar_srv: stream_server rx_sar_table rx_sar_backlog
  by unfold_locales (auto simp: rx_sar_table_def rx_sar_backlog_def split: list.splits)

interpretation rx_sar_idx: session_indexed rx_sar_table rx_table rx_sar_target
  by unfold_locales
     (auto simp: rx_sar_table_def rx_sar_target_def split: list.splits if_splits)

text \<open>The number of replies each port has had and is still owed does not change.\<close>

lemma rx_sar_owed:
  "length (rs_rxSar2txEng_rsp (rx_sar_table s)) + length (rs_txEng2rxSar_req (rx_sar_table s)) =
     length (rs_rxSar2txEng_rsp s) + length (rs_txEng2rxSar_req s)"
  "length (rs_rxSar2rxApp_upd_rsp (rx_sar_table s))
     + length (filter (\<lambda>r. \<not> rsa_write r) (rs_rxApp2rxSar_upd_req (rx_sar_table s))) =
   length (rs_rxSar2rxApp_upd_rsp s)
     + length (filter (\<lambda>r. \<not> rsa_write r) (rs_rxApp2rxSar_upd_req s))"
  "length (rs_rxSar2rxEng_upd_rsp (rx_sar_table s))
     + length (filter (\<lambda>r. \<not> rsv_write r) (rs_rxEng2rxSar_upd_req (rx_sar_table s))) =
   length (rs_rxSar2rxEng_upd_rsp s)
     + length (filter (\<lambda>r. \<not> rsv_write r) (rs_rxEng2rxSar_upd_req s))"
  by (auto simp: rx_sar_table_def split: list.splits)

lemma rx_sar_owed_run:
  "length (rs_rxSar2txEng_rsp ((rx_sar_table ^^ n) s))
     + length (rs_txEng2rxSar_req ((rx_sar_table ^^ n) s)) =
     length (rs_rxSar2txEng_rsp s) + length (rs_txEng2rxSar_req s)"
  "length (rs_rxSar2rxApp_upd_rsp ((rx_sar_table ^^ n) s))
     + length (filter (\<lambda>r. \<not> rsa_write r) (rs_rxApp2rxSar_upd_req ((rx_sar_table ^^ n) s))) =
   length (rs_rxSar2rxApp_upd_rsp s)
     + length (filter (\<lambda>r. \<not> rsa_write r) (rs_rxApp2rxSar_upd_req s))"
  "length (rs_rxSar2rxEng_upd_rsp ((rx_sar_table ^^ n) s))
     + length (filter (\<lambda>r. \<not> rsv_write r) (rs_rxEng2rxSar_upd_req ((rx_sar_table ^^ n) s))) =
   length (rs_rxSar2rxEng_upd_rsp s)
     + length (filter (\<lambda>r. \<not> rsv_write r) (rs_rxEng2rxSar_upd_req s))"
  by (induction n) (simp_all add: rx_sar_owed)

section \<open>Properties\<close>

lemma advertised_le_free:
  "unat (rsr_windowSize (rxSarReply_of e)) * 2 ^ unat (rsr_win_shift (rxSarReply_of e))
     \<le> unat (rse_appd e - ucast (rse_recvd e) - 1)"
proof -
  let ?w = "rse_appd e - ucast (rse_recvd e) - 1" and ?k = "unat (rse_win_shift e)"
  have "unat (ucast (drop_bit ?k ?w) :: u16) * 2 ^ ?k \<le> unat (drop_bit ?k ?w) * 2 ^ ?k"
    by (intro mult_right_mono unat_ucast_le) simp
  also have "\<dots> \<le> unat ?w" by (rule unat_drop_bit_mult_le)
  finally show ?thesis by (simp add: rxSarReply_of_def)
qed

lemma rx_sar_table_txEng:
  "rs_txEng2rxSar_req s = i # q \<Longrightarrow>
   rx_sar_table s = s\<lparr> rs_txEng2rxSar_req := q,
     rs_rxSar2txEng_rsp := rs_rxSar2txEng_rsp s @ [rxSarReply_of (rx_table s i)] \<rparr>"
  by (simp add: rx_sar_table_def)

text \<open>
  (C23) The receive window offered to the peer.  When the TX engine asks for a session, the reply
  carries the session's \<^verbatim>\<open>recvd\<close> pointer and a window that, scaled back by \<^verbatim>\<open>win_shift\<close>, together
  with the octets that are received and not yet read by the application (from \<^verbatim>\<open>appd\<close> to \<^verbatim>\<open>recvd\<close>
  on the ring) stays below the ring size, for every position of the two pointers, wrap-around
  included: the peer is never invited to overrun the ring.
\<close>

theorem rx_window_fits_ring:
  assumes "rs_txEng2rxSar_req s = i # q"
  shows "\<exists>r. rs_rxSar2txEng_rsp (rx_sar_table s) = rs_rxSar2txEng_rsp s @ [r]
    \<and> rsr_recvd r = rse_recvd (rx_table s i)
    \<and> unat (rsr_windowSize r) * 2 ^ unat (rsr_win_shift r)
        + wdist (rse_appd (rx_table s i)) (ucast (rse_recvd (rx_table s i))) < BUFFER_SIZE"
proof (intro exI conjI)
  let ?e = "rx_table s i"
  show "rs_rxSar2txEng_rsp (rx_sar_table s) = rs_rxSar2txEng_rsp s @ [rxSarReply_of ?e]"
    by (simp add: rx_sar_table_txEng [OF assms])
  show "rsr_recvd (rxSarReply_of ?e) = rse_recvd ?e"
    by (simp add: rxSarReply_of_def)
  show "unat (rsr_windowSize (rxSarReply_of ?e)) * 2 ^ unat (rsr_win_shift (rxSarReply_of ?e))
        + wdist (rse_appd ?e) (ucast (rse_recvd ?e)) < BUFFER_SIZE"
    using advertised_le_free [of ?e] free_plus_used [of "rse_appd ?e" "ucast (rse_recvd ?e)"]
    by (simp add: BUFFER_SIZE_def)
qed

definition rx_sar_example :: rx_sar_st where
  "rx_sar_example = \<lparr>
     rx_table = (\<lambda>_. \<lparr> rse_recvd = 0x40010, rse_appd = 0x3fff0, rse_win_shift = 2, rse_head = 0x40010,
                        rse_offset = 0, rse_gap = False \<rparr>),
     rs_rxEng2rxSar_upd_req = [rxSarRecvd_init 7 100 100 0 False 2, rxSarRecvd_read 7],
     rs_rxApp2rxSar_upd_req = [rxSarAppd_write 5 9],
     rs_txEng2rxSar_req = [3],
     rs_rxSar2rxEng_upd_rsp = [], rs_rxSar2rxApp_upd_rsp = [], rs_rxSar2txEng_rsp = [] \<rparr>"

theorem rx_window_fits_ring_witness:
  "\<exists>r. rs_rxSar2txEng_rsp (rx_sar_table rx_sar_example) = [r] \<and> rsr_recvd r = 0x40010
    \<and> unat (rsr_windowSize r) * 4 + 32 < BUFFER_SIZE"
proof -
  have "rs_txEng2rxSar_req rx_sar_example = 3 # []" by (simp add: rx_sar_example_def)
  from rx_window_fits_ring [OF this] obtain r where
    "rs_rxSar2txEng_rsp (rx_sar_table rx_sar_example) = rs_rxSar2txEng_rsp rx_sar_example @ [r]"
    "rsr_recvd r = 0x40010"
    "unat (rsr_windowSize r) * 2 ^ unat (rsr_win_shift r) + wdist (0x3fff0 :: win) 0x40010 < BUFFER_SIZE"
    by (auto simp: rx_sar_example_def)
  moreover have "rsr_win_shift r = 2"
    using \<open>rs_rxSar2txEng_rsp (rx_sar_table rx_sar_example) = rs_rxSar2txEng_rsp rx_sar_example @ [r]\<close>
    by (auto simp: rx_sar_table_def rx_sar_example_def rxSarReply_of_def)
  ultimately show ?thesis by (simp add: wdist_def rx_sar_example_def)
qed

text \<open>
  The table serves everything.  After as many invocations as requests wait on the three input
  streams, no request waits any more, each read has had exactly one reply on its own port and no
  further invocation changes anything.
\<close>

theorem rx_sar_serves_all:
  assumes "n \<ge> rx_sar_backlog s" and "t = (rx_sar_table ^^ n) s"
  shows "rs_txEng2rxSar_req t = [] \<and> rs_rxApp2rxSar_upd_req t = [] \<and> rs_rxEng2rxSar_upd_req t = []
    \<and> length (rs_rxSar2txEng_rsp t) = length (rs_rxSar2txEng_rsp s) + length (rs_txEng2rxSar_req s)
    \<and> length (rs_rxSar2rxApp_upd_rsp t) =
        length (rs_rxSar2rxApp_upd_rsp s) + length (filter (\<lambda>r. \<not> rsa_write r) (rs_rxApp2rxSar_upd_req s))
    \<and> length (rs_rxSar2rxEng_upd_rsp t) =
        length (rs_rxSar2rxEng_upd_rsp s) + length (filter (\<lambda>r. \<not> rsv_write r) (rs_rxEng2rxSar_upd_req s))
    \<and> rx_sar_table t = t"
proof -
  have "rx_sar_backlog t = 0"
    using rx_sar_srv.drained assms by simp
  then have "rs_txEng2rxSar_req t = [] \<and> rs_rxApp2rxSar_upd_req t = [] \<and> rs_rxEng2rxSar_upd_req t = []"
    and "rx_sar_table t = t"
    by (simp_all add: rx_sar_backlog_def rx_sar_srv.idle)
  with rx_sar_owed_run [of n s] show ?thesis
    unfolding assms(2) by simp
qed

theorem rx_sar_serves_all_witness:
  "rs_txEng2rxSar_req ((rx_sar_table ^^ 4) rx_sar_example) = []
   \<and> length (rs_rxSar2rxEng_upd_rsp ((rx_sar_table ^^ 4) rx_sar_example)) = 1"
  using rx_sar_serves_all [of rx_sar_example 4, OF _ refl]
  by (simp add: rx_sar_backlog_def rx_sar_example_def rxSarRecvd_init_def rxSarRecvd_read_def)

text \<open>
  Connection set-up.  When the RX engine initialises a session and no other client has a request
  waiting, the next read of the session returns exactly the initialised entry, with \<^verbatim>\<open>appd\<close> at the
  first expected octet (so the whole ring is free), and no other session has changed.
\<close>

theorem rx_sar_init_read:
  assumes "rs_txEng2rxSar_req s = []" and "rs_rxApp2rxSar_upd_req s = []"
    and "rs_rxEng2rxSar_upd_req s = [rxSarRecvd_init i recvd head off g sh, rxSarRecvd_read i]"
  shows "rs_rxSar2rxEng_upd_rsp ((rx_sar_table ^^ 2) s) = rs_rxSar2rxEng_upd_rsp s @
      [\<lparr> rse_recvd = recvd, rse_appd = ucast recvd, rse_win_shift = sh, rse_head = head,
         rse_offset = off, rse_gap = g \<rparr>]
    \<and> (\<forall>j. j \<noteq> i \<longrightarrow> rx_table ((rx_sar_table ^^ 2) s) j = rx_table s j)"
  using assms
  by (simp add: rx_sar_table_def rxSar_update_def rxSarRecvd_init_def rxSarRecvd_read_def numeral_2_eq_2)

theorem rx_sar_init_read_witness:
  "rs_rxSar2rxEng_upd_rsp ((rx_sar_table ^^ 2) (rx_sar_example\<lparr> rs_txEng2rxSar_req := [],
       rs_rxApp2rxSar_upd_req := [] \<rparr>)) =
     [\<lparr> rse_recvd = 100, rse_appd = 100, rse_win_shift = 2, rse_head = 100, rse_offset = 0,
        rse_gap = False \<rparr>]"
  using rx_sar_init_read [of "rx_sar_example\<lparr> rs_txEng2rxSar_req := [], rs_rxApp2rxSar_upd_req := [] \<rparr>"
      7 100 100 0 False 2]
  by (simp add: rx_sar_example_def)

end
