(* ===== verification/Rx_App.thy ===== *)
theory Rx_App
  imports Rx_Sar_Table
begin

text \<open>
  The receive application interface: listening ports (\<^verbatim>\<open>rx_app_if\<close>), read requests
  (\<^verbatim>\<open>rx_app_stream_if\<close>) and, from \<^verbatim>\<open>toe.cpp\<close>, the forwarding of the data
  (\<^verbatim>\<open>rxAppMemDataRead\<close>, with RX\_DDR\_BYPASS) and the splitting of memory reads
  (\<^verbatim>\<open>rxAppMemAccessBreakdown\<close>, without it).

  The lemmas show what a read request does to the ring of the session, that listen requests are
  answered one by one in order, that exactly one packet is forwarded per read command, and where the
  split of memory reads is right.
\<close>

section \<open>Read requests\<close>

record rx_app_stream_st =
  rasi_readLength :: u16
  rasi_fsmState :: u1
  ras_appRxDataReq :: "appReadRequest list"
  ras_rxSar2rxApp_upd_rsp :: "rxSarAppd list"
  ras_appRxDataRspMetadata :: "u16 list"
  ras_rxApp2rxSar_upd_req :: "rxSarAppd list"
  ras_rxBufferReadCmd :: "mmCmd list"

text \<open>The read command carries an address only without RX\_DDR\_BYPASS; with it the command is a token,
  modelled by an empty command.\<close>

definition rx_app_stream_if :: "toe_config \<Rightarrow> rx_app_stream_st \<Rightarrow> rx_app_stream_st" where
  "rx_app_stream_if cfg s =
     (if rasi_fsmState s = 0 then
        (case ras_appRxDataReq s of
           req # q \<Rightarrow>
             (let s1 = s\<lparr> ras_appRxDataReq := q \<rparr>
              in if arr_length req \<noteq> 0
                 then s1\<lparr> ras_rxApp2rxSar_upd_req := ras_rxApp2rxSar_upd_req s @ [rxSarAppd_read (arr_sessionID req)],
                          rasi_readLength := arr_length req, rasi_fsmState := 1 \<rparr>
                 else s1)
         | [] \<Rightarrow> s)
      else
        (case ras_rxSar2rxApp_upd_rsp s of
           rxSar # q \<Rightarrow>
             s\<lparr> ras_rxSar2rxApp_upd_rsp := q,
                ras_appRxDataRspMetadata := ras_appRxDataRspMetadata s @ [rsa_sessionID rxSar],
                ras_rxBufferReadCmd := ras_rxBufferReadCmd s @
                  [if RX_DDR_BYPASS cfg then mmCmd_mk 0 0
                   else mmCmd_mk (pkgAddr (rsa_sessionID rxSar) (rsa_appd rxSar)) (rasi_readLength s)],
                ras_rxApp2rxSar_upd_req := ras_rxApp2rxSar_upd_req s @
                  [rxSarAppd_write (rsa_sessionID rxSar) (rsa_appd rxSar + ucast (rasi_readLength s))],
                rasi_fsmState := 0 \<rparr>
         | [] \<Rightarrow> s))"

section \<open>Listening\<close>

record rx_app_if_st =
  rai_wait :: bool
  rai_appListenPortReq :: "u16 list"
  rai_portTable2rxApp_listen_rsp :: "bool list"
  rai_appListenPortRsp :: "bool list"
  rai_rxApp2portTable_listen_req :: "u16 list"

definition rx_app_if :: "rx_app_if_st \<Rightarrow> rx_app_if_st" where
  "rx_app_if s =
     (if rai_appListenPortReq s \<noteq> [] \<and> \<not> rai_wait s
      then s\<lparr> rai_rxApp2portTable_listen_req := rai_rxApp2portTable_listen_req s @ [hd (rai_appListenPortReq s)],
              rai_appListenPortReq := tl (rai_appListenPortReq s), rai_wait := True \<rparr>
      else if rai_portTable2rxApp_listen_rsp s \<noteq> [] \<and> rai_wait s
      then s\<lparr> rai_appListenPortRsp := rai_appListenPortRsp s @ [hd (rai_portTable2rxApp_listen_rsp s)],
              rai_portTable2rxApp_listen_rsp := tl (rai_portTable2rxApp_listen_rsp s), rai_wait := False \<rparr>
      else s)"

section \<open>Memory access\<close>

record breakdown_st =
  rxAppBreakdown :: bool
  rxAppTempCmd :: mmCmd
  rxAppAccLength :: u16
  bd_inputMemAccess :: "mmCmd list"
  bd_outputMemAccess :: "mmCmd list"
  bd_rxAppDoubleAccess :: "bool list"

definition rxAppMemAccessBreakdown :: "breakdown_st \<Rightarrow> breakdown_st" where
  "rxAppMemAccessBreakdown s =
     (if \<not> rxAppBreakdown s then
        (case bd_inputMemAccess s of
           cmd # q \<Rightarrow>
             (let s1 = s\<lparr> bd_inputMemAccess := q, rxAppTempCmd := cmd \<rparr>;
                  s2 = (if unat (range_get (mc_saddr cmd) 15 0 :: u16) + unat (mc_bbt cmd) > 65536
                        then s1\<lparr> rxAppAccLength := ucast (65536 - mc_saddr cmd),
                                 bd_outputMemAccess := bd_outputMemAccess s @
                                   [mmCmd_mk (mc_saddr cmd) (ucast (65536 - mc_saddr cmd))],
                                 rxAppBreakdown := True \<rparr>
                        else s1\<lparr> bd_outputMemAccess := bd_outputMemAccess s @ [cmd] \<rparr>)
              in s2\<lparr> bd_rxAppDoubleAccess := bd_rxAppDoubleAccess s2 @ [rxAppBreakdown s2] \<rparr>)
         | [] \<Rightarrow> s)
      else
        (let cmd = (rxAppTempCmd s)\<lparr> mc_saddr := range_set (mc_saddr (rxAppTempCmd s)) 15 0 (0 :: u16) \<rparr>;
             len = ucast (mc_bbt (rxAppTempCmd s)) - rxAppAccLength s
         in s\<lparr> rxAppTempCmd := cmd, rxAppAccLength := len,
               bd_outputMemAccess := bd_outputMemAccess s @ [mmCmd_mk (mc_saddr cmd) len],
               rxAppBreakdown := False \<rparr>))"

text \<open>The data path with RX\_DDR\_BYPASS: one packet per read command.  A data word is its content with
  the flag that marks the last word of a packet.\<close>

record 'w data_read_st =
  ramdr_fsmState :: u1
  dr_rxBufferReadCmd :: "u1 list"
  dr_rxBufferReadData :: "('w \<times> bool) list"
  dr_rxDataRsp :: "('w \<times> bool) list"

definition rxAppMemDataRead :: "'w data_read_st \<Rightarrow> 'w data_read_st" where
  "rxAppMemDataRead s =
     (if ramdr_fsmState s = 0 then
        (case dr_rxBufferReadCmd s of
           _ # q \<Rightarrow> s\<lparr> dr_rxBufferReadCmd := q, ramdr_fsmState := 1 \<rparr>
         | [] \<Rightarrow> s)
      else
        (case dr_rxBufferReadData s of
           w # q \<Rightarrow> s\<lparr> dr_rxBufferReadData := q, dr_rxDataRsp := dr_rxDataRsp s @ [w],
             ramdr_fsmState := (if snd w then 0 else 1) \<rparr>
         | [] \<Rightarrow> s))"

section \<open>What a read does to the ring\<close>

lemma read_frees:
  fixes appd recvd :: win
  assumes "unat (len :: u16) \<le> wdist appd recvd"
  shows "wdist (appd + ucast len) recvd = wdist appd recvd - unat len"
proof -
  have len: "unat (ucast len :: win) = unat len" by (simp add: unat_ucast_up)
  have eq: "recvd - (appd + ucast len) = (recvd - appd) - ucast len" by simp
  have le: "ucast len \<le> recvd - appd" using assms len by (simp add: wdist_def word_le_nat_alt)
  show ?thesis unfolding wdist_def by (simp only: eq unat_sub [OF le] len)
qed

text \<open>
  A read of the application frees what was read, and nothing else.  A request for a length other
  than 0 first asks for the read pointer; with the reply, one metadata word, one memory command and one
  pointer update are sent, and when the receive SAR table has applied the update, the session's unread
  octets have become fewer by exactly the length read (which the application must not choose larger
  than what is there), with the position of the next expected octet and all other sessions unchanged.
\<close>

theorem app_read_frees:
  assumes "rasi_fsmState s = 0" and "ras_appRxDataReq s = [\<lparr> arr_sessionID = i, arr_length = len \<rparr>]"
    and "len \<noteq> 0" and "ras_rxSar2rxApp_upd_rsp s = [rxSarAppd_write i (rse_appd (rx_table r i))]"
    and "rs_txEng2rxSar_req r = []"
    and "rs_rxApp2rxSar_upd_req r = [last (ras_rxApp2rxSar_upd_req ((rx_app_stream_if cfg ^^ 2) s))]"
    and "unat len \<le> wdist (rse_appd (rx_table r i)) (ucast (rse_recvd (rx_table r i)))"
    and "t = (rx_app_stream_if cfg ^^ 2) s"
  shows "ras_appRxDataRspMetadata t = ras_appRxDataRspMetadata s @ [i]
    \<and> length (ras_rxBufferReadCmd t) = length (ras_rxBufferReadCmd s) + 1
    \<and> ras_rxApp2rxSar_upd_req t = ras_rxApp2rxSar_upd_req s @ [rxSarAppd_read i,
        rxSarAppd_write i (rse_appd (rx_table r i) + ucast len)]
    \<and> wdist (rse_appd (rx_table (rx_sar_table r) i)) (ucast (rse_recvd (rx_table (rx_sar_table r) i)))
        = wdist (rse_appd (rx_table r i)) (ucast (rse_recvd (rx_table r i))) - unat len
    \<and> rse_recvd (rx_table (rx_sar_table r) i) = rse_recvd (rx_table r i)
    \<and> (\<forall>j. j \<noteq> i \<longrightarrow> rx_table (rx_sar_table r) j = rx_table r j)"
proof -
  have reqs: "ras_rxApp2rxSar_upd_req t = ras_rxApp2rxSar_upd_req s @ [rxSarAppd_read i,
        rxSarAppd_write i (rse_appd (rx_table r i) + ucast len)]"
    and rest: "ras_appRxDataRspMetadata t = ras_appRxDataRspMetadata s @ [i]"
      "length (ras_rxBufferReadCmd t) = length (ras_rxBufferReadCmd s) + 1"
    using assms(1-4,8) by (simp_all add: numeral_2_eq_2 rx_app_stream_if_def Let_def rxSarAppd_write_def)
  have "rs_rxApp2rxSar_upd_req r = [rxSarAppd_write i (rse_appd (rx_table r i) + ucast len)]"
    using assms(6) reqs by (simp flip: assms(8))
  then have "rx_table (rx_sar_table r) = (rx_table r)(i := (rx_table r i)\<lparr>
      rse_appd := rse_appd (rx_table r i) + ucast len \<rparr>)"
    using assms(5) by (simp add: rx_sar_table_def rxSarAppd_write_def)
  with reqs rest read_frees [OF assms(7)] show ?thesis by simp
qed

text \<open>
  The length of a read request is not checked against the received data.  The documentation of the
  module says that it checks whether a read request is valid; the code refuses the length 0 only.  A
  request for more than the unread octets moves the read pointer past the next expected octet.
\<close>

theorem app_overread_accepted:
  fixes appd recvd :: win
  assumes "rasi_fsmState s = 1" and "ras_rxSar2rxApp_upd_rsp s = [rxSarAppd_write i appd]"
    and "wdist appd recvd < unat (rasi_readLength s)"
  shows "\<exists>p. ras_rxApp2rxSar_upd_req (rx_app_stream_if cfg s) = ras_rxApp2rxSar_upd_req s @ [rxSarAppd_write i p]
    \<and> wdist recvd p = unat (rasi_readLength s) - wdist appd recvd"
proof -
  have len: "unat (ucast (rasi_readLength s) :: win) = unat (rasi_readLength s)" by (simp add: unat_ucast_up)
  have eq: "(appd + ucast (rasi_readLength s)) - recvd = ucast (rasi_readLength s) - (recvd - appd)" by simp
  have le: "recvd - appd \<le> ucast (rasi_readLength s)"
    using assms(3) len by (simp add: wdist_def word_le_nat_alt)
  have "wdist recvd (appd + ucast (rasi_readLength s)) = unat (rasi_readLength s) - wdist appd recvd"
    unfolding wdist_def by (simp only: eq unat_sub [OF le] len)
  then show ?thesis using assms(1,2) by (simp add: rx_app_stream_if_def rxSarAppd_write_def)
qed

section \<open>Listen requests\<close>

text \<open>
  Listen requests are answered in order, one at a time.  Over any number of invocations the requests
  passed on to the port table and those still waiting are the application's requests in order, and the
  answers given to the application are the first answers of the port table; a request is passed on only
  after the answer to the one before has been delivered.
\<close>

theorem listen_requests_in_order:
  assumes "\<not> rai_wait s" and "rai_rxApp2portTable_listen_req s = []" and "rai_appListenPortRsp s = []"
    and "t = (rx_app_if ^^ n) s"
  shows "rai_rxApp2portTable_listen_req t @ rai_appListenPortReq t = rai_appListenPortReq s
    \<and> rai_appListenPortRsp t @ rai_portTable2rxApp_listen_rsp t = rai_portTable2rxApp_listen_rsp s
    \<and> length (rai_rxApp2portTable_listen_req t) = length (rai_appListenPortRsp t) + of_bool (rai_wait t)"
  unfolding assms(4)
proof (induction n)
  case 0
  show ?case using assms(1-3) by simp
next
  case (Suc n)
  let ?u = "(rx_app_if ^^ n) s"
  show ?case
    using Suc by (auto simp: rx_app_if_def neq_Nil_conv)
qed

section \<open>Data and memory access\<close>

definition dr_absorb :: "'w \<times> bool \<Rightarrow> 'w data_read_st \<Rightarrow> 'w data_read_st" where
  "dr_absorb w s = s\<lparr> dr_rxBufferReadData := tl (dr_rxBufferReadData s), dr_rxDataRsp := dr_rxDataRsp s @ [w],
     ramdr_fsmState := (if snd w then 0 else 1) \<rparr>"

interpretation dr: packet_mover rxAppMemDataRead "\<lambda>s. ramdr_fsmState s = 1" dr_rxBufferReadData dr_absorb
  by unfold_locales (simp_all add: rxAppMemDataRead_def dr_absorb_def)

lemma dr_absorb_packet:
  "\<lbrakk> p \<noteq> []; dr_rxBufferReadData s = p @ rest \<rbrakk> \<Longrightarrow>
   fold dr_absorb p s = s\<lparr> dr_rxBufferReadData := rest, dr_rxDataRsp := dr_rxDataRsp s @ p,
     ramdr_fsmState := (if snd (last p) then 0 else 1) \<rparr>"
proof (induction p arbitrary: s)
  case (Cons w p)
  then show ?case using Cons.IH [of "dr_absorb w s"] by (cases "p = []") (simp_all add: dr_absorb_def)
qed simp

text \<open>
  One packet is forwarded per read command.  With a read command and the packet's words waiting, as
  many invocations as the packet has words, and one, forward exactly the words of this packet in order,
  leave the words behind it in place and wait for the next command.
\<close>

theorem packet_per_command:
  assumes "ramdr_fsmState s = 0" and "dr_rxBufferReadCmd s = c # cs" and "dr_rxBufferReadData s = p @ rest"
    and "is_packet p"
  shows "(rxAppMemDataRead ^^ Suc (length p)) s = s\<lparr> dr_rxBufferReadCmd := cs, dr_rxBufferReadData := rest,
     dr_rxDataRsp := dr_rxDataRsp s @ p \<rparr>"
proof -
  let ?t = "s\<lparr> dr_rxBufferReadCmd := cs, ramdr_fsmState := 1 \<rparr>"
  have "rxAppMemDataRead s = ?t" using assms(1,2) by (simp add: rxAppMemDataRead_def)
  moreover have "(rxAppMemDataRead ^^ length p) ?t = fold dr_absorb p ?t"
    using dr.moves_packet [OF assms(4), of ?t rest] assms(3) by simp
  moreover have "fold dr_absorb p ?t = ?t\<lparr> dr_rxBufferReadData := rest,
      dr_rxDataRsp := dr_rxDataRsp s @ p, ramdr_fsmState := 0 \<rparr>"
    using dr_absorb_packet [of p ?t rest] assms(3,4) by (simp add: is_packet_def)
  ultimately show ?thesis using assms(1) by (simp add: funpow_swap1)
qed

text \<open>The ring position a memory command points to.\<close>

definition ring_pos :: "mmCmd \<Rightarrow> win" where
  "ring_pos c = range_get (mc_saddr c) 17 0"

lemma ring_pos_pkgAddr: "ring_pos (mmCmd_mk (pkgAddr i pt) len) = pt"
  by (rule bit_word_eqI) (simp add: ring_pos_def mmCmd_mk_def pkgAddr_def range_bits)

lemma ring_pos_cleared:
  "ring_pos (mmCmd_mk (range_set (pkgAddr i pt) 15 0 (0 :: u16)) len) = pt AND NOT (mask 16)"
  by (rule bit_word_eqI) (auto simp: ring_pos_def mmCmd_mk_def pkgAddr_def range_bits bit_simps)

text \<open>
  The split of memory reads does not know the scaled ring.  Without RX\_DDR\_BYPASS, a read that
  crosses a multiple of 64 KiB inside the ring of 256 KiB is split as if the ring ended there: the
  second command points at or before the start of the first one instead of to the octets that follow.
\<close>

theorem breakdown_goes_backwards:
  assumes "\<not> rxAppBreakdown s" and "bd_inputMemAccess s = [mmCmd_mk (pkgAddr i pt) len]"
    and "unat (range_get (mc_saddr (mmCmd_mk (pkgAddr i pt) len)) 15 0 :: u16) + unat len > 65536"
  shows "\<exists>c1 c2. bd_outputMemAccess ((rxAppMemAccessBreakdown ^^ 2) s) = bd_outputMemAccess s @ [c1, c2]
    \<and> ring_pos c1 = pt \<and> ring_pos c2 \<le> pt"
proof -
  let ?c = "mmCmd_mk (pkgAddr i pt) len"
  have bbt: "unat (mc_bbt ?c) = unat len" by (simp add: mmCmd_mk_def unat_ucast_up)
  let ?t = "s\<lparr> bd_inputMemAccess := [], rxAppTempCmd := ?c, rxAppAccLength := ucast (65536 - mc_saddr ?c),
      bd_outputMemAccess := bd_outputMemAccess s @ [mmCmd_mk (mc_saddr ?c) (ucast (65536 - mc_saddr ?c))],
      rxAppBreakdown := True, bd_rxAppDoubleAccess := bd_rxAppDoubleAccess s @ [True] \<rparr>"
  have cond: "unat (range_get (mc_saddr ?c) 15 0 :: u16) + unat (mc_bbt ?c) > 65536"
    using assms(3) bbt by simp
  have "rxAppMemAccessBreakdown s = ?t"
    unfolding rxAppMemAccessBreakdown_def Let_def assms(2) using assms(1) cond by simp
  moreover have "bd_outputMemAccess (rxAppMemAccessBreakdown ?t) = bd_outputMemAccess s @
      [mmCmd_mk (mc_saddr ?c) (ucast (65536 - mc_saddr ?c)),
       mmCmd_mk (range_set (mc_saddr ?c) 15 0 (0 :: u16)) (ucast (mc_bbt ?c) - ucast (65536 - mc_saddr ?c))]"
    by (simp add: rxAppMemAccessBreakdown_def Let_def)
  moreover have "mc_saddr ?c = pkgAddr i pt" by (simp add: mmCmd_mk_def)
  moreover have "(rxAppMemAccessBreakdown ^^ 2) s = rxAppMemAccessBreakdown (rxAppMemAccessBreakdown s)"
    by (simp add: numeral_2_eq_2)
  ultimately have "bd_outputMemAccess ((rxAppMemAccessBreakdown ^^ 2) s) = bd_outputMemAccess s @
      [mmCmd_mk (pkgAddr i pt) (ucast (65536 - pkgAddr i pt)),
       mmCmd_mk (range_set (pkgAddr i pt) 15 0 (0 :: u16)) (ucast (mc_bbt ?c) - ucast (65536 - pkgAddr i pt))]"
    by (simp only:)
  then show ?thesis by (auto simp: ring_pos_pkgAddr ring_pos_cleared word_and_le2)
qed

section \<open>Concrete runs\<close>

definition ras_init :: rx_app_stream_st where
  "ras_init = \<lparr> rasi_readLength = 0, rasi_fsmState = 0, ras_appRxDataReq = [], ras_rxSar2rxApp_upd_rsp = [],
     ras_appRxDataRspMetadata = [], ras_rxApp2rxSar_upd_req = [], ras_rxBufferReadCmd = [] \<rparr>"

definition ras_ex :: rx_app_stream_st where
  "ras_ex = ras_init\<lparr> ras_appRxDataReq := [\<lparr> arr_sessionID = 3, arr_length = 20 \<rparr>],
     ras_rxSar2rxApp_upd_rsp := [rxSarAppd_write 3 0x3fff0] \<rparr>"

definition ras_ex_sar :: rx_sar_st where
  "ras_ex_sar = rx_sar_example\<lparr> rs_txEng2rxSar_req := [],
     rs_rxApp2rxSar_upd_req := [last (ras_rxApp2rxSar_upd_req ((rx_app_stream_if default_config ^^ 2) ras_ex))] \<rparr>"

theorem app_read_frees_witness:
  "rse_recvd (rx_table (rx_sar_table ras_ex_sar) 3) = 0x40010
   \<and> ras_appRxDataRspMetadata ((rx_app_stream_if default_config ^^ 2) ras_ex) = [3]"
proof -
  have "rx_table ras_ex_sar 3 = \<lparr> rse_recvd = 0x40010, rse_appd = 0x3fff0, rse_win_shift = 2, rse_head = 0x40010,
      rse_offset = 0, rse_gap = False \<rparr>" "rs_txEng2rxSar_req ras_ex_sar = []"
    "rs_rxApp2rxSar_upd_req ras_ex_sar = [last (ras_rxApp2rxSar_upd_req ((rx_app_stream_if default_config ^^ 2) ras_ex))]"
    by (simp_all add: ras_ex_sar_def rx_sar_example_def)
  then show ?thesis
    using app_read_frees [of ras_ex 3 20 ras_ex_sar default_config, OF _ _ _ _ _ _ _ refl]
    by (simp add: ras_ex_def ras_init_def wdist_def)
qed

theorem app_overread_accepted_witness:
  "\<exists>p. ras_rxApp2rxSar_upd_req (rx_app_stream_if default_config (ras_init\<lparr> rasi_fsmState := 1,
      rasi_readLength := 100, ras_rxSar2rxApp_upd_rsp := [rxSarAppd_write 3 8] \<rparr>)) = [rxSarAppd_write 3 p]
    \<and> wdist (10 :: win) p = 98"
  using app_overread_accepted [of "ras_init\<lparr> rasi_fsmState := 1, rasi_readLength := 100,
      ras_rxSar2rxApp_upd_rsp := [rxSarAppd_write 3 8] \<rparr>" 3 8 10 default_config]
  by (auto simp: ras_init_def wdist_def)

theorem listen_requests_in_order_witness:
  "rai_appListenPortRsp ((rx_app_if ^^ 4) \<lparr> rai_wait = False, rai_appListenPortReq = [80, 443],
      rai_portTable2rxApp_listen_rsp = [True, False], rai_appListenPortRsp = [],
      rai_rxApp2portTable_listen_req = [] \<rparr>)
    @ rai_portTable2rxApp_listen_rsp ((rx_app_if ^^ 4) \<lparr> rai_wait = False, rai_appListenPortReq = [80, 443],
      rai_portTable2rxApp_listen_rsp = [True, False], rai_appListenPortRsp = [],
      rai_rxApp2portTable_listen_req = [] \<rparr>) = [True, False]"
  using listen_requests_in_order [of "\<lparr> rai_wait = False, rai_appListenPortReq = [80, 443],
      rai_portTable2rxApp_listen_rsp = [True, False], rai_appListenPortRsp = [],
      rai_rxApp2portTable_listen_req = [] \<rparr>", OF _ _ _ refl, of 4]
  by simp

theorem packet_per_command_witness:
  "dr_rxDataRsp ((rxAppMemDataRead ^^ 3) \<lparr> ramdr_fsmState = 0, dr_rxBufferReadCmd = [1],
      dr_rxBufferReadData = [(7 :: nat, False), (8, True), (9, True)], dr_rxDataRsp = [] \<rparr>) = [(7, False), (8, True)]"
  using packet_per_command [of "\<lparr> ramdr_fsmState = 0, dr_rxBufferReadCmd = [1],
      dr_rxBufferReadData = [(7 :: nat, False), (8, True), (9, True)], dr_rxDataRsp = [] \<rparr>" 1 "[]"
      "[(7, False), (8, True)]" "[(9, True)]"]
  by (simp add: is_packet_def numeral_3_eq_3)

theorem breakdown_goes_backwards_witness:
  "\<exists>c1 c2. bd_outputMemAccess ((rxAppMemAccessBreakdown ^^ 2) \<lparr> rxAppBreakdown = False,
      rxAppTempCmd = mmCmd_mk 0 0, rxAppAccLength = 0, bd_inputMemAccess = [mmCmd_mk (pkgAddr 0 0x1fff0) 32],
      bd_outputMemAccess = [], bd_rxAppDoubleAccess = [] \<rparr>) = [c1, c2] \<and> ring_pos c2 \<le> 0x1fff0"
proof -
  have "(range_get (pkgAddr 0 0x1fff0) 15 0 :: u16) = 0xfff0"
    by (simp add: pkgAddr_def range_get_def range_set_def mask_eq_exp_minus_1)
  then show ?thesis
    using breakdown_goes_backwards [of "\<lparr> rxAppBreakdown = False,
      rxAppTempCmd = mmCmd_mk 0 0, rxAppAccLength = 0, bd_inputMemAccess = [mmCmd_mk (pkgAddr 0 0x1fff0) 32],
      bd_outputMemAccess = [], bd_rxAppDoubleAccess = [] \<rparr>" 0 "0x1fff0" 32]
    by (auto simp: mmCmd_mk_def)
qed

end
