(* ===== verification/Axi_Words.thy ===== *)
theory Axi_Words
  imports Prelude
begin

text \<open>
  The word utilities of \<^verbatim>\<open>axi_utils.hpp\<close> and \<^verbatim>\<open>axi_utils.cpp\<close>: the data words themselves, \<^verbatim>\<open>lenToKeep\<close>,
  \<^verbatim>\<open>keepToLen\<close> and \<^verbatim>\<open>alignWords\<close>, the stages that shift a packet by a number of octets to make room for a header or to
  remove one, the width converters, and the stages that merge and split packet streams.

  A data word (\<^verbatim>\<open>net_axis<WIDTH>\<close>) is the list of its octet lanes, the lowest first, with one keep bit per lane.
  The lemmas relate the words to the octets they carry.
\<close>

section \<open>Words as octet lanes\<close>

record net_axis =
  na_data :: "u8 list"
  na_keep :: "bool list"
  na_last :: bool

definition lanes :: "nat \<Rightarrow> nat" where "lanes kb = 2 ^ kb"

text \<open>\<^verbatim>\<open>lenToKeep\<close>: row \<open>n\<close> of the table has the lowest \<open>n\<close> bits set, the default row all bits.\<close>

definition lenToKeep :: "u6 \<Rightarrow> u64" where
  "lenToKeep len = (if len = 0 then - 1 else mask (unat len))"

text \<open>\<^verbatim>\<open>keepToLen\<close>: the row whose value is the keep value, 0xFF when there is none.\<close>

definition keepToLen :: "u64 \<Rightarrow> u8" where
  "keepToLen k = (case List.find (\<lambda>n. mask n = k) [1..<65] of Some n \<Rightarrow> of_nat n | None \<Rightarrow> 0xFF)"

text \<open>The keep field of a word as a value, and a value assigned to it.\<close>

definition keep_val :: "bool list \<Rightarrow> u64" where
  "keep_val ks = horner_sum of_bool 2 ks"

definition keep_bits :: "nat \<Rightarrow> u64 \<Rightarrow> bool list" where
  "keep_bits n k = map (bit k) [0..<n]"

text \<open>The keep field of a word that holds \<open>k\<close> octets in its lowest lanes.\<close>

definition keep_of :: "nat \<Rightarrow> nat \<Rightarrow> bool list" where
  "keep_of n k = replicate k True @ replicate (n - k) False"

lemma length_keep_of [simp]: "k \<le> n \<Longrightarrow> length (keep_of n k) = n"
  by (simp add: keep_of_def)

lemma keep_of_full: "replicate n True = keep_of n n"
  by (simp add: keep_of_def)

lemma nth_keep_of: "j < n \<Longrightarrow> k \<le> n \<Longrightarrow> keep_of n k ! j \<longleftrightarrow> j < k"
  by (simp add: keep_of_def nth_append)

lemma keep_of_eqI: "length ks = n \<Longrightarrow> k \<le> n \<Longrightarrow> (\<And>j. j < n \<Longrightarrow> ks ! j \<longleftrightarrow> j < k) \<Longrightarrow> ks = keep_of n k"
  by (rule nth_equalityI) (simp_all add: nth_keep_of)

lemma keep_bits_lenToKeep:
  assumes "0 < k" and "k < n" and "n \<le> 64"
  shows "keep_bits n (lenToKeep (of_nat k)) = keep_of n k"
proof (rule keep_of_eqI)
  have k: "unat (of_nat k :: u6) = k" using assms by (simp add: unat_of_nat_mod)
  then have "(of_nat k :: u6) \<noteq> 0" using assms(1) by (metis less_numeral_extra(3) unat_0)
  then show "keep_bits n (lenToKeep (of_nat k)) ! j \<longleftrightarrow> j < k" if "j < n" for j
    using that k assms by (simp add: keep_bits_def lenToKeep_def bit_simps)
qed (use assms in \<open>simp_all add: keep_bits_def\<close>)

lemma keep_val_keep_of: "k \<le> n \<Longrightarrow> n \<le> 64 \<Longrightarrow> keep_val (keep_of n k) = mask k"
  by (rule bit_word_eqI) (auto simp: keep_val_def bit_horner_sum_bit_word_iff bit_simps nth_keep_of)

lemma mask_inj: "(mask n :: u64) = mask k \<Longrightarrow> n \<le> 64 \<Longrightarrow> k \<le> 64 \<Longrightarrow> n = k"
proof (rule ccontr)
  assume eq: "(mask n :: u64) = mask k" and le: "n \<le> 64" "k \<le> 64" and ne: "n \<noteq> k"
  from le ne have "bit (mask n :: u64) (min n k) \<noteq> bit (mask k :: u64) (min n k)"
    by (auto simp: bit_simps min_def)
  with eq show False by simp
qed

lemma keepToLen_mask:
  assumes "0 < k" and "k \<le> 64"
  shows "keepToLen (mask k) = of_nat k"
proof -
  have "List.find (\<lambda>n. (mask n :: u64) = mask k) [1..<65] = Some k"
  proof (cases "List.find (\<lambda>n. (mask n :: u64) = mask k) [1..<65]")
    case None
    then show ?thesis using assms by (auto simp: find_None_iff dest: spec [of _ k])
  next
    case (Some n)
    then have "n \<in> set [1..<65]" "(mask n :: u64) = mask k"
      by (auto simp: find_Some_iff)
    then show ?thesis using Some assms mask_inj [of n k] by simp
  qed
  then show ?thesis by (simp add: keepToLen_def)
qed

text \<open>The number of octets of a packed word, read off its keep field.\<close>

lemma keepToLen_keep_of:
  "0 < k \<Longrightarrow> k \<le> n \<Longrightarrow> n \<le> 64 \<Longrightarrow> unat (keepToLen (keep_val (keep_of n k))) = k"
  by (simp add: keep_val_keep_of keepToLen_mask unat_of_nat_mod)

section \<open>Packets and the octets they carry\<close>

text \<open>A packet of words with \<open>n\<close> lanes: full words without the mark, then a word with the mark that holds at least
  one octet.\<close>

inductive packed :: "nat \<Rightarrow> net_axis list \<Rightarrow> u8 list \<Rightarrow> bool" for n where
  packed_end: "\<lbrakk> length d = n; 0 < k; k \<le> n \<rbrakk> \<Longrightarrow>
     packed n [\<lparr> na_data = d, na_keep = keep_of n k, na_last = True \<rparr>] (take k d)"
| packed_word: "\<lbrakk> length d = n; packed n ws bs \<rbrakk> \<Longrightarrow>
     packed n (\<lparr> na_data = d, na_keep = keep_of n n, na_last = False \<rparr> # ws) (d @ bs)"

inductive_cases packed_NilE: "packed n [] bs"

lemma packed_end':
  "\<lbrakk> length d = n; 0 < k; k \<le> n; ks = keep_of n k; bs = take k d \<rbrakk> \<Longrightarrow>
   packed n [\<lparr> na_data = d, na_keep = ks, na_last = True \<rparr>] bs"
  using packed_end by simp

lemma packed_word':
  "\<lbrakk> length d = n; packed n ws bs; ks = keep_of n n; cs = d @ bs \<rbrakk> \<Longrightarrow>
   packed n (\<lparr> na_data = d, na_keep = ks, na_last = False \<rparr> # ws) cs"
  using packed_word by simp

lemma packed_length: "packed n ws bs \<Longrightarrow> n * (length ws - 1) < length bs \<and> length bs \<le> n * length ws \<and> ws \<noteq> []"
proof (induction rule: packed.induct)
  case (packed_word d ws bs)
  then show ?case by (cases ws) simp_all
qed simp

text \<open>The mark makes a packed list of words a packet.\<close>

definition marked :: "net_axis \<Rightarrow> net_axis \<times> bool" where "marked w = (w, na_last w)"

lemma packed_is_packet: "packed n ws bs \<Longrightarrow> is_packet (map marked ws)"
proof (induction rule: packed.induct)
  case (packed_word d ws bs)
  then show ?case by (auto simp: is_packet_Cons marked_def elim: packed_NilE)
qed (simp add: is_packet_def marked_def)

text \<open>\<^verbatim>\<open>alignWords\<close> of axi\_utils.hpp, which \<^verbatim>\<open>rxEngMemWrite\<close> has inlined: the upper lanes of the previous
  word, then the lower lanes of the current one.  It does not set the mark.\<close>

definition alignWords :: "u6 \<Rightarrow> net_axis \<Rightarrow> net_axis \<Rightarrow> bool \<Rightarrow> net_axis" where
  "alignWords offset prevWord currWord lst = (let n = unat offset
     in \<lparr> na_data = drop n (na_data prevWord) @ take n (na_data currWord),
          na_keep = drop n (na_keep prevWord) @ take n (na_keep currWord), na_last = lst \<rparr>)"

end
