(* ===== verification/Ring_Write.thy ===== *)
theory Ring_Write
  imports Rx_App Axi_Words
begin

text \<open>
  The payload on its way to the packet memory: \<^verbatim>\<open>rxEngMemWrite\<close> (rx\_engine.cpp) and \<^verbatim>\<open>tasi_pkg_pusher\<close>
  (tx\_app\_stream\_if.cpp), which cut a packet in two where the ring of the session wraps.  Data words are lists of octet
  lanes.  The parameter \<open>kb\<close> is \<^verbatim>\<open>DATA_KEEP_BITS\<close>, so that \<^verbatim>\<open>WIDTH/8\<close> is \<open>2 ^ kb\<close>; the widths of the code are 64 to
  512 bits, \<open>kb\<close> from 3 to 6.

  The lemmas relate the words to the octets they carry: the writers put octet \<open>j\<close> of a packet at ring position \<open>pt + j\<close> on
  the circle and change nothing else of the memory.
\<close>

section \<open>Writing to the ring\<close>

datatype mem_wr_state = MW_IDLE | MW_IDLE_REG | MW_CUT_FIRST | MW_ALIGN_SECOND | MW_FWD_ALIGNED | MW_RESIDUE

record mem_write_st =
  mw_state :: mem_wr_state
  mw_cmd :: mmCmd
  mw_remainingLength :: win
  mw_lengthFirstPkg :: win
  mw_offset :: u8
  mw_prevWord :: net_axis
  mw_dataIn :: "net_axis list"
  mw_cmdIn :: "mmCmd list"
  mw_cmdOut :: "mmCmd list"
  mw_dataOut :: "net_axis list"
  mw_doubleAccess :: "bool list"

definition mw_send :: "net_axis \<Rightarrow> mem_write_st \<Rightarrow> mem_write_st" where
  "mw_send w s = s\<lparr> mw_dataOut := mw_dataOut s @ [w] \<rparr>"

text \<open>Does the access cross the end of the ring?\<close>

definition crosses :: "mmCmd \<Rightarrow> bool" where
  "crosses c \<longleftrightarrow> unat (range_get (mc_saddr c) 17 0 :: win) + unat (mc_bbt c) > BUFFER_SIZE"

definition first_length :: "mmCmd \<Rightarrow> win" where
  "first_length c = ucast (of_nat BUFFER_SIZE - mc_saddr c)"

definition mw_idle_reg :: "nat \<Rightarrow> (bool \<Rightarrow> mem_write_st \<Rightarrow> mem_write_st) \<Rightarrow> mem_write_st \<Rightarrow> mem_write_st" where
  "mw_idle_reg kb announce s =
     (let cmd = mw_cmd s
      in if crosses cmd
         then (announce True s)\<lparr> mw_lengthFirstPkg := first_length cmd, mw_remainingLength := first_length cmd,
                mw_offset := range_get (first_length cmd) (kb - 1) 0,
                mw_cmdOut := mw_cmdOut s @ [mmCmd_mk (mc_saddr cmd) (ucast (first_length cmd))], mw_state := MW_CUT_FIRST \<rparr>
         else (announce False s)\<lparr> mw_cmdOut := mw_cmdOut s @ [cmd], mw_state := MW_FWD_ALIGNED \<rparr>)"

text \<open>\<^verbatim>\<open>cmd.saddr(WINDOW_BITS-1, 0) = 0; cmd.bbt -= lengthFirstPkg; cmdOut.write(cmd)\<close>\<close>

definition second_cmd :: "mmCmd \<Rightarrow> win \<Rightarrow> mmCmd" where
  "second_cmd cmd len = cmd\<lparr> mc_saddr := range_set (mc_saddr cmd) 17 0 (0 :: win), mc_bbt := mc_bbt cmd - ucast len \<rparr>"

definition mw_second_cmd :: "mem_write_st \<Rightarrow> mem_write_st" where
  "mw_second_cmd s =
     (let cmd = second_cmd (mw_cmd s) (mw_lengthFirstPkg s)
      in s\<lparr> mw_cmd := cmd, mw_cmdOut := mw_cmdOut s @ [cmd] \<rparr>)"

definition mw_cut_first :: "nat \<Rightarrow> net_axis \<Rightarrow> mem_write_st \<Rightarrow> mem_write_st" where
  "mw_cut_first kb w s =
     (let n = lanes kb; r = unat (mw_remainingLength s); s1 = s\<lparr> mw_prevWord := w \<rparr>
      in if r > n
         then mw_send w (s1\<lparr> mw_remainingLength := mw_remainingLength s - of_nat n \<rparr>)
         else if r = n
         then mw_send (w\<lparr> na_last := True \<rparr>) ((mw_second_cmd s1)\<lparr> mw_state := MW_FWD_ALIGNED \<rparr>)
         else mw_send (w\<lparr> na_keep := keep_bits n (lenToKeep (ucast (mw_remainingLength s))), na_last := True \<rparr>)
                ((mw_second_cmd s1)\<lparr> mw_state := (if na_last w then MW_RESIDUE else MW_ALIGN_SECOND) \<rparr>))"

definition mw_align_second :: "net_axis \<Rightarrow> mem_write_st \<Rightarrow> mem_write_st" where
  "mw_align_second w s =
     (let lst = (\<not> na_keep w ! unat (mw_offset s)); send = alignWords (ucast (mw_offset s)) (mw_prevWord s) w lst
      in mw_send send (s\<lparr> mw_prevWord := w,
           mw_state := (if na_last w then if lst then MW_IDLE else MW_RESIDUE else MW_ALIGN_SECOND) \<rparr>))"

definition mw_residue :: "net_axis \<Rightarrow> mem_write_st \<Rightarrow> mem_write_st" where
  "mw_residue filler s =
     mw_send (alignWords (ucast (mw_offset s)) (mw_prevWord s) filler True) (s\<lparr> mw_state := MW_IDLE \<rparr>)"

text \<open>
  The state machine that the two writers share.  \<open>announce\<close> is what they do with the outcome of the test for two accesses,
  \<open>filler\<close> the word that fills the lanes of the last word behind the residue.
\<close>

definition mem_write :: "nat \<Rightarrow> (bool \<Rightarrow> mem_write_st \<Rightarrow> mem_write_st) \<Rightarrow> net_axis \<Rightarrow> mem_write_st \<Rightarrow> mem_write_st" where
  "mem_write kb announce filler s =
     (case mw_state s of
        MW_IDLE \<Rightarrow>
          (case mw_cmdIn s of [] \<Rightarrow> s | c # cs \<Rightarrow> s\<lparr> mw_cmdIn := cs, mw_cmd := c, mw_state := MW_IDLE_REG \<rparr>)
      | MW_IDLE_REG \<Rightarrow> mw_idle_reg kb announce s
      | MW_CUT_FIRST \<Rightarrow>
          (case mw_dataIn s of [] \<Rightarrow> s | w # ws \<Rightarrow> mw_cut_first kb w (s\<lparr> mw_dataIn := ws \<rparr>))
      | MW_FWD_ALIGNED \<Rightarrow>
          (case mw_dataIn s of [] \<Rightarrow> s
           | w # ws \<Rightarrow> mw_send w (s\<lparr> mw_dataIn := ws, mw_state := (if na_last w then MW_IDLE else MW_FWD_ALIGNED) \<rparr>))
      | MW_ALIGN_SECOND \<Rightarrow>
          (case mw_dataIn s of [] \<Rightarrow> s | w # ws \<Rightarrow> mw_align_second w (s\<lparr> mw_dataIn := ws \<rparr>))
      | MW_RESIDUE \<Rightarrow> mw_residue filler s)"

text \<open>\<^verbatim>\<open>rxEngMemWrite\<close> reports whether there are two accesses.  In its last word it clears the keep bits behind the residue;
  the data of these lanes (0 in simulation, not set in hardware) is the argument \<open>junk\<close>.\<close>

definition rxEngMemWrite :: "nat \<Rightarrow> u8 list \<Rightarrow> mem_write_st \<Rightarrow> mem_write_st" where
  "rxEngMemWrite kb junk = mem_write kb (\<lambda>b s. s\<lparr> mw_doubleAccess := mw_doubleAccess s @ [b] \<rparr>)
     \<lparr> na_data = junk, na_keep = replicate (lanes kb) False, na_last = False \<rparr>"

text \<open>\<^verbatim>\<open>tasi_pkg_pusher\<close> (its state IMPROVE\_TIMING is \<^const>\<open>MW_IDLE_REG\<close>) does not report it, and fills its last word from a
  word that is declared but never assigned, the argument \<open>emptyWord\<close>.\<close>

definition tasi_pkg_pusher :: "nat \<Rightarrow> net_axis \<Rightarrow> mem_write_st \<Rightarrow> mem_write_st" where
  "tasi_pkg_pusher kb emptyWord = mem_write kb (\<lambda>_ s. s) emptyWord"

subsection \<open>Forwarding and aligning\<close>

text \<open>A filler that keeps no lane behind the residue.\<close>

definition blank :: "nat \<Rightarrow> net_axis \<Rightarrow> bool" where
  "blank n f \<longleftrightarrow> length (na_data f) = n \<and> na_keep f = replicate n False"

definition fw_absorb :: "net_axis \<times> bool \<Rightarrow> mem_write_st \<Rightarrow> mem_write_st" where
  "fw_absorb w s = mw_send (fst w) (s\<lparr> mw_dataIn := tl (mw_dataIn s),
     mw_state := (if snd w then MW_IDLE else MW_FWD_ALIGNED) \<rparr>)"

interpretation fw: packet_mover "mem_write kb announce filler" "\<lambda>s. mw_state s = MW_FWD_ALIGNED"
  "\<lambda>s. map marked (mw_dataIn s)" fw_absorb
  by unfold_locales (auto simp: mem_write_def fw_absorb_def mw_send_def marked_def)

lemma fw_absorb_packet:
  "\<lbrakk> ws \<noteq> []; mw_dataIn s = ws @ rest \<rbrakk> \<Longrightarrow>
   fold fw_absorb (map marked ws) s = s\<lparr> mw_dataIn := rest, mw_dataOut := mw_dataOut s @ ws,
     mw_state := (if na_last (last ws) then MW_IDLE else MW_FWD_ALIGNED) \<rparr>"
proof (induction ws arbitrary: s)
  case (Cons w ws)
  then show ?case
    using Cons.IH [of "fw_absorb (marked w) s"]
    by (cases "ws = []") (simp_all add: fw_absorb_def mw_send_def marked_def)
qed simp

lemma fw_packet:
  assumes "packed n ws bs" and "mw_state s = MW_FWD_ALIGNED" and "mw_dataIn s = ws @ rest"
  shows "(mem_write kb announce filler ^^ length ws) s =
    s\<lparr> mw_state := MW_IDLE, mw_dataIn := rest, mw_dataOut := mw_dataOut s @ ws \<rparr>"
proof -
  have "ws \<noteq> []" and "na_last (last ws)"
    using packed_is_packet [OF assms(1)] by (auto simp: is_packet_def last_map marked_def)
  then show ?thesis
    using fw.moves_packet [OF packed_is_packet [OF assms(1)] assms(2), of "map marked rest" kb announce filler]
      fw_absorb_packet [OF _ assms(3)] assms(3) by simp
qed

text \<open>The effect of a run: \<open>out\<close> was written, \<open>rest\<close> is left, \<open>cs\<close> are the commands that were sent.\<close>

definition mw_ran :: "mem_write_st \<Rightarrow> net_axis list \<Rightarrow> mmCmd list \<Rightarrow> net_axis list \<Rightarrow> mem_write_st \<Rightarrow> bool" where
  "mw_ran s rest cs out t \<longleftrightarrow> mw_state t = MW_IDLE \<and> mw_dataIn t = rest \<and> mw_dataOut t = mw_dataOut s @ out
     \<and> mw_cmdOut t = mw_cmdOut s @ cs \<and> mw_cmdIn t = mw_cmdIn s \<and> mw_doubleAccess t = mw_doubleAccess s"

lemma mw_ran_after_send:
  "mw_ran (mw_send w s) rest cs out t \<Longrightarrow> mw_ran s rest cs (w # out) t"
  by (simp add: mw_ran_def mw_send_def)

lemma aligned_word:
  assumes "0 < o'" and "o' < n" and "n \<le> 64" and "length d = n" and "length d' = n" and "k \<le> n" and "ks = keep_of n k"
  shows "alignWords (of_nat o') \<lparr> na_data = d, na_keep = keep_of n n, na_last = lst \<rparr>
      \<lparr> na_data = d', na_keep = ks, na_last = lst' \<rparr> b =
    \<lparr> na_data = drop o' d @ take o' d', na_keep = keep_of n (n - o' + min k o'), na_last = b \<rparr>"
proof -
  have "unat (of_nat o' :: u6) = o'" using assms by (simp add: unat_of_nat_mod)
  moreover have "drop o' (keep_of n n) @ take o' (keep_of n k) = keep_of n (n - o' + min k o')"
    using assms by (intro keep_of_eqI) (auto simp: nth_append nth_keep_of)
  ultimately show ?thesis by (simp add: alignWords_def assms(7))
qed

lemma residue_word:
  assumes "0 < o'" and "o' < k" and "k \<le> n" and "n \<le> 64" and "length d = n" and "blank n f"
  shows "packed n [alignWords (of_nat o') \<lparr> na_data = d, na_keep = keep_of n k, na_last = lst \<rparr> f True] (drop o' (take k d))"
proof -
  have o: "unat (of_nat o' :: u6) = o'" using assms by (simp add: unat_of_nat_mod)
  have f: "length (na_data f) = n" "na_keep f = replicate n False" using assms(6) by (simp_all add: blank_def)
  have "drop o' (keep_of n k) @ take o' (na_keep f) = keep_of n (k - o')"
    using assms f by (intro keep_of_eqI) (auto simp: nth_append nth_keep_of)
  moreover have "drop o' (take k d) = take (k - o') (drop o' d @ take o' (na_data f))"
    using assms(2,3,5) by (simp add: drop_take)
  ultimately show ?thesis
    unfolding alignWords_def Let_def o using assms f by (intro packed_end' [of _ n "k - o'"]) simp_all
qed

lemma residue_run:
  assumes "mw_state s = MW_RESIDUE" and "unat (mw_offset s) = o'" and "mw_prevWord s = \<lparr> na_data = d, na_keep = keep_of n k, na_last = lst \<rparr>"
    and "0 < o'" and "o' < k" and "k \<le> n" and "n \<le> 64" and "length d = n" and "blank n f"
  shows "\<exists>out. mw_ran s (mw_dataIn s) [] out (mem_write kb announce f s) \<and> packed n out (drop o' (take k d))"
proof -
  have "ucast (mw_offset s) = (of_nat o' :: u6)" using assms(2) by (metis of_nat_unat)
  then have "mem_write kb announce f s = mw_send (alignWords (of_nat o') \<lparr> na_data = d, na_keep = keep_of n k, na_last = lst \<rparr> f True)
      (s\<lparr> mw_state := MW_IDLE \<rparr>)"
    using assms(1,3) by (simp add: mem_write_def mw_residue_def)
  then show ?thesis
    using residue_word [OF assms(4-9)] by (intro exI conjI) (auto simp: mw_ran_def mw_send_def)
qed

lemma align_run:
  assumes "packed n ws bs" and "mw_state s = MW_ALIGN_SECOND" and "mw_dataIn s = ws @ rest"
    and "unat (mw_offset s) = o'" and "mw_prevWord s = \<lparr> na_data = d, na_keep = keep_of n n, na_last = lst \<rparr>"
    and o': "0 < o'" "o' < n" "n \<le> 64" and "length d = n" and f: "blank n f"
  shows "\<exists>m \<le> Suc (length ws). \<exists>out. mw_ran s rest [] out ((mem_write kb announce f ^^ m) s) \<and> packed n out (drop o' d @ bs)"
  using assms(1-5,9)
proof (induction arbitrary: s d lst rule: packed.induct)
  case (packed_end d' k)
  have off: "ucast (mw_offset s) = (of_nat o' :: u6)" using packed_end.prems(3) by (metis of_nat_unat)
  let ?send = "\<lparr> na_data = drop o' d @ take o' d', na_keep = keep_of n (n - o' + min k o'), na_last = k \<le> o' \<rparr>"
  let ?t = "mw_send ?send (s\<lparr> mw_dataIn := rest, mw_prevWord := \<lparr> na_data = d', na_keep = keep_of n k, na_last = True \<rparr>,
      mw_state := (if k \<le> o' then MW_IDLE else MW_RESIDUE) \<rparr>)"
  have step: "mem_write kb announce f s = ?t"
    using packed_end.prems packed_end.hyps o' off
    by (simp add: mem_write_def mw_align_second_def Let_def aligned_word nth_keep_of not_less)
  show ?case
  proof (cases "k \<le> o'")
    case True
    have "packed n [\<lparr> na_data = drop o' d @ take o' d', na_keep = keep_of n (n - o' + min k o'), na_last = True \<rparr>]
        (drop o' d @ take k d')"
      using packed_end.hyps packed_end.prems(5) o' True
      by (intro packed_end' [of _ n "n - o' + k"]) (simp_all add: min_absorb1)
    with True have "packed n [?send] (drop o' d @ take k d')" by simp
    then show ?thesis
      using True by (intro exI [of _ 1] conjI exI [of _ "[?send]"]) (simp_all add: step mw_ran_def mw_send_def)
  next
    case False
    then have "\<exists>out. mw_ran ?t rest [] out (mem_write kb announce f ?t) \<and> packed n out (drop o' (take k d'))"
      using residue_run [of ?t o' d' n k True f kb announce] packed_end o' f by (simp add: mw_send_def)
    then obtain out where out: "mw_ran ?t rest [] out (mem_write kb announce f ?t)" "packed n out (drop o' (take k d'))"
      by blast
    have "mw_ran s rest [] (?send # out) (mem_write kb announce f ?t)"
      using out(1) by (simp add: mw_ran_def mw_send_def)
    moreover have "packed n (?send # out) (drop o' d @ take k d')"
      using False out(2) packed_end.hyps packed_end.prems o'
      by (auto intro!: packed_word' simp: min_def) (metis append_take_drop_id drop_take le_add_diff_inverse nat_le_linear take_add)
    ultimately show ?thesis
      by (intro exI [of _ 2] conjI exI [of _ "?send # out"]) (simp_all add: step numeral_2_eq_2)
  qed
next
  case (packed_word d' ws bs)
  have off: "ucast (mw_offset s) = (of_nat o' :: u6)" using packed_word.prems(3) by (metis of_nat_unat)
  let ?send = "\<lparr> na_data = drop o' d @ take o' d', na_keep = keep_of n n, na_last = False \<rparr>"
  let ?t = "mw_send ?send (s\<lparr> mw_dataIn := ws @ rest, mw_prevWord := \<lparr> na_data = d', na_keep = keep_of n n, na_last = False \<rparr>,
      mw_state := MW_ALIGN_SECOND \<rparr>)"
  have step: "mem_write kb announce f s = ?t"
    using packed_word.prems packed_word.hyps o' off
    by (simp add: mem_write_def mw_align_second_def Let_def aligned_word [where k = n] nth_keep_of)
  obtain m out where m: "m \<le> Suc (length ws)" "mw_ran ?t rest [] out ((mem_write kb announce f ^^ m) ?t)"
    "packed n out (drop o' d' @ bs)"
    using packed_word.IH [of ?t d' False] packed_word.prems packed_word.hyps by (auto simp: mw_send_def)
  have "mw_ran s rest [] (?send # out) ((mem_write kb announce f ^^ Suc m) s)"
    using m(2) by (simp add: funpow_swap1 step mw_ran_def mw_send_def)
  moreover have "packed n (?send # out) (drop o' d @ d' @ bs)"
    using m(3) packed_word.hyps packed_word.prems o' by (intro packed_word') auto
  ultimately show ?case using m(1) by (intro exI [of _ "Suc m"] conjI exI [of _ "?send # out"]) simp_all
qed

subsection \<open>Cutting\<close>

lemma cut_end:
  assumes "mw_state s = MW_CUT_FIRST"
    and "mw_dataIn s = \<lparr> na_data = d, na_keep = ks, na_last = lst \<rparr> # q"
    and "0 < unat (mw_remainingLength s)" and "unat (mw_remainingLength s) < n" and "n = lanes kb" and "kb \<le> 6"
  shows "mem_write kb announce f s =
    mw_send \<lparr> na_data = d, na_keep = keep_of n (unat (mw_remainingLength s)), na_last = True \<rparr>
      ((mw_second_cmd (s\<lparr> mw_dataIn := q, mw_prevWord := \<lparr> na_data = d, na_keep = ks, na_last = lst \<rparr> \<rparr>))\<lparr>
         mw_state := (if lst then MW_RESIDUE else MW_ALIGN_SECOND) \<rparr>)"
proof -
  have "n \<le> 64" using assms(5,6) power_increasing [of kb 6 "2 :: nat"] by (simp add: lanes_def)
  moreover have "ucast (mw_remainingLength s) = (of_nat (unat (mw_remainingLength s)) :: u6)"
    by (metis of_nat_unat)
  ultimately have "keep_bits n (lenToKeep (ucast (mw_remainingLength s))) = keep_of n (unat (mw_remainingLength s))"
    using keep_bits_lenToKeep [OF assms(3,4)] by simp
  then show ?thesis
    using assms(1-5) by (simp add: mem_write_def mw_cut_first_def Let_def)
qed

lemma cut_run:
  assumes "packed n ws bs" and "mw_state s = MW_CUT_FIRST" and "mw_dataIn s = ws @ rest"
    and "unat (mw_remainingLength s) = l" and "0 < l" and "l < length bs" and "unat (mw_offset s) = l mod n"
    and n: "n = lanes kb" "kb \<le> 6" and f: "blank n f"
  shows "\<exists>m \<le> Suc (length ws). \<exists>out1 out2.
    mw_ran s rest [second_cmd (mw_cmd s) (mw_lengthFirstPkg s)] (out1 @ out2) ((mem_write kb announce f ^^ m) s)
    \<and> packed n out1 (take l bs) \<and> packed n out2 (drop l bs)"
  using assms(1-7)
proof (induction arbitrary: s l rule: packed.induct)
  case (packed_end d k)
  have n64: "n \<le> 64" using n power_increasing [of kb 6 "2 :: nat"] by (simp add: lanes_def)
  have l: "l < k" "l < n" "unat (mw_offset s) = l" using packed_end.prems packed_end.hyps by simp_all
  let ?w = "\<lparr> na_data = d, na_keep = keep_of n l, na_last = True \<rparr>"
  let ?t = "mw_send ?w ((mw_second_cmd (s\<lparr> mw_dataIn := rest, mw_prevWord := \<lparr> na_data = d, na_keep = keep_of n k, na_last = True \<rparr> \<rparr>))
      \<lparr> mw_state := MW_RESIDUE \<rparr>)"
  have step: "mem_write kb announce f s = ?t"
    using cut_end [of s d "keep_of n k" True rest n kb announce f] packed_end.prems l n by simp
  obtain out where "mw_ran ?t rest [] out (mem_write kb announce f ?t)" "packed n out (drop l (take k d))"
    using residue_run [of ?t l d n k True f kb announce] packed_end l n64 f
    by (auto simp: mw_send_def mw_second_cmd_def Let_def)
  moreover have "packed n [?w] (take l (take k d))"
    using packed_end.hyps packed_end.prems l by (intro packed_end' [of _ n l]) simp_all
  ultimately show ?case
    by (intro exI [of _ 2] conjI exI [of _ "[?w]"] exI [of _ out])
      (auto simp: step numeral_2_eq_2 mw_ran_def mw_send_def mw_second_cmd_def Let_def)
next
  case (packed_word d ws bs)
  have n64: "n \<le> 64" using n power_increasing [of kb 6 "2 :: nat"] by (simp add: lanes_def)
  let ?v = "\<lparr> na_data = d, na_keep = keep_of n n, na_last = False \<rparr>"
  let ?s1 = "s\<lparr> mw_dataIn := ws @ rest, mw_prevWord := ?v \<rparr>"
  consider (more) "l > n" | (exact) "l = n" | (less) "l < n" by linarith
  then show ?case
  proof cases
    case more
    let ?t = "mw_send ?v (?s1\<lparr> mw_remainingLength := mw_remainingLength s - of_nat n \<rparr>)"
    have step: "mem_write kb announce f s = ?t"
      using packed_word.prems more n(1) by (simp add: mem_write_def mw_cut_first_def Let_def)
    have un: "unat (of_nat n :: win) = n" using n64 by (simp add: unat_of_nat_mod)
    then have "unat (mw_remainingLength s - of_nat n) = l - n"
      using packed_word.prems(3) more by (simp add: unat_sub word_le_nat_alt)
    moreover have "(l - n) mod n = l mod n" using more by (simp add: le_mod_geq)
    ultimately have t: "mw_state ?t = MW_CUT_FIRST" "mw_dataIn ?t = ws @ rest" "unat (mw_remainingLength ?t) = l - n"
      "0 < l - n" "l - n < length bs" "unat (mw_offset ?t) = (l - n) mod n"
      using packed_word.prems packed_word.hyps(1) more by (simp_all add: mw_send_def)
    obtain m out1 out2 where m: "m \<le> Suc (length ws)"
      "mw_ran ?t rest [second_cmd (mw_cmd ?t) (mw_lengthFirstPkg ?t)] (out1 @ out2) ((mem_write kb announce f ^^ m) ?t)"
      "packed n out1 (take (l - n) bs)" "packed n out2 (drop (l - n) bs)"
      using packed_word.IH [OF t] by blast
    have "mw_ran s rest [second_cmd (mw_cmd s) (mw_lengthFirstPkg s)] ((?v # out1) @ out2) ((mem_write kb announce f ^^ Suc m) s)"
      using m(2) by (simp add: funpow_swap1 step mw_ran_def mw_send_def)
    moreover have "packed n (?v # out1) (take l (d @ bs))" and "packed n out2 (drop l (d @ bs))"
      using m(3,4) packed_word.hyps(1) more by (auto intro: packed_word')
    ultimately show ?thesis using m(1) by (intro exI [of _ "Suc m"] conjI exI [of _ "?v # out1"] exI [of _ out2]) simp_all
  next
    case exact
    let ?w = "?v\<lparr> na_last := True \<rparr>"
    let ?t = "mw_send ?w ((mw_second_cmd ?s1)\<lparr> mw_state := MW_FWD_ALIGNED \<rparr>)"
    have step: "mem_write kb announce f s = ?t"
      using packed_word.prems exact n(1) by (simp add: mem_write_def mw_cut_first_def Let_def)
    have "(mem_write kb announce f ^^ length ws) ?t = ?t\<lparr> mw_state := MW_IDLE, mw_dataIn := rest, mw_dataOut := mw_dataOut ?t @ ws \<rparr>"
      using fw_packet [OF packed_word.hyps(2), of ?t rest] by (simp add: mw_send_def mw_second_cmd_def Let_def)
    moreover have "packed n [?w] (take l (d @ bs))"
      using exact packed_word.hyps(1) packed_word.prems(4) by (simp add: packed_end' [of d n n])
    moreover have "packed n ws (drop l (d @ bs))" using exact packed_word.hyps by simp
    ultimately show ?thesis
      by (intro exI [of _ "Suc (length ws)"] conjI exI [of _ "[?w]"] exI [of _ ws])
        (auto simp: funpow_swap1 step mw_ran_def mw_send_def mw_second_cmd_def Let_def)
  next
    case less
    let ?w = "\<lparr> na_data = d, na_keep = keep_of n l, na_last = True \<rparr>"
    let ?t = "mw_send ?w ((mw_second_cmd ?s1)\<lparr> mw_state := MW_ALIGN_SECOND \<rparr>)"
    have step: "mem_write kb announce f s = ?t"
      using cut_end [of s d "keep_of n n" False "ws @ rest" n kb announce f] packed_word.prems less n by simp
    obtain m out where m: "m \<le> Suc (length ws)" "mw_ran ?t rest [] out ((mem_write kb announce f ^^ m) ?t)"
      "packed n out (drop l d @ bs)"
      using align_run [OF packed_word.hyps(2), of ?t rest l d False f kb announce] packed_word.prems packed_word.hyps(1) less n64 f
      by (auto simp: mw_send_def mw_second_cmd_def Let_def)
    have "mw_ran s rest [second_cmd (mw_cmd s) (mw_lengthFirstPkg s)] ([?w] @ out) ((mem_write kb announce f ^^ Suc m) s)"
      using m(2) by (simp add: funpow_swap1 step mw_ran_def mw_send_def mw_second_cmd_def Let_def)
    moreover have "packed n [?w] (take l (d @ bs))"
      using less packed_word.hyps(1) packed_word.prems(4) by (intro packed_end' [of _ n l]) simp_all
    moreover have "packed n out (drop l (d @ bs))" using m(3) less packed_word.hyps(1) by simp
    ultimately show ?thesis using m(1) by (intro exI [of _ "Suc m"] conjI exI [of _ "[?w]"] exI [of _ out]) simp_all
  qed
qed

subsection \<open>The ring of a session in the packet memory\<close>

lemma drop_bit_pkgAddr: "drop_bit 18 (pkgAddr i pt) = ucast (take_bit 12 i)"
  by (rule bit_word_eqI) (auto simp: pkgAddr_def range_bits bit_simps dest: bit_imp_le_length)

lemma take_bit_pkgAddr: "take_bit 18 (pkgAddr i pt) = ucast pt"
  by (rule bit_word_eqI) (auto simp: pkgAddr_def range_bits bit_simps dest: bit_imp_le_length)

lemma unat_split18: "unat (a :: u32) = unat (drop_bit 18 a) * 2 ^ 18 + unat (ucast a :: win)"
proof -
  have "unat (drop_bit 18 a) = unat a div 2 ^ 18" by (rule unat_drop_bit)
  moreover have "unat (ucast a :: win) = unat a mod 2 ^ 18"
    by (simp add: unsigned_ucast_eq take_bit_eq_mod)
  ultimately show ?thesis by (simp only: div_mult_mod_eq)
qed

lemma unat_pkgAddr: "unat (pkgAddr i pt) = unat (take_bit 12 i) * 2 ^ 18 + unat pt"
proof -
  have "ucast (pkgAddr i pt) = pt"
    by (rule bit_word_eqI) (simp add: pkgAddr_def range_bits bit_simps)
  then show ?thesis by (subst unat_split18) (simp add: drop_bit_pkgAddr unat_ucast_up)
qed

lemma session_field_less: "unat (take_bit 12 (i :: u16)) < 4096"
  using unat_take_bit_less [of 12 i] by simp

text \<open>An access that does not cross the end of the ring stays inside it.\<close>

lemma ring_span:
  assumes "unat pt + k \<le> 2 ^ 18"
  shows "wdist (pkgAddr i pt) a < k \<longleftrightarrow> drop_bit 18 a = drop_bit 18 (pkgAddr i pt)
      \<and> unat pt \<le> unat (ucast a :: win) \<and> unat (ucast a :: win) < unat pt + k"
    and "wdist (pkgAddr i pt) a < k \<Longrightarrow> wdist (pkgAddr i pt) a = unat (ucast a :: win) - unat pt"
proof -
  define b h q where "b = unat (take_bit 12 i)" and "h = unat (drop_bit 18 a)" and "q = unat (ucast a :: win)"
  have x: "unat (pkgAddr i pt) = b * 2 ^ 18 + unat pt" and a: "unat a = h * 2 ^ 18 + q"
    unfolding b_def h_def q_def by (rule unat_pkgAddr, rule unat_split18)
  have bounds: "b < 4096" "q < 2 ^ 18" "unat pt < 2 ^ 18"
    using unsigned_less [of "ucast a :: win", where 'a = nat] unsigned_less [of pt, where 'a = nat] session_field_less [of i]
    by (simp_all add: b_def q_def)
  have ring: "drop_bit 18 a = drop_bit 18 (pkgAddr i pt) \<longleftrightarrow> h = b"
    by (simp add: drop_bit_pkgAddr b_def h_def word_unat_eq_iff unat_ucast_up)
  have d: "wdist (pkgAddr i pt) a = (if unat (pkgAddr i pt) \<le> unat a then unat a - unat (pkgAddr i pt)
      else 2 ^ 32 + unat a - unat (pkgAddr i pt))"
    by (simp add: wdist_if word_le_nat_alt)
  have main: "(wdist (pkgAddr i pt) a < k \<longleftrightarrow> h = b \<and> unat pt \<le> q \<and> q < unat pt + k)
      \<and> (wdist (pkgAddr i pt) a < k \<longrightarrow> wdist (pkgAddr i pt) a = q - unat pt)"
  proof (cases "h = b")
    case True
    then show ?thesis using bounds assms by (auto simp: d x a split: if_splits)
  next
    case False
    then consider "h + 1 \<le> b" | "b + 1 \<le> h" by linarith
    then have "\<not> wdist (pkgAddr i pt) a < k"
    proof cases
      case 1
      then have "(h + 1) * 2 ^ 18 \<le> b * 2 ^ 18" by (rule mult_le_mono1)
      then show ?thesis using bounds assms by (simp add: d x a)
    next
      case 2
      then have "(b + 1) * 2 ^ 18 \<le> h * 2 ^ 18" by (rule mult_le_mono1)
      then show ?thesis using bounds assms by (simp add: d x a)
    qed
    with False show ?thesis by simp
  qed
  then show "wdist (pkgAddr i pt) a < k \<longleftrightarrow> drop_bit 18 a = drop_bit 18 (pkgAddr i pt)
      \<and> unat pt \<le> unat (ucast a :: win) \<and> unat (ucast a :: win) < unat pt + k"
    and "wdist (pkgAddr i pt) a < k \<Longrightarrow> wdist (pkgAddr i pt) a = unat (ucast a :: win) - unat pt"
    by (simp_all add: ring q_def)
qed

text \<open>What a memory does with a write command and its octets, and the writing of octets to the ring of a session from position
  \<open>pt\<close> on, round the circle.\<close>

definition dm_write :: "mmCmd \<times> u8 list \<Rightarrow> (u32 \<Rightarrow> u8) \<Rightarrow> u32 \<Rightarrow> u8" where
  "dm_write = (\<lambda>(c, bs) mem a. if wdist (mc_saddr c) a < length bs then bs ! wdist (mc_saddr c) a else mem a)"

definition ring_write :: "u16 \<Rightarrow> win \<Rightarrow> u8 list \<Rightarrow> (u32 \<Rightarrow> u8) \<Rightarrow> u32 \<Rightarrow> u8" where
  "ring_write i pt bs mem a =
     (if drop_bit 18 a = drop_bit 18 (pkgAddr i 0) \<and> wdist pt (ucast a) < length bs then bs ! wdist pt (ucast a) else mem a)"

lemma dm_write_inside:
  assumes "mc_saddr c = pkgAddr i pt" and "unat pt + length bs \<le> 2 ^ 18"
  shows "dm_write (c, bs) mem = ring_write i pt bs mem"
proof
  fix a :: u32
  have "wdist pt (ucast a) < length bs \<longleftrightarrow> unat pt \<le> unat (ucast a :: win) \<and> unat (ucast a :: win) < unat pt + length bs"
    and "wdist pt (ucast a) < length bs \<Longrightarrow> wdist pt (ucast a) = unat (ucast a :: win) - unat pt"
    using assms(2) by (auto simp: wdist_if word_le_nat_alt split: if_splits)
  then show "dm_write (c, bs) mem a = ring_write i pt bs mem a"
    using ring_span [OF assms(2), of i a] by (auto simp: dm_write_def ring_write_def assms(1) drop_bit_pkgAddr)
qed

lemma ring_write_wraps:
  assumes "unat pt + l = 2 ^ 18" and "l < length bs" and "length bs < 2 ^ 18"
  shows "ring_write i 0 (drop l bs) (ring_write i pt (take l bs) mem) = ring_write i pt bs mem"
proof
  fix a :: u32
  let ?q = "ucast a :: win"
  have q: "unat ?q < 2 ^ 18" using unsigned_less [of ?q, where 'a = nat] by simp
  have 0: "wdist 0 ?q = unat ?q" by (simp add: wdist_def)
  show "ring_write i 0 (drop l bs) (ring_write i pt (take l bs) mem) a = ring_write i pt bs mem a"
  proof (cases "unat pt \<le> unat ?q")
    case True
    then have "wdist pt ?q = unat ?q - unat pt" by (simp add: wdist_if word_le_nat_alt)
    then show ?thesis using True q assms 0 by (auto simp: ring_write_def min_def)
  next
    case False
    then have "wdist pt ?q = l + unat ?q" using assms(1) by (simp add: wdist_if word_le_nat_alt)
    then show ?thesis using False q assms 0 by (auto simp: ring_write_def)
  qed
qed

subsection \<open>The writers put every octet in its place\<close>

text \<open>The commands and words that go to the memory: every command is followed by one packet, of exactly its length.\<close>

inductive transfers :: "nat \<Rightarrow> mmCmd list \<Rightarrow> net_axis list \<Rightarrow> (mmCmd \<times> u8 list) list \<Rightarrow> bool" for n where
  transfers_Nil: "transfers n [] [] []"
| transfers_Cons: "\<lbrakk> packed n ws bs; unat (mc_bbt c) = length bs; transfers n cs vs js \<rbrakk> \<Longrightarrow>
     transfers n (c # cs) (ws @ vs) ((c, bs) # js)"

lemma transfers_one: "packed n ws bs \<Longrightarrow> unat (mc_bbt c) = length bs \<Longrightarrow> transfers n [c] ws [(c, bs)]"
  using transfers_Cons [OF _ _ transfers_Nil] by simp

lemma transfers_two:
  "\<lbrakk> packed n ws bs; unat (mc_bbt c) = length bs; packed n ws' bs'; unat (mc_bbt c') = length bs' \<rbrakk> \<Longrightarrow>
   transfers n [c, c'] (ws @ ws') [(c, bs), (c', bs')]"
  by (intro transfers_Cons transfers_one)

lemma crosses_pkgAddr: "crosses (mmCmd_mk (pkgAddr i pt) len) \<longleftrightarrow> unat pt + unat len > 2 ^ 18"
proof -
  have "(range_get (pkgAddr i pt) 17 0 :: win) = pt"
    by (rule bit_word_eqI) (simp add: pkgAddr_def range_bits)
  then show ?thesis by (simp add: crosses_def mmCmd_mk_def unat_ucast_up BUFFER_SIZE_def)
qed

lemma first_length_pkgAddr:
  assumes "unat pt + unat (len :: u16) > 2 ^ 18"
  shows "unat (first_length (mmCmd_mk (pkgAddr i pt) len)) = 2 ^ 18 - unat pt"
proof -
  have "ucast (pkgAddr i pt) = pt"
    by (rule bit_word_eqI) (simp add: pkgAddr_def range_bits bit_simps)
  then have "first_length (mmCmd_mk (pkgAddr i pt) len) = ucast (of_nat BUFFER_SIZE :: u32) - pt"
    by (simp add: first_length_def mmCmd_mk_def ucast_down_sub)
  also have "ucast (of_nat BUFFER_SIZE :: u32) = (0 :: win)" by (simp add: BUFFER_SIZE_def)
  finally have eq: "unat (first_length (mmCmd_mk (pkgAddr i pt) len)) = wdist pt 0" by (simp add: wdist_def)
  have "pt \<noteq> 0"
  proof
    assume "pt = 0"
    then show False using assms unsigned_less [of len, where 'a = nat] by simp
  qed
  then show ?thesis unfolding eq by (simp add: wdist_if)
qed

lemma second_cmd_pkgAddr:
  assumes "unat l \<le> unat len"
  shows "mc_saddr (second_cmd (mmCmd_mk (pkgAddr i pt) len) l) = pkgAddr i 0"
    and "unat (mc_bbt (second_cmd (mmCmd_mk (pkgAddr i pt) len) l)) = unat len - unat l"
proof -
  show "mc_saddr (second_cmd (mmCmd_mk (pkgAddr i pt) len) l) = pkgAddr i 0"
    by (rule bit_word_eqI) (auto simp: second_cmd_def mmCmd_mk_def pkgAddr_def range_bits)
  have "ucast l \<le> (ucast len :: u23)" using assms by (simp add: word_le_nat_alt unat_ucast_up)
  then show "unat (mc_bbt (second_cmd (mmCmd_mk (pkgAddr i pt) len) l)) = unat len - unat l"
    by (simp add: second_cmd_def mmCmd_mk_def unat_sub unat_ucast_up)
qed

lemma offset_of:
  assumes "0 < kb" and "kb \<le> 6"
  shows "unat (range_get (l :: win) (kb - 1) 0 :: u8) = unat l mod lanes kb"
proof -
  have "unat (take_bit kb l) < 2 ^ 8"
    using unat_take_bit_less [of kb l] power_increasing [of kb 8 "2 :: nat"] assms(2) by linarith
  then have "unat (ucast (take_bit kb l) :: u8) = unat (take_bit kb l)"
    by (simp add: unsigned_ucast_eq take_bit_nat_eq_self)
  also have "\<dots> = take_bit kb (unat l)" by (rule unsigned_take_bit_eq)
  also have "\<dots> = unat l mod lanes kb" by (simp only: take_bit_eq_mod lanes_def)
  finally show ?thesis using assms(1) by (simp add: range_get_def)
qed

lemma mmCmd_mk_sel [simp]:
  "mc_saddr (mmCmd_mk a len) = a" "unat (mc_bbt (mmCmd_mk a len)) = unat len"
  by (simp_all add: mmCmd_mk_def unat_ucast_up)

text \<open>Between two states, \<open>k\<close> commands with their packets went to the memory, and they put the octets \<open>bs\<close> into the ring of
  session \<open>i\<close> from position \<open>pt\<close> on and change nothing else.\<close>

definition placed :: "nat \<Rightarrow> u16 \<Rightarrow> win \<Rightarrow> u8 list \<Rightarrow> nat \<Rightarrow> mem_write_st \<Rightarrow> mem_write_st \<Rightarrow> bool" where
  "placed n i pt bs k s t \<longleftrightarrow> (\<exists>cmds out jobs. mw_cmdOut t = mw_cmdOut s @ cmds \<and> mw_dataOut t = mw_dataOut s @ out
     \<and> length cmds = k \<and> transfers n cmds out jobs \<and> (\<forall>mem. fold dm_write jobs mem = ring_write i pt bs mem))"

lemma placed_once:
  assumes "packed n ws bs" and "length bs = unat len" and "\<not> unat pt + unat len > 2 ^ 18"
    and "mw_cmdOut t = mw_cmdOut s @ [mmCmd_mk (pkgAddr i pt) len]" and "mw_dataOut t = mw_dataOut s @ ws"
  shows "placed n i pt bs 1 s t"
proof -
  let ?c = "mmCmd_mk (pkgAddr i pt) len"
  have "transfers n [?c] ws [(?c, bs)]" using assms(1,2) by (intro transfers_one) simp_all
  moreover have "fold dm_write [(?c, bs)] mem = ring_write i pt bs mem" for mem
    using dm_write_inside [of ?c i pt bs mem] assms(2,3) by simp
  ultimately show ?thesis unfolding placed_def
    by (intro exI [of _ "[?c]"] exI [of _ ws] exI [of _ "[(?c, bs)]"]) (simp_all add: assms(4,5))
qed

lemma placed_twice:
  assumes "packed n out1 (take l bs)" and "packed n out2 (drop l bs)" and "length bs = unat len"
    and "l = unat (first_length (mmCmd_mk (pkgAddr i pt) len))" and "l < length bs" and "unat pt + l = 2 ^ 18"
    and "mw_cmdOut t = mw_cmdOut s @ [mmCmd_mk (pkgAddr i pt) (ucast (first_length (mmCmd_mk (pkgAddr i pt) len))),
      second_cmd (mmCmd_mk (pkgAddr i pt) len) (first_length (mmCmd_mk (pkgAddr i pt) len))]"
    and "mw_dataOut t = mw_dataOut s @ out1 @ out2"
  shows "placed n i pt bs 2 s t"
proof -
  let ?c = "mmCmd_mk (pkgAddr i pt) len"
  let ?l = "first_length ?c"
  let ?c1 = "mmCmd_mk (pkgAddr i pt) (ucast ?l)" and ?c2 = "second_cmd ?c ?l"
  have len: "unat len < 2 ^ 16" using unsigned_less [of len, where 'a = nat] by simp
  have "l < 2 ^ 16" using assms(3,5) len by simp
  then have "unat (ucast ?l :: u16) = l"
    unfolding assms(4) by (simp add: unsigned_ucast_eq take_bit_nat_eq_self)
  then have b1: "unat (mc_bbt ?c1) = l" by simp
  have c2: "mc_saddr ?c2 = pkgAddr i 0" "unat (mc_bbt ?c2) = unat len - l"
    using second_cmd_pkgAddr [of ?l len i pt] assms(3-5) by simp_all
  have "transfers n [?c1, ?c2] (out1 @ out2) [(?c1, take l bs), (?c2, drop l bs)]"
    using assms(1-3,5) b1 c2(2) by (intro transfers_two) simp_all
  moreover have "fold dm_write [(?c1, take l bs), (?c2, drop l bs)] mem = ring_write i pt bs mem" for mem
    using dm_write_inside [of ?c1 i pt "take l bs" mem] assms(3,5,6) len c2(1)
      dm_write_inside [of ?c2 i 0 "drop l bs"] ring_write_wraps [OF assms(6,5)] by simp
  ultimately show ?thesis unfolding placed_def
    by (intro exI [of _ "[?c1, ?c2]"] exI [of _ "out1 @ out2"] exI [of _ "[(?c1, take l bs), (?c2, drop l bs)]"])
      (simp add: assms(7,8))
qed

text \<open>One command and its packet, for both writers: \<open>g\<close> is what they report about the number of accesses.\<close>

lemma mem_write_run:
  assumes "packed (lanes kb) ws bs" and "mw_state s = MW_IDLE" and "mw_cmdIn s = mmCmd_mk (pkgAddr i pt) len # cs"
    and "mw_dataIn s = ws @ rest" and "length bs = unat len" and kb: "0 < kb" "kb \<le> 6" and "blank (lanes kb) f"
    and ann: "announce = (\<lambda>b s. s\<lparr> mw_doubleAccess := mw_doubleAccess s @ g b \<rparr>)"
    and w: "wraps = (unat pt + unat len > 2 ^ 18)"
  shows "\<exists>m \<le> length ws + 3. \<exists>t. t = (mem_write kb announce f ^^ m) s
    \<and> mw_state t = MW_IDLE \<and> mw_cmdIn t = cs \<and> mw_dataIn t = rest
    \<and> mw_doubleAccess t = mw_doubleAccess s @ g wraps \<and> placed (lanes kb) i pt bs (if wraps then 2 else 1) s t"
proof (cases wraps)
  case False
  let ?c = "mmCmd_mk (pkgAddr i pt) len"
  let ?t = "s\<lparr> mw_cmdIn := cs, mw_cmd := ?c, mw_state := MW_FWD_ALIGNED, mw_cmdOut := mw_cmdOut s @ [?c],
      mw_doubleAccess := mw_doubleAccess s @ g False \<rparr>"
  let ?u = "?t\<lparr> mw_state := MW_IDLE, mw_dataIn := rest, mw_dataOut := mw_dataOut ?t @ ws \<rparr>"
  have "mem_write kb announce f (mem_write kb announce f s) = ?t"
    using assms(2,3) False w by (simp add: mem_write_def mw_idle_reg_def crosses_pkgAddr ann Let_def)
  moreover have "(mem_write kb announce f ^^ length ws) ?t = ?u"
    using fw_packet [OF assms(1), of ?t rest] assms(4) by simp
  ultimately have run: "(mem_write kb announce f ^^ (length ws + 2)) s = ?u"
    by (simp only: funpow_add comp_apply numeral_2_eq_2 funpow.simps id_apply)
  have "placed (lanes kb) i pt bs 1 s ?u" using placed_once [OF assms(1,5), of pt ?u s i] False w by simp
  then show ?thesis using False by (intro exI [of _ "length ws + 2"] exI [of _ ?u] conjI) (simp_all only: run, simp_all)
next
  case True
  let ?c = "mmCmd_mk (pkgAddr i pt) len"
  let ?l = "first_length ?c" and ?n = "lanes kb"
  define l where "l = unat ?l"
  have l: "l = 2 ^ 18 - unat pt" using first_length_pkgAddr [of pt len] True w by (simp add: l_def)
  have pt: "unat pt < 2 ^ 18" using unsigned_less [of pt, where 'a = nat] by simp
  have ll: "0 < l" "l < length bs" "unat pt + l = 2 ^ 18" using l pt True w assms(5) by auto
  let ?t = "s\<lparr> mw_cmdIn := cs, mw_cmd := ?c, mw_state := MW_CUT_FIRST, mw_lengthFirstPkg := ?l, mw_remainingLength := ?l,
      mw_offset := range_get ?l (kb - 1) 0, mw_cmdOut := mw_cmdOut s @ [mmCmd_mk (pkgAddr i pt) (ucast ?l)],
      mw_doubleAccess := mw_doubleAccess s @ g True \<rparr>"
  have two: "mem_write kb announce f (mem_write kb announce f s) = ?t"
    using assms(2,3) True w by (simp add: mem_write_def mw_idle_reg_def crosses_pkgAddr ann Let_def)
  have "unat (mw_remainingLength ?t) = l" "unat (mw_offset ?t) = l mod ?n" using offset_of [OF kb, of ?l] by (simp_all add: l_def)
  then obtain m out1 out2 where m: "m \<le> Suc (length ws)" "packed ?n out1 (take l bs)" "packed ?n out2 (drop l bs)"
    "mw_ran ?t rest [second_cmd ?c ?l] (out1 @ out2) ((mem_write kb announce f ^^ m) ?t)"
    using cut_run [OF assms(1) _ _ _ ll(1,2) _ refl kb(2) assms(8), of ?t rest announce] assms(4) by auto
  let ?u = "(mem_write kb announce f ^^ m) ?t"
  have run: "(mem_write kb announce f ^^ (m + 2)) s = ?u"
    by (simp only: two funpow_add comp_apply numeral_2_eq_2 funpow.simps id_apply)
  have "placed ?n i pt bs 2 s ?u"
    using m(4) by (intro placed_twice [OF m(2,3) assms(5) l_def ll(2,3)]) (simp_all add: mw_ran_def)
  moreover have "mw_state ?u = MW_IDLE" "mw_cmdIn ?u = cs" "mw_dataIn ?u = rest"
    "mw_doubleAccess ?u = mw_doubleAccess s @ g True"
    using m(4) by (simp_all add: mw_ran_def)
  ultimately show ?thesis using True m(1)
    by (intro exI [of _ "m + 2"] exI [of _ ?u] conjI) (simp_all only: run, simp_all)
qed

text \<open>
  (C6) Received payload lands in the ring.  For a write command of the receive engine and its packet, a number of invocations that is
  at most three above the number of words takes exactly this command and packet.  Each command that goes to the memory is followed
  by a packet of exactly its length; there are two when the payload crosses the end of the ring, which is reported, and one
  otherwise.  Together they put octet \<open>j\<close> of the payload at position \<open>pt + j\<close> of the ring of the session, round the circle,
  and change no other octet of the memory.
\<close>

theorem payload_lands_in_ring:
  assumes "packed (lanes kb) ws bs" and "mw_state s = MW_IDLE" and "mw_cmdIn s = mmCmd_mk (pkgAddr i pt) len # cs"
    and "mw_dataIn s = ws @ rest" and "length bs = unat len" and "0 < kb" and "kb \<le> 6" and "length junk = lanes kb"
    and "wraps = (unat pt + unat len > 2 ^ 18)"
  shows "\<exists>m \<le> length ws + 3. \<exists>t. t = (rxEngMemWrite kb junk ^^ m) s
    \<and> mw_state t = MW_IDLE \<and> mw_cmdIn t = cs \<and> mw_dataIn t = rest
    \<and> mw_doubleAccess t = mw_doubleAccess s @ [wraps] \<and> placed (lanes kb) i pt bs (if wraps then 2 else 1) s t"
  unfolding rxEngMemWrite_def
  by (rule mem_write_run [OF assms(1-7) _ _ assms(9)]) (simp_all add: assms(8) blank_def)

text \<open>
  Data of the application lands in the ring.  The same holds for the packets of the application that \<^verbatim>\<open>tasi_pkg_pusher\<close>
  writes, provided the word that it does not initialise happens to have no keep bit set.
\<close>

theorem app_data_lands_in_ring:
  assumes "packed (lanes kb) ws bs" and "mw_state s = MW_IDLE" and "mw_cmdIn s = mmCmd_mk (pkgAddr i pt) len # cs"
    and "mw_dataIn s = ws @ rest" and "length bs = unat len" and "0 < kb" and "kb \<le> 6" and "blank (lanes kb) emptyWord"
    and "wraps = (unat pt + unat len > 2 ^ 18)"
  shows "\<exists>m \<le> length ws + 3. \<exists>t. t = (tasi_pkg_pusher kb emptyWord ^^ m) s
    \<and> mw_state t = MW_IDLE \<and> mw_cmdIn t = cs \<and> mw_dataIn t = rest
    \<and> placed (lanes kb) i pt bs (if wraps then 2 else 1) s t"
proof -
  have ann: "(\<lambda>(_ :: bool) s. s) = (\<lambda>b s. s\<lparr> mw_doubleAccess := mw_doubleAccess s @ (\<lambda>_. []) b \<rparr>)" by simp
  show ?thesis
    unfolding tasi_pkg_pusher_def using mem_write_run [OF assms(1-8) ann assms(9)] by (elim exE conjE) (intro exI conjI)
qed

section \<open>Concrete packets\<close>

definition word_ex :: net_axis where
  "word_ex = \<lparr> na_data = [1, 2, 3, 4, 5, 0, 0, 0], na_keep = keep_of 8 5, na_last = True \<rparr>"

lemma packed_word_ex: "packed (lanes 3) [word_ex] [1, 2, 3, 4, 5]"
  unfolding word_ex_def lanes_def by (rule packed_end' [of _ _ 5]) simp_all

text \<open>Five octets for position 0x3fffe of the ring of session 3.\<close>

definition mw_ex :: mem_write_st where
  "mw_ex = \<lparr> mw_state = MW_IDLE, mw_cmd = mmCmd_mk 0 0, mw_remainingLength = 0, mw_lengthFirstPkg = 0, mw_offset = 0,
     mw_prevWord = word_ex, mw_dataIn = [word_ex], mw_cmdIn = [mmCmd_mk (pkgAddr 3 0x3fffe) 5], mw_cmdOut = [], mw_dataOut = [],
     mw_doubleAccess = [] \<rparr>"

theorem payload_lands_in_ring_witness:
  "\<exists>m \<le> 4. \<exists>t. t = (rxEngMemWrite 3 (replicate 8 0) ^^ m) mw_ex \<and> mw_doubleAccess t = [True]
    \<and> placed (lanes 3) 3 0x3fffe [1, 2, 3, 4, 5] 2 mw_ex t"
proof -
  have len: "length (replicate 8 (0 :: u8)) = lanes 3" by (simp add: lanes_def)
  show ?thesis
    using payload_lands_in_ring [OF packed_word_ex, of mw_ex 3 "0x3fffe" 5 "[]" "[]" "replicate 8 0", OF _ _ _ _ _ _ len refl]
    by (auto simp: mw_ex_def)
qed

theorem app_data_lands_in_ring_witness:
  "\<exists>m \<le> 4. \<exists>t. t = (tasi_pkg_pusher 3 \<lparr> na_data = replicate 8 0, na_keep = replicate 8 False, na_last = False \<rparr> ^^ m) mw_ex
    \<and> mw_state t = MW_IDLE \<and> placed (lanes 3) 3 0x3fffe [1, 2, 3, 4, 5] 2 mw_ex t"
proof -
  have blank: "blank (lanes 3) \<lparr> na_data = replicate 8 0, na_keep = replicate 8 False, na_last = False \<rparr>"
    by (simp add: lanes_def blank_def)
  show ?thesis
    using app_data_lands_in_ring [OF packed_word_ex, of mw_ex 3 "0x3fffe" 5 "[]" "[]", OF _ _ _ _ _ _ blank refl]
    by (auto simp: mw_ex_def)
qed

text \<open>When the word that \<^verbatim>\<open>tasi_pkg_pusher\<close> does not initialise has keep bits set, its last word claims octets that are not
  data: here a residue of three octets comes with a word that keeps five.\<close>

lemma pusher_residue_keeps_junk:
  "map na_keep (mw_dataOut (tasi_pkg_pusher 3 \<lparr> na_data = replicate 8 0, na_keep = replicate 8 True, na_last = False \<rparr>
      (mw_ex\<lparr> mw_state := MW_RESIDUE, mw_offset := 2 \<rparr>))) = [[True, True, True, False, False, False, True, True]]"
  by code_simp

end
