(* ===== verification/Ring_Read.thy ===== *)
theory Ring_Read
  imports Ring_Write
begin

text \<open>
  The payload on its way from the packet memory to the wire (tx\_engine.cpp): \<^verbatim>\<open>txEngMemAccessBreakdown\<close>, which splits a
  read command where the ring of the session wraps, \<^verbatim>\<open>read_data_stitching\<close>, which puts the two parts together again, and
  \<^verbatim>\<open>read_data_arbiter\<close>, which takes the payload of a segment from the memory or directly from the application.

  The lemmas show that stitching joins the octets of the parts whatever their alignment, that reading gives back what was written
  where the split is right, that the split is wrong for a wrapped read of any session but those of the first ring, and
  that every segment gets its own payload.
\<close>

section \<open>Reading from the ring\<close>

subsection \<open>Splitting the read command\<close>

record tx_breakdown_st =
  txEngBreakdownState :: u1
  tb_cmd :: mmCmd
  tb_lengthFirstAccess :: win
  tb_inputMemAccess :: "mmCmd list"
  tb_outputMemAccess :: "mmCmd list"
  tb_memAccessBreakdown2txPkgStitcher :: "bool list"

definition txEngMemAccessBreakdown :: "tx_breakdown_st \<Rightarrow> tx_breakdown_st" where
  "txEngMemAccessBreakdown s =
     (if txEngBreakdownState s = 0
      then (case tb_inputMemAccess s of
              [] \<Rightarrow> s
            | cmd # q \<Rightarrow>
                (let s1 = s\<lparr> tb_inputMemAccess := q, tb_cmd := cmd \<rparr>
                 in if crosses cmd
                    then s1\<lparr> tb_lengthFirstAccess := first_length cmd,
                             tb_memAccessBreakdown2txPkgStitcher := tb_memAccessBreakdown2txPkgStitcher s @ [True],
                             tb_outputMemAccess := tb_outputMemAccess s @ [mmCmd_mk (mc_saddr cmd) (ucast (first_length cmd))],
                             txEngBreakdownState := 1 \<rparr>
                    else s1\<lparr> tb_memAccessBreakdown2txPkgStitcher := tb_memAccessBreakdown2txPkgStitcher s @ [False],
                             tb_outputMemAccess := tb_outputMemAccess s @ [cmd] \<rparr>))
      else s\<lparr> tb_outputMemAccess := tb_outputMemAccess s @
                [mmCmd_mk 0 (ucast (mc_bbt (tb_cmd s) - ucast (tb_lengthFirstAccess s)))],
              txEngBreakdownState := 0 \<rparr>)"

subsection \<open>Stitching the two parts\<close>

datatype stitch_state = RS_IDLE | RS_FIRST_PART | RS_STITCH | RS_ATTACH_ALIGNED | RS_RESIDUE

record stitch_st =
  rs_state :: stitch_state
  rs_prevWord :: net_axis
  rs_pkgNeedsMerge :: bool
  rs_offset :: u8
  rs_memAccessBreakdown2readPkgStitcher :: "bool list"
  rs_readDataIn :: "net_axis list"
  rs_readDataOut :: "net_axis list"

text \<open>A word of the first access: it is sent on unless it is a last word that the second access has to fill up.\<close>

definition rs_first :: "nat \<Rightarrow> net_axis \<Rightarrow> stitch_st \<Rightarrow> stitch_st" where
  "rs_first kb w s =
     (let s1 = s\<lparr> rs_offset := keepToLen (keep_val (na_keep w)) \<rparr>
      in if na_last w
         then if rs_pkgNeedsMerge s
              then (let w1 = w\<lparr> na_last := False \<rparr>
                    in if \<not> na_keep w ! (lanes kb - 1)
                       then s1\<lparr> rs_state := RS_STITCH, rs_prevWord := w1 \<rparr>
                       else s1\<lparr> rs_readDataOut := rs_readDataOut s @ [w1], rs_state := RS_ATTACH_ALIGNED, rs_prevWord := w1 \<rparr>)
              else s1\<lparr> rs_readDataOut := rs_readDataOut s @ [w], rs_state := RS_IDLE, rs_prevWord := w \<rparr>
         else s1\<lparr> rs_readDataOut := rs_readDataOut s @ [w], rs_state := RS_FIRST_PART, rs_prevWord := w \<rparr>)"

definition rs_stitch :: "nat \<Rightarrow> net_axis \<Rightarrow> stitch_st \<Rightarrow> stitch_st" where
  "rs_stitch kb w s =
     (let o' = unat (rs_offset s); n = lanes kb; p = rs_prevWord s; lst = (\<not> na_keep w ! (n - o'));
          send = \<lparr> na_data = take o' (na_data p) @ take (n - o') (na_data w),
                   na_keep = take o' (na_keep p) @ take (n - o') (na_keep w), na_last = lst \<rparr>
      in s\<lparr> rs_readDataOut := rs_readDataOut s @ [send],
            rs_prevWord := p\<lparr> na_data := drop (n - o') (na_data w) @ drop o' (na_data p),
                              na_keep := drop (n - o') (na_keep w) @ drop o' (na_keep p) \<rparr>,
            rs_state := (if na_last w then if lst then RS_IDLE else RS_RESIDUE else RS_STITCH) \<rparr>)"

text \<open>\<open>junk\<close>: the data of the lanes behind the residue, which only the simulation sets.\<close>

definition rs_residue :: "nat \<Rightarrow> u8 list \<Rightarrow> stitch_st \<Rightarrow> stitch_st" where
  "rs_residue kb junk s =
     (let o' = unat (rs_offset s); p = rs_prevWord s
      in s\<lparr> rs_readDataOut := rs_readDataOut s @
              [\<lparr> na_data = take o' (na_data p) @ drop o' junk,
                 na_keep = take o' (na_keep p) @ replicate (lanes kb - o') False, na_last = True \<rparr>],
            rs_state := RS_IDLE \<rparr>)"

definition read_data_stitching :: "nat \<Rightarrow> u8 list \<Rightarrow> stitch_st \<Rightarrow> stitch_st" where
  "read_data_stitching kb junk s =
     (case rs_state s of
        RS_IDLE \<Rightarrow>
          (case (rs_memAccessBreakdown2readPkgStitcher s, rs_readDataIn s) of
             (b # bs, w # ws) \<Rightarrow> rs_first kb w (s\<lparr> rs_memAccessBreakdown2readPkgStitcher := bs, rs_pkgNeedsMerge := b,
                                                  rs_readDataIn := ws \<rparr>)
           | _ \<Rightarrow> s)
      | RS_FIRST_PART \<Rightarrow>
          (case rs_readDataIn s of [] \<Rightarrow> s | w # ws \<Rightarrow> rs_first kb w (s\<lparr> rs_readDataIn := ws \<rparr>))
      | RS_ATTACH_ALIGNED \<Rightarrow>
          (case rs_readDataIn s of [] \<Rightarrow> s
           | w # ws \<Rightarrow> s\<lparr> rs_readDataIn := ws, rs_readDataOut := rs_readDataOut s @ [w],
                          rs_state := (if na_last w then RS_IDLE else RS_ATTACH_ALIGNED) \<rparr>)
      | RS_STITCH \<Rightarrow>
          (case rs_readDataIn s of [] \<Rightarrow> s | w # ws \<Rightarrow> rs_stitch kb w (s\<lparr> rs_readDataIn := ws \<rparr>))
      | RS_RESIDUE \<Rightarrow> rs_residue kb junk s)"

definition at_absorb :: "net_axis \<times> bool \<Rightarrow> stitch_st \<Rightarrow> stitch_st" where
  "at_absorb w s = s\<lparr> rs_readDataIn := tl (rs_readDataIn s), rs_readDataOut := rs_readDataOut s @ [fst w],
     rs_state := (if snd w then RS_IDLE else RS_ATTACH_ALIGNED) \<rparr>"

interpretation attach: packet_mover "read_data_stitching kb junk" "\<lambda>s. rs_state s = RS_ATTACH_ALIGNED"
  "\<lambda>s. map marked (rs_readDataIn s)" at_absorb
  by unfold_locales (auto simp: read_data_stitching_def at_absorb_def marked_def)

text \<open>The effect of a run of the stitcher: it wrote \<open>out\<close> and left \<open>rest\<close>.\<close>

definition rs_ran :: "stitch_st \<Rightarrow> net_axis list \<Rightarrow> net_axis list \<Rightarrow> stitch_st \<Rightarrow> bool" where
  "rs_ran s rest out t \<longleftrightarrow> rs_state t = RS_IDLE \<and> rs_readDataIn t = rest \<and> rs_readDataOut t = rs_readDataOut s @ out
     \<and> rs_memAccessBreakdown2readPkgStitcher t = rs_memAccessBreakdown2readPkgStitcher s"

lemma at_absorb_packet:
  "\<lbrakk> ws \<noteq> []; rs_readDataIn s = ws @ rest; na_last (last ws) \<rbrakk> \<Longrightarrow> rs_ran s rest ws (fold at_absorb (map marked ws) s)"
proof (induction ws arbitrary: s)
  case (Cons w ws)
  then show ?case
    using Cons.IH [of "at_absorb (marked w) s"]
    by (cases "ws = []") (simp_all add: at_absorb_def marked_def rs_ran_def)
qed simp

lemma attach_packet:
  assumes "packed n ws bs" and "rs_state s = RS_ATTACH_ALIGNED" and "rs_readDataIn s = ws @ rest"
  shows "rs_ran s rest ws ((read_data_stitching kb junk ^^ length ws) s)"
proof -
  have "ws \<noteq> []" and "na_last (last ws)"
    using packed_is_packet [OF assms(1)] by (auto simp: is_packet_def last_map marked_def)
  then show ?thesis
    using attach.moves_packet [OF packed_is_packet [OF assms(1)] assms(2), of "map marked rest" kb junk]
      at_absorb_packet [OF _ assms(3)] assms(3) by simp
qed

lemma stitch_run:
  assumes "packed n ws bs" and "rs_state s = RS_STITCH" and "rs_readDataIn s = ws @ rest" and "unat (rs_offset s) = o'"
    and "take o' (na_data (rs_prevWord s)) = d" and "take o' (na_keep (rs_prevWord s)) = replicate o' True" and "length d = o'"
    and o': "0 < o'" "o' < n" and n: "n = lanes kb" and junk: "length junk = n"
  shows "\<exists>m \<le> Suc (length ws). \<exists>out. rs_ran s rest out ((read_data_stitching kb junk ^^ m) s) \<and> packed n out (d @ bs)"
  using assms(1-7)
proof (induction arbitrary: s d rule: packed.induct)
  case (packed_end d' k)
  let ?send = "\<lparr> na_data = d @ take (n - o') d', na_keep = keep_of n (o' + min k (n - o')), na_last = k \<le> n - o' \<rparr>"
  let ?t = "read_data_stitching kb junk s"
  have ks: "replicate o' True @ take (n - o') (keep_of n k) = keep_of n (o' + min k (n - o'))"
    using o' packed_end.hyps by (intro keep_of_eqI) (auto simp: nth_append nth_keep_of)
  have t: "rs_readDataOut ?t = rs_readDataOut s @ [?send]" "rs_readDataIn ?t = rest" "rs_offset ?t = rs_offset s"
    "rs_memAccessBreakdown2readPkgStitcher ?t = rs_memAccessBreakdown2readPkgStitcher s"
    "rs_state ?t = (if k \<le> n - o' then RS_IDLE else RS_RESIDUE)"
    "take o' (na_data (rs_prevWord ?t)) = drop (n - o') d'" "take o' (na_keep (rs_prevWord ?t)) = drop (n - o') (keep_of n k)"
    using packed_end.prems packed_end.hyps o' n ks
    by (simp_all add: read_data_stitching_def rs_stitch_def Let_def nth_keep_of not_less)
  show ?case
  proof (cases "k \<le> n - o'")
    case True
    have "packed n [\<lparr> na_data = d @ take (n - o') d', na_keep = keep_of n (o' + min k (n - o')), na_last = True \<rparr>] (d @ take k d')"
      using packed_end.hyps packed_end.prems(6) o' True by (intro packed_end' [of _ n "o' + k"]) (simp_all add: min_absorb1)
    with True have "packed n [?send] (d @ take k d')" by simp
    then show ?thesis using t True by (intro exI [of _ 1] conjI exI [of _ "[?send]"]) (simp_all add: rs_ran_def)
  next
    case False
    let ?res = "\<lparr> na_data = drop (n - o') d' @ drop o' junk, na_keep = keep_of n (k - (n - o')), na_last = True \<rparr>"
    have "drop (n - o') (keep_of n k) @ replicate (n - o') False = keep_of n (k - (n - o'))"
      using packed_end.hyps o' by (intro keep_of_eqI) (auto simp: nth_append nth_keep_of)
    then have "rs_readDataOut (read_data_stitching kb junk ?t) = rs_readDataOut s @ [?send, ?res]"
      "rs_ran ?t rest [?res] (read_data_stitching kb junk ?t)"
      using t False packed_end.prems(3) n by (simp_all add: read_data_stitching_def [of kb junk ?t] rs_residue_def Let_def rs_ran_def)
    then have "rs_ran s rest [?send, ?res] (read_data_stitching kb junk ?t)"
      using t by (simp add: rs_ran_def)
    moreover have "packed n [?res] (take (k - (n - o')) (drop (n - o') d'))"
      using packed_end.hyps o' junk False by (intro packed_end' [of _ n "k - (n - o')"]) simp_all
    then have "packed n [?send, ?res] (d @ take k d')"
      using False packed_end.hyps packed_end.prems(6) o' take_add [of "n - o'" "k - (n - o')" d']
      by (simp add: packed_word' [of "d @ take (n - o') d'" n])
    ultimately show ?thesis by (intro exI [of _ 2] conjI exI [of _ "[?send, ?res]"]) (simp_all add: numeral_2_eq_2)
  qed
next
  case (packed_word d' ws bs)
  let ?send = "\<lparr> na_data = d @ take (n - o') d', na_keep = keep_of n n, na_last = False \<rparr>"
  let ?t = "read_data_stitching kb junk s"
  have ks: "replicate o' True @ take (n - o') (keep_of n n) = keep_of n n"
    using o' by (intro keep_of_eqI) (auto simp: nth_append nth_keep_of)
  have "drop (n - o') (keep_of n n) = replicate o' True"
    using o' by (simp add: keep_of_def)
  then have t: "rs_readDataOut ?t = rs_readDataOut s @ [?send]" "rs_readDataIn ?t = ws @ rest" "rs_offset ?t = rs_offset s"
    "rs_memAccessBreakdown2readPkgStitcher ?t = rs_memAccessBreakdown2readPkgStitcher s" "rs_state ?t = RS_STITCH"
    "take o' (na_data (rs_prevWord ?t)) = drop (n - o') d'" "take o' (na_keep (rs_prevWord ?t)) = replicate o' True"
    using packed_word.prems packed_word.hyps o' n ks
    by (simp_all add: read_data_stitching_def rs_stitch_def Let_def nth_keep_of)
  have "unat (rs_offset ?t) = o'" "length (drop (n - o') d') = o'" using t(3) packed_word.prems(3) packed_word.hyps(1) o' by simp_all
  then obtain m out where m: "m \<le> Suc (length ws)" "rs_ran ?t rest out ((read_data_stitching kb junk ^^ m) ?t)"
    "packed n out (drop (n - o') d' @ bs)"
    using packed_word.IH [OF t(5,2) _ t(6,7)] by blast
  have "rs_ran s rest (?send # out) ((read_data_stitching kb junk ^^ Suc m) s)"
    using m(2) t by (simp add: funpow_swap1 rs_ran_def)
  moreover have "packed n (?send # out) (d @ d' @ bs)"
    using m(3) packed_word.hyps(1) packed_word.prems(6) o' by (intro packed_word') auto
  ultimately show ?case using m(1) by (intro exI [of _ "Suc m"] conjI exI [of _ "?send # out"]) simp_all
qed

lemma first_part_end:
  assumes "rs_state s = RS_FIRST_PART" and "rs_readDataIn s = \<lparr> na_data = d, na_keep = keep_of n k, na_last = True \<rparr> # ws2 @ rest"
    and "length d = n" and k: "0 < k" "k \<le> n" and n: "n = lanes kb" "n \<le> 64" and junk: "length junk = n"
    and "rs_pkgNeedsMerge s" and "packed n ws2 b2"
  shows "\<exists>m \<le> length ws2 + 2. \<exists>out. rs_ran s rest out ((read_data_stitching kb junk ^^ m) s) \<and> packed n out (take k d @ b2)"
proof -
  let ?w1 = "\<lparr> na_data = d, na_keep = keep_of n k, na_last = False \<rparr>"
  let ?t = "read_data_stitching kb junk s"
  have off: "unat (keepToLen (keep_val (keep_of n k))) = k" using k n(2) by (rule keepToLen_keep_of)
  have keep: "keep_of n k ! (lanes kb - 1) \<longleftrightarrow> k = n" using k n(1) by (auto simp: nth_keep_of)
  have shift: "(read_data_stitching kb junk ^^ Suc m) s = (read_data_stitching kb junk ^^ m) ?t" for m
    by (simp add: funpow_swap1)
  show ?thesis
  proof (cases "k = n")
    case True
    have t: "rs_state ?t = RS_ATTACH_ALIGNED" "rs_readDataIn ?t = ws2 @ rest" "rs_readDataOut ?t = rs_readDataOut s @ [?w1]"
      "rs_memAccessBreakdown2readPkgStitcher ?t = rs_memAccessBreakdown2readPkgStitcher s"
      using assms(1,2,9) keep True by (simp_all add: read_data_stitching_def rs_first_def Let_def)
    have "rs_ran s rest (?w1 # ws2) ((read_data_stitching kb junk ^^ Suc (length ws2)) s)"
      unfolding shift using attach_packet [OF assms(10) t(1,2), of kb junk] t(3,4) by (simp add: rs_ran_def)
    moreover have "packed n (?w1 # ws2) (take k d @ b2)"
      using True assms(3,10) by (intro packed_word') simp_all
    ultimately show ?thesis by (intro exI [of _ "Suc (length ws2)"] conjI exI [of _ "?w1 # ws2"]) simp_all
  next
    case False
    have t: "rs_state ?t = RS_STITCH" "rs_readDataIn ?t = ws2 @ rest" "unat (rs_offset ?t) = k" "rs_prevWord ?t = ?w1"
      "rs_readDataOut ?t = rs_readDataOut s" "rs_memAccessBreakdown2readPkgStitcher ?t = rs_memAccessBreakdown2readPkgStitcher s"
      using assms(1,2,9) keep False off by (simp_all add: read_data_stitching_def rs_first_def Let_def)
    have "take k (na_data (rs_prevWord ?t)) = take k d" "take k (na_keep (rs_prevWord ?t)) = replicate k True"
      "length (take k d) = k" "k < n"
      using t(4) assms(3) k False by (simp_all add: keep_of_def)
    then obtain m out where m: "m \<le> Suc (length ws2)" "rs_ran ?t rest out ((read_data_stitching kb junk ^^ m) ?t)"
      "packed n out (take k d @ b2)"
      using stitch_run [OF assms(10) t(1-3) _ _ _ k(1) _ n(1) junk, of "take k d"] by blast
    then have "rs_ran s rest out ((read_data_stitching kb junk ^^ Suc m) s)"
      unfolding shift using t(5,6) by (simp add: rs_ran_def)
    with m show ?thesis by (intro exI [of _ "Suc m"] conjI exI [of _ out]) simp_all
  qed
qed

lemma first_part_run:
  assumes "packed n ws1 b1" and "rs_state s = RS_FIRST_PART" and "rs_readDataIn s = ws1 @ ws2 @ rest" and "rs_pkgNeedsMerge s"
    and "packed n ws2 b2" and "n = lanes kb" and "n \<le> 64" and "length junk = n"
  shows "\<exists>m \<le> length ws1 + length ws2 + 1. \<exists>out. rs_ran s rest out ((read_data_stitching kb junk ^^ m) s) \<and> packed n out (b1 @ b2)"
  using assms(1-4)
proof (induction arbitrary: s rule: packed.induct)
  case (packed_end d k)
  then show ?case
    using first_part_end [OF packed_end.prems(1) _ packed_end.hyps assms(6-8) packed_end.prems(3) assms(5), of rest] by simp
next
  case (packed_word d ws bs)
  let ?v = "\<lparr> na_data = d, na_keep = keep_of n n, na_last = False \<rparr>"
  let ?t = "read_data_stitching kb junk s"
  have t: "rs_state ?t = RS_FIRST_PART" "rs_readDataIn ?t = ws @ ws2 @ rest" "rs_pkgNeedsMerge ?t"
    "rs_readDataOut ?t = rs_readDataOut s @ [?v]"
    "rs_memAccessBreakdown2readPkgStitcher ?t = rs_memAccessBreakdown2readPkgStitcher s"
    using packed_word.prems by (simp_all add: read_data_stitching_def rs_first_def Let_def)
  obtain m out where m: "m \<le> length ws + length ws2 + 1" "rs_ran ?t rest out ((read_data_stitching kb junk ^^ m) ?t)"
    "packed n out (bs @ b2)"
    using packed_word.IH [OF t(1-3)] by blast
  have "rs_ran s rest (?v # out) ((read_data_stitching kb junk ^^ Suc m) s)"
    using m(2) t(4,5) by (simp add: funpow_swap1 rs_ran_def)
  moreover have "packed n (?v # out) ((d @ bs) @ b2)"
    using packed_word.hyps(1) m(3) by (intro packed_word') simp_all
  ultimately show ?case using m(1) by (intro exI [of _ "Suc m"] conjI exI [of _ "?v # out"]) simp_all
qed

lemma whole_part_run:
  assumes "packed n ws bs" and "rs_state s = RS_FIRST_PART" and "rs_readDataIn s = ws @ rest" and "\<not> rs_pkgNeedsMerge s"
  shows "rs_ran s rest ws ((read_data_stitching kb junk ^^ length ws) s)"
  using assms
proof (induction arbitrary: s rule: packed.induct)
  case (packed_end d k)
  then show ?case by (simp add: read_data_stitching_def rs_first_def Let_def rs_ran_def)
next
  case (packed_word d ws bs)
  let ?t = "read_data_stitching kb junk s"
  have "rs_state ?t = RS_FIRST_PART" "rs_readDataIn ?t = ws @ rest" "\<not> rs_pkgNeedsMerge ?t"
    "rs_readDataOut ?t = rs_readDataOut s @ [\<lparr> na_data = d, na_keep = keep_of n n, na_last = False \<rparr>]"
    "rs_memAccessBreakdown2readPkgStitcher ?t = rs_memAccessBreakdown2readPkgStitcher s"
    using packed_word.prems by (simp_all add: read_data_stitching_def rs_first_def Let_def)
  then show ?case using packed_word.IH [of ?t] by (simp add: funpow_swap1 rs_ran_def)
qed

text \<open>With a flag and a word there, the idle state does what the state of the first part does.\<close>

lemma idle_is_first_part:
  assumes "rs_state s = RS_IDLE" and "rs_memAccessBreakdown2readPkgStitcher s = b # q" and "rs_readDataIn s \<noteq> []" and "0 < m"
  shows "(read_data_stitching kb junk ^^ m) s = (read_data_stitching kb junk ^^ m)
    (s\<lparr> rs_memAccessBreakdown2readPkgStitcher := q, rs_pkgNeedsMerge := b, rs_state := RS_FIRST_PART \<rparr>)"
proof -
  obtain k where k: "m = Suc k" using assms(4) gr0_implies_Suc by blast
  have "read_data_stitching kb junk s = read_data_stitching kb junk
      (s\<lparr> rs_memAccessBreakdown2readPkgStitcher := q, rs_pkgNeedsMerge := b, rs_state := RS_FIRST_PART \<rparr>)"
    using assms(1-3) by (auto simp: neq_Nil_conv read_data_stitching_def rs_first_def Let_def)
  then show ?thesis by (simp add: k funpow_swap1)
qed

text \<open>
  The parts of a split read are put together.  For a flag and the packets that it stands for, two when it is set and one
  otherwise, a number of invocations that is at most one above the number of words sends exactly one packet on, which carries the
  octets of the first packet followed by those of the second, whatever their lengths, and takes exactly these words and this flag.
\<close>

theorem parts_stitched:
  assumes "rs_state s = RS_IDLE" and "rs_memAccessBreakdown2readPkgStitcher s = b # q" and "rs_readDataIn s = ws1 @ ws2 @ rest"
    and "packed (lanes kb) ws1 b1" and "if b then packed (lanes kb) ws2 b2 else ws2 = [] \<and> b2 = []"
    and "kb \<le> 6" and "length junk = lanes kb"
  shows "\<exists>m \<le> length ws1 + length ws2 + 1. \<exists>t out. t = (read_data_stitching kb junk ^^ m) s \<and> rs_state t = RS_IDLE
    \<and> rs_memAccessBreakdown2readPkgStitcher t = q \<and> rs_readDataIn t = rest
    \<and> rs_readDataOut t = rs_readDataOut s @ out \<and> packed (lanes kb) out (b1 @ b2)"
proof -
  let ?s = "s\<lparr> rs_memAccessBreakdown2readPkgStitcher := q, rs_pkgNeedsMerge := b, rs_state := RS_FIRST_PART \<rparr>"
  have n: "lanes kb \<le> 64" using assms(6) power_increasing [of kb 6 "2 :: nat"] by (simp add: lanes_def)
  have ne: "rs_readDataIn s \<noteq> []" using packed_length [OF assms(4)] assms(3) by simp
  obtain m out where m: "m \<le> length ws1 + length ws2 + 1" "rs_ran ?s rest out ((read_data_stitching kb junk ^^ m) ?s)"
    "packed (lanes kb) out (b1 @ b2)"
  proof (cases b)
    case True
    then show thesis
      using first_part_run [OF assms(4), of ?s ws2 rest b2 kb junk] assms(3,5,7) n that by auto
  next
    case False
    then show thesis
      using whole_part_run [OF assms(4), of ?s rest kb junk] assms(3-5) that [of "length ws1" ws1] by simp
  qed
  have "0 < m"
  proof (rule ccontr)
    assume "\<not> 0 < m"
    then show False using m(2) by (simp add: rs_ran_def)
  qed
  then have "(read_data_stitching kb junk ^^ m) s = (read_data_stitching kb junk ^^ m) ?s"
    by (rule idle_is_first_part [OF assms(1,2) ne])
  then show ?thesis using m by (intro exI [of _ m] conjI exI [of _ "(read_data_stitching kb junk ^^ m) ?s"] exI [of _ out])
      (simp_all add: rs_ran_def)
qed

subsection \<open>What a read returns\<close>

text \<open>What a memory returns for a read command, and the octets of the ring of a session from a position on.\<close>

definition dm_read :: "(u32 \<Rightarrow> u8) \<Rightarrow> mmCmd \<Rightarrow> u8 list" where
  "dm_read mem c = map (\<lambda>j. mem (mc_saddr c + of_nat j)) [0..<unat (mc_bbt c)]"

definition ring_read :: "u16 \<Rightarrow> win \<Rightarrow> nat \<Rightarrow> (u32 \<Rightarrow> u8) \<Rightarrow> u8 list" where
  "ring_read i pt len mem = map (\<lambda>j. mem (pkgAddr i (pt + of_nat j))) [0..<len]"

lemma pkgAddr_add:
  assumes "unat pt + j < 2 ^ 18"
  shows "pkgAddr i pt + of_nat j = pkgAddr i (pt + of_nat j)"
proof -
  have "unat (of_nat j :: win) = j" and j: "unat (of_nat j :: u32) = j" using assms by (simp_all add: unat_of_nat_mod)
  then have "unat (pt + of_nat j) = unat pt + j" using assms by (simp add: unat_word_ariths(1))
  then have "unat (pkgAddr i (pt + of_nat j)) = unat (pkgAddr i pt) + j" by (simp add: unat_pkgAddr)
  moreover have "unat (pkgAddr i pt) + j < 2 ^ 32"
    using session_field_less [of i] assms by (simp add: unat_pkgAddr)
  then have "unat (pkgAddr i pt + of_nat j) = unat (pkgAddr i pt) + j" using j by (simp add: unat_word_ariths(1))
  ultimately show ?thesis by (simp add: word_unat_eq_iff)
qed

lemma dm_read_inside:
  assumes "mc_saddr c = pkgAddr i pt" and "unat pt + unat (mc_bbt c) \<le> 2 ^ 18"
  shows "dm_read mem c = ring_read i pt (unat (mc_bbt c)) mem"
  using assms by (auto simp: dm_read_def ring_read_def pkgAddr_add)

lemma ring_read_append: "ring_read i pt (k + l) mem = ring_read i pt k mem @ ring_read i (pt + of_nat k) l mem"
proof -
  have "map (\<lambda>j. mem (pkgAddr i (pt + of_nat j))) [k..<k + l] = ring_read i (pt + of_nat k) l mem"
    by (rule nth_equalityI) (simp_all add: ring_read_def add.assoc)
  then show ?thesis by (simp add: ring_read_def upt_add_eq_append [of 0 k])
qed

lemma ring_read_write:
  assumes "length bs < 2 ^ 18"
  shows "ring_read i pt (length bs) (ring_write i pt bs mem) = bs"
proof (rule nth_equalityI)
  show "length (ring_read i pt (length bs) (ring_write i pt bs mem)) = length bs" by (simp add: ring_read_def)
  fix j
  assume "j < length (ring_read i pt (length bs) (ring_write i pt bs mem))"
  then have j: "j < length bs" by (simp add: ring_read_def)
  have "ucast (pkgAddr i p) = p" for p
    by (rule bit_word_eqI) (simp add: pkgAddr_def range_bits bit_simps)
  moreover have "unat (of_nat j :: win) = j" using j assms by (simp add: unat_of_nat_mod)
  ultimately show "ring_read i pt (length bs) (ring_write i pt bs mem) ! j = bs ! j"
    using j by (simp add: ring_read_def ring_write_def drop_bit_pkgAddr wdist_add)
qed

text \<open>
  The rings of different sessions do not interfere.  Writing to the ring of a session leaves everything that can be read from the
  ring of another one as it was, whatever the positions and lengths, as long as the session numbers differ in the twelve bits
  that the address has room for.
\<close>

theorem session_rings_disjoint:
  assumes "take_bit 12 i \<noteq> take_bit 12 j"
  shows "ring_read j p len (ring_write i pt bs mem) = ring_read j p len mem"
proof -
  have "(ucast (take_bit 12 j) :: u32) \<noteq> ucast (take_bit 12 i)"
    using assms by (simp add: word_unat_eq_iff unat_ucast_up)
  then show ?thesis by (simp add: ring_read_def ring_write_def drop_bit_pkgAddr)
qed

text \<open>Sessions 5 and 4101 differ and have the same ring: \<^verbatim>\<open>pkgAddr(29, 18) = sessionID(13, 0)\<close> loses two bits.\<close>

lemma session_rings_alias: "pkgAddr 5 pt = pkgAddr 4101 pt"
  by (simp add: word_unat_eq_iff unat_pkgAddr)

text \<open>The commands of a read that crosses the end of the ring: the second one goes to address 0, the start of the ring of
  session 0.\<close>

lemma breakdown_once:
  assumes "txEngBreakdownState s = 0" and "tb_inputMemAccess s = mmCmd_mk (pkgAddr i pt) len # q"
    and "\<not> unat pt + unat len > 2 ^ 18"
  shows "txEngMemAccessBreakdown s = s\<lparr> tb_inputMemAccess := q, tb_cmd := mmCmd_mk (pkgAddr i pt) len,
      tb_memAccessBreakdown2txPkgStitcher := tb_memAccessBreakdown2txPkgStitcher s @ [False],
      tb_outputMemAccess := tb_outputMemAccess s @ [mmCmd_mk (pkgAddr i pt) len] \<rparr>"
  using assms by (simp add: txEngMemAccessBreakdown_def Let_def crosses_pkgAddr)

lemma breakdown_twice:
  assumes "txEngBreakdownState s = 0" and "tb_inputMemAccess s = mmCmd_mk (pkgAddr i pt) len # q"
    and w: "unat pt + unat len > 2 ^ 18" and "t = (txEngMemAccessBreakdown ^^ 2) s"
  shows "txEngBreakdownState t = 0" and "tb_inputMemAccess t = q"
    and "tb_memAccessBreakdown2txPkgStitcher t = tb_memAccessBreakdown2txPkgStitcher s @ [True]"
    and "\<exists>l1 l2. tb_outputMemAccess t = tb_outputMemAccess s @ [mmCmd_mk (pkgAddr i pt) l1, mmCmd_mk 0 l2]
      \<and> unat l1 = 2 ^ 18 - unat pt \<and> unat l2 = unat pt + unat len - 2 ^ 18"
proof -
  let ?c = "mmCmd_mk (pkgAddr i pt) len"
  let ?l = "first_length ?c"
  let ?d = "mc_bbt ?c - ucast ?l"
  have t: "t = s\<lparr> tb_inputMemAccess := q, tb_cmd := ?c, tb_lengthFirstAccess := ?l,
      tb_memAccessBreakdown2txPkgStitcher := tb_memAccessBreakdown2txPkgStitcher s @ [True],
      tb_outputMemAccess := tb_outputMemAccess s @ [mmCmd_mk (pkgAddr i pt) (ucast ?l), mmCmd_mk 0 (ucast ?d)] \<rparr>"
    using assms by (simp add: numeral_2_eq_2 txEngMemAccessBreakdown_def Let_def crosses_pkgAddr)
  show "txEngBreakdownState t = 0" and "tb_inputMemAccess t = q"
    and "tb_memAccessBreakdown2txPkgStitcher t = tb_memAccessBreakdown2txPkgStitcher s @ [True]"
    using assms(1) by (simp_all add: t)
  have len: "unat len < 2 ^ 16" using unsigned_less [of len, where 'a = nat] by simp
  have l: "unat ?l = 2 ^ 18 - unat pt" by (rule first_length_pkgAddr [OF w])
  then have "unat (ucast ?l :: u16) = 2 ^ 18 - unat pt"
    using len w by (simp add: unsigned_ucast_eq take_bit_nat_eq_self)
  moreover have "ucast ?l \<le> mc_bbt ?c" using l w by (simp add: word_le_nat_alt unat_ucast_up)
  then have "unat ?d = unat len - (2 ^ 18 - unat pt)" using l by (simp add: unat_sub unat_ucast_up)
  then have "unat (ucast ?d :: u16) = unat pt + unat len - 2 ^ 18"
    using len w unsigned_less [of pt, where 'a = nat] by (simp add: unsigned_ucast_eq take_bit_nat_eq_self)
  ultimately show "\<exists>l1 l2. tb_outputMemAccess t = tb_outputMemAccess s @ [mmCmd_mk (pkgAddr i pt) l1, mmCmd_mk 0 l2]
      \<and> unat l1 = 2 ^ 18 - unat pt \<and> unat l2 = unat pt + unat len - 2 ^ 18"
    by (intro exI [of _ "ucast ?l"] exI [of _ "ucast ?d"]) (simp add: t)
qed

text \<open>
  A wrapped read leaves the ring of the session.  The second command of a read that crosses the end of the ring always goes to
  address 0, so for a session whose ring is not the first one, the octets behind the wrap come from the ring of session 0.
\<close>

theorem wrapped_read_leaves_ring:
  assumes "txEngBreakdownState s = 0" and "tb_inputMemAccess s = [mmCmd_mk (pkgAddr i pt) len]"
    and "unat pt + unat len > 2 ^ 18" and "take_bit 12 i \<noteq> 0" and "tb_outputMemAccess s = []"
  shows "\<exists>c1 c2. tb_outputMemAccess ((txEngMemAccessBreakdown ^^ 2) s) = [c1, c2]
    \<and> dm_read mem c2 = ring_read 0 0 (unat pt + unat len - 2 ^ 18) mem
    \<and> drop_bit 18 (mc_saddr c2) \<noteq> drop_bit 18 (pkgAddr i 0)"
proof -
  obtain l1 l2 where l: "tb_outputMemAccess ((txEngMemAccessBreakdown ^^ 2) s) = [mmCmd_mk (pkgAddr i pt) l1, mmCmd_mk 0 l2]"
    "unat l2 = unat pt + unat len - 2 ^ 18"
    using breakdown_twice(4) [OF assms(1-3) refl] assms(5) by auto
  have len: "unat len < 2 ^ 16" "unat pt < 2 ^ 18"
    using unsigned_less [of len, where 'a = nat] unsigned_less [of pt, where 'a = nat] by simp_all
  have zero: "pkgAddr 0 0 = 0" by (simp add: word_unat_eq_iff unat_pkgAddr)
  have "dm_read mem (mmCmd_mk 0 l2) = ring_read 0 0 (unat pt + unat len - 2 ^ 18) mem"
    using dm_read_inside [of "mmCmd_mk 0 l2" 0 0 mem] l(2) len by (simp add: zero)
  moreover have "drop_bit 18 (pkgAddr i 0) \<noteq> 0"
    using assms(4) by (simp add: drop_bit_pkgAddr word_unat_eq_iff unat_ucast_up)
  ultimately show ?thesis using l(1) by (intro exI [of _ "mmCmd_mk (pkgAddr i pt) l1"] exI [of _ "mmCmd_mk 0 l2"]) simp
qed

text \<open>The octets that the commands of a read return, where they stay in the ring of the session.\<close>

lemma read_commands:
  assumes "txEngBreakdownState s = 0" and "tb_inputMemAccess s = [mmCmd_mk (pkgAddr i pt) len]" and "len \<noteq> 0"
    and "tb_outputMemAccess s = []" and "tb_memAccessBreakdown2txPkgStitcher s = []"
    and w: "wraps = (unat pt + unat len > 2 ^ 18)" and "wraps \<Longrightarrow> take_bit 12 i = 0"
    and "t = (txEngMemAccessBreakdown ^^ (if wraps then 2 else 1)) s"
    and "transfers n (tb_outputMemAccess t) vs (map (\<lambda>c. (c, dm_read mem c)) (tb_outputMemAccess t))"
  shows "tb_memAccessBreakdown2txPkgStitcher t = [wraps] \<and> (\<exists>ws1 ws2 b1 b2. vs = ws1 @ ws2 \<and> packed n ws1 b1
    \<and> (if wraps then packed n ws2 b2 else ws2 = [] \<and> b2 = []) \<and> b1 @ b2 = ring_read i pt (unat len) mem)"
proof (cases wraps)
  case False
  let ?c = "mmCmd_mk (pkgAddr i pt) len"
  have t: "tb_memAccessBreakdown2txPkgStitcher t = [False]" "tb_outputMemAccess t = [?c]"
    using breakdown_once [OF assms(1,2)] False w assms(4,5,8) by simp_all
  have "packed n vs (dm_read mem ?c)"
    using assms(9) unfolding t(2) by (auto elim!: transfers.cases)
  moreover have "dm_read mem ?c = ring_read i pt (unat len) mem"
    using dm_read_inside [of ?c i pt mem] False w by simp
  ultimately show ?thesis using False t(1)
    by (intro conjI exI [of _ vs] exI [of _ "[]"] exI [of _ "dm_read mem ?c"]) simp_all
next
  case True
  have run: "t = (txEngMemAccessBreakdown ^^ 2) s" using True assms(8) by simp
  have wr: "unat pt + unat len > 2 ^ 18" using True w by simp
  obtain l1 l2 where l: "tb_outputMemAccess t = [mmCmd_mk (pkgAddr i pt) l1, mmCmd_mk 0 l2]"
    "unat l1 = 2 ^ 18 - unat pt" "unat l2 = unat pt + unat len - 2 ^ 18"
    using breakdown_twice(4) [OF assms(1,2) wr run] assms(4) by auto
  let ?c1 = "mmCmd_mk (pkgAddr i pt) l1" and ?c2 = "mmCmd_mk 0 l2"
  have b: "unat pt < 2 ^ 18" "unat len < 2 ^ 16"
    using unsigned_less [of pt, where 'a = nat] unsigned_less [of len, where 'a = nat] by simp_all
  obtain ws1 ws2 where ws: "vs = ws1 @ ws2" "packed n ws1 (dm_read mem ?c1)" "packed n ws2 (dm_read mem ?c2)"
    using assms(9) unfolding l(1) by (auto elim!: transfers.cases)
  have "pkgAddr i 0 = 0" using assms(7) True by (simp add: word_unat_eq_iff unat_pkgAddr)
  then have r2: "dm_read mem ?c2 = ring_read i 0 (unat l2) mem" using dm_read_inside [of ?c2 i 0 mem] l(3) b by simp
  have r1: "dm_read mem ?c1 = ring_read i pt (unat l1) mem" using dm_read_inside [of ?c1 i pt mem] l(2) b by simp
  have "pt + of_nat (unat l1) = 0"
    using l(2) b by (simp add: word_unat_eq_iff unat_word_ariths(1) unat_of_nat_mod mod_add_right_eq)
  moreover have "unat len = unat l1 + unat l2" using l(2,3) wr b by simp
  ultimately have "ring_read i pt (unat len) mem = ring_read i pt (unat l1) mem @ ring_read i 0 (unat l2) mem"
    by (simp add: ring_read_append)
  then show ?thesis
    using True ws r1 r2 breakdown_twice(3) [OF assms(1,2) wr run] assms(5)
    by (intro conjI exI [of _ ws1] exI [of _ ws2] exI [of _ "dm_read mem ?c1"] exI [of _ "dm_read mem ?c2"]) simp_all
qed

text \<open>
  (C7) What was written is what is sent again.  When octets have been written to the ring of a session, a read command for them is
  split, and the memory answers each of the commands with a packet of the octets at its address, then the stitched packet carries
  exactly the octets that were written, in order, provided the read does not cross the end of the ring or the session's ring is the
  first one.
\<close>

theorem written_data_read_back:
  assumes "txEngBreakdownState s = 0" and "tb_inputMemAccess s = [mmCmd_mk (pkgAddr i pt) len]" and "len \<noteq> 0"
    and "tb_outputMemAccess s = []" and "tb_memAccessBreakdown2txPkgStitcher s = []" and "length bs = unat len"
    and "wraps = (unat pt + unat len > 2 ^ 18)" and "wraps \<Longrightarrow> take_bit 12 i = 0"
    and "t = (txEngMemAccessBreakdown ^^ (if wraps then 2 else 1)) s" and "mem = ring_write i pt bs mem0"
    and "transfers (lanes kb) (tb_outputMemAccess t) vs (map (\<lambda>c. (c, dm_read mem c)) (tb_outputMemAccess t))"
    and "rs_state r = RS_IDLE" and "rs_memAccessBreakdown2readPkgStitcher r = tb_memAccessBreakdown2txPkgStitcher t"
    and "rs_readDataIn r = vs @ rest" and "kb \<le> 6" and "length junk = lanes kb"
  shows "\<exists>m \<le> length vs + 1. \<exists>u out. u = (read_data_stitching kb junk ^^ m) r \<and> rs_state u = RS_IDLE
    \<and> rs_readDataIn u = rest \<and> rs_readDataOut u = rs_readDataOut r @ out \<and> packed (lanes kb) out bs"
proof -
  obtain ws1 ws2 b1 b2 where p: "vs = ws1 @ ws2" "packed (lanes kb) ws1 b1"
    "if wraps then packed (lanes kb) ws2 b2 else ws2 = [] \<and> b2 = []" "b1 @ b2 = ring_read i pt (unat len) mem"
    and flag: "tb_memAccessBreakdown2txPkgStitcher t = [wraps]"
    using read_commands [OF assms(1-5,7-9,11)] by blast
  have "length bs < 2 ^ 18" using assms(6) unsigned_less [of len, where 'a = nat] by simp
  then have "b1 @ b2 = bs" using p(4) ring_read_write [of bs i pt mem0] assms(6,10) by simp
  moreover have "rs_readDataIn r = ws1 @ ws2 @ rest" using assms(14) p(1) by simp
  ultimately show ?thesis
    using parts_stitched [OF assms(12) _ _ p(2,3) assms(15,16), of "[]" rest] assms(13) flag p(1) by auto
qed

section \<open>Choosing the source of the payload\<close>

text \<open>\<^verbatim>\<open>read_data_arbiter\<close> with TCP\_NODELAY (the other variant does not compile: a semicolon is missing).\<close>

record 'w arbiter_st =
  tps_state :: u2
  ra_txBufferReadData :: "('w \<times> bool) list"
  ra_txEng_isDDRbypass :: "bool list"
  ra_txApp2txEng_data_stream :: "('w \<times> bool) list"
  ra_txEng_tcpSegOut :: "('w \<times> bool) list"

definition read_data_arbiter :: "'w arbiter_st \<Rightarrow> 'w arbiter_st" where
  "read_data_arbiter s =
     (if tps_state s = 0
      then (case ra_txEng_isDDRbypass s of
              [] \<Rightarrow> s
            | b # q \<Rightarrow> s\<lparr> ra_txEng_isDDRbypass := q, tps_state := (if b then 2 else 1) \<rparr>)
      else if tps_state s = 1
      then (case ra_txBufferReadData s of
              [] \<Rightarrow> s
            | w # q \<Rightarrow> s\<lparr> ra_txBufferReadData := q, ra_txEng_tcpSegOut := ra_txEng_tcpSegOut s @ [w],
                          tps_state := (if snd w then 0 else 1) \<rparr>)
      else if tps_state s = 2
      then (case ra_txApp2txEng_data_stream s of
              [] \<Rightarrow> s
            | w # q \<Rightarrow> s\<lparr> ra_txApp2txEng_data_stream := q, ra_txEng_tcpSegOut := ra_txEng_tcpSegOut s @ [w],
                          tps_state := (if snd w then 0 else 2) \<rparr>)
      else s)"

definition ra_mem_absorb :: "'w \<times> bool \<Rightarrow> 'w arbiter_st \<Rightarrow> 'w arbiter_st" where
  "ra_mem_absorb w s = s\<lparr> ra_txBufferReadData := tl (ra_txBufferReadData s),
     ra_txEng_tcpSegOut := ra_txEng_tcpSegOut s @ [w], tps_state := (if snd w then 0 else 1) \<rparr>"

definition ra_app_absorb :: "'w \<times> bool \<Rightarrow> 'w arbiter_st \<Rightarrow> 'w arbiter_st" where
  "ra_app_absorb w s = s\<lparr> ra_txApp2txEng_data_stream := tl (ra_txApp2txEng_data_stream s),
     ra_txEng_tcpSegOut := ra_txEng_tcpSegOut s @ [w], tps_state := (if snd w then 0 else 2) \<rparr>"

interpretation ra_mem: packet_mover read_data_arbiter "\<lambda>s. tps_state s = 1" ra_txBufferReadData ra_mem_absorb
  by unfold_locales (simp_all add: read_data_arbiter_def ra_mem_absorb_def)

interpretation ra_app: packet_mover read_data_arbiter "\<lambda>s. tps_state s = 2" ra_txApp2txEng_data_stream ra_app_absorb
  by unfold_locales (simp_all add: read_data_arbiter_def ra_app_absorb_def)

lemma ra_mem_packet:
  "\<lbrakk> p \<noteq> []; ra_txBufferReadData s = p @ rest \<rbrakk> \<Longrightarrow>
   fold ra_mem_absorb p s = s\<lparr> ra_txBufferReadData := rest, ra_txEng_tcpSegOut := ra_txEng_tcpSegOut s @ p,
     tps_state := (if snd (last p) then 0 else 1) \<rparr>"
proof (induction p arbitrary: s)
  case (Cons w p)
  then show ?case using Cons.IH [of "ra_mem_absorb w s"] by (cases "p = []") (simp_all add: ra_mem_absorb_def)
qed simp

lemma ra_app_packet:
  "\<lbrakk> p \<noteq> []; ra_txApp2txEng_data_stream s = p @ rest \<rbrakk> \<Longrightarrow>
   fold ra_app_absorb p s = s\<lparr> ra_txApp2txEng_data_stream := rest, ra_txEng_tcpSegOut := ra_txEng_tcpSegOut s @ p,
     tps_state := (if snd (last p) then 0 else 2) \<rparr>"
proof (induction p arbitrary: s)
  case (Cons w p)
  then show ?case using Cons.IH [of "ra_app_absorb w s"] by (cases "p = []") (simp_all add: ra_app_absorb_def)
qed simp

lemma arbiter_one:
  assumes "tps_state s = 0" and "ra_txEng_isDDRbypass s = b # q" and "is_packet p"
    and "ra_txApp2txEng_data_stream s = (if b then p else []) @ r2" and "ra_txBufferReadData s = (if b then [] else p) @ r1"
  shows "(read_data_arbiter ^^ Suc (length p)) s = s\<lparr> ra_txEng_isDDRbypass := q, ra_txApp2txEng_data_stream := r2,
    ra_txBufferReadData := r1, ra_txEng_tcpSegOut := ra_txEng_tcpSegOut s @ p \<rparr>"
proof -
  let ?t = "s\<lparr> ra_txEng_isDDRbypass := q, tps_state := (if b then 2 else 1) \<rparr>"
  have "read_data_arbiter s = ?t" using assms(1,2) by (simp add: read_data_arbiter_def)
  then have "(read_data_arbiter ^^ Suc (length p)) s = (read_data_arbiter ^^ length p) ?t" by (simp add: funpow_swap1)
  also have "\<dots> = ?t\<lparr> ra_txApp2txEng_data_stream := r2, ra_txBufferReadData := r1,
      ra_txEng_tcpSegOut := ra_txEng_tcpSegOut s @ p, tps_state := 0 \<rparr>"
    using assms(3-5) ra_app.moves_packet [OF assms(3), of ?t r2] ra_mem.moves_packet [OF assms(3), of ?t r1]
      ra_app_packet [of p ?t r2] ra_mem_packet [of p ?t r1] by (cases b) (simp_all add: is_packet_def)
  finally show ?thesis using assms(1) by simp
qed

text \<open>
  Every segment gets its own payload.  For segments whose payloads wait, in order, in the stream from the memory or
  from the application as the flags say, one invocation per word and one per segment write exactly the payloads in the order of
  the segments, each whole, and leave whatever comes behind them in both streams.
\<close>

theorem payloads_in_segment_order:
  assumes "tps_state s = 0" and "list_all (\<lambda>(_, p). is_packet p) jobs" and "ra_txEng_isDDRbypass s = map fst jobs @ q"
    and "ra_txApp2txEng_data_stream s = concat (map snd (filter fst jobs)) @ r2"
    and "ra_txBufferReadData s = concat (map snd (filter (\<lambda>j. \<not> fst j) jobs)) @ r1"
  shows "(read_data_arbiter ^^ sum_list (map (\<lambda>(_, p). Suc (length p)) jobs)) s =
    s\<lparr> ra_txEng_isDDRbypass := q, ra_txApp2txEng_data_stream := r2, ra_txBufferReadData := r1,
       ra_txEng_tcpSegOut := ra_txEng_tcpSegOut s @ concat (map snd jobs) \<rparr>"
  using assms
proof (induction jobs arbitrary: s)
  case Nil
  then have "s\<lparr> ra_txEng_isDDRbypass := q, ra_txApp2txEng_data_stream := r2, ra_txBufferReadData := r1 \<rparr> = s" by simp
  then show ?case by simp
next
  case (Cons job jobs)
  obtain b p where job: "job = (b, p)" by fastforce
  let ?k = "sum_list (map (\<lambda>(_, p). Suc (length p)) jobs)"
  let ?r2 = "concat (map snd (filter fst jobs)) @ r2" and ?r1 = "concat (map snd (filter (\<lambda>j. \<not> fst j) jobs)) @ r1"
  let ?t = "s\<lparr> ra_txEng_isDDRbypass := map fst jobs @ q, ra_txApp2txEng_data_stream := ?r2, ra_txBufferReadData := ?r1,
      ra_txEng_tcpSegOut := ra_txEng_tcpSegOut s @ p \<rparr>"
  have first: "(read_data_arbiter ^^ Suc (length p)) s = ?t"
    using Cons.prems by (intro arbiter_one [of s b]) (simp_all add: job)
  have "(read_data_arbiter ^^ (?k + Suc (length p))) s = (read_data_arbiter ^^ ?k) ?t"
    by (simp only: funpow_add [of ?k "Suc (length p)"] comp_apply first)
  then show ?case using Cons.IH [of ?t] Cons.prems(1,2) by (simp add: job add.commute)
qed

section \<open>Concrete reads\<close>

definition rs_ex :: stitch_st where
  "rs_ex = \<lparr> rs_state = RS_IDLE, rs_prevWord = word_ex, rs_pkgNeedsMerge = False, rs_offset = 0,
     rs_memAccessBreakdown2readPkgStitcher = [True], rs_readDataIn = [word_ex, word_ex], rs_readDataOut = [] \<rparr>"

theorem session_rings_disjoint_witness:
  "ring_read 4 0 8 (ring_write 3 0x3fffe [1, 2, 3, 4, 5] (\<lambda>_. 0)) = ring_read 4 0 8 (\<lambda>_. 0)"
  by (rule session_rings_disjoint) simp

theorem parts_stitched_witness:
  "\<exists>m \<le> 3. \<exists>t out. t = (read_data_stitching 3 (replicate 8 0) ^^ m) rs_ex \<and> rs_readDataOut t = out
    \<and> packed (lanes 3) out [1, 2, 3, 4, 5, 1, 2, 3, 4, 5]"
proof -
  have len: "length (replicate 8 (0 :: u8)) = lanes 3" by (simp add: lanes_def)
  have "rs_readDataIn rs_ex = [word_ex] @ [word_ex] @ []" by (simp add: rs_ex_def)
  then have "\<exists>m \<le> length [word_ex] + length [word_ex] + 1. \<exists>t out. t = (read_data_stitching 3 (replicate 8 0) ^^ m) rs_ex
      \<and> rs_state t = RS_IDLE \<and> rs_memAccessBreakdown2readPkgStitcher t = [] \<and> rs_readDataIn t = []
      \<and> rs_readDataOut t = rs_readDataOut rs_ex @ out \<and> packed (lanes 3) out ([1, 2, 3, 4, 5] @ [1, 2, 3, 4, 5])"
    using packed_word_ex by (intro parts_stitched [OF _ _ _ packed_word_ex _ _ len]) (simp_all add: rs_ex_def)
  then show ?thesis by (auto simp: rs_ex_def numeral_3_eq_3)
qed

definition tb_ex :: "u16 \<Rightarrow> tx_breakdown_st" where
  "tb_ex i = \<lparr> txEngBreakdownState = 0, tb_cmd = mmCmd_mk 0 0, tb_lengthFirstAccess = 0,
     tb_inputMemAccess = [mmCmd_mk (pkgAddr i 0x3fffe) 5], tb_outputMemAccess = [], tb_memAccessBreakdown2txPkgStitcher = [] \<rparr>"

theorem wrapped_read_leaves_ring_witness:
  "\<exists>c1 c2. tb_outputMemAccess ((txEngMemAccessBreakdown ^^ 2) (tb_ex 3)) = [c1, c2]
    \<and> drop_bit 18 (mc_saddr c2) \<noteq> drop_bit 18 (pkgAddr 3 0)"
  using wrapped_read_leaves_ring [of "tb_ex 3" 3 "0x3fffe" 5 "\<lambda>_. 0"] by (auto simp: tb_ex_def)

definition rb_words :: "net_axis list" where
  "rb_words = [\<lparr> na_data = [7, 0, 0, 0, 0, 0, 0, 0], na_keep = keep_of 8 1, na_last = True \<rparr>]"

definition rb_tb :: tx_breakdown_st where
  "rb_tb = (tb_ex 3)\<lparr> tb_inputMemAccess := [mmCmd_mk (pkgAddr 3 0x10) 1] \<rparr>"

definition rb_mem :: "u32 \<Rightarrow> u8" where "rb_mem = ring_write 3 0x10 [7] (\<lambda>_. 0)"

lemma rb_transfers:
  "transfers (lanes 3) (tb_outputMemAccess (txEngMemAccessBreakdown rb_tb)) rb_words
    (map (\<lambda>c. (c, dm_read rb_mem c)) (tb_outputMemAccess (txEngMemAccessBreakdown rb_tb)))"
proof -
  let ?c = "mmCmd_mk (pkgAddr 3 0x10) 1"
  have "tb_outputMemAccess (txEngMemAccessBreakdown rb_tb) = [?c]"
    using breakdown_once [of rb_tb 3 "0x10" 1 "[]"] by (simp add: rb_tb_def tb_ex_def)
  moreover have "dm_read rb_mem ?c = [7]"
    using dm_read_inside [of ?c 3 "0x10" rb_mem] ring_read_write [of "[7]" 3 "0x10" "\<lambda>_. 0"] by (simp add: rb_mem_def)
  moreover have "packed (lanes 3) rb_words [7]"
    unfolding rb_words_def lanes_def by (rule packed_end' [of _ _ 1]) simp_all
  ultimately show ?thesis by (simp add: transfers_one)
qed

theorem written_data_read_back_witness:
  "\<exists>m \<le> 2. \<exists>out. rs_readDataOut ((read_data_stitching 3 (replicate 8 0) ^^ m)
      (rs_ex\<lparr> rs_readDataIn := rb_words, rs_memAccessBreakdown2readPkgStitcher := [False] \<rparr>)) = out \<and> packed (lanes 3) out [7]"
proof -
  have len: "length (replicate 8 (0 :: u8)) = lanes 3" by (simp add: lanes_def)
  have "tb_memAccessBreakdown2txPkgStitcher (txEngMemAccessBreakdown rb_tb) = [False]"
    using breakdown_once [of rb_tb 3 "0x10" 1 "[]"] by (simp add: rb_tb_def tb_ex_def)
  then have "\<exists>m \<le> length rb_words + 1. \<exists>u out. u = (read_data_stitching 3 (replicate 8 0) ^^ m)
      (rs_ex\<lparr> rs_readDataIn := rb_words, rs_memAccessBreakdown2readPkgStitcher := [False] \<rparr>) \<and> rs_state u = RS_IDLE
      \<and> rs_readDataIn u = [] \<and> rs_readDataOut u = rs_readDataOut (rs_ex\<lparr> rs_readDataIn := rb_words,
        rs_memAccessBreakdown2readPkgStitcher := [False] \<rparr>) @ out \<and> packed (lanes 3) out [7]"
    by (intro written_data_read_back [of rb_tb 3 "0x10" 1 _ False "txEngMemAccessBreakdown rb_tb", OF _ _ _ _ _ _ _ _ _ rb_mem_def
          rb_transfers _ _ _ _ len]) (simp_all add: rb_tb_def tb_ex_def rs_ex_def)
  then show ?thesis by (auto simp: rs_ex_def rb_words_def numeral_2_eq_2)
qed

definition ra_ex :: "nat arbiter_st" where
  "ra_ex = \<lparr> tps_state = 0, ra_txBufferReadData = [(1, False), (2, True)], ra_txEng_isDDRbypass = [True, False],
     ra_txApp2txEng_data_stream = [(8, True)], ra_txEng_tcpSegOut = [] \<rparr>"

theorem payloads_in_segment_order_witness:
  "ra_txEng_tcpSegOut ((read_data_arbiter ^^ 5) ra_ex) = [(8, True), (1, False), (2, True)]"
  using payloads_in_segment_order [of ra_ex "[(True, [(8, True)]), (False, [(1, False), (2, True)])]" "[]" "[]" "[]"]
  by (simp add: ra_ex_def is_packet_def eval_nat_numeral)

end
