(* ===== verification/Hash_Table.thy ===== *)
theory Hash_Table
  imports Session_Lookup
begin

text \<open>
  The lookup memory behind the session lookup (\<^verbatim>\<open>hash_table/hash_table.cpp\<close>): a cuckoo hash table with nine tables, in which
  a key has one possible place per table, given by tabulation hashing.

  The random values of \<^verbatim>\<open>tabulation_table.txt\<close> and the number of address bits, which the build derives from the number of sessions,
  are the arguments \<open>tab\<close> and \<open>ab\<close>.  The loop over the trials is a recursive function over their number.

  The lemmas show that the table refines a finite map: a lookup returns what was inserted, whatever entries had to move, and a removal
  takes out one key; and what a failed insertion costs.  The contract is stated as a locale, whose client lemma covers whole
  sequences of operations.
\<close>

section \<open>Data\<close>

definition NUM_TABLES :: nat where "NUM_TABLES = 9"

definition MAX_TRIALS :: nat where "MAX_TRIALS = 12"

datatype kvOperation = KV_INSERT | KV_DELETE

record htLookupReq =
  hlq_key :: u64
  hlq_source :: lookupSource

record htLookupResp =
  hlr_key :: u64
  hlr_value :: u16
  hlr_hit :: bool
  hlr_source :: lookupSource

record htUpdateReq =
  huq_op :: kvOperation
  huq_key :: u64
  huq_value :: u16
  huq_source :: lookupSource

record htUpdateResp =
  hur_op :: kvOperation
  hur_key :: u64
  hur_value :: u16
  hur_success :: bool
  hur_source :: lookupSource

record htEntry =
  hte_key :: u64
  hte_value :: u16
  hte_valid :: bool

definition htEntry_mk :: "u64 \<Rightarrow> u16 \<Rightarrow> htEntry" where
  "htEntry_mk key val = \<lparr> hte_key = key, hte_value = val, hte_valid = True \<rparr>"

type_synonym tables = "nat \<Rightarrow> u16 \<Rightarrow> htEntry"
type_synonym hashes = "nat \<Rightarrow> u16"

record hash_st =
  cuckooTables :: tables
  victimIdx :: u8
  victimBit :: u1
  insertFailureCounter :: u16
  regInsertFailureCount :: u16
  ht_lup_req :: "htLookupReq list"
  ht_upd_req :: "htUpdateReq list"
  ht_lup_rsp :: "htLookupResp list"
  ht_upd_rsp :: "htUpdateResp list"

section \<open>The operations\<close>

text \<open>Tabulation hashing: one random value per bit of the key, combined by exclusive or.\<close>

definition calculate_hashes :: "(nat \<Rightarrow> bool \<Rightarrow> nat \<Rightarrow> u16) \<Rightarrow> nat \<Rightarrow> u64 \<Rightarrow> hashes" where
  "calculate_hashes tab ab key i = fold (\<lambda>k hash. hash XOR take_bit ab (tab i (bit key k) k)) [0..<64] 0"

text \<open>The loops over the tables keep the last index that satisfies their condition.\<close>

definition last_slot :: "(nat \<Rightarrow> bool) \<Rightarrow> nat option" where
  "last_slot P = List.find P (rev [0..<NUM_TABLES])"

definition write_back :: "hashes \<Rightarrow> (nat \<Rightarrow> htEntry) \<Rightarrow> tables \<Rightarrow> tables" where
  "write_back hs cur tb = (\<lambda>i a. if i < NUM_TABLES \<and> a = hs i then cur i else tb i a)"

definition ht_match :: "u64 \<Rightarrow> htEntry \<Rightarrow> bool" where
  "ht_match key e \<longleftrightarrow> hte_valid e \<and> hte_key e = key"

definition ht_find :: "(u64 \<Rightarrow> hashes) \<Rightarrow> tables \<Rightarrow> u64 \<Rightarrow> u16 option" where
  "ht_find h tb key = map_option (\<lambda>i. hte_value (tb i (h key i))) (last_slot (\<lambda>i. ht_match key (tb i (h key i))))"

definition ht_lookup :: "(u64 \<Rightarrow> hashes) \<Rightarrow> htLookupReq \<Rightarrow> u16 \<Rightarrow> tables \<Rightarrow> htLookupResp" where
  "ht_lookup h request junk tb =
     (case ht_find h tb (hlq_key request) of
        Some v \<Rightarrow> \<lparr> hlr_key = hlq_key request, hlr_value = v, hlr_hit = True, hlr_source = hlq_source request \<rparr>
      | None \<Rightarrow> \<lparr> hlr_key = hlq_key request, hlr_value = junk, hlr_hit = False, hlr_source = hlq_source request \<rparr>)"

text \<open>The trials of an insertion: the result, the entry that is left over when it is negative, and the state.\<close>

fun insertLoop :: "(u64 \<Rightarrow> hashes) \<Rightarrow> nat \<Rightarrow> htEntry \<Rightarrow> hash_st \<Rightarrow> bool \<times> htEntry \<times> hash_st" where
  "insertLoop h 0 e s = (False, e, s)"
| "insertLoop h (Suc n) e s =
     (let hs = h (hte_key e); cur = (\<lambda>i. cuckooTables s i (hs i))
      in case last_slot (\<lambda>i. \<not> hte_valid (cur i)) of
           Some slot \<Rightarrow>
             (True, e, s\<lparr> cuckooTables := write_back hs (cur(slot := e)) (cuckooTables s), victimBit := victimBit s + 1 \<rparr>)
         | None \<Rightarrow>
             (let victimPos = unat (hs (unat (victimIdx s))) mod (NUM_TABLES - 1) + unat (victimBit s);
                  idx = victimIdx s + 1
              in insertLoop h n (cur victimPos)
                   (s\<lparr> cuckooTables := write_back hs (cur(victimPos := e)) (cuckooTables s),
                       victimIdx := (if unat idx = NUM_TABLES then 0 else idx), victimBit := victimBit s + 1 \<rparr>)))"

definition ht_insert :: "(u64 \<Rightarrow> hashes) \<Rightarrow> htUpdateReq \<Rightarrow> hash_st \<Rightarrow> htUpdateResp \<times> hash_st" where
  "ht_insert h request s =
     (let (success, _, s1) = insertLoop h MAX_TRIALS (htEntry_mk (huq_key request) (huq_value request))
            (s\<lparr> regInsertFailureCount := insertFailureCounter s, victimIdx := 0 \<rparr>)
      in (\<lparr> hur_op = huq_op request, hur_key = huq_key request, hur_value = huq_value request, hur_success = success,
            hur_source = huq_source request \<rparr>,
          if success then s1 else s1\<lparr> insertFailureCounter := insertFailureCounter s1 + 1 \<rparr>))"

definition ht_erase :: "u64 \<Rightarrow> htEntry \<Rightarrow> htEntry" where
  "ht_erase key e = (if ht_match key e then e\<lparr> hte_valid := False \<rparr> else e)"

definition ht_remove :: "(u64 \<Rightarrow> hashes) \<Rightarrow> htUpdateReq \<Rightarrow> hash_st \<Rightarrow> htUpdateResp \<times> hash_st" where
  "ht_remove h request s =
     (let key = huq_key request; hs = h key; cur = (\<lambda>i. cuckooTables s i (hs i))
      in (\<lparr> hur_op = huq_op request, hur_key = key, hur_value = huq_value request,
            hur_success = list_ex (\<lambda>i. ht_match key (cur i)) [0..<NUM_TABLES], hur_source = huq_source request \<rparr>,
          s\<lparr> cuckooTables := write_back hs (\<lambda>i. ht_erase key (cur i)) (cuckooTables s) \<rparr>))"

text \<open>The module: lookups go first.  The value of a reply without a hit is not set, the argument \<open>junk\<close>.\<close>

definition hash_table :: "(nat \<Rightarrow> bool \<Rightarrow> nat \<Rightarrow> u16) \<Rightarrow> nat \<Rightarrow> u16 \<Rightarrow> hash_st \<Rightarrow> hash_st" where
  "hash_table tab ab junk s =
     (let h = calculate_hashes tab ab
      in case ht_lup_req s of
           r # q \<Rightarrow> s\<lparr> ht_lup_req := q, ht_lup_rsp := ht_lup_rsp s @ [ht_lookup h r junk (cuckooTables s)] \<rparr>
         | [] \<Rightarrow>
        (case ht_upd_req s of
           r # q \<Rightarrow>
             (let (response, s1) = (if huq_op r = KV_INSERT then ht_insert h r (s\<lparr> ht_upd_req := q \<rparr>)
                                    else ht_remove h r (s\<lparr> ht_upd_req := q \<rparr>))
              in s1\<lparr> ht_upd_rsp := ht_upd_rsp s1 @ [response] \<rparr>)
         | [] \<Rightarrow> s))"

section \<open>The table as a map\<close>

text \<open>Every valid entry is in one of the places of its key, and no key is stored twice.\<close>

definition stored :: "(u64 \<Rightarrow> hashes) \<Rightarrow> tables \<Rightarrow> u64 \<Rightarrow> nat \<Rightarrow> bool" where
  "stored h tb key i \<longleftrightarrow> i < NUM_TABLES \<and> ht_match key (tb i (h key i))"

definition ht_invar :: "(u64 \<Rightarrow> hashes) \<Rightarrow> tables \<Rightarrow> bool" where
  "ht_invar h tb \<longleftrightarrow> (\<forall>i < NUM_TABLES. \<forall>a. hte_valid (tb i a) \<longrightarrow> h (hte_key (tb i a)) i = a)
     \<and> (\<forall>key i j. stored h tb key i \<longrightarrow> stored h tb key j \<longrightarrow> i = j)"

lemma ht_invar_place: "ht_invar h tb \<Longrightarrow> i < NUM_TABLES \<Longrightarrow> hte_valid (tb i a) \<Longrightarrow> h (hte_key (tb i a)) i = a"
  by (simp add: ht_invar_def)

lemma ht_invar_once: "ht_invar h tb \<Longrightarrow> stored h tb key i \<Longrightarrow> stored h tb key j \<Longrightarrow> i = j"
  unfolding ht_invar_def by blast

lemma last_slot_None: "last_slot P = None \<longleftrightarrow> (\<forall>i < NUM_TABLES. \<not> P i)"
  by (auto simp: last_slot_def find_None_iff)

lemma find_SomeD: "List.find P xs = Some x \<Longrightarrow> x \<in> set xs \<and> P x"
  by (induction xs) (auto split: if_splits)

lemma last_slot_Some: "last_slot P = Some i \<Longrightarrow> i < NUM_TABLES \<and> P i"
  unfolding last_slot_def by (drule find_SomeD) auto

lemma ht_find_None: "ht_find h tb key = None \<longleftrightarrow> (\<forall>i. \<not> stored h tb key i)"
  by (auto simp: ht_find_def last_slot_None stored_def)

lemma ht_find_stored:
  assumes "ht_invar h tb" and "stored h tb key i"
  shows "ht_find h tb key = Some (hte_value (tb i (h key i)))"
proof -
  let ?P = "\<lambda>i. ht_match key (tb i (h key i))"
  have "last_slot ?P \<noteq> None" using assms(2) by (auto simp: last_slot_None stored_def)
  then obtain j where j: "last_slot ?P = Some j" by blast
  then have "stored h tb key j" using last_slot_Some [OF j] by (simp add: stored_def)
  then have "j = i" using ht_invar_once [OF assms(1)] assms(2) by blast
  then show ?thesis by (simp add: ht_find_def j)
qed

lemma ht_find_eqI:
  assumes "ht_invar h tb" and "ht_invar h tb'" and "\<And>i. stored h tb' key i \<longleftrightarrow> stored h tb key i"
    and "\<And>i. stored h tb key i \<Longrightarrow> tb' i (h key i) = tb i (h key i)"
  shows "ht_find h tb' key = ht_find h tb key"
proof (cases "\<exists>i. stored h tb key i")
  case True
  then show ?thesis using ht_find_stored assms by metis
next
  case False
  then show ?thesis using assms(3) ht_find_None by metis
qed

subsection \<open>Putting an entry in one of its places\<close>

definition ht_put :: "(u64 \<Rightarrow> hashes) \<Rightarrow> nat \<Rightarrow> htEntry \<Rightarrow> tables \<Rightarrow> tables" where
  "ht_put h p e tb = write_back (h (hte_key e)) ((\<lambda>i. tb i (h (hte_key e) i))(p := e)) tb"

lemma ht_put_at:
  "p < NUM_TABLES \<Longrightarrow> ht_put h p e tb i a = (if i = p \<and> a = h (hte_key e) p then e else tb i a)"
  by (simp add: ht_put_def write_back_def)

lemma stored_put:
  assumes "ht_invar h tb" and "\<And>i. \<not> stored h tb (hte_key e) i" and "hte_valid e" and "p < NUM_TABLES"
    and "w = tb p (h (hte_key e) p)"
  shows "stored h (ht_put h p e tb) key i \<longleftrightarrow>
    key = hte_key e \<and> i = p \<or> stored h tb key i \<and> \<not> (i = p \<and> hte_valid w \<and> key = hte_key w)"
proof (cases "i = p \<and> h key p = h (hte_key e) p")
  case True
  then show ?thesis
    using assms by (auto simp: stored_def ht_put_at ht_match_def)
next
  case False
  then have "stored h (ht_put h p e tb) key i \<longleftrightarrow> stored h tb key i"
    using assms(4) by (auto simp: stored_def ht_put_at)
  moreover have "\<not> (key = hte_key e \<and> i = p)" using False by auto
  moreover have "\<not> (i = p \<and> hte_valid w \<and> key = hte_key w)"
    using False ht_invar_place [OF assms(1,4), of "h (hte_key e) p"] assms(5) by auto
  ultimately show ?thesis by blast
qed

lemma put_invar:
  assumes "ht_invar h tb" and "\<And>i. \<not> stored h tb (hte_key e) i" and "hte_valid e" and "p < NUM_TABLES"
  shows "ht_invar h (ht_put h p e tb)"
  unfolding ht_invar_def
proof (intro conjI allI impI)
  fix i a
  assume "i < NUM_TABLES" and "hte_valid (ht_put h p e tb i a)"
  then show "h (hte_key (ht_put h p e tb i a)) i = a"
    using ht_invar_place [OF assms(1)] assms(4) by (simp add: ht_put_at split: if_splits)
next
  fix key i j
  assume "stored h (ht_put h p e tb) key i" and "stored h (ht_put h p e tb) key j"
  then show "i = j"
    unfolding stored_put [OF assms refl] using ht_invar_once [OF assms(1)] assms(2) by blast
qed

text \<open>The map after the entry has been put in: the new key is there, and the entry that had the place, if any, is not.\<close>

lemma put_find:
  assumes "ht_invar h tb" and "\<And>i. \<not> stored h tb (hte_key e) i" and "hte_valid e" and "p < NUM_TABLES"
    and "w = tb p (h (hte_key e) p)"
  shows "ht_find h (ht_put h p e tb) = (if hte_valid w then (ht_find h tb)(hte_key w := None) else ht_find h tb)(hte_key e \<mapsto> hte_value e)"
    and "hte_valid w \<Longrightarrow> ht_find h tb (hte_key w) = Some (hte_value w) \<and> hte_key w \<noteq> hte_key e"
proof -
  let ?t = "ht_put h p e tb"
  note st = stored_put [OF assms]
  have inv: "ht_invar h ?t" using assms(1-4) by (rule put_invar)
  have w: "stored h tb (hte_key w) p" "h (hte_key w) p = h (hte_key e) p" if "hte_valid w"
    using that ht_invar_place [OF assms(1,4), of "h (hte_key e) p"] assms(4,5) by (simp_all add: stored_def ht_match_def)
  show old: "ht_find h tb (hte_key w) = Some (hte_value w) \<and> hte_key w \<noteq> hte_key e" if "hte_valid w"
    using w [OF that] ht_find_stored [OF assms(1), of "hte_key w" p] assms(2,5) by auto
  show "ht_find h ?t = (if hte_valid w then (ht_find h tb)(hte_key w := None) else ht_find h tb)(hte_key e \<mapsto> hte_value e)"
  proof
    fix key
    consider (new) "key = hte_key e" | (gone) "key \<noteq> hte_key e" "hte_valid w" "key = hte_key w"
      | (other) "key \<noteq> hte_key e" "\<not> (hte_valid w \<and> key = hte_key w)" by blast
    then show "ht_find h ?t key = ((if hte_valid w then (ht_find h tb)(hte_key w := None) else ht_find h tb)(hte_key e \<mapsto> hte_value e)) key"
    proof cases
      case new
      then show ?thesis using ht_find_stored [OF inv, of key p] st assms(4) by (simp add: ht_put_at)
    next
      case gone
      then have "\<not> stored h ?t key i" for i using st w(1) ht_invar_once [OF assms(1)] by blast
      then show ?thesis using gone by (simp add: ht_find_None)
    next
      case other
      then have "ht_find h ?t key = ht_find h tb key"
        using st assms(4) by (intro ht_find_eqI [OF assms(1) inv]) (auto simp: ht_put_at stored_def ht_match_def assms(5))
      then show ?thesis using other by auto
    qed
  qed
qed

subsection \<open>Insertion\<close>

lemma victimPos_less: "x mod (NUM_TABLES - 1) + unat (b :: u1) < NUM_TABLES"
proof -
  have "unat b < 2" using unsigned_less [of b, where 'a = nat] by simp
  moreover have "x mod 8 < 8" by simp
  ultimately show ?thesis by (simp add: NUM_TABLES_def)
qed

lemma insertLoop_map:
  assumes "ht_invar h (cuckooTables s)" and "hte_valid e" and "ht_find h (cuckooTables s) (hte_key e) = None"
    and "insertLoop h n e s = (b, e', t)"
  shows "ht_invar h (cuckooTables t) \<and> (if b then ht_find h (cuckooTables t) = (ht_find h (cuckooTables s))(hte_key e \<mapsto> hte_value e)
    else ht_find h (cuckooTables t) (hte_key e') = None
      \<and> (ht_find h (cuckooTables t))(hte_key e' \<mapsto> hte_value e') = (ht_find h (cuckooTables s))(hte_key e \<mapsto> hte_value e))"
  using assms
proof (induction n arbitrary: e s)
  case 0
  then show ?case by simp
next
  case (Suc n)
  let ?tb = "cuckooTables s" and ?hs = "h (hte_key e)"
  have fresh: "\<And>i. \<not> stored h ?tb (hte_key e) i" using Suc.prems(3) by (simp add: ht_find_None)
  show ?case
  proof (cases "last_slot (\<lambda>i. \<not> hte_valid (?tb i (?hs i)))")
    case (Some p)
    then have p: "p < NUM_TABLES" "\<not> hte_valid (?tb p (?hs p))" using last_slot_Some by blast+
    have "b" "cuckooTables t = ht_put h p e ?tb"
      using Suc.prems(4) Some by (auto simp: Let_def ht_put_def)
    then show ?thesis
      using put_invar [OF Suc.prems(1) fresh Suc.prems(2) p(1)] put_find(1) [OF Suc.prems(1) fresh Suc.prems(2) p(1) refl] p(2)
      by simp
  next
    case None
    define p where "p = unat (?hs (unat (victimIdx s))) mod (NUM_TABLES - 1) + unat (victimBit s)"
    have p: "p < NUM_TABLES" unfolding p_def by (rule victimPos_less)
    let ?w = "?tb p (?hs p)"
    have w: "hte_valid ?w" using None p by (auto simp: last_slot_None)
    let ?s1 = "s\<lparr> cuckooTables := ht_put h p e ?tb,
        victimIdx := (if unat (victimIdx s + 1) = NUM_TABLES then 0 else victimIdx s + 1), victimBit := victimBit s + 1 \<rparr>"
    have run: "insertLoop h n ?w ?s1 = (b, e', t)"
      using Suc.prems(4) None by (simp add: Let_def p_def ht_put_def)
    have f: "ht_find h (cuckooTables ?s1) = ((ht_find h ?tb)(hte_key ?w := None))(hte_key e \<mapsto> hte_value e)"
      "ht_find h ?tb (hte_key ?w) = Some (hte_value ?w)" "hte_key ?w \<noteq> hte_key e"
      using put_find [OF Suc.prems(1) fresh Suc.prems(2) p refl] w by simp_all
    then have "ht_find h (cuckooTables ?s1) (hte_key ?w) = None"
      and same: "(ht_find h (cuckooTables ?s1))(hte_key ?w \<mapsto> hte_value ?w) = (ht_find h ?tb)(hte_key e \<mapsto> hte_value e)"
      by (simp, auto simp: fun_eq_iff)
    moreover have "ht_invar h (cuckooTables ?s1)" using put_invar [OF Suc.prems(1) fresh Suc.prems(2) p] by simp
    ultimately show ?thesis using Suc.IH [OF _ w _ run] by simp
  qed
qed

lemma insert_map:
  assumes "ht_invar h (cuckooTables s)" and "ht_find h (cuckooTables s) (huq_key r) = None"
    and "ht_insert h r s = (rsp, t)" and "m = (ht_find h (cuckooTables s))(huq_key r \<mapsto> huq_value r)"
  shows "ht_invar h (cuckooTables t) \<and> hur_key rsp = huq_key r
    \<and> (if hur_success rsp then ht_find h (cuckooTables t) = m
       else \<exists>lost. m lost \<noteq> None \<and> ht_find h (cuckooTables t) = m(lost := None))"
proof -
  let ?e = "htEntry_mk (huq_key r) (huq_value r)"
  let ?s = "s\<lparr> regInsertFailureCount := insertFailureCounter s, victimIdx := 0 \<rparr>"
  obtain b e' u where run: "insertLoop h MAX_TRIALS ?e ?s = (b, e', u)" by (metis prod_cases3)
  have t: "cuckooTables t = cuckooTables u" "hur_success rsp = b" "hur_key rsp = huq_key r"
    using assms(3) run by (auto simp: ht_insert_def)
  have e: "hte_valid ?e" "hte_key ?e = huq_key r" "hte_value ?e = huq_value r" by (simp_all add: htEntry_mk_def)
  have main: "ht_invar h (cuckooTables t) \<and> (if b then ht_find h (cuckooTables t) = m
      else ht_find h (cuckooTables t) (hte_key e') = None \<and> (ht_find h (cuckooTables t))(hte_key e' \<mapsto> hte_value e') = m)"
    using insertLoop_map [OF _ e(1) _ run] assms(1,2,4) e t(1) by simp
  show ?thesis
  proof (cases b)
    case True
    then show ?thesis using main t by simp
  next
    case False
    then have f: "ht_find h (cuckooTables t) (hte_key e') = None" "m = (ht_find h (cuckooTables t))(hte_key e' \<mapsto> hte_value e')"
      using main by auto
    then have "m(hte_key e' := None) = ht_find h (cuckooTables t)" by (simp add: fun_upd_idem)
    moreover have "m (hte_key e') \<noteq> None" using f(2) by simp
    ultimately show ?thesis using False main t by metis
  qed
qed

text \<open>
  An insertion into the hash table.  Inserting a key that is not there succeeds or fails after at most twelve trials.  When
  it succeeds, the table is the old map with the new key, although other entries may have moved.  When it fails, the failure
  is counted and exactly one key of that map is missing, which need not be the new one.  The invariant is kept either way.
\<close>

theorem hash_insert_as_map:
  assumes "ht_invar h (cuckooTables s)" and "ht_find h (cuckooTables s) (huq_key r) = None"
    and "ht_insert h r s = (rsp, t)" and "m = (ht_find h (cuckooTables s))(huq_key r \<mapsto> huq_value r)"
  shows "ht_invar h (cuckooTables t) \<and> hur_key rsp = huq_key r
    \<and> (if hur_success rsp then ht_find h (cuckooTables t) = m
       else \<exists>lost. m lost \<noteq> None \<and> ht_find h (cuckooTables t) = m(lost := None))"
  using assms by (rule insert_map)

subsection \<open>Removal\<close>

lemma stored_remove:
  assumes "tb' = write_back (h key) (\<lambda>i. ht_erase key (tb i (h key i))) tb"
  shows "stored h tb' k i \<longleftrightarrow> k \<noteq> key \<and> stored h tb k i"
  by (auto simp: assms stored_def write_back_def ht_erase_def ht_match_def)

lemma remove_map:
  assumes "ht_invar h (cuckooTables s)" and "ht_remove h r s = (rsp, t)"
  shows "ht_invar h (cuckooTables t) \<and> ht_find h (cuckooTables t) = (ht_find h (cuckooTables s))(huq_key r := None)
    \<and> (hur_success rsp \<longleftrightarrow> ht_find h (cuckooTables s) (huq_key r) \<noteq> None)"
proof -
  let ?k = "huq_key r" and ?tb = "cuckooTables s" and ?t = "cuckooTables t"
  have t: "?t = write_back (h ?k) (\<lambda>i. ht_erase ?k (?tb i (h ?k i))) ?tb"
    and rsp: "hur_success rsp \<longleftrightarrow> list_ex (\<lambda>i. ht_match ?k (?tb i (h ?k i))) [0..<NUM_TABLES]"
    using assms(2) by (auto simp: ht_remove_def Let_def)
  note st = stored_remove [of ?t h ?k ?tb, OF t]
  have inv: "ht_invar h ?t"
    unfolding ht_invar_def
  proof (intro conjI allI impI)
    fix i a
    assume "i < NUM_TABLES" and "hte_valid (?t i a)"
    then show "h (hte_key (?t i a)) i = a"
      using ht_invar_place [OF assms(1), of i a] by (auto simp: t write_back_def ht_erase_def split: if_splits)
  qed (use st ht_invar_once [OF assms(1)] in blast)
  have "ht_find h ?t key = ((ht_find h ?tb)(?k := None)) key" for key
  proof (cases "key = ?k")
    case True
    then show ?thesis using st by (simp add: ht_find_None)
  next
    case False
    then have "?t i (h key i) = ?tb i (h key i)" if "stored h ?tb key i" for i
      using that by (auto simp: t write_back_def ht_erase_def ht_match_def stored_def)
    then show ?thesis using False st by (simp add: ht_find_eqI [OF assms(1) inv])
  qed
  moreover have "hur_success rsp \<longleftrightarrow> ht_find h ?tb ?k \<noteq> None"
    by (auto simp: rsp list_ex_iff ht_find_None stored_def)
  ultimately show ?thesis using inv by auto
qed

text \<open>
  A removal from the hash table.  It takes exactly its key out of the map, reports whether the key was there, and keeps the
  invariant.
\<close>

theorem hash_remove_as_map:
  assumes "ht_invar h (cuckooTables s)" and "ht_remove h r s = (rsp, t)"
  shows "ht_invar h (cuckooTables t) \<and> ht_find h (cuckooTables t) = (ht_find h (cuckooTables s))(huq_key r := None)
    \<and> (hur_success rsp \<longleftrightarrow> ht_find h (cuckooTables s) (huq_key r) \<noteq> None)"
  using assms by (rule remove_map)

section \<open>The contract of a lookup memory\<close>

text \<open>Operations on a memory, and what they mean for a map.\<close>

datatype ('k, 'v) mem_op = Put 'k 'v | Del 'k

fun mem_run :: "('k \<Rightarrow> 'v \<Rightarrow> 'm \<Rightarrow> bool \<times> 'm) \<Rightarrow> ('k \<Rightarrow> 'm \<Rightarrow> bool \<times> 'm) \<Rightarrow> ('k, 'v) mem_op list \<Rightarrow> 'm \<Rightarrow> bool list \<times> 'm" where
  "mem_run ins del [] m = ([], m)"
| "mem_run ins del (op # ops) m =
     (let (b, m1) = (case op of Put k v \<Rightarrow> ins k v m | Del k \<Rightarrow> del k m); (bs, m2) = mem_run ins del ops m1 in (b # bs, m2))"

fun map_run :: "('k, 'v) mem_op list \<Rightarrow> ('k \<rightharpoonup> 'v) \<Rightarrow> ('k \<rightharpoonup> 'v)" where
  "map_run [] f = f"
| "map_run (Put k v # ops) f = map_run ops (f(k \<mapsto> v))"
| "map_run (Del k # ops) f = map_run ops (f(k := None))"

text \<open>Every insertion is of a key that is not there.\<close>

fun fresh_puts :: "('k, 'v) mem_op list \<Rightarrow> ('k \<rightharpoonup> 'v) \<Rightarrow> bool" where
  "fresh_puts [] f = True"
| "fresh_puts (Put k v # ops) f = (f k = None \<and> fresh_puts ops (f(k \<mapsto> v)))"
| "fresh_puts (Del k # ops) f = fresh_puts ops (f(k := None))"

text \<open>Every insertion has been answered with success.\<close>

fun puts_done :: "('k, 'v) mem_op list \<Rightarrow> bool list \<Rightarrow> bool" where
  "puts_done (Put k v # ops) (b # bs) = (b \<and> puts_done ops bs)"
| "puts_done (Del k # ops) (b # bs) = puts_done ops bs"
| "puts_done _ _ = True"

locale lookup_memory =
  fixes lup :: "'m \<Rightarrow> 'k \<Rightarrow> 'v option"
    and ins :: "'k \<Rightarrow> 'v \<Rightarrow> 'm \<Rightarrow> bool \<times> 'm"
    and del :: "'k \<Rightarrow> 'm \<Rightarrow> bool \<times> 'm"
    and invar :: "'m \<Rightarrow> bool"
  assumes ins_done: "invar m \<Longrightarrow> lup m k = None \<Longrightarrow> ins k v m = (True, m') \<Longrightarrow> invar m' \<and> lup m' = (lup m)(k \<mapsto> v)"
    and ins_failed: "invar m \<Longrightarrow> lup m k = None \<Longrightarrow> ins k v m = (False, m') \<Longrightarrow>
      invar m' \<and> (\<exists>lost. lup m' = ((lup m)(k \<mapsto> v))(lost := None))"
    and del_done: "invar m \<Longrightarrow> del k m = (b, m') \<Longrightarrow> invar m' \<and> lup m' = (lup m)(k := None) \<and> (b \<longleftrightarrow> lup m k \<noteq> None)"
begin

lemma runs_as_map:
  "\<lbrakk> invar m; fresh_puts ops (lup m); mem_run ins del ops m = (bs, m'); puts_done ops bs \<rbrakk> \<Longrightarrow>
   invar m' \<and> lup m' = map_run ops (lup m)"
proof (induction ops arbitrary: m bs)
  case (Cons op ops)
  obtain b m1 where step: "(case op of Put k v \<Rightarrow> ins k v m | Del k \<Rightarrow> del k m) = (b, m1)" by fastforce
  obtain bs' where run: "mem_run ins del ops m1 = (bs', m')" "bs = b # bs'"
    using Cons.prems(3) step by (auto split: prod.splits)
  show ?case
  proof (cases op)
    case (Put k v)
    with Cons.prems(2,4) step run have "b" "lup m k = None" "ins k v m = (b, m1)" by auto
    then have m1: "invar m1" "lup m1 = (lup m)(k \<mapsto> v)" using ins_done [OF Cons.prems(1)] by auto
    have "fresh_puts ops (lup m1)" "puts_done ops bs'" using Cons.prems(2,4) run(2) Put unfolding m1(2) by simp_all
    from Cons.IH [OF m1(1) this(1) run(1) this(2)] show ?thesis unfolding m1(2) Put map_run.simps .
  next
    case (Del k)
    with step have "del k m = (b, m1)" by simp
    then have m1: "invar m1" "lup m1 = (lup m)(k := None)" using del_done [OF Cons.prems(1)] by auto
    have "fresh_puts ops (lup m1)" "puts_done ops bs'" using Cons.prems(2,4) run(2) Del unfolding m1(2) by simp_all
    from Cons.IH [OF m1(1) this(1) run(1) this(2)] show ?thesis unfolding m1(2) Del map_run.simps .
  qed
qed simp

text \<open>Without the assumption that all insertions succeed, a lookup may miss but never finds a wrong value.\<close>

lemma never_wrong:
  "\<lbrakk> invar m; lup m k = None; ins k v m = (b, m'); lup m' j = Some x \<rbrakk> \<Longrightarrow> ((lup m)(k \<mapsto> v)) j = Some x"
  using ins_done [of m k v m'] ins_failed [of m k v m'] by (cases b) (auto split: if_splits)

end

subsection \<open>The hash table keeps the contract\<close>

text \<open>An update request, handed to the module and answered by one invocation.\<close>

definition ht_ask :: "(nat \<Rightarrow> bool \<Rightarrow> nat \<Rightarrow> u16) \<Rightarrow> nat \<Rightarrow> u16 \<Rightarrow> htUpdateReq \<Rightarrow> hash_st \<Rightarrow> bool \<times> hash_st" where
  "ht_ask tab ab junk r s =
     (let t = hash_table tab ab junk (s\<lparr> ht_lup_req := [], ht_upd_req := [r] \<rparr>) in (hur_success (last (ht_upd_rsp t)), t))"

definition ht_ins :: "(nat \<Rightarrow> bool \<Rightarrow> nat \<Rightarrow> u16) \<Rightarrow> nat \<Rightarrow> u16 \<Rightarrow> lookupSource \<Rightarrow> u64 \<Rightarrow> u16 \<Rightarrow> hash_st \<Rightarrow> bool \<times> hash_st" where
  "ht_ins tab ab junk src k v = ht_ask tab ab junk \<lparr> huq_op = KV_INSERT, huq_key = k, huq_value = v, huq_source = src \<rparr>"

definition ht_del :: "(nat \<Rightarrow> bool \<Rightarrow> nat \<Rightarrow> u16) \<Rightarrow> nat \<Rightarrow> u16 \<Rightarrow> lookupSource \<Rightarrow> u64 \<Rightarrow> hash_st \<Rightarrow> bool \<times> hash_st" where
  "ht_del tab ab junk src k = ht_ask tab ab junk \<lparr> huq_op = KV_DELETE, huq_key = k, huq_value = 0, huq_source = src \<rparr>"

abbreviation ht_map :: "(nat \<Rightarrow> bool \<Rightarrow> nat \<Rightarrow> u16) \<Rightarrow> nat \<Rightarrow> hash_st \<Rightarrow> u64 \<Rightarrow> u16 option" where
  "ht_map tab ab s \<equiv> ht_find (calculate_hashes tab ab) (cuckooTables s)"

abbreviation ht_ok :: "(nat \<Rightarrow> bool \<Rightarrow> nat \<Rightarrow> u16) \<Rightarrow> nat \<Rightarrow> hash_st \<Rightarrow> bool" where
  "ht_ok tab ab s \<equiv> ht_invar (calculate_hashes tab ab) (cuckooTables s)"

lemma ht_ask_run:
  assumes "(if huq_op r = KV_INSERT then ht_insert (calculate_hashes tab ab) r (s\<lparr> ht_lup_req := [], ht_upd_req := [] \<rparr>)
      else ht_remove (calculate_hashes tab ab) r (s\<lparr> ht_lup_req := [], ht_upd_req := [] \<rparr>)) = (rsp, t)"
  shows "ht_ask tab ab junk r s = (hur_success rsp, t\<lparr> ht_upd_rsp := ht_upd_rsp t @ [rsp] \<rparr>)"
  using assms by (auto simp: ht_ask_def hash_table_def Let_def split: if_splits)

interpretation ht_mem: lookup_memory "ht_map tab ab" "ht_ins tab ab junk src" "ht_del tab ab junk src" "ht_ok tab ab"
  for tab ab junk src
proof
  fix m :: hash_st and k v m'
  assume inv: "ht_ok tab ab m" and fresh: "ht_map tab ab m k = None"
  let ?r = "\<lparr> huq_op = KV_INSERT, huq_key = k, huq_value = v, huq_source = src \<rparr>"
  obtain rsp t where run: "ht_insert (calculate_hashes tab ab) ?r (m\<lparr> ht_lup_req := [], ht_upd_req := [] \<rparr>) = (rsp, t)" by fastforce
  note main = insert_map [OF _ _ run refl, simplified, OF inv fresh]
  have ask: "ht_ins tab ab junk src k v m = (hur_success rsp, t\<lparr> ht_upd_rsp := ht_upd_rsp t @ [rsp] \<rparr>)"
    unfolding ht_ins_def by (rule ht_ask_run) (simp add: run)
  show "ht_ok tab ab m' \<and> ht_map tab ab m' = (ht_map tab ab m)(k \<mapsto> v)" if "ht_ins tab ab junk src k v m = (True, m')"
    using that main ask by auto
  show "ht_ok tab ab m' \<and> (\<exists>lost. ht_map tab ab m' = ((ht_map tab ab m)(k \<mapsto> v))(lost := None))"
    if "ht_ins tab ab junk src k v m = (False, m')"
    using that main ask by auto
next
  fix m :: hash_st and k b m'
  assume inv: "ht_ok tab ab m" and del: "ht_del tab ab junk src k m = (b, m')"
  let ?r = "\<lparr> huq_op = KV_DELETE, huq_key = k, huq_value = 0, huq_source = src \<rparr>"
  obtain rsp t where run: "ht_remove (calculate_hashes tab ab) ?r (m\<lparr> ht_lup_req := [], ht_upd_req := [] \<rparr>) = (rsp, t)" by fastforce
  have "ht_del tab ab junk src k m = (hur_success rsp, t\<lparr> ht_upd_rsp := ht_upd_rsp t @ [rsp] \<rparr>)"
    unfolding ht_del_def by (rule ht_ask_run) (simp add: run)
  then show "ht_ok tab ab m' \<and> ht_map tab ab m' = (ht_map tab ab m)(k := None) \<and> (b \<longleftrightarrow> ht_map tab ab m k \<noteq> None)"
    using remove_map [OF _ run, simplified, OF inv] del by simp
qed

text \<open>
  (C8) The hash table is a map.  After any sequence of insertions of absent keys and of removals, in which every insertion has been
  answered with success, a lookup through the module is answered with a hit exactly when the key is in the map that the
  operations describe, and then with the value of that map, wherever the entries have been moved to.
\<close>

theorem hash_table_as_map:
  assumes "ht_ok tab ab s" and "fresh_puts ops (ht_map tab ab s)"
    and "mem_run (ht_ins tab ab junk src) (ht_del tab ab junk src) ops s = (bs, t)" and "puts_done ops bs"
    and "rsp = last (ht_lup_rsp (hash_table tab ab junk' (t\<lparr> ht_lup_req := r # q \<rparr>)))" and "f = map_run ops (ht_map tab ab s)"
  shows "hlr_key rsp = hlq_key r \<and> hlr_source rsp = hlq_source r \<and> (hlr_hit rsp \<longleftrightarrow> f (hlq_key r) \<noteq> None)
    \<and> (hlr_hit rsp \<longrightarrow> f (hlq_key r) = Some (hlr_value rsp)) \<and> ht_ok tab ab t"
proof -
  have "ht_ok tab ab t" "ht_map tab ab t = f"
    using ht_mem.runs_as_map [OF assms(1-4)] assms(6) by simp_all
  moreover have "rsp = ht_lookup (calculate_hashes tab ab) r junk' (cuckooTables t)"
    using assms(5) by (simp add: hash_table_def Let_def)
  ultimately show ?thesis by (auto simp: ht_lookup_def split: option.split)
qed

section \<open>Concrete runs\<close>

definition ht_init :: hash_st where
  "ht_init = \<lparr> cuckooTables = (\<lambda>_ _. \<lparr> hte_key = 0, hte_value = 0, hte_valid = False \<rparr>), victimIdx = 0, victimBit = 0,
     insertFailureCounter = 0, regInsertFailureCount = 0, ht_lup_req = [], ht_upd_req = [], ht_lup_rsp = [], ht_upd_rsp = [] \<rparr>"

lemma ht_init_ok: "ht_invar h (cuckooTables ht_init)" "ht_find h (cuckooTables ht_init) = Map.empty"
  by (auto simp: ht_invar_def ht_init_def stored_def ht_match_def ht_find_None fun_eq_iff)

lemma insertLoop_first:
  "insertLoop h (Suc n) e ht_init = (True, e, ht_init\<lparr> cuckooTables := ht_put h 8 e (cuckooTables ht_init), victimBit := 1 \<rparr>)"
proof -
  have "last_slot (\<lambda>_. True) = Some 8" by (simp add: last_slot_def NUM_TABLES_def upt_rec)
  then show ?thesis by (simp add: ht_init_def Let_def ht_put_def)
qed

lemma ht_insert_first:
  "ht_insert h r ht_init = (\<lparr> hur_op = huq_op r, hur_key = huq_key r, hur_value = huq_value r, hur_success = True, hur_source = huq_source r \<rparr>,
     ht_init\<lparr> cuckooTables := ht_put h 8 (htEntry_mk (huq_key r) (huq_value r)) (cuckooTables ht_init), victimBit := 1 \<rparr>)"
proof -
  obtain n where n: "MAX_TRIALS = Suc n" by (metis MAX_TRIALS_def numeral_eq_Suc)
  have init: "ht_init\<lparr> regInsertFailureCount := insertFailureCounter ht_init, victimIdx := 0 \<rparr> = ht_init" by (simp add: ht_init_def)
  show ?thesis unfolding ht_insert_def n init insertLoop_first by simp
qed

theorem hash_insert_as_map_witness:
  "ht_find (calculate_hashes (\<lambda>i b k. if b then of_nat (i + k) else 0) 7)
     (cuckooTables (snd (ht_insert (calculate_hashes (\<lambda>i b k. if b then of_nat (i + k) else 0) 7)
       \<lparr> huq_op = KV_INSERT, huq_key = 5, huq_value = 77, huq_source = RX \<rparr> ht_init))) = [5 \<mapsto> 77]"
proof -
  let ?h = "calculate_hashes (\<lambda>i b k. if b then of_nat (i + k) else 0) 7"
  let ?r = "\<lparr> huq_op = KV_INSERT, huq_key = 5, huq_value = 77, huq_source = RX \<rparr>"
  show ?thesis
    using hash_insert_as_map [OF ht_init_ok(1) _ ht_insert_first refl, of ?h ?r] ht_init_ok(2) [of ?h] by (simp add: ht_insert_first)
qed

theorem hash_remove_as_map_witness:
  "\<not> hur_success (fst (ht_remove (calculate_hashes (\<lambda>i b k. of_nat (i * k)) 7)
     \<lparr> huq_op = KV_DELETE, huq_key = 5, huq_value = 0, huq_source = RX \<rparr> ht_init))"
  using hash_remove_as_map [OF ht_init_ok(1), of "calculate_hashes (\<lambda>i b k. of_nat (i * k)) 7"
      "\<lparr> huq_op = KV_DELETE, huq_key = 5, huq_value = 0, huq_source = RX \<rparr>"] ht_init_ok(2) by (metis prod.collapse)

theorem hash_table_as_map_witness:
  "hlr_hit (last (ht_lup_rsp (hash_table (\<lambda>i b k. of_nat i) 7 0 ((snd (ht_ins (\<lambda>i b k. of_nat i) 7 0 RX 5 77 ht_init))
     \<lparr> ht_lup_req := [\<lparr> hlq_key = 5, hlq_source = TX_APP \<rparr>] \<rparr>))))"
proof -
  let ?tab = "\<lambda>(i :: nat) (b :: bool) (k :: nat). of_nat i :: u16"
  have init: "ht_init\<lparr> ht_lup_req := [], ht_upd_req := [] \<rparr> = ht_init" by (simp add: ht_init_def)
  have "fst (ht_ins ?tab 7 0 RX 5 77 ht_init)"
    unfolding ht_ins_def by (subst ht_ask_run) (simp_all add: init ht_insert_first, simp)
  then obtain t where t: "ht_ins ?tab 7 0 RX 5 77 ht_init = (True, t)" by (metis (full_types) prod.collapse)
  then have "mem_run (ht_ins ?tab 7 0 RX) (ht_del ?tab 7 0 RX) [Put 5 77] ht_init = ([True], t)" by simp
  from hash_table_as_map [OF ht_init_ok(1) _ this _ refl refl, of 0 "\<lparr> hlq_key = 5, hlq_source = TX_APP \<rparr>" "[]"] t show ?thesis
    by (simp add: ht_init_ok(2))
qed

text \<open>A key that is inserted again is stored twice, and the lookup still returns the old value.\<close>

lemma second_insert_not_seen:
  "let tab = (\<lambda>i b k. 0); t = snd (ht_ins tab 7 0 RX 5 78 (snd (ht_ins tab 7 0 RX 5 77 ht_init)))
   in ht_map tab 7 t 5 = Some 77 \<and> stored (calculate_hashes tab 7) (cuckooTables t) 5 7 \<and> stored (calculate_hashes tab 7) (cuckooTables t) 5 8"
  by code_simp

text \<open>Nine keys fill the nine places of a tenth: its insertion fails, the new key is in and one of the nine is out.\<close>

definition ht_full :: hash_st where
  "ht_full = ht_init\<lparr> cuckooTables := (\<lambda>i _. htEntry_mk (of_nat i) (of_nat i)) \<rparr>"

lemma failed_insert_loses_other:
  "let (rsp, t) = ht_insert (\<lambda>_ i. of_nat i) \<lparr> huq_op = KV_INSERT, huq_key = 100, huq_value = 42, huq_source = RX \<rparr> ht_full
   in \<not> hur_success rsp \<and> ht_find (\<lambda>_ i. of_nat i) (cuckooTables t) 100 = Some 42
      \<and> ht_find (\<lambda>_ i. of_nat i) (cuckooTables ht_full) 3 = Some 3 \<and> ht_find (\<lambda>_ i. of_nat i) (cuckooTables t) 3 = None"
  by code_simp

end
