(* ===== verification/Multi_Queue.thy ===== *)
theory Multi_Queue
  imports Prelude
begin

text \<open>
  The multi queue (\<^verbatim>\<open>ib_transport_protocol/multi_queue/multi_queue.hpp\<close>): one FIFO queue per key, kept
  as linked lists in a shared table of slots.  Four processes run in parallel and talk over streams: a
  table of head and tail pointers with a lock, the table of slots, a manager of the free slots and the
  state machine that serves the push and pop requests.

  A process is a function on its part of the state; the state of a process includes the streams it reads
  and writes.  The three table processes are shared with the retransmitter, whose text is the same.  The
  lemmas show that, in every interleaving of the processes, the module answers as one list per key does,
  that no slot is lost or used twice, and that every request is worked off.
\<close>

section \<open>Data\<close>

record 'v mqInsertReq =
  mqi_key :: u16
  mqi_value :: 'v

datatype mqPopOperation = POP | FRONT

record mqPopReq =
  mqp_op :: mqPopOperation
  mqp_key :: u16

record mqPointerEntry =
  mpe_head :: u16
  mpe_tail :: u16
  mpe_valid :: bool

record 'v mqMetaEntry =
  mme_value :: 'v
  mme_next :: u16
  mme_valid :: bool
  mme_isTail :: bool

definition mqMetaEntry_insert :: "'v \<Rightarrow> 'v mqMetaEntry" where
  "mqMetaEntry_insert v = \<lparr> mme_value = v, mme_next = 0, mme_valid = True, mme_isTail = True \<rparr>"

text \<open>The three constructors of the request struct; the flags \<^verbatim>\<open>write\<close> and \<^verbatim>\<open>append\<close> tell them apart.\<close>

datatype 'v mqMetaReq = MetaRead u16 | MetaAppend u16 u16 | MetaWrite u16 "'v mqMetaEntry"

record mqPointerReq =
  mpr_key :: u16
  mpr_lock :: bool

record mqPointerUpdate =
  mpu_key :: u16
  mpu_entry :: mqPointerEntry

text \<open>The statics of each process with its streams.\<close>

record pointer_tab =
  ptr_table :: "u16 \<Rightarrow> mqPointerEntry"
  mq_lockedKey :: u16
  mq_isLocked :: bool
  mq_wait :: bool
  mq_request :: mqPointerReq
  pointerReqFifo :: "mqPointerReq list"
  pointerUpdFifo :: "mqPointerUpdate list"
  pointerRspFifo :: "mqPointerEntry list"

record 'v meta_tab =
  meta_table :: "u16 \<Rightarrow> 'v mqMetaEntry"
  metaReqFifo :: "'v mqMetaReq list"
  metaRspFifo :: "'v mqMetaEntry list"

record slot_list =
  freeListCounter :: u16
  releaseFifo :: "u16 list"
  freeListFifo :: "u16 list"

datatype mqStateType = STATE_MAIN | STATE_PUSH | STATE_PUSH_2 | STATE_POP | STATE_POP_2

record 'v multi_queue_st =
  mq_ptr :: pointer_tab
  mq_meta :: "'v meta_tab"
  mq_free :: slot_list
  mq_state :: mqStateType
  newMetaIdx :: u16
  mq_insert :: "'v mqInsertReq"
  popRequest :: mqPopReq
  ptrMeta :: mqPointerEntry
  multiQueue_push :: "'v mqInsertReq list"
  multiQueue_pop_req :: "mqPopReq list"
  multiQueue_pop_rsp :: "'v list"

section \<open>The processes\<close>

definition mq_pointer_table :: "pointer_tab \<Rightarrow> pointer_tab" where
  "mq_pointer_table t =
     (case pointerUpdFifo t of
        u # q \<Rightarrow>
          (let t1 = t\<lparr> pointerUpdFifo := q, ptr_table := (ptr_table t)(mpu_key u := mpu_entry u) \<rparr>
           in if mq_lockedKey t = mpu_key u then t1\<lparr> mq_isLocked := False \<rparr> else t1)
      | [] \<Rightarrow>
          (if pointerReqFifo t \<noteq> [] \<and> \<not> mq_wait t then
             (let r = hd (pointerReqFifo t);
                  t1 = t\<lparr> pointerReqFifo := tl (pointerReqFifo t), mq_request := r \<rparr>
              in if mpr_lock r \<and> mq_isLocked t then t1\<lparr> mq_wait := True \<rparr>
                 else (let t2 = t1\<lparr> pointerRspFifo := pointerRspFifo t @ [ptr_table t (mpr_key r)] \<rparr>
                       in if mpr_lock r then t2\<lparr> mq_isLocked := True, mq_lockedKey := mpr_key r \<rparr> else t2))
           else if mq_wait t then
             (if \<not> mq_isLocked t
              then t\<lparr> pointerRspFifo := pointerRspFifo t @ [ptr_table t (mpr_key (mq_request t))],
                      mq_isLocked := True, mq_lockedKey := mpr_key (mq_request t), mq_wait := False \<rparr>
              else t)
           else t))"

text \<open>\<open>n\<close> is the template argument \<^verbatim>\<open>MULTI_QUEUE_SIZE\<close>, \<open>full\<close> the answer of \<^verbatim>\<open>rt_freeListFifo.full()\<close>.\<close>

definition mq_freelist_handler :: "nat \<Rightarrow> bool \<Rightarrow> slot_list \<Rightarrow> slot_list" where
  "mq_freelist_handler n full f =
     (case releaseFifo f of
        i # q \<Rightarrow> f\<lparr> releaseFifo := q, freeListFifo := freeListFifo f @ [i] \<rparr>
      | [] \<Rightarrow>
          (if unat (freeListCounter f) < n \<and> \<not> full
           then f\<lparr> freeListFifo := freeListFifo f @ [freeListCounter f],
                   freeListCounter := freeListCounter f + 1 \<rparr>
           else f))"

definition mq_meta_table :: "'v meta_tab \<Rightarrow> 'v meta_tab" where
  "mq_meta_table t =
     (case metaReqFifo t of
        MetaWrite i e # q \<Rightarrow> t\<lparr> metaReqFifo := q, meta_table := (meta_table t)(i := e) \<rparr>
      | MetaAppend i j # q \<Rightarrow>
          t\<lparr> metaReqFifo := q,
             meta_table := (meta_table t)(i := (meta_table t i)\<lparr> mme_next := j, mme_isTail := False \<rparr>) \<rparr>
      | MetaRead i # q \<Rightarrow> t\<lparr> metaReqFifo := q, metaRspFifo := metaRspFifo t @ [meta_table t i] \<rparr>
      | [] \<Rightarrow> t)"

text \<open>A write of the state machine to one of its three output streams.\<close>

definition send_ptr_req :: "u16 \<Rightarrow> bool \<Rightarrow> pointer_tab \<Rightarrow> pointer_tab" where
  "send_ptr_req k l t = t\<lparr> pointerReqFifo := pointerReqFifo t @ [\<lparr> mpr_key = k, mpr_lock = l \<rparr>] \<rparr>"

definition send_ptr_upd :: "u16 \<Rightarrow> mqPointerEntry \<Rightarrow> pointer_tab \<Rightarrow> pointer_tab" where
  "send_ptr_upd k e t = t\<lparr> pointerUpdFifo := pointerUpdFifo t @ [\<lparr> mpu_key = k, mpu_entry = e \<rparr>] \<rparr>"

definition take_ptr_rsp :: "pointer_tab \<Rightarrow> pointer_tab" where
  "take_ptr_rsp t = t\<lparr> pointerRspFifo := tl (pointerRspFifo t) \<rparr>"

definition send_meta_req :: "'v mqMetaReq \<Rightarrow> 'v meta_tab \<Rightarrow> 'v meta_tab" where
  "send_meta_req r t = t\<lparr> metaReqFifo := metaReqFifo t @ [r] \<rparr>"

definition take_meta_rsp :: "'v meta_tab \<Rightarrow> 'v meta_tab" where
  "take_meta_rsp t = t\<lparr> metaRspFifo := tl (metaRspFifo t) \<rparr>"

definition mq_process_requests :: "'v multi_queue_st \<Rightarrow> 'v multi_queue_st" where
  "mq_process_requests s =
     (case mq_state s of
        STATE_MAIN \<Rightarrow>
          (if multiQueue_push s \<noteq> [] \<and> freeListFifo (mq_free s) \<noteq> [] then
             (let ins = hd (multiQueue_push s)
              in s\<lparr> newMetaIdx := hd (freeListFifo (mq_free s)),
                    mq_free := (mq_free s)\<lparr> freeListFifo := tl (freeListFifo (mq_free s)) \<rparr>,
                    multiQueue_push := tl (multiQueue_push s), mq_insert := ins,
                    mq_ptr := send_ptr_req (mqi_key ins) True (mq_ptr s), mq_state := STATE_PUSH \<rparr>)
           else if multiQueue_pop_req s \<noteq> [] then
             (let r = hd (multiQueue_pop_req s)
              in s\<lparr> multiQueue_pop_req := tl (multiQueue_pop_req s), popRequest := r,
                    mq_ptr := send_ptr_req (mqp_key r) False (mq_ptr s), mq_state := STATE_POP \<rparr>)
           else s)
      | STATE_PUSH \<Rightarrow>
          (case pointerRspFifo (mq_ptr s) of
             p # _ \<Rightarrow>
               (let t = take_ptr_rsp (mq_ptr s)
                in if \<not> mpe_valid p then
                     (let p' = \<lparr> mpe_head = newMetaIdx s, mpe_tail = newMetaIdx s, mpe_valid = True \<rparr>
                      in s\<lparr> ptrMeta := p',
                            mq_meta := send_meta_req (MetaWrite (newMetaIdx s) (mqMetaEntry_insert (mqi_value (mq_insert s)))) (mq_meta s),
                            mq_ptr := send_ptr_upd (mqi_key (mq_insert s)) p' t, mq_state := STATE_MAIN \<rparr>)
                   else
                     s\<lparr> mq_meta := send_meta_req (MetaAppend (mpe_tail p) (newMetaIdx s)) (mq_meta s),
                        ptrMeta := p\<lparr> mpe_tail := newMetaIdx s \<rparr>, mq_ptr := t, mq_state := STATE_PUSH_2 \<rparr>)
           | [] \<Rightarrow> s)
      | STATE_PUSH_2 \<Rightarrow>
          s\<lparr> mq_meta := send_meta_req (MetaWrite (newMetaIdx s) (mqMetaEntry_insert (mqi_value (mq_insert s)))) (mq_meta s),
             mq_ptr := send_ptr_upd (mqi_key (mq_insert s)) (ptrMeta s) (mq_ptr s), mq_state := STATE_MAIN \<rparr>
      | STATE_POP \<Rightarrow>
          (case pointerRspFifo (mq_ptr s) of
             p # _ \<Rightarrow>
               (let s1 = s\<lparr> mq_ptr := take_ptr_rsp (mq_ptr s), ptrMeta := p \<rparr>
                in if mpe_valid p
                   then s1\<lparr> mq_meta := send_meta_req (MetaRead (mpe_head p)) (mq_meta s), mq_state := STATE_POP_2 \<rparr>
                   else s1\<lparr> mq_state := STATE_MAIN \<rparr>)
           | [] \<Rightarrow> s)
      | STATE_POP_2 \<Rightarrow>
          (case metaRspFifo (mq_meta s) of
             m # _ \<Rightarrow>
               (let s1 = s\<lparr> mq_meta := take_meta_rsp (mq_meta s), mq_state := STATE_MAIN \<rparr>
                in if mme_valid m then
                     (let s2 = s1\<lparr> multiQueue_pop_rsp := multiQueue_pop_rsp s @ [mme_value m] \<rparr>
                      in if mqp_op (popRequest s) = POP then
                           (let p' = (ptrMeta s)\<lparr> mpe_valid := \<not> mme_isTail m, mpe_head := mme_next m \<rparr>
                            in s2\<lparr> mq_free := (mq_free s)\<lparr> releaseFifo := releaseFifo (mq_free s) @ [mpe_head (ptrMeta s)] \<rparr>,
                                   ptrMeta := p',
                                   mq_ptr := send_ptr_upd (mqp_key (popRequest s)) p' (mq_ptr s) \<rparr>)
                         else s2)
                   else s1)
           | [] \<Rightarrow> s))"

text \<open>One invocation of the module: the processes in the order of the source.\<close>

definition multi_queue :: "nat \<Rightarrow> bool \<Rightarrow> 'v multi_queue_st \<Rightarrow> 'v multi_queue_st" where
  "multi_queue n full s =
     mq_process_requests
       (s\<lparr> mq_free := mq_freelist_handler n full (mq_free s), mq_ptr := mq_pointer_table (mq_ptr s),
           mq_meta := mq_meta_table (mq_meta s) \<rparr>)"

definition pointer_tab_init :: pointer_tab where
  "pointer_tab_init = \<lparr> ptr_table = (\<lambda>_. \<lparr> mpe_head = 0, mpe_tail = 0, mpe_valid = False \<rparr>), mq_lockedKey = 0,
     mq_isLocked = False, mq_wait = False, mq_request = \<lparr> mpr_key = 0, mpr_lock = False \<rparr>,
     pointerReqFifo = [], pointerUpdFifo = [], pointerRspFifo = [] \<rparr>"

definition meta_tab_init :: "'v \<Rightarrow> 'v meta_tab" where
  "meta_tab_init v = \<lparr> meta_table = (\<lambda>_. \<lparr> mme_value = v, mme_next = 0, mme_valid = False, mme_isTail = False \<rparr>),
     metaReqFifo = [], metaRspFifo = [] \<rparr>"

definition slot_list_init :: slot_list where
  "slot_list_init = \<lparr> freeListCounter = 0, releaseFifo = [], freeListFifo = [] \<rparr>"

definition multi_queue_init :: "'v \<Rightarrow> 'v multi_queue_st" where
  "multi_queue_init v = \<lparr> mq_ptr = pointer_tab_init, mq_meta = meta_tab_init v, mq_free = slot_list_init,
     mq_state = STATE_MAIN, newMetaIdx = 0, mq_insert = \<lparr> mqi_key = 0, mqi_value = v \<rparr>,
     popRequest = \<lparr> mqp_op = POP, mqp_key = 0 \<rparr>,
     ptrMeta = \<lparr> mpe_head = 0, mpe_tail = 0, mpe_valid = False \<rparr>,
     multiQueue_push = [], multiQueue_pop_req = [], multiQueue_pop_rsp = [] \<rparr>"

section \<open>The tables with what is on its way to them\<close>

text \<open>The content of a table once the updates that wait on its stream are applied.  A table process never
  changes this view; the state machine works on the views.\<close>

definition ptr_apply :: "mqPointerUpdate \<Rightarrow> (u16 \<Rightarrow> mqPointerEntry) \<Rightarrow> u16 \<Rightarrow> mqPointerEntry" where
  "ptr_apply u m = m(mpu_key u := mpu_entry u)"

definition ptr_view :: "pointer_tab \<Rightarrow> u16 \<Rightarrow> mqPointerEntry" where
  "ptr_view t = fold ptr_apply (pointerUpdFifo t) (ptr_table t)"

fun meta_apply :: "'v mqMetaReq \<Rightarrow> (u16 \<Rightarrow> 'v mqMetaEntry) \<Rightarrow> u16 \<Rightarrow> 'v mqMetaEntry" where
  "meta_apply (MetaWrite i e) m = m(i := e)"
| "meta_apply (MetaAppend i j) m = m(i := (m i)\<lparr> mme_next := j, mme_isTail := False \<rparr>)"
| "meta_apply (MetaRead i) m = m"

definition meta_view :: "'v meta_tab \<Rightarrow> u16 \<Rightarrow> 'v mqMetaEntry" where
  "meta_view t = fold meta_apply (metaReqFifo t) (meta_table t)"

fun is_read :: "'v mqMetaReq \<Rightarrow> bool" where
  "is_read (MetaRead i) = True"
| "is_read _ = False"

text \<open>The lock is held by nobody, or the update that releases it is on its way.\<close>

definition lock_ok :: "pointer_tab \<Rightarrow> bool" where
  "lock_ok t \<longleftrightarrow> (mq_isLocked t \<longrightarrow> mq_lockedKey t \<in> mpu_key ` set (pointerUpdFifo t))"

definition ptr_quiet :: "pointer_tab \<Rightarrow> bool" where
  "ptr_quiet t \<longleftrightarrow> pointerReqFifo t = [] \<and> pointerRspFifo t = [] \<and> \<not> mq_wait t"

text \<open>One request for the pointers of \<open>k\<close> is on its way or answered.\<close>

definition ptr_pending :: "u16 \<Rightarrow> bool \<Rightarrow> pointer_tab \<Rightarrow> bool" where
  "ptr_pending k l t \<longleftrightarrow> \<not> mq_wait t \<and>
     (pointerReqFifo t = [\<lparr> mpr_key = k, mpr_lock = l \<rparr>] \<and> pointerRspFifo t = [] \<and> lock_ok t
      \<or> pointerReqFifo t = [] \<and> pointerRspFifo t = [ptr_view t k]
        \<and> (if l then mq_isLocked t \<longrightarrow> mq_lockedKey t = k else lock_ok t))"

definition meta_quiet :: "'v meta_tab \<Rightarrow> bool" where
  "meta_quiet t \<longleftrightarrow> metaRspFifo t = [] \<and> (\<forall>r\<in>set (metaReqFifo t). \<not> is_read r)"

text \<open>One read of slot \<open>i\<close> is on its way, behind all updates, or answered.\<close>

definition meta_pending :: "u16 \<Rightarrow> 'v meta_tab \<Rightarrow> bool" where
  "meta_pending i t \<longleftrightarrow>
     metaRspFifo t = [] \<and> (\<exists>ws. metaReqFifo t = ws @ [MetaRead i] \<and> (\<forall>r\<in>set ws. \<not> is_read r))
     \<or> metaRspFifo t = [meta_view t i] \<and> metaReqFifo t = []"

lemmas view_defs = ptr_view_def meta_view_def

lemma ptr_view_table [simp]: "ptr_view (mq_pointer_table t) = ptr_view t"
  by (auto simp: mq_pointer_table_def ptr_view_def ptr_apply_def Let_def split: list.split)

lemma meta_view_table [simp]: "meta_view (mq_meta_table t) = meta_view t"
  by (auto simp: mq_meta_table_def meta_view_def split: list.split mqMetaReq.split)

lemma ptr_view_send [simp]:
  "ptr_view (send_ptr_req k l t) = ptr_view t"
  "ptr_view (take_ptr_rsp t) = ptr_view t"
  "ptr_view (send_ptr_upd k e t) = (ptr_view t)(k := e)"
  by (simp_all add: ptr_view_def ptr_apply_def send_ptr_req_def take_ptr_rsp_def send_ptr_upd_def)

lemma meta_view_send [simp]:
  "meta_view (send_meta_req r t) = meta_apply r (meta_view t)"
  "meta_view (take_meta_rsp t) = meta_view t"
  by (simp_all add: meta_view_def send_meta_req_def take_meta_rsp_def)

lemma lock_ok_table: "lock_ok t \<Longrightarrow> pointerReqFifo t = [] \<Longrightarrow> \<not> mq_wait t \<Longrightarrow> lock_ok (mq_pointer_table t)"
  by (auto simp: lock_ok_def mq_pointer_table_def Let_def split: list.splits)

lemma ptr_quiet_table: "ptr_quiet t \<Longrightarrow> ptr_quiet (mq_pointer_table t)"
  by (auto simp: ptr_quiet_def mq_pointer_table_def Let_def split: list.splits)

lemma lock_ok_quiet_table: "ptr_quiet t \<Longrightarrow> lock_ok t \<Longrightarrow> lock_ok (mq_pointer_table t)"
  by (simp add: lock_ok_table ptr_quiet_def)

lemma ptr_pending_table: "ptr_pending k l t \<Longrightarrow> ptr_pending k l (mq_pointer_table t)"
proof (cases "pointerUpdFifo t")
  case Nil
  assume "ptr_pending k l t"
  with Nil show ?thesis
    by (auto simp: ptr_pending_def mq_pointer_table_def lock_ok_def ptr_view_def)
next
  case (Cons u q)
  assume "ptr_pending k l t"
  with Cons show ?thesis
    by (auto simp: ptr_pending_def mq_pointer_table_def lock_ok_def ptr_view_def ptr_apply_def Let_def)
qed

lemma meta_quiet_table: "meta_quiet t \<Longrightarrow> meta_quiet (mq_meta_table t)"
  by (auto simp: meta_quiet_def mq_meta_table_def split: list.splits mqMetaReq.splits)

lemma meta_pending_table: "meta_pending i t \<Longrightarrow> meta_pending i (mq_meta_table t)"
proof (cases "metaReqFifo t")
  case Nil
  assume "meta_pending i t"
  with Nil show ?thesis by (auto simp: meta_pending_def mq_meta_table_def)
next
  case (Cons r q)
  assume "meta_pending i t"
  with Cons obtain ws where ws: "r # q = ws @ [MetaRead i]" "metaRspFifo t = []" "\<forall>r\<in>set ws. \<not> is_read r"
    by (auto simp: meta_pending_def)
  show ?thesis
  proof (cases ws)
    case Nil
    with ws Cons show ?thesis by (simp add: meta_pending_def mq_meta_table_def meta_view_def)
  next
    case (Cons w ws')
    with ws \<open>metaReqFifo t = r # q\<close> show ?thesis
      by (cases w) (auto simp: meta_pending_def mq_meta_table_def)
  qed
qed

lemma ptr_pending_send: "ptr_quiet t \<Longrightarrow> lock_ok t \<Longrightarrow> ptr_pending k l (send_ptr_req k l t)"
  by (simp add: ptr_quiet_def ptr_pending_def send_ptr_req_def lock_ok_def)

lemma ptr_pending_rsp:
  assumes "ptr_pending k l t" "pointerRspFifo t = p # ps"
  shows "p = ptr_view t k" "ptr_quiet (take_ptr_rsp t)"
    "l \<Longrightarrow> mq_isLocked t \<Longrightarrow> mq_lockedKey t = k" "\<not> l \<Longrightarrow> lock_ok (take_ptr_rsp t)"
  using assms by (auto simp: ptr_pending_def ptr_quiet_def take_ptr_rsp_def lock_ok_def split: if_splits)

lemma ptr_quiet_upd [simp]: "ptr_quiet (send_ptr_upd k e t) = ptr_quiet t"
  by (simp add: ptr_quiet_def send_ptr_upd_def)

lemma lock_ok_upd: "(mq_isLocked t \<Longrightarrow> mq_lockedKey t = k) \<Longrightarrow> lock_ok (send_ptr_upd k e t)"
  by (auto simp: lock_ok_def send_ptr_upd_def)

lemma lock_ok_upd_keep: "lock_ok t \<Longrightarrow> lock_ok (send_ptr_upd k e t)"
  by (auto simp: lock_ok_def send_ptr_upd_def)

lemma meta_quiet_send: "meta_quiet t \<Longrightarrow> \<not> is_read r \<Longrightarrow> meta_quiet (send_meta_req r t)"
  by (auto simp: meta_quiet_def send_meta_req_def)

lemma meta_pending_send: "meta_quiet t \<Longrightarrow> meta_pending i (send_meta_req (MetaRead i) t)"
  by (auto simp: meta_quiet_def meta_pending_def send_meta_req_def)

lemma meta_pending_rsp:
  assumes "meta_pending i t" "metaRspFifo t = m # ms"
  shows "m = meta_view t i" "meta_quiet (take_meta_rsp t)"
  using assms by (auto simp: meta_pending_def meta_quiet_def take_meta_rsp_def)

section \<open>Linked lists in the slots\<close>

text \<open>The slots \<open>is\<close> hold a list: each points to the next one, and only the last is marked as the tail.\<close>

fun links :: "(u16 \<Rightarrow> 'v mqMetaEntry) \<Rightarrow> u16 list \<Rightarrow> bool" where
  "links m [] = True"
| "links m [i] = (mme_valid (m i) \<and> mme_isTail (m i))"
| "links m (i # j # is) = (mme_valid (m i) \<and> \<not> mme_isTail (m i) \<and> mme_next (m i) = j \<and> links m (j # is))"

definition chain :: "(u16 \<Rightarrow> 'v mqMetaEntry) \<Rightarrow> mqPointerEntry \<Rightarrow> u16 list \<Rightarrow> bool" where
  "chain m p is \<longleftrightarrow> mpe_valid p = (is \<noteq> []) \<and> links m is
     \<and> (is \<noteq> [] \<longrightarrow> mpe_head p = hd is \<and> mpe_tail p = last is)"

lemma links_cong: "(\<And>i. i \<in> set is \<Longrightarrow> m' i = m i) \<Longrightarrow> links m' is = links m is"
  by (induction m "is" rule: links.induct) auto

lemma chain_upd [simp]: "i \<notin> set is \<Longrightarrow> chain (m(i := e)) p is = chain m p is"
  unfolding chain_def by (subst links_cong [where m = m]) auto

lemma links_hd: "links m (i # is) \<Longrightarrow> mme_valid (m i) \<and> mme_isTail (m i) = (is = [])"
  by (cases "is") auto

lemma links_snoc:
  assumes "links m is" "is \<noteq> []" "distinct is" "n \<notin> set is"
  shows "links (m(last is := (m (last is))\<lparr> mme_next := n, mme_isTail := False \<rparr>, n := mqMetaEntry_insert v)) (is @ [n])"
  using assms
proof (induction "is" rule: induct_list012)
  case (3 i j js)
  define m' where "m' = m(last (j # js) := (m (last (j # js)))\<lparr> mme_next := n, mme_isTail := False \<rparr>,
      n := mqMetaEntry_insert v)"
  have "links m (j # js)" "distinct (j # js)" "n \<notin> set (j # js)" using 3 by simp_all
  from "3.IH"(2) [OF this(1) _ this(2,3)] have "links m' (j # js @ [n])"
    by (simp only: m'_def append_Cons list.distinct simp_thms)
  moreover have "i \<noteq> last (j # js)" "i \<noteq> n" using 3 last_in_set [of "j # js"] by fastforce+
  then have "m' i = m i" by (simp add: m'_def)
  ultimately have "links m' (i # j # js @ [n])" using 3 by simp
  then show ?case by (simp only: m'_def append_Cons last_ConsR list.distinct simp_thms)
qed (simp_all add: mqMetaEntry_insert_def)

lemma chain_pop:
  assumes "chain m p (i # is)"
  shows "chain m (p\<lparr> mpe_valid := \<not> mme_isTail (m i), mpe_head := mme_next (m i) \<rparr>) is"
  using assms by (cases "is") (auto simp: chain_def)

section \<open>The abstract queues\<close>

datatype 'v mq_op = Push u16 'v | Pop u16 | Front u16

text \<open>One list per key, and the answers given so far.  A pop of an empty queue has no answer.\<close>

fun spec_op :: "'v mq_op \<Rightarrow> (u16 \<Rightarrow> 'v list) \<times> 'v list \<Rightarrow> (u16 \<Rightarrow> 'v list) \<times> 'v list" where
  "spec_op (Push k v) (Q, out) = (Q(k := Q k @ [v]), out)"
| "spec_op (Pop k) (Q, out) = (case Q k of [] \<Rightarrow> (Q, out) | v # vs \<Rightarrow> (Q(k := vs), out @ [v]))"
| "spec_op (Front k) (Q, out) = (case Q k of [] \<Rightarrow> (Q, out) | v # vs \<Rightarrow> (Q, out @ [v]))"

definition mq_spec :: "'v mq_op list \<Rightarrow> (u16 \<Rightarrow> 'v list) \<times> 'v list" where
  "mq_spec h = fold spec_op h (\<lambda>_. [], [])"

lemma mq_spec_Nil [simp]: "mq_spec [] = (\<lambda>_. [], [])"
  by (simp add: mq_spec_def)

lemma mq_spec_snoc: "mq_spec (h @ [x]) = spec_op x (mq_spec h)"
  by (simp add: mq_spec_def)

definition pop_op :: "mqPopReq \<Rightarrow> 'v mq_op" where
  "pop_op r = (if mqp_op r = POP then Pop (mqp_key r) else Front (mqp_key r))"

definition push_op :: "'v mqInsertReq \<Rightarrow> 'v mq_op" where
  "push_op r = Push (mqi_key r) (mqi_value r)"

text \<open>The request that the next invocation of the state machine accepts.\<close>

definition mq_accepts :: "'v multi_queue_st \<Rightarrow> 'v mq_op list" where
  "mq_accepts s =
     (if mq_state s \<noteq> STATE_MAIN then []
      else if multiQueue_push s \<noteq> [] \<and> freeListFifo (mq_free s) \<noteq> [] then [push_op (hd (multiQueue_push s))]
      else if multiQueue_pop_req s \<noteq> [] then [pop_op (hd (multiQueue_pop_req s))] else [])"

text \<open>The processes run in any order and the clients send requests; the second component records the
  accepted requests.\<close>

inductive mq_move :: "nat \<Rightarrow> 'v multi_queue_st \<times> 'v mq_op list \<Rightarrow> 'v multi_queue_st \<times> 'v mq_op list \<Rightarrow> bool"
  for n where
  mq_machine: "mq_move n (s, h) (mq_process_requests s, h @ mq_accepts s)"
| mq_pointers: "mq_move n (s, h) (s\<lparr> mq_ptr := mq_pointer_table (mq_ptr s) \<rparr>, h)"
| mq_slots: "mq_move n (s, h) (s\<lparr> mq_meta := mq_meta_table (mq_meta s) \<rparr>, h)"
| mq_manager: "mq_move n (s, h) (s\<lparr> mq_free := mq_freelist_handler n full (mq_free s) \<rparr>, h)"
| mq_clients: "mq_move n (s, h) (s\<lparr> multiQueue_push := a, multiQueue_pop_req := b \<rparr>, h)"

section \<open>The invariant\<close>

text \<open>The queues \<open>Q\<close> are stored in the slots \<open>A\<close>.\<close>

definition mq_stored :: "(u16 \<Rightarrow> 'v list) \<Rightarrow> (u16 \<Rightarrow> 'v mqMetaEntry) \<Rightarrow> (u16 \<Rightarrow> mqPointerEntry) \<Rightarrow> (u16 \<Rightarrow> u16 list) \<Rightarrow> bool" where
  "mq_stored Q m p A \<longleftrightarrow> (\<forall>k. chain m (p k) (A k) \<and> map (\<lambda>i. mme_value (m i)) (A k) = Q k)"

text \<open>Every slot that was ever handed out is in exactly one place: in one queue, or in \<open>xs\<close>.\<close>

definition slots_ok :: "(u16 \<Rightarrow> u16 list) \<Rightarrow> u16 list \<Rightarrow> u16 \<Rightarrow> bool" where
  "slots_ok A xs c \<longleftrightarrow> distinct xs \<and> (\<forall>k. distinct (A k)) \<and> (\<forall>k j. j \<in> set (A k) \<longrightarrow> j \<notin> set xs)
     \<and> (\<forall>k l j. j \<in> set (A k) \<longrightarrow> j \<in> set (A l) \<longrightarrow> k = l)
     \<and> (\<forall>j. unat j < unat c \<longleftrightarrow> j \<in> set xs \<or> (\<exists>k. j \<in> set (A k)))"

definition loose_slots :: "'v multi_queue_st \<Rightarrow> u16 list" where
  "loose_slots s = (if mq_state s \<in> {STATE_PUSH, STATE_PUSH_2} then [newMetaIdx s] else [])
     @ freeListFifo (mq_free s) @ releaseFifo (mq_free s)"

definition mq_holds :: "'v multi_queue_st \<Rightarrow> 'v mq_op list \<Rightarrow> (u16 \<Rightarrow> 'v mqMetaEntry) \<Rightarrow> (u16 \<Rightarrow> u16 list) \<Rightarrow> bool" where
  "mq_holds s h m A \<longleftrightarrow> mq_stored (fst (mq_spec h)) m (ptr_view (mq_ptr s)) A \<and> multiQueue_pop_rsp s = snd (mq_spec h)"

definition mq_at :: "'v multi_queue_st \<Rightarrow> 'v mq_op list \<Rightarrow> (u16 \<Rightarrow> u16 list) \<Rightarrow> bool" where
  "mq_at s h A \<longleftrightarrow> (case mq_state s of
     STATE_MAIN \<Rightarrow> ptr_quiet (mq_ptr s) \<and> lock_ok (mq_ptr s) \<and> meta_quiet (mq_meta s)
       \<and> mq_holds s h (meta_view (mq_meta s)) A
   | STATE_PUSH \<Rightarrow> \<exists>h0. h = h0 @ [push_op (mq_insert s)] \<and> ptr_pending (mqi_key (mq_insert s)) True (mq_ptr s)
       \<and> meta_quiet (mq_meta s) \<and> mq_holds s h0 (meta_view (mq_meta s)) A
   | STATE_PUSH_2 \<Rightarrow> \<exists>h0 m. h = h0 @ [push_op (mq_insert s)] \<and> ptr_quiet (mq_ptr s)
       \<and> (mq_isLocked (mq_ptr s) \<longrightarrow> mq_lockedKey (mq_ptr s) = mqi_key (mq_insert s))
       \<and> meta_quiet (mq_meta s) \<and> A (mqi_key (mq_insert s)) \<noteq> []
       \<and> meta_view (mq_meta s) = meta_apply (MetaAppend (last (A (mqi_key (mq_insert s)))) (newMetaIdx s)) m
       \<and> ptrMeta s = (ptr_view (mq_ptr s) (mqi_key (mq_insert s)))\<lparr> mpe_tail := newMetaIdx s \<rparr>
       \<and> mq_holds s h0 m A
   | STATE_POP \<Rightarrow> \<exists>h0. h = h0 @ [pop_op (popRequest s)] \<and> ptr_pending (mqp_key (popRequest s)) False (mq_ptr s)
       \<and> meta_quiet (mq_meta s) \<and> mq_holds s h0 (meta_view (mq_meta s)) A
   | STATE_POP_2 \<Rightarrow> \<exists>h0. h = h0 @ [pop_op (popRequest s)] \<and> ptr_quiet (mq_ptr s) \<and> lock_ok (mq_ptr s)
       \<and> meta_pending (mpe_head (ptrMeta s)) (mq_meta s)
       \<and> ptrMeta s = ptr_view (mq_ptr s) (mqp_key (popRequest s)) \<and> mpe_valid (ptrMeta s)
       \<and> mq_holds s h0 (meta_view (mq_meta s)) A)"

definition mq_inv :: "nat \<Rightarrow> 'v multi_queue_st \<times> 'v mq_op list \<Rightarrow> bool" where
  "mq_inv n sh \<longleftrightarrow> (case sh of (s, h) \<Rightarrow> unat (freeListCounter (mq_free s)) \<le> n
     \<and> (\<exists>A. slots_ok A (loose_slots s) (freeListCounter (mq_free s)) \<and> mq_at s h A))"

lemma mq_holds_cong:
  "ptr_view (mq_ptr s') = ptr_view (mq_ptr s) \<Longrightarrow> multiQueue_pop_rsp s' = multiQueue_pop_rsp s \<Longrightarrow>
   mq_holds s' h m A = mq_holds s h m A"
  by (simp add: mq_holds_def)

lemma mq_at_pointers: "mq_at s h A \<Longrightarrow> mq_at (s\<lparr> mq_ptr := mq_pointer_table (mq_ptr s) \<rparr>) h A"
proof -
  have locked: "ptr_quiet t \<Longrightarrow> mq_isLocked t \<longrightarrow> mq_lockedKey t = k \<Longrightarrow>
      mq_isLocked (mq_pointer_table t) \<longrightarrow> mq_lockedKey (mq_pointer_table t) = k" for t k
    by (auto simp: ptr_quiet_def mq_pointer_table_def Let_def split: list.splits)
  assume at: "mq_at s h A"
  show ?thesis
  proof (cases "mq_state s")
    case STATE_PUSH_2
    with at locked [of "mq_ptr s" "mqi_key (mq_insert s)"] show ?thesis
      by (auto simp: mq_at_def mq_holds_def ptr_quiet_table)
  qed (use at in \<open>auto simp: mq_at_def mq_holds_def ptr_quiet_table ptr_pending_table lock_ok_quiet_table\<close>)
qed

lemma mq_at_slots: "mq_at s h A \<Longrightarrow> mq_at (s\<lparr> mq_meta := mq_meta_table (mq_meta s) \<rparr>) h A"
  by (cases "mq_state s") (auto simp: mq_at_def mq_holds_def meta_quiet_table meta_pending_table)

lemma mq_at_other: "mq_at (s\<lparr> mq_free := f \<rparr>) h A = mq_at s h A"
    "mq_at (s\<lparr> multiQueue_push := a, multiQueue_pop_req := b \<rparr>) h A = mq_at s h A"
  by (simp_all add: mq_at_def mq_holds_def split: mqStateType.split)

lemma slots_ok_perm: "slots_ok A xs c \<Longrightarrow> distinct ys \<Longrightarrow> set ys = set xs \<Longrightarrow> slots_ok A ys c"
  by (simp add: slots_ok_def)

lemma slots_okD:
  assumes "slots_ok A xs c"
  shows "distinct xs" "distinct (A k)" "j \<in> set (A k) \<Longrightarrow> j \<notin> set xs"
    "j \<in> set (A k) \<Longrightarrow> j \<in> set (A l) \<Longrightarrow> k = l"
    "unat j < unat c \<longleftrightarrow> j \<in> set xs \<or> (\<exists>k. j \<in> set (A k))"
  using assms by (simp_all add: slots_ok_def)

lemma slots_okI:
  assumes "distinct xs" "\<And>k. distinct (A k)" "\<And>k j. j \<in> set (A k) \<Longrightarrow> j \<notin> set xs"
    "\<And>k l j. j \<in> set (A k) \<Longrightarrow> j \<in> set (A l) \<Longrightarrow> k = l"
    "\<And>j. unat j < unat c \<longleftrightarrow> j \<in> set xs \<or> (\<exists>k. j \<in> set (A k))"
  shows "slots_ok A xs c"
  using assms by (simp add: slots_ok_def)

lemma slots_ok_new:
  assumes "slots_ok A xs c" "unat c < n" "n \<le> 65535"
  shows "slots_ok A (xs @ [c]) (c + 1)"
proof -
  note ok = slots_okD [OF assms(1)]
  have "unat (c + 1) = Suc (unat c)" using assms by (simp add: unat_word_ariths)
  then have less: "unat j < unat (c + 1) \<longleftrightarrow> j = c \<or> unat j < unat c" for j
    by (auto simp: less_Suc_eq word_unat_eq_iff)
  have "c \<notin> set xs" "\<And>k. c \<notin> set (A k)" using ok(5) [of c] by auto
  then show ?thesis
    by (intro slots_okI) (use ok(1-4) in \<open>auto simp: less ok(5)\<close>)
qed

lemma slots_ok_push:
  assumes "slots_ok A (i # xs) c"
  shows "slots_ok (A(k := A k @ [i])) xs c"
proof -
  note ok = slots_okD [OF assms]
  have fresh: "i \<notin> set (A l)" for l using ok(3) [of i l] by auto
  have mem: "j \<in> set ((A(k := A k @ [i])) l) \<longleftrightarrow> j \<in> set (A l) \<or> l = k \<and> j = i" for j l
    by auto
  show ?thesis
  proof (intro slots_okI)
    show "distinct ((A(k := A k @ [i])) l)" for l using ok(2) [of l] fresh [of l] by auto
  next
    show "unat j < unat c \<longleftrightarrow> j \<in> set xs \<or> (\<exists>l. j \<in> set ((A(k := A k @ [i])) l))" for j
      unfolding mem ok(5) by auto
  qed (use ok(1) ok(3) ok(4) fresh in \<open>(auto simp: mem simp del: fun_upd_apply)\<close>)
qed

lemma slots_ok_pop:
  assumes "slots_ok A xs c" "A k = i # is"
  shows "slots_ok (A(k := is)) (xs @ [i]) c"
proof -
  note ok = slots_okD [OF assms(1)]
  have i: "i \<in> set (A l) \<longleftrightarrow> l = k" for l using assms(2) ok(4) [of i k l] by auto
  have d: "i \<notin> set is" "distinct is" using assms(2) ok(2) [of k] by auto
  have mem: "j \<in> set ((A(k := is)) l) \<longleftrightarrow> j \<in> set (A l) \<and> j \<noteq> i" for j l
    using assms(2) d i [of l] by auto
  show ?thesis
  proof (intro slots_okI)
    show "distinct ((A(k := is)) l)" for l using ok(2) [of l] d by auto
  next
    show "unat j < unat c \<longleftrightarrow> j \<in> set (xs @ [i]) \<or> (\<exists>l. j \<in> set ((A(k := is)) l))" for j
      unfolding mem ok(5) using i by auto
  next
    show "distinct (xs @ [i])" using ok(1) ok(3) [of i k] i by auto
  qed (use ok(3) ok(4) in \<open>(auto simp: mem simp del: fun_upd_apply)\<close>)
qed

lemma mq_storedD: "mq_stored Q m p A \<Longrightarrow> chain m (p k) (A k) \<and> Q k = map (\<lambda>i. mme_value (m i)) (A k)"
  by (simp add: mq_stored_def)

lemma map_value_upd: "i \<notin> set xs \<Longrightarrow> map (\<lambda>j. f ((m(i := e)) j)) xs = map (\<lambda>j. f (m j)) xs"
  by (rule map_cong) auto

lemma stored_push_first:
  assumes "mq_stored Q m p A" "slots_ok A (i # xs) c" "\<not> mpe_valid (p k)"
  shows "mq_stored (Q(k := Q k @ [v])) (m(i := mqMetaEntry_insert v))
    (p(k := \<lparr> mpe_head = i, mpe_tail = i, mpe_valid = True \<rparr>)) (A(k := A k @ [i]))"
proof -
  have fresh: "i \<notin> set (A l)" for l using slots_okD(3) [OF assms(2), of i l] by auto
  have "A k = []" using mq_storedD [OF assms(1), of k] assms(3) by (simp add: chain_def)
  moreover have "Q k = []" using mq_storedD [OF assms(1), of k] \<open>A k = []\<close> by simp
  moreover have "chain (m(i := mqMetaEntry_insert v)) (p l) (A l)
      \<and> map (\<lambda>j. mme_value ((m(i := mqMetaEntry_insert v)) j)) (A l) = Q l" for l
    using mq_storedD [OF assms(1), of l] fresh [of l] by (simp add: map_value_upd del: fun_upd_apply)
  ultimately show ?thesis
    unfolding mq_stored_def by (simp add: chain_def mqMetaEntry_insert_def)
qed

lemma stored_push_next:
  assumes "mq_stored Q m p A" "slots_ok A (i # xs) c" "A k \<noteq> []"
  shows "mq_stored (Q(k := Q k @ [v]))
    ((meta_apply (MetaAppend (last (A k)) i) m)(i := mqMetaEntry_insert v))
    (p(k := (p k)\<lparr> mpe_tail := i \<rparr>)) (A(k := A k @ [i]))"
proof -
  note ok = slots_okD [OF assms(2)]
  have fresh: "i \<notin> set (A l)" for l using ok(3) [of i l] by auto
  have last: "last (A k) \<in> set (A k)" using assms(3) by simp
  define m' where "m' = (meta_apply (MetaAppend (last (A k)) i) m)(i := mqMetaEntry_insert v)"
  have same: "chain m' (p l) (A l) \<and> map (\<lambda>j. mme_value (m' j)) (A l) = Q l" if "l \<noteq> k" for l
  proof -
    have "last (A k) \<notin> set (A l)" using ok(4) [OF last, of l] that by auto
    then show ?thesis using mq_storedD [OF assms(1), of l] fresh [of l]
      by (auto simp: m'_def)
  qed
  have "links m' (A k @ [i])"
    using links_snoc [of m "A k" i v] mq_storedD [OF assms(1), of k] assms(3) ok(2) [of k] fresh [of k]
    by (simp add: m'_def chain_def)
  then have "chain m' ((p k)\<lparr> mpe_tail := i \<rparr>) (A k @ [i])"
    using mq_storedD [OF assms(1), of k] assms(3) by (simp add: chain_def hd_append)
  moreover have "map (\<lambda>j. mme_value (m' j)) (A k @ [i]) = Q k @ [v]"
  proof -
    have "map (\<lambda>j. mme_value (m' j)) (A k) = map (\<lambda>j. mme_value (m j)) (A k)"
      using fresh [of k] by (auto simp: m'_def)
    then show ?thesis using mq_storedD [OF assms(1), of k] by (simp add: m'_def mqMetaEntry_insert_def)
  qed
  ultimately show ?thesis using same unfolding m'_def [symmetric] mq_stored_def by simp
qed

lemma stored_valid:
  assumes "mq_stored Q m p A" "mpe_valid (p k)"
  obtains i "is" where "A k = i # is" "mpe_head (p k) = i" "mme_valid (m i)"
    "Q k = mme_value (m i) # map (\<lambda>j. mme_value (m j)) is"
proof -
  have c: "chain m (p k) (A k)" and q: "Q k = map (\<lambda>i. mme_value (m i)) (A k)"
    using mq_storedD [OF assms(1), of k] by auto
  then obtain i "is" where a: "A k = i # is" using assms(2) by (cases "A k") (auto simp: chain_def)
  moreover have "mpe_head (p k) = i" "mme_valid (m i)"
    using c a links_hd [of m i "is"] by (auto simp: chain_def)
  ultimately show thesis using that q by simp
qed

lemma stored_pop:
  assumes "mq_stored Q m p A" "A k = i # is" "Q k = v # vs"
  shows "mq_stored (Q(k := vs)) m (p(k := (p k)\<lparr> mpe_valid := \<not> mme_isTail (m i), mpe_head := mme_next (m i) \<rparr>)) (A(k := is))"
  using assms chain_pop [of m "p k" i "is"] mq_storedD [OF assms(1), of k] by (auto simp: mq_stored_def)

text \<open>One invocation of the state machine in each of its states.\<close>

definition mq_keeps :: "'v multi_queue_st \<Rightarrow> 'v mq_op list \<Rightarrow> u16 \<Rightarrow> bool" where
  "mq_keeps s h c \<longleftrightarrow> (\<exists>A'. slots_ok A' (loose_slots (mq_process_requests s)) c
     \<and> mq_at (mq_process_requests s) (h @ mq_accepts s) A')"

lemma mq_keepsI:
  "slots_ok A' (loose_slots (mq_process_requests s)) c \<Longrightarrow>
   mq_at (mq_process_requests s) (h @ mq_accepts s) A' \<Longrightarrow> mq_keeps s h c"
  by (auto simp: mq_keeps_def)

lemma mq_main_keeps:
  assumes at: "mq_at s h A" and ok: "slots_ok A (loose_slots s) c" and st: "mq_state s = STATE_MAIN"
  shows "mq_keeps s h c"
proof -
  from at st have q: "ptr_quiet (mq_ptr s)" "lock_ok (mq_ptr s)" "meta_quiet (mq_meta s)"
    "mq_holds s h (meta_view (mq_meta s)) A" by (simp_all add: mq_at_def)
  consider (push) ins ps i fs where "multiQueue_push s = ins # ps" "freeListFifo (mq_free s) = i # fs"
    | (pop) r rs where "multiQueue_push s = [] \<or> freeListFifo (mq_free s) = []" "multiQueue_pop_req s = r # rs"
    | (idle) "multiQueue_push s = [] \<or> freeListFifo (mq_free s) = []" "multiQueue_pop_req s = []"
    by (metis neq_Nil_conv)
  then show ?thesis
  proof cases
    case push
    with st q ok show ?thesis
      by (intro mq_keepsI [of A])
         (simp_all add: mq_process_requests_def mq_accepts_def loose_slots_def mq_at_def mq_holds_def ptr_pending_send)
  next
    case pop
    with st q ok show ?thesis
      by (intro mq_keepsI [of A])
         (auto simp: mq_process_requests_def mq_accepts_def loose_slots_def mq_at_def mq_holds_def ptr_pending_send)
  next
    case idle
    with st at ok show ?thesis
      by (intro mq_keepsI [of A]) (auto simp: mq_process_requests_def mq_accepts_def)
  qed
qed

lemma mq_push_keeps:
  assumes at: "mq_at s h A" and ok: "slots_ok A (loose_slots s) c" and st: "mq_state s = STATE_PUSH"
  shows "mq_keeps s h c"
proof (cases "pointerRspFifo (mq_ptr s)")
  case Nil
  with at ok st show ?thesis by (intro mq_keepsI [of A]) (simp_all add: mq_process_requests_def mq_accepts_def)
next
  case (Cons p ps)
  let ?k = "mqi_key (mq_insert s)" and ?i = "newMetaIdx s" and ?m = "meta_view (mq_meta s)"
  from at st obtain h0 where h: "h = h0 @ [push_op (mq_insert s)]" and pend: "ptr_pending ?k True (mq_ptr s)"
    and mq: "meta_quiet (mq_meta s)" and sto: "mq_stored (fst (mq_spec h0)) ?m (ptr_view (mq_ptr s)) A"
    and rsp: "multiQueue_pop_rsp s = snd (mq_spec h0)"
    by (auto simp: mq_at_def mq_holds_def)
  note r = ptr_pending_rsp [OF pend Cons]
  have lock: "mq_isLocked (take_ptr_rsp (mq_ptr s)) \<Longrightarrow> mq_lockedKey (take_ptr_rsp (mq_ptr s)) = ?k"
    using r(3) by (simp add: take_ptr_rsp_def)
  from ok st have ok': "slots_ok A (?i # freeListFifo (mq_free s) @ releaseFifo (mq_free s)) c"
    by (simp add: loose_slots_def)
  have spec: "mq_spec h = ((fst (mq_spec h0))(?k := fst (mq_spec h0) ?k @ [mqi_value (mq_insert s)]), snd (mq_spec h0))"
    by (cases "mq_spec h0") (simp add: h mq_spec_snoc push_op_def)
  show ?thesis
  proof (cases "mpe_valid p")
    case False
    with r(1) have "\<not> mpe_valid (ptr_view (mq_ptr s) ?k)" by simp
    from stored_push_first [OF sto ok' this, of "mqi_value (mq_insert s)"] slots_ok_push [OF ok', of ?k]
      False Cons st rsp r(2) lock mq
    show ?thesis
      by (intro mq_keepsI [of "A(?k := A ?k @ [?i])"])
         (simp_all add: mq_process_requests_def mq_accepts_def loose_slots_def mq_at_def mq_holds_def spec Let_def
            lock_ok_upd meta_quiet_send)
  next
    case True
    with r(1) have v: "mpe_valid (ptr_view (mq_ptr s) ?k)" by simp
    then have ne: "A ?k \<noteq> []" and tl: "mpe_tail p = last (A ?k)"
      using mq_storedD [OF sto, of ?k] r(1) by (auto simp: chain_def)
    have "mq_holds s h0 ?m A" using sto rsp by (simp add: mq_holds_def)
    with True Cons st ok' ne tl h r(1,2) lock mq show ?thesis
      by (intro mq_keepsI [of A])
         (auto simp: mq_process_requests_def mq_accepts_def loose_slots_def mq_at_def Let_def
            mq_holds_def meta_quiet_send simp del: meta_apply.simps(2))
  qed
qed

lemma mq_push_2_keeps:
  assumes at: "mq_at s h A" and ok: "slots_ok A (loose_slots s) c" and st: "mq_state s = STATE_PUSH_2"
  shows "mq_keeps s h c"
proof -
  let ?k = "mqi_key (mq_insert s)" and ?i = "newMetaIdx s"
  from at st obtain h0 m where h: "h = h0 @ [push_op (mq_insert s)]" and q: "ptr_quiet (mq_ptr s)"
    and lock: "mq_isLocked (mq_ptr s) \<longrightarrow> mq_lockedKey (mq_ptr s) = ?k" and mq: "meta_quiet (mq_meta s)"
    and ne: "A ?k \<noteq> []" and view: "meta_view (mq_meta s) = meta_apply (MetaAppend (last (A ?k)) ?i) m"
    and ptr: "ptrMeta s = (ptr_view (mq_ptr s) ?k)\<lparr> mpe_tail := ?i \<rparr>"
    and sto: "mq_stored (fst (mq_spec h0)) m (ptr_view (mq_ptr s)) A" and rsp: "multiQueue_pop_rsp s = snd (mq_spec h0)"
    by (auto simp: mq_at_def mq_holds_def simp del: meta_apply.simps)
  from ok st have ok': "slots_ok A (?i # freeListFifo (mq_free s) @ releaseFifo (mq_free s)) c"
    by (simp add: loose_slots_def)
  have spec: "mq_spec h = ((fst (mq_spec h0))(?k := fst (mq_spec h0) ?k @ [mqi_value (mq_insert s)]), snd (mq_spec h0))"
    by (cases "mq_spec h0") (simp add: h mq_spec_snoc push_op_def)
  from stored_push_next [OF sto ok' ne, of "mqi_value (mq_insert s)"] slots_ok_push [OF ok', of ?k] st rsp q lock mq
  show ?thesis
    by (intro mq_keepsI [of "A(?k := A ?k @ [?i])"])
       (simp_all add: mq_process_requests_def mq_accepts_def loose_slots_def mq_at_def mq_holds_def spec
          view ptr lock_ok_upd meta_quiet_send del: meta_apply.simps(2))
qed

lemma mq_pop_keeps:
  assumes at: "mq_at s h A" and ok: "slots_ok A (loose_slots s) c" and st: "mq_state s = STATE_POP"
  shows "mq_keeps s h c"
proof (cases "pointerRspFifo (mq_ptr s)")
  case Nil
  with at ok st show ?thesis by (intro mq_keepsI [of A]) (simp_all add: mq_process_requests_def mq_accepts_def)
next
  case (Cons p ps)
  let ?k = "mqp_key (popRequest s)" and ?m = "meta_view (mq_meta s)"
  from at st obtain h0 where h: "h = h0 @ [pop_op (popRequest s)]" and pend: "ptr_pending ?k False (mq_ptr s)"
    and mq: "meta_quiet (mq_meta s)" and sto: "mq_stored (fst (mq_spec h0)) ?m (ptr_view (mq_ptr s)) A"
    and rsp: "multiQueue_pop_rsp s = snd (mq_spec h0)"
    by (auto simp: mq_at_def mq_holds_def)
  note r = ptr_pending_rsp [OF pend Cons]
  show ?thesis
  proof (cases "mpe_valid p")
    case False
    then have "fst (mq_spec h0) ?k = []"
      using mq_storedD [OF sto, of ?k] r(1) by (simp add: chain_def)
    then have "mq_spec h = mq_spec h0"
      by (cases "mq_spec h0") (simp add: h mq_spec_snoc pop_op_def)
    with False Cons st ok sto rsp r mq show ?thesis
      by (intro mq_keepsI [of A])
         (simp_all add: mq_process_requests_def mq_accepts_def loose_slots_def mq_at_def mq_holds_def Let_def)
  next
    case True
    with Cons st ok sto rsp r mq h show ?thesis
      by (intro mq_keepsI [of A])
         (simp_all add: mq_process_requests_def mq_accepts_def loose_slots_def mq_at_def mq_holds_def Let_def
            meta_pending_send)
  qed
qed

lemma mq_pop_2_keeps:
  assumes at: "mq_at s h A" and ok: "slots_ok A (loose_slots s) c" and st: "mq_state s = STATE_POP_2"
  shows "mq_keeps s h c"
proof (cases "metaRspFifo (mq_meta s)")
  case Nil
  with at ok st show ?thesis by (intro mq_keepsI [of A]) (simp_all add: mq_process_requests_def mq_accepts_def)
next
  case (Cons e es)
  let ?k = "mqp_key (popRequest s)" and ?m = "meta_view (mq_meta s)"
  from at st obtain h0 where h: "h = h0 @ [pop_op (popRequest s)]" and q: "ptr_quiet (mq_ptr s)" "lock_ok (mq_ptr s)"
    and pend: "meta_pending (mpe_head (ptrMeta s)) (mq_meta s)" and ptr: "ptrMeta s = ptr_view (mq_ptr s) ?k"
    and v: "mpe_valid (ptrMeta s)" and sto: "mq_stored (fst (mq_spec h0)) ?m (ptr_view (mq_ptr s)) A"
    and rsp: "multiQueue_pop_rsp s = snd (mq_spec h0)"
    by (auto simp: mq_at_def mq_holds_def)
  note r = meta_pending_rsp [OF pend Cons]
  obtain i "is" where a: "A ?k = i # is" "mpe_head (ptrMeta s) = i" "mme_valid (?m i)"
    and qk: "fst (mq_spec h0) ?k = mme_value (?m i) # map (\<lambda>j. mme_value (?m j)) is"
    using stored_valid [OF sto, of ?k] v ptr by metis
  have e: "e = ?m i" using r(1) a by simp
  show ?thesis
  proof (cases "mqp_op (popRequest s)")
    case POP
    have spec: "mq_spec h = ((fst (mq_spec h0))(?k := map (\<lambda>j. mme_value (?m j)) is), snd (mq_spec h0) @ [mme_value (?m i)])"
      using qk by (cases "mq_spec h0") (simp add: h mq_spec_snoc pop_op_def POP)
    from stored_pop [OF sto a(1) qk] slots_ok_pop [OF ok a(1)] POP Cons st rsp r(2) q a e
    show ?thesis
      by (intro mq_keepsI [of "A(?k := is)"])
         (simp_all add: mq_process_requests_def mq_accepts_def loose_slots_def mq_at_def mq_holds_def Let_def
            spec ptr lock_ok_upd_keep)
  next
    case FRONT
    have spec: "mq_spec h = (fst (mq_spec h0), snd (mq_spec h0) @ [mme_value (?m i)])"
      using qk by (cases "mq_spec h0") (simp add: h mq_spec_snoc pop_op_def FRONT)
    from sto ok FRONT Cons st rsp r(2) q a e show ?thesis
      by (intro mq_keepsI [of A])
         (simp_all add: mq_process_requests_def mq_accepts_def loose_slots_def mq_at_def mq_holds_def Let_def spec)
  qed
qed

lemma mq_machine_keeps: "mq_at s h A \<Longrightarrow> slots_ok A (loose_slots s) c \<Longrightarrow> mq_keeps s h c"
  using mq_main_keeps mq_push_keeps mq_push_2_keeps mq_pop_keeps mq_pop_2_keeps
  by (cases "mq_state s") blast+

lemma mq_inv_move:
  assumes "n \<le> 65535" "mq_inv n sh" "mq_move n sh sh'"
  shows "mq_inv n sh'"
  using assms(3,2)
proof cases
  case (mq_machine s h)
  with assms(2) obtain A where A: "unat (freeListCounter (mq_free s)) \<le> n"
    "slots_ok A (loose_slots s) (freeListCounter (mq_free s))" "mq_at s h A" by (auto simp: mq_inv_def)
  have "freeListCounter (mq_free (mq_process_requests s)) = freeListCounter (mq_free s)"
    by (simp add: mq_process_requests_def Let_def split: mqStateType.split list.split)
  with mq_machine A mq_machine_keeps [OF A(3,2)] show ?thesis by (auto simp: mq_inv_def mq_keeps_def)
next
  case (mq_pointers s h)
  with assms(2) show ?thesis by (fastforce simp: mq_inv_def loose_slots_def intro: mq_at_pointers)
next
  case (mq_slots s h)
  with assms(2) show ?thesis by (fastforce simp: mq_inv_def loose_slots_def intro: mq_at_slots)
next
  case (mq_manager s h full)
  with assms(2) obtain A where A: "unat (freeListCounter (mq_free s)) \<le> n"
    "slots_ok A (loose_slots s) (freeListCounter (mq_free s))" "mq_at s h A" by (auto simp: mq_inv_def)
  let ?f = "mq_freelist_handler n full (mq_free s)"
  have "unat (freeListCounter ?f) \<le> n \<and> slots_ok A (loose_slots (s\<lparr> mq_free := ?f \<rparr>)) (freeListCounter ?f)"
  proof (cases "releaseFifo (mq_free s)")
    case Nil
    show ?thesis
    proof (cases "unat (freeListCounter (mq_free s)) < n \<and> \<not> full")
      case True
      then have "unat (freeListCounter (mq_free s) + 1) \<le> n"
        using assms(1) by (simp add: unat_word_ariths)
      moreover have "slots_ok A (loose_slots s @ [freeListCounter (mq_free s)]) (freeListCounter (mq_free s) + 1)"
        using True by (intro slots_ok_new [OF A(2) _ assms(1)]) simp
      ultimately show ?thesis using True Nil
        by (auto simp: mq_freelist_handler_def loose_slots_def split: if_splits)
    qed (use A Nil in \<open>auto simp: mq_freelist_handler_def loose_slots_def split: if_splits\<close>)
  next
    case (Cons i q)
    with A(1) show ?thesis
      by (auto intro!: slots_ok_perm [OF A(2)] simp: mq_freelist_handler_def loose_slots_def)
         (use slots_okD(1) [OF A(2)] Cons in \<open>auto simp: loose_slots_def split: if_splits\<close>)
  qed
  with mq_manager A(3) show ?thesis by (auto simp: mq_inv_def mq_at_other)
next
  case (mq_clients s h a b)
  with assms(2) show ?thesis by (auto simp: mq_inv_def mq_at_other loose_slots_def)
qed

definition mq_start :: "'v multi_queue_st \<times> 'v mq_op list \<Rightarrow> bool" where
  "mq_start sh \<longleftrightarrow> (\<exists>v. sh = (multi_queue_init v, []))"

lemma mq_inv_start: "mq_start sh \<Longrightarrow> mq_inv n sh"
  by (auto simp: mq_start_def mq_inv_def multi_queue_init_def slot_list_init_def pointer_tab_init_def meta_tab_init_def
      slots_ok_def loose_slots_def mq_at_def ptr_quiet_def lock_ok_def meta_quiet_def mq_holds_def mq_stored_def
      chain_def view_defs intro!: exI [of _ "\<lambda>_. []"])

interpretation mq: invariant_system mq_start "mq_move n" "\<lambda>sh. n \<le> 65535 \<longrightarrow> mq_inv n sh" for n
  by unfold_locales (blast intro: mq_inv_start mq_inv_move)+

section \<open>The module answers as lists do\<close>

text \<open>The content of a queue, read off the tables by following the pointers.\<close>

fun walk :: "nat \<Rightarrow> (u16 \<Rightarrow> 'v mqMetaEntry) \<Rightarrow> u16 \<Rightarrow> 'v list" where
  "walk 0 m i = []"
| "walk (Suc n) m i = mme_value (m i) # (if mme_isTail (m i) then [] else walk n m (mme_next (m i)))"

definition mq_contents :: "'v multi_queue_st \<Rightarrow> u16 \<Rightarrow> 'v list" where
  "mq_contents s k =
     (let p = ptr_view (mq_ptr s) k
      in if mpe_valid p then walk 65536 (meta_view (mq_meta s)) (mpe_head p) else [])"

lemma walk_links: "links m (i # is) \<Longrightarrow> length is < n \<Longrightarrow> walk n m i = map (\<lambda>j. mme_value (m j)) (i # is)"
proof (induction "is" arbitrary: i n)
  case Nil
  then show ?case by (cases n) auto
next
  case (Cons j "is")
  then show ?case by (cases n) auto
qed

lemma length_distinct_u16: "distinct (xs :: u16 list) \<Longrightarrow> length xs \<le> 65536"
  using card_mono [of "UNIV :: u16 set" "set xs"] by (simp add: distinct_card card_word)

lemma mq_contents_stored:
  assumes "mq_stored Q (meta_view (mq_meta s)) (ptr_view (mq_ptr s)) A" "slots_ok A xs c"
  shows "mq_contents s k = Q k"
proof (cases "A k")
  case Nil
  with mq_storedD [OF assms(1), of k] show ?thesis by (simp add: mq_contents_def chain_def)
next
  case (Cons i "is")
  have "length is < 65536" using length_distinct_u16 [OF slots_okD(2) [OF assms(2)], of k] Cons by simp
  with Cons mq_storedD [OF assms(1), of k] walk_links [of "meta_view (mq_meta s)" i "is" 65536] show ?thesis
    by (simp add: mq_contents_def chain_def Let_def)
qed

text \<open>
  (C12) The multi queue refines one list per key, for every interleaving of its four processes: whenever
  the state machine is idle, the answers given so far are exactly those of the lists for the requests in
  the order in which they were accepted, and the content of every queue, read off the two tables with the
  updates that are still on their way, is the list.
\<close>

theorem multi_queue_fifo:
  assumes "n \<le> 65535" and "reachable mq_start (mq_move n) (s, h)" and "mq_state s = STATE_MAIN"
  shows "multiQueue_pop_rsp s = snd (mq_spec h) \<and> (\<forall>k. mq_contents s k = fst (mq_spec h) k)"
proof -
  from mq.invar_reachable [OF assms(2)] assms(1,3) obtain A where
    "slots_ok A (loose_slots s) (freeListCounter (mq_free s))" "mq_holds s h (meta_view (mq_meta s)) A"
    by (auto simp: mq_inv_def mq_at_def)
  then show ?thesis by (auto simp: mq_holds_def intro: mq_contents_stored)
qed

text \<open>
  No slot of the shared table is lost or used twice: in every reachable state the slots that were
  handed out, all below the table size, are split between the queues, the free list, the release stream
  and the push in progress, each in exactly one place.
\<close>

theorem multi_queue_slots_conserved:
  assumes "n \<le> 65535" and "reachable mq_start (mq_move n) (s, h)"
  shows "\<exists>A. slots_ok A (loose_slots s) (freeListCounter (mq_free s)) \<and>
    (mq_state s = STATE_MAIN \<longrightarrow> (\<forall>k. length (A k) = length (mq_contents s k))) \<and>
    (\<forall>i. i \<in> set (loose_slots s) \<or> (\<exists>k. i \<in> set (A k)) \<longrightarrow> unat i < n)"
proof -
  from mq.invar_reachable [OF assms(2)] assms(1) obtain A where
    A: "unat (freeListCounter (mq_free s)) \<le> n" "slots_ok A (loose_slots s) (freeListCounter (mq_free s))"
    "mq_at s h A" by (auto simp: mq_inv_def)
  have "length (A k) = length (mq_contents s k)" if "mq_state s = STATE_MAIN" for k
  proof -
    from that A(3) have st: "mq_stored (fst (mq_spec h)) (meta_view (mq_meta s)) (ptr_view (mq_ptr s)) A"
      by (simp add: mq_at_def mq_holds_def)
    then show ?thesis using mq_storedD [OF st, of k] mq_contents_stored [OF st A(2), of k] by simp
  qed
  moreover have "unat i < n" if "i \<in> set (loose_slots s) \<or> (\<exists>k. i \<in> set (A k))" for i
    using slots_okD(5) [OF A(2), of i] that A(1) by auto
  ultimately show ?thesis using A(2) by blast
qed

section \<open>Every request is worked off\<close>

definition mq_wait_len :: "'v multi_queue_st \<Rightarrow> nat" where
  "mq_wait_len s = (case mq_state s of
     STATE_MAIN \<Rightarrow> 0
   | STATE_PUSH \<Rightarrow> 2 + length (pointerUpdFifo (mq_ptr s))
   | STATE_PUSH_2 \<Rightarrow> 1
   | STATE_POP \<Rightarrow> 3 + length (pointerUpdFifo (mq_ptr s)) + length (metaReqFifo (mq_meta s))
   | STATE_POP_2 \<Rightarrow> 1 + length (metaReqFifo (mq_meta s)))"

text \<open>A pending request to the pointer table is answered, or an update in front of it is done.\<close>

lemma ptr_pending_progress:
  assumes "ptr_pending k l t" "t' = mq_pointer_table t"
  shows "pointerRspFifo t' \<noteq> [] \<or> length (pointerUpdFifo t') < length (pointerUpdFifo t)"
  using assms by (cases "pointerUpdFifo t") (auto simp: ptr_pending_def lock_ok_def mq_pointer_table_def Let_def)

lemma meta_pending_progress:
  assumes "meta_pending i t" "t' = mq_meta_table t"
  shows "metaRspFifo t' \<noteq> [] \<or> length (metaReqFifo t') < length (metaReqFifo t)"
proof (cases "metaReqFifo t")
  case Nil
  with assms show ?thesis by (auto simp: meta_pending_def mq_meta_table_def)
next
  case (Cons r q)
  with assms(2) show ?thesis by (cases r) (auto simp: mq_meta_table_def)
qed

lemma meta_table_shrinks: "length (metaReqFifo (mq_meta_table t)) \<le> length (metaReqFifo t)"
  by (simp add: mq_meta_table_def split: list.split mqMetaReq.split)

lemma mq_wait_len_step:
  assumes "mq_inv n (s, h)" "mq_state s \<noteq> STATE_MAIN"
  shows "mq_wait_len (multi_queue n full s) < mq_wait_len s"
proof -
  from assms(1) obtain A where at: "mq_at s h A" by (auto simp: mq_inv_def)
  show ?thesis
  proof (cases "mq_state s")
    case STATE_PUSH
    with at have "ptr_pending (mqi_key (mq_insert s)) True (mq_ptr s)" by (auto simp: mq_at_def)
    from ptr_pending_progress [OF this refl] STATE_PUSH show ?thesis
      by (auto simp: mq_wait_len_def multi_queue_def mq_process_requests_def Let_def send_ptr_upd_def take_ptr_rsp_def
          split: list.split)
  next
    case STATE_POP
    with at have "ptr_pending (mqp_key (popRequest s)) False (mq_ptr s)" by (auto simp: mq_at_def)
    from ptr_pending_progress [OF this refl] STATE_POP meta_table_shrinks [of "mq_meta s"] show ?thesis
      by (auto simp: mq_wait_len_def multi_queue_def mq_process_requests_def Let_def send_meta_req_def split: list.split)
  next
    case STATE_POP_2
    with at have "meta_pending (mpe_head (ptrMeta s)) (mq_meta s)" by (auto simp: mq_at_def)
    from meta_pending_progress [OF this refl] STATE_POP_2 show ?thesis
      by (auto simp: mq_wait_len_def multi_queue_def mq_process_requests_def Let_def split: list.split)
  qed (use assms(2) in \<open>simp_all add: mq_wait_len_def multi_queue_def mq_process_requests_def\<close>)
qed

text \<open>One invocation of the whole module is a sequence of moves.\<close>

lemma multi_queue_moves:
  assumes "reachable mq_start (mq_move n) (s, h)"
  shows "\<exists>h'. reachable mq_start (mq_move n) (multi_queue n full s, h')"
proof -
  note mv = reachable_step [where step = "mq_move n"]
  note r1 = mv [OF assms mq_manager [of n s h full]]
  note r2 = mv [OF r1 mq_pointers]
  note r3 = mv [OF r2 mq_slots]
  from mv [OF r3 mq_machine] show ?thesis by (auto simp: multi_queue_def)
qed


section \<open>Witnesses\<close>

text \<open>The requests that \<open>i\<close> invocations of the module accept.\<close>

fun mq_history :: "nat \<Rightarrow> bool \<Rightarrow> nat \<Rightarrow> 'v multi_queue_st \<Rightarrow> 'v mq_op list" where
  "mq_history n full 0 s = []"
| "mq_history n full (Suc i) s =
     mq_accepts (s\<lparr> mq_free := mq_freelist_handler n full (mq_free s), mq_ptr := mq_pointer_table (mq_ptr s),
                    mq_meta := mq_meta_table (mq_meta s) \<rparr>)
     @ mq_history n full i (multi_queue n full s)"

lemma mq_history_reachable:
  "reachable mq_start (mq_move n) (s, h) \<Longrightarrow>
   reachable mq_start (mq_move n) ((multi_queue n full ^^ i) s, h @ mq_history n full i s)"
proof (induction i arbitrary: s h)
  case (Suc i)
  note mv = reachable_step [where step = "mq_move n"]
  note r1 = mv [OF Suc.prems mq_manager [of n s h full]]
  note r2 = mv [OF r1 mq_pointers]
  note r3 = mv [OF r2 mq_slots]
  from Suc.IH [OF mv [OF r3 mq_machine]] show ?case
    by (simp add: multi_queue_def [symmetric] funpow_swap1)
qed simp

definition mq_ex :: "u16 multi_queue_st" where
  "mq_ex = (multi_queue_init 0)\<lparr> multiQueue_push := [\<lparr> mqi_key = 3, mqi_value = 7 \<rparr>],
     multiQueue_pop_req := [\<lparr> mqp_op = POP, mqp_key = 3 \<rparr>] \<rparr>"

lemmas mq_ex_defs = mq_ex_def multi_queue_init_def pointer_tab_init_def meta_tab_init_def slot_list_init_def
  multi_queue_def mq_process_requests_def mq_pointer_table_def mq_meta_table_def mq_freelist_handler_def mq_accepts_def
  send_ptr_req_def send_ptr_upd_def take_ptr_rsp_def send_meta_req_def take_meta_rsp_def mqMetaEntry_insert_def
  push_op_def pop_op_def Let_def

lemma mq_ex_reachable: "reachable mq_start (mq_move n) (mq_ex, [])"
proof -
  have "reachable mq_start (mq_move n) (multi_queue_init 0 :: u16 multi_queue_st, [])"
    by (rule reachable_init) (auto simp: mq_start_def)
  from reachable_step [OF this mq_clients] show ?thesis unfolding mq_ex_def .
qed

lemmas mq_ex_run = mq_history_reachable [OF mq_ex_reachable, simplified]

theorem multi_queue_fifo_witness:
  "multiQueue_pop_rsp ((multi_queue 4 False ^^ 5) mq_ex) = [7]
   \<and> mq_contents ((multi_queue 4 False ^^ 5) mq_ex) 3 = []"
proof -
  have st: "mq_state ((multi_queue 4 False ^^ 5) mq_ex) = STATE_MAIN"
    by (simp add: numeral_eq_Suc mq_ex_defs)
  have h: "mq_history 4 False 5 mq_ex = [Push 3 7, Pop 3]"
    by (simp add: numeral_eq_Suc mq_ex_defs)
  have spec: "snd (mq_spec (mq_history 4 False 5 mq_ex)) = [7] \<and> fst (mq_spec (mq_history 4 False 5 mq_ex)) 3 = []"
    by (simp add: h mq_spec_def)
  show ?thesis
    using multi_queue_fifo [OF _ mq_ex_run [where n = 4 and full = False and i = 5] st] spec by simp
qed

theorem multi_queue_slots_conserved_witness:
  "\<exists>A. slots_ok A [1] 2 \<and> (\<forall>i. i \<in> set [1] \<or> (\<exists>k. i \<in> set (A k)) \<longrightarrow> unat (i :: u16) < 4)"
proof -
  have "loose_slots ((multi_queue 4 False ^^ 2) mq_ex) = [1]
      \<and> freeListCounter (mq_free ((multi_queue 4 False ^^ 2) mq_ex)) = 2"
    by (simp add: numeral_eq_Suc mq_ex_defs loose_slots_def)
  with multi_queue_slots_conserved [OF _ mq_ex_run [where n = 4 and full = False and i = 2]]
  show ?thesis by auto
qed


end
