(* ===== verification/Word_Shift.thy ===== *)
theory Word_Shift
  imports Axi_Words
begin

text \<open>
  The two stages of \<^verbatim>\<open>axi_utils.hpp\<close> that shift a packet by a number of octets: \<^verbatim>\<open>lshiftWordByOctet\<close> makes room for
  a header in front of a packet, \<^verbatim>\<open>rshiftWordByOctet\<close> removes the octets of a header.  The file has three more
  copies of the first and two more of the second, for the layers that use them.  \<open>n\<close> is the number of lanes
  (\<^verbatim>\<open>W/8\<close>).

  The lemmas show that the stages put a number of octets in front of the octets of a packet, and take
  them away again, for every packet length and alignment, and leave nothing behind in their registers.
\<close>

section \<open>The stages\<close>

record shift_st =
  sh_first :: bool
  sh_remainder :: bool
  sh_prev :: net_axis
  sh_in :: "net_axis list"
  sh_out :: "net_axis list"

text \<open>The upper \<open>k\<close> lanes of the previous word below the lower lanes of the current one.\<close>

definition lshift_word :: "nat \<Rightarrow> nat \<Rightarrow> net_axis \<Rightarrow> net_axis \<Rightarrow> net_axis" where
  "lshift_word n k p w =
     \<lparr> na_data = drop (n - k) (na_data p) @ take (n - k) (na_data w),
       na_keep = drop (n - k) (na_keep p) @ take (n - k) (na_keep w),
       na_last = (True \<notin> set (drop (n - k) (na_keep w))) \<rparr>"

text \<open>The first word of a packet: zeros in the lowest lanes, which are kept (\<^verbatim>\<open>sendWord.keep(offset-1, 0) = 0xFFFFFFFF\<close>).\<close>

definition lshift_first :: "nat \<Rightarrow> nat \<Rightarrow> net_axis \<Rightarrow> net_axis" where
  "lshift_first n k w =
     \<lparr> na_data = replicate k 0 @ take (n - k) (na_data w),
       na_keep = keep_bits k 0xFFFFFFFF @ take (n - k) (na_keep w),
       na_last = (True \<notin> set (drop (n - k) (na_keep w))) \<rparr>"

definition lshift_rest :: "nat \<Rightarrow> nat \<Rightarrow> net_axis \<Rightarrow> net_axis" where
  "lshift_rest n k p =
     \<lparr> na_data = drop (n - k) (na_data p) @ replicate (n - k) 0,
       na_keep = drop (n - k) (na_keep p) @ replicate (n - k) False, na_last = True \<rparr>"

definition lshiftWordByOctet :: "nat \<Rightarrow> nat \<Rightarrow> shift_st \<Rightarrow> shift_st" where
  "lshiftWordByOctet n offset s =
     (if sh_remainder s
      then s\<lparr> sh_out := sh_out s @ [lshift_rest n offset (sh_prev s)], sh_remainder := False \<rparr>
      else (case sh_in s of
          [] \<Rightarrow> s
        | w # ws \<Rightarrow>
            (if offset = 0 then s\<lparr> sh_in := ws, sh_out := sh_out s @ [w] \<rparr>
             else (let send = (if sh_first s then lshift_first n offset w else lshift_word n offset (sh_prev s) w);
                       s1 = s\<lparr> sh_in := ws, sh_out := sh_out s @ [send], sh_prev := w, sh_first := False \<rparr>
                   in if na_last w then s1\<lparr> sh_first := True, sh_remainder := \<not> na_last send \<rparr> else s1))))"

definition udp_lshiftWordByOctet :: "nat \<Rightarrow> nat \<Rightarrow> shift_st \<Rightarrow> shift_st" where
  "udp_lshiftWordByOctet = lshiftWordByOctet"

definition mac_lshiftWordByOctet :: "nat \<Rightarrow> nat \<Rightarrow> shift_st \<Rightarrow> shift_st" where
  "mac_lshiftWordByOctet = lshiftWordByOctet"

definition ipv4_lshiftWordByOctet :: "nat \<Rightarrow> nat \<Rightarrow> shift_st \<Rightarrow> shift_st" where
  "ipv4_lshiftWordByOctet = lshiftWordByOctet"

definition rshift_word :: "nat \<Rightarrow> net_axis \<Rightarrow> net_axis \<Rightarrow> net_axis" where
  "rshift_word k p w =
     \<lparr> na_data = drop k (na_data p) @ take k (na_data w), na_keep = drop k (na_keep p) @ take k (na_keep w),
       na_last = (True \<notin> set (drop k (na_keep w))) \<rparr>"

definition rshift_rest :: "nat \<Rightarrow> net_axis \<Rightarrow> net_axis" where
  "rshift_rest k p =
     \<lparr> na_data = drop k (na_data p) @ replicate k 0, na_keep = drop k (na_keep p) @ replicate k False,
       na_last = True \<rparr>"

text \<open>\<^const>\<open>sh_remainder\<close> is the state \<^verbatim>\<open>REMAINDER\<close> of the machine.  The destination of a routed word is not part of
  the model.\<close>

definition rshiftWordByOctet :: "nat \<Rightarrow> shift_st \<Rightarrow> shift_st" where
  "rshiftWordByOctet offset s =
     (if sh_remainder s
      then s\<lparr> sh_out := sh_out s @ [rshift_rest offset (sh_prev s)], sh_remainder := False \<rparr>
      else (case sh_in s of
          [] \<Rightarrow> s
        | w # ws \<Rightarrow>
            (let send = (if offset = 0 then w else rshift_word offset (sh_prev s) w);
                 send_last = (\<not> sh_first s \<and> na_last send);
                 s1 = s\<lparr> sh_in := ws, sh_out := (if sh_first s then sh_out s else sh_out s @ [send]),
                         sh_prev := w, sh_first := False \<rparr>
             in if na_last w then s1\<lparr> sh_first := (offset \<noteq> 0), sh_remainder := \<not> send_last \<rparr> else s1)))"

definition ip_handler_rshiftWordByOctet :: "nat \<Rightarrow> shift_st \<Rightarrow> shift_st" where
  "ip_handler_rshiftWordByOctet = rshiftWordByOctet"

definition udp_rshiftWordByOctet :: "nat \<Rightarrow> shift_st \<Rightarrow> shift_st" where
  "udp_rshiftWordByOctet = rshiftWordByOctet"

section \<open>Keep fields\<close>

lemma True_in_keep: "k \<le> n \<Longrightarrow> True \<in> set (drop m (keep_of n k)) \<longleftrightarrow> m < k"
  by (auto simp: keep_of_def)

lemma keep_shift_up: "k \<le> n \<Longrightarrow> o' \<le> n \<Longrightarrow>
    drop (n - o') (keep_of n n) @ take (n - o') (keep_of n k) = keep_of n (o' + min k (n - o'))"
  by (intro keep_of_eqI) (auto simp: nth_append nth_keep_of)

lemma keep_shift_down: "k \<le> n \<Longrightarrow> o' \<le> n \<Longrightarrow>
    drop o' (keep_of n n) @ take o' (keep_of n k) = keep_of n (n - o' + min k o')"
  by (intro keep_of_eqI) (auto simp: nth_append nth_keep_of)

lemma keep_residue: "m < k \<Longrightarrow> k \<le> n \<Longrightarrow> drop m (keep_of n k) @ replicate m False = keep_of n (k - m)"
  by (intro keep_of_eqI) (auto simp: nth_append nth_keep_of)

lemma keep_ones: "k \<le> 32 \<Longrightarrow> keep_bits k 0xFFFFFFFF = replicate k True"
proof (rule nth_equalityI)
  fix i assume "k \<le> 32" "i < length (keep_bits k 0xFFFFFFFF)"
  then have "i < 32" "i < k" by (simp_all add: keep_bits_def)
  have "bit (mask 32 :: u64) i" unfolding bit_mask_iff using \<open>i < 32\<close> by simp
  also have "(mask 32 :: u64) = 0xFFFFFFFF" by (simp add: mask_eq_exp_minus_1)
  finally show "keep_bits k 0xFFFFFFFF ! i = replicate k True ! i" using \<open>i < k\<close> by (simp add: keep_bits_def)
qed (simp add: keep_bits_def)

section \<open>Making room for a header\<close>

text \<open>\<open>t\<close> is what a stage has become after it has taken the words in front of \<open>rest\<close> and written \<open>out\<close>.\<close>

definition shifted :: "shift_st \<Rightarrow> bool \<Rightarrow> net_axis list \<Rightarrow> net_axis list \<Rightarrow> shift_st \<Rightarrow> bool" where
  "shifted s b rest out t \<longleftrightarrow> sh_first t = b \<and> \<not> sh_remainder t \<and> sh_in t = rest \<and> sh_out t = sh_out s @ out"

lemma lshift_tail:
  assumes "packed n ws bs" and "0 < k" and "k < n" and "\<not> sh_first s" and "\<not> sh_remainder s"
    and "sh_in s = ws @ rest" and "na_keep (sh_prev s) = keep_of n n" and "length (na_data (sh_prev s)) = n"
  shows "\<exists>i \<le> Suc (length ws). \<exists>out. shifted s True rest out ((lshiftWordByOctet n k ^^ i) s)
    \<and> packed n out (drop (n - k) (na_data (sh_prev s)) @ bs)"
  using assms
proof (induction arbitrary: s rule: packed.induct)
  case (packed_end d j)
  let ?w = "\<lparr> na_data = d, na_keep = keep_of n j, na_last = True \<rparr>"
  let ?w1 = "lshift_word n k (sh_prev s) ?w"
  let ?p = "drop (n - k) (na_data (sh_prev s))"
  have lp: "length ?p = k" using packed_end by simp
  have w1: "?w1 = \<lparr> na_data = ?p @ take (n - k) d, na_keep = keep_of n (k + min j (n - k)), na_last = (j \<le> n - k) \<rparr>"
    using packed_end True_in_keep [of j n "n - k"] by (simp add: lshift_word_def keep_shift_up) linarith
  have step: "lshiftWordByOctet n k s = s\<lparr> sh_in := rest, sh_out := sh_out s @ [?w1], sh_prev := ?w, sh_first := True,
      sh_remainder := \<not> j \<le> n - k \<rparr>"
    using packed_end by (simp add: lshiftWordByOctet_def w1)
  show ?case
  proof (cases "j \<le> n - k")
    case True
    have "?w1 = \<lparr> na_data = ?p @ take (n - k) d, na_keep = keep_of n (k + j), na_last = True \<rparr>"
      using w1 True by (simp add: min_absorb1)
    then have "packed n [?w1] (?p @ take j d)"
      using True packed_end lp packed_end' [of "?p @ take (n - k) d" n "k + j"] by simp
    then show ?thesis using step True
      by (intro exI [of _ 1] conjI exI [of _ "[?w1]"]) (auto simp: shifted_def)
  next
    case False
    let ?w2 = "lshift_rest n k ?w"
    have w2: "?w2 = \<lparr> na_data = drop (n - k) d @ replicate (n - k) 0, na_keep = keep_of n (j - (n - k)), na_last = True \<rparr>"
      using packed_end False by (simp add: lshift_rest_def keep_residue)
    have "packed n [?w2] (drop (n - k) (take j d))"
      unfolding w2 using packed_end False
      by (intro packed_end' [of _ n "j - (n - k)"]) (auto simp: drop_take)
    moreover have "?w1 = \<lparr> na_data = ?p @ take (n - k) d, na_keep = keep_of n n, na_last = False \<rparr>"
      using False packed_end w1 by simp
    ultimately have "packed n [?w1, ?w2] ((?p @ take (n - k) d) @ drop (n - k) (take j d))"
      using packed_end lp packed_word [of "?p @ take (n - k) d" n "[?w2]"] by simp
    moreover have "(?p @ take (n - k) d) @ drop (n - k) (take j d) = ?p @ take j d"
    proof -
      have "take (n - k) d = take (n - k) (take j d)" using False by (simp add: min_def)
      then have "take (n - k) d @ drop (n - k) (take j d) = take j d" by (metis append_take_drop_id)
      then show ?thesis by simp
    qed
    moreover have "(lshiftWordByOctet n k ^^ 2) s =
        s\<lparr> sh_in := rest, sh_out := sh_out s @ [?w1, ?w2], sh_prev := ?w, sh_first := True, sh_remainder := False \<rparr>"
      using step False by (simp add: numeral_2_eq_2 lshiftWordByOctet_def)
    ultimately show ?thesis
      by (intro exI [of _ 2] conjI exI [of _ "[?w1, ?w2]"]) (auto simp: shifted_def)
  qed
next
  case (packed_word d ws bs)
  let ?w = "\<lparr> na_data = d, na_keep = keep_of n n, na_last = False \<rparr>"
  let ?w1 = "lshift_word n k (sh_prev s) ?w"
  let ?p = "drop (n - k) (na_data (sh_prev s))"
  let ?s = "s\<lparr> sh_in := ws @ rest, sh_out := sh_out s @ [?w1], sh_prev := ?w \<rparr>"
  have w1: "?w1 = \<lparr> na_data = ?p @ take (n - k) d, na_keep = keep_of n n, na_last = False \<rparr>"
    using packed_word True_in_keep [of n n "n - k"] by (simp add: lshift_word_def keep_shift_up)
  have step: "lshiftWordByOctet n k s = ?s"
    using packed_word by (simp add: lshiftWordByOctet_def)
  obtain i out where i: "i \<le> Suc (length ws)" "shifted ?s True rest out ((lshiftWordByOctet n k ^^ i) ?s)"
    "packed n out (drop (n - k) d @ bs)"
    using packed_word.IH [of ?s] packed_word.hyps(1) packed_word.prems by auto
  have "packed n (?w1 # out) (?p @ d @ bs)"
    unfolding w1 using packed_word.hyps packed_word.prems by (intro packed_word' [OF _ i(3)]) auto
  then show ?case using i step
    by (intro exI [of _ "Suc i"] conjI exI [of _ "?w1 # out"]) (auto simp: shifted_def funpow_swap1)
qed

text \<open>A word of zeros that is kept: the first word is shifted as if it came behind such a word.\<close>

definition zero_word :: "nat \<Rightarrow> net_axis" where
  "zero_word n = \<lparr> na_data = replicate n 0, na_keep = keep_of n n, na_last = False \<rparr>"

lemma lshift_first_word:
  "k \<le> n \<Longrightarrow> k \<le> 32 \<Longrightarrow> lshift_first n k w = lshift_word n k (zero_word n) w"
  by (simp add: lshift_first_def lshift_word_def zero_word_def keep_ones keep_of_def)

lemma lshift_as_tail:
  assumes "k \<le> 32" and "0 < k" and "k < n" and "sh_first s" and "\<not> sh_remainder s" and "sh_in s = w # ws"
  shows "lshiftWordByOctet n k (s\<lparr> sh_first := False, sh_prev := zero_word n \<rparr>) = lshiftWordByOctet n k s"
  using assms by (simp add: lshiftWordByOctet_def lshift_first_word)

lemma packed_Cons: "packed n ws bs \<Longrightarrow> \<exists>w us. ws = w # us"
  by (cases ws) (auto elim: packed_NilE)

text \<open>A packet behind \<open>k\<close> octets of zeros; the stage is back in its start state.\<close>

lemma lshift_packet:
  assumes "packed n ws bs" and "k \<le> 32" and "k < n" and "sh_first s" and "\<not> sh_remainder s" and "sh_in s = ws @ rest"
  shows "\<exists>i \<le> Suc (length ws). \<exists>out. shifted s True rest out ((lshiftWordByOctet n k ^^ i) s)
    \<and> packed n out (replicate k 0 @ bs)"
proof (cases "k = 0")
  case True
  have "(lshiftWordByOctet n 0 ^^ length us) t = t\<lparr> sh_in := rest, sh_out := sh_out t @ us \<rparr>"
    if "\<not> sh_remainder t" "sh_in t = us @ rest" for us t
    using that
  proof (induction us arbitrary: t)
    case (Cons u us)
    have "lshiftWordByOctet n 0 t = t\<lparr> sh_in := us @ rest, sh_out := sh_out t @ [u] \<rparr>"
      using Cons.prems by (simp add: lshiftWordByOctet_def)
    then show ?case using Cons.IH [of "lshiftWordByOctet n 0 t"] Cons.prems by (simp add: funpow_swap1)
  qed simp
  from this [of s ws] assms True show ?thesis
    by (intro exI [of _ "length ws"] conjI exI [of _ ws]) (auto simp: shifted_def)
next
  case False
  let ?s = "s\<lparr> sh_first := False, sh_prev := zero_word n \<rparr>"
  obtain w us where ws: "ws = w # us" using packed_Cons [OF assms(1)] by blast
  obtain i out where i: "i \<le> Suc (length ws)" "shifted ?s True rest out ((lshiftWordByOctet n k ^^ i) ?s)"
    "packed n out (drop (n - k) (na_data (sh_prev ?s)) @ bs)"
    using lshift_tail [OF assms(1), of k ?s rest] assms False by (auto simp: zero_word_def)
  have "i \<noteq> 0"
  proof
    assume "i = 0"
    with i(2) show False by (simp add: shifted_def)
  qed
  then obtain m where "i = Suc m" by (cases i) auto
  moreover have "lshiftWordByOctet n k ?s = lshiftWordByOctet n k s"
    using lshift_as_tail [of k n s w "us @ rest"] assms False ws by simp
  ultimately have "(lshiftWordByOctet n k ^^ i) ?s = (lshiftWordByOctet n k ^^ i) s"
    by (simp add: funpow_swap1)
  then show ?thesis using i assms(3)
    by (intro exI [of _ i] conjI exI [of _ out]) (auto simp: shifted_def zero_word_def)
qed

section \<open>Removing a header\<close>

text \<open>
  A stage that shifts down by \<open>k\<close> lanes, behind the first word of a packet: while it is \<open>shifting\<close> it writes the upper
  lanes of the previous word below the lower ones of the current word; after the last word it is either \<open>idle\<close>
  or has to write the lanes that are left.
\<close>

locale down_shifter =
  fixes step :: "'s \<Rightarrow> 's" and n k :: nat
    and shifting resting idle :: "'s \<Rightarrow> bool"
    and prev :: "'s \<Rightarrow> net_axis" and inp out :: "'s \<Rightarrow> net_axis list"
  assumes shift_move: "\<lbrakk> 0 < k; k < n; shifting s; inp s = w # ws; na_keep w = keep_of n j; j \<le> n; na_last w \<or> j = n \<rbrakk> \<Longrightarrow>
      inp (step s) = ws \<and> out (step s) = out s @ [rshift_word k (prev s) w] \<and> prev (step s) = w
      \<and> (if \<not> na_last w then shifting (step s) else if j \<le> k then idle (step s) else resting (step s))"
    and rest_move: "resting s \<Longrightarrow> inp (step s) = inp s \<and> out (step s) = out s @ [rshift_rest k (prev s)] \<and> idle (step s)"
begin

lemma shift_word_value:
  assumes "na_keep p = keep_of n n" and "na_keep w = keep_of n j" and "j \<le> n" and "k < n"
  shows "rshift_word k p w =
    \<lparr> na_data = drop k (na_data p) @ take k (na_data w), na_keep = keep_of n (n - k + min j k), na_last = (j \<le> k) \<rparr>"
  using assms True_in_keep [of j n k] by (simp add: rshift_word_def keep_shift_down) linarith

lemma last_word:
  assumes lanes: "0 < k" "k < n" and d: "length d = n" "0 < j" "j \<le> n" and s: "shifting s"
    "inp s = \<lparr> na_data = d, na_keep = keep_of n j, na_last = True \<rparr> # rest"
    "na_keep (prev s) = keep_of n n" "length (na_data (prev s)) = n"
  shows "\<exists>i \<le> 2. \<exists>o'. idle ((step ^^ i) s) \<and> inp ((step ^^ i) s) = rest \<and> out ((step ^^ i) s) = out s @ o'
    \<and> packed n o' (drop k (na_data (prev s)) @ take j d)"
proof -
  let ?w = "\<lparr> na_data = d, na_keep = keep_of n j, na_last = True \<rparr>" and ?p = "drop k (na_data (prev s))"
  let ?w1 = "rshift_word k (prev s) ?w" and ?w2 = "rshift_rest k ?w"
  have w1: "?w1 = \<lparr> na_data = ?p @ take k d, na_keep = keep_of n (n - k + min j k), na_last = (j \<le> k) \<rparr>"
    using shift_word_value [of "prev s" ?w j] d s lanes by simp
  note step = shift_move [OF lanes s(1,2), of j, simplified, OF d(3)]
  show ?thesis
  proof (cases "j \<le> k")
    case True
    have "packed n [?w1] (?p @ take j d)"
      unfolding w1 using True d s lanes packed_end' [of "?p @ take k d" n "n - k + j"] by (simp add: min_absorb1)
    with step True show ?thesis by (intro exI [of _ 1] conjI exI [of _ "[?w1]"]) auto
  next
    case False
    have "?w2 = \<lparr> na_data = drop k d @ replicate k 0, na_keep = keep_of n (j - k), na_last = True \<rparr>"
      using d s False by (simp add: rshift_rest_def keep_residue)
    then have "packed n [?w2] (drop k (take j d))"
      using d s False lanes by (simp, intro packed_end' [of _ n "j - k"]) (auto simp: drop_take)
    then have "packed n [?w1, ?w2] ((?p @ take k d) @ drop k (take j d))"
      unfolding w1 using d s lanes False packed_word [of "?p @ take k d" n "[?w2]"] by simp
    moreover have "take k d = take k (take j d)" using False by (simp add: min_def)
    then have "take k d @ drop k (take j d) = take j d" by (metis append_take_drop_id)
    ultimately show ?thesis using step False rest_move [of "step s"]
      by (intro exI [of _ 2] conjI exI [of _ "[?w1, ?w2]"]) (auto simp: numeral_2_eq_2)
  qed
qed

lemma tail:
  assumes lanes: "0 < k" "k < n" and "packed n ws bs" and "shifting s" and "inp s = ws @ rest"
    and "na_keep (prev s) = keep_of n n" and "length (na_data (prev s)) = n"
  shows "\<exists>i \<le> Suc (length ws). \<exists>o'. idle ((step ^^ i) s) \<and> inp ((step ^^ i) s) = rest \<and> out ((step ^^ i) s) = out s @ o'
    \<and> packed n o' (drop k (na_data (prev s)) @ bs)"
  using assms(3-)
proof (induction arbitrary: s rule: packed.induct)
  case (packed_end d j)
  then show ?case using last_word [OF lanes, of d j s rest] by (simp add: numeral_2_eq_2)
next
  case (packed_word d ws bs)
  let ?w = "\<lparr> na_data = d, na_keep = keep_of n n, na_last = False \<rparr>" and ?p = "drop k (na_data (prev s))"
  let ?w1 = "rshift_word k (prev s) ?w"
  have w1: "?w1 = \<lparr> na_data = ?p @ take k d, na_keep = keep_of n n, na_last = False \<rparr>"
    using shift_word_value [of "prev s" ?w n] packed_word lanes by simp
  have step: "inp (step s) = ws @ rest" "out (step s) = out s @ [?w1]" "prev (step s) = ?w" "shifting (step s)"
    using shift_move [OF lanes packed_word.prems(1), of ?w "ws @ rest" n] packed_word.prems by simp_all
  obtain i o' where i: "i \<le> Suc (length ws)" "idle ((step ^^ i) (step s))" "inp ((step ^^ i) (step s)) = rest"
    "out ((step ^^ i) (step s)) = out (step s) @ o'" "packed n o' (drop k d @ bs)"
    using packed_word.IH [of "step s"] step packed_word.hyps(1) by auto
  have "packed n (?w1 # o') (?p @ d @ bs)"
    unfolding w1 using packed_word.hyps packed_word.prems lanes by (intro packed_word' [OF _ i(5)]) auto
  then show ?case using i step
    by (intro exI [of _ "Suc i"] conjI exI [of _ "?w1 # o'"]) (auto simp: funpow_swap1)
qed

end

interpretation rsd: down_shifter "rshiftWordByOctet k" n k "\<lambda>s. \<not> sh_first s \<and> \<not> sh_remainder s"
  "\<lambda>s. sh_first s \<and> sh_remainder s" "\<lambda>s. sh_first s \<and> \<not> sh_remainder s" sh_prev sh_in sh_out
  by unfold_locales (auto simp: rshiftWordByOctet_def rshift_word_def True_in_keep)

lemma rshift_tail:
  assumes "packed n ws bs" and "0 < k" and "k < n" and "\<not> sh_first s" and "\<not> sh_remainder s"
    and "sh_in s = ws @ rest" and "na_keep (sh_prev s) = keep_of n n" and "length (na_data (sh_prev s)) = n"
  shows "\<exists>i \<le> Suc (length ws). \<exists>out. shifted s True rest out ((rshiftWordByOctet k ^^ i) s)
    \<and> packed n out (drop k (na_data (sh_prev s)) @ bs)"
  using rsd.tail [OF assms(2,3,1) _ assms(6-8)] assms(4,5)
  by (auto simp: shifted_def)

lemma packed_cases:
  assumes "packed n ws bs"
  obtains (one) d j where "ws = [\<lparr> na_data = d, na_keep = keep_of n j, na_last = True \<rparr>]" "bs = take j d"
      "length d = n" "0 < j" "j \<le> n"
    | (more) d us cs where "ws = \<lparr> na_data = d, na_keep = keep_of n n, na_last = False \<rparr> # us" "bs = d @ cs"
      "length d = n" "packed n us cs"
  using assms by (cases rule: packed.cases) blast+

lemma rshift_packet:
  assumes "packed n ws bs" and "k < length bs" and "k < n" and "sh_first s = (k \<noteq> 0)" and "\<not> sh_remainder s"
    and "sh_in s = ws @ rest"
  shows "\<exists>i \<le> Suc (length ws). \<exists>out. shifted s (k \<noteq> 0) rest out ((rshiftWordByOctet k ^^ i) s) \<and> packed n out (drop k bs)"
proof (cases "k = 0")
  case True
  have "(\<forall>u\<in>set (butlast us). \<not> na_last u) \<Longrightarrow> us \<noteq> [] \<Longrightarrow> na_last (last us) \<Longrightarrow>
      \<exists>p. (rshiftWordByOctet 0 ^^ length us) t = t\<lparr> sh_in := rest, sh_out := sh_out t @ us, sh_prev := p \<rparr>"
    if "\<not> sh_first t" "\<not> sh_remainder t" "sh_in t = us @ rest" for us t
    using that
  proof (induction us arbitrary: t)
    case (Cons u us)
    have st: "rshiftWordByOctet 0 t = t\<lparr> sh_in := us @ rest, sh_out := sh_out t @ [u], sh_prev := u \<rparr>"
      using Cons.prems by (cases "na_last u") (simp_all add: rshiftWordByOctet_def)
    show ?case
    proof (cases "us = []")
      case True
      with st show ?thesis by (intro exI [of _ u]) simp
    next
      case False
      with Cons.IH [of "rshiftWordByOctet 0 t"] Cons.prems st obtain p where
        "(rshiftWordByOctet 0 ^^ length us) (rshiftWordByOctet 0 t) =
           (rshiftWordByOctet 0 t)\<lparr> sh_in := rest, sh_out := sh_out (rshiftWordByOctet 0 t) @ us, sh_prev := p \<rparr>"
        by auto
      with st show ?thesis by (intro exI [of _ p]) (simp add: funpow_swap1)
    qed
  qed simp
  moreover have "\<forall>u\<in>set (butlast ws). \<not> na_last u" "ws \<noteq> []" "na_last (last ws)"
    using packed_is_packet [OF assms(1)] by (auto simp: is_packet_def list_all_iff marked_def last_map simp flip: map_butlast)
  ultimately obtain p where "(rshiftWordByOctet 0 ^^ length ws) s = s\<lparr> sh_in := rest, sh_out := sh_out s @ ws, sh_prev := p \<rparr>"
    using assms True by blast
  with assms True show ?thesis
    by (intro exI [of _ "length ws"] conjI exI [of _ ws]) (auto simp: shifted_def)
next
  case False
  from assms(1) show ?thesis
  proof (cases rule: packed_cases)
    case (one d j)
    let ?w = "\<lparr> na_data = d, na_keep = keep_of n j, na_last = True \<rparr>"
    have "k < j" using one assms(2) by simp
    then have "rshift_rest k ?w = \<lparr> na_data = drop k d @ replicate k 0, na_keep = keep_of n (j - k), na_last = True \<rparr>"
      using one by (simp add: rshift_rest_def keep_residue)
    then have "packed n [rshift_rest k ?w] (drop k bs)"
      using one \<open>k < j\<close> packed_end' [of "drop k d @ replicate k 0" n "j - k"] by (simp add: drop_take)
    moreover have "(rshiftWordByOctet k ^^ 2) s =
        s\<lparr> sh_in := rest, sh_out := sh_out s @ [rshift_rest k ?w], sh_prev := ?w, sh_first := True, sh_remainder := False \<rparr>"
      using one assms False by (simp add: numeral_2_eq_2 rshiftWordByOctet_def)
    ultimately show ?thesis using one False
      by (intro exI [of _ 2] conjI exI [of _ "[rshift_rest k ?w]"]) (auto simp: shifted_def)
  next
    case (more d us cs)
    let ?w = "\<lparr> na_data = d, na_keep = keep_of n n, na_last = False \<rparr>"
    let ?s = "s\<lparr> sh_in := us @ rest, sh_prev := ?w, sh_first := False \<rparr>"
    have step: "rshiftWordByOctet k s = ?s" using more assms False by (simp add: rshiftWordByOctet_def)
    obtain i out where i: "i \<le> Suc (length us)" "shifted ?s True rest out ((rshiftWordByOctet k ^^ i) ?s)"
      "packed n out (drop k d @ cs)"
      using rshift_tail [OF more(4), of k ?s rest] more assms False by auto
    then show ?thesis using step more False assms(3)
      by (intro exI [of _ "Suc i"] conjI exI [of _ out]) (auto simp: shifted_def funpow_swap1)
  qed
qed

end
