(* ===== verification/Packet_Header.thy ===== *)
theory Packet_Header
  imports Word_Shift
begin

text \<open>
  Headers on a stream of words: the class \<^verbatim>\<open>packetHeader\<close> of \<^verbatim>\<open>packet.hpp\<close>, and the two kinds of stages that the layers
  build on it, one that sends a header in front of a packet and one that collects the header of a packet.
  The layers differ in the size of their header, in how they fill it and in what they do with it; these are
  the arguments of the stages.

  Sizes are counted in octets: \<open>n\<close> is \<^verbatim>\<open>W/8\<close>, \<open>H\<close> is \<^verbatim>\<open>HEADER_SIZE/8\<close>; all sizes in the code are multiples of 8 bits.  A
  header is the list of its octets, the lowest first.

  The lemmas show that the sending stage puts exactly the octets of the header in front of the packet, for
  every width, and that the collecting stage hands out exactly these octets and passes on the rest.
\<close>

section \<open>The class\<close>

record packetHeader =
  ph_ready :: bool
  ph_idx :: nat
  ph_header :: "u8 list"

definition parseWord :: "nat \<Rightarrow> nat \<Rightarrow> u8 list \<Rightarrow> packetHeader \<Rightarrow> packetHeader" where
  "parseWord n H w h =
     (let i = ph_idx h * n
      in if ph_ready h then h
         else if i + n < H
         then h\<lparr> ph_header := take i (ph_header h) @ w @ drop (i + n) (ph_header h), ph_idx := ph_idx h + 1 \<rparr>
         else h\<lparr> ph_header := take i (ph_header h) @ take (H - i) w, ph_ready := True, ph_idx := ph_idx h + 1 \<rparr>)"

text \<open>The word, the header and the number of octets that are left.\<close>

definition consumeWord :: "nat \<Rightarrow> nat \<Rightarrow> u8 list \<Rightarrow> packetHeader \<Rightarrow> u8 list \<times> packetHeader \<times> nat" where
  "consumeWord n H w h =
     (let i = ph_idx h * n
      in if (ph_idx h + 1) * n \<le> H
         then (take n (drop i (ph_header h)), h\<lparr> ph_idx := ph_idx h + 1 \<rparr>, H - (ph_idx h + 1) * n)
         else if i < H
         then (drop i (ph_header h) @ drop (H mod n) w, h\<lparr> ph_idx := ph_idx h + 1 \<rparr>, 0)
         else (w, h, 0))"

definition clear_header :: "packetHeader \<Rightarrow> packetHeader" where
  "clear_header h = h\<lparr> ph_ready := False, ph_idx := 0 \<rparr>"

section \<open>Sending a header\<close>

datatype gen_state = GEN_META | GEN_HEADER | GEN_PARTIAL_HEADER | GEN_BODY

record 'm gen_st =
  gen_state :: gen_state
  gen_header :: packetHeader
  gen_metaIn :: "'m list"
  gen_in :: "net_axis list"
  gen_out :: "net_axis list"

text \<open>\<open>fill\<close> writes the fields of a header, \<open>kp\<close> is the keep field of a word that holds nothing but header.  The data of such a
  word is overwritten completely.\<close>

definition header_stage :: "nat \<Rightarrow> nat \<Rightarrow> bool list \<Rightarrow> ('m \<Rightarrow> u8 list \<Rightarrow> u8 list) \<Rightarrow> 'm gen_st \<Rightarrow> 'm gen_st" where
  "header_stage n H kp fill s =
     (case gen_state s of
        GEN_META \<Rightarrow>
          (case gen_metaIn s of
             [] \<Rightarrow> s
           | m # ms \<Rightarrow>
               s\<lparr> gen_metaIn := ms,
                  gen_header := (clear_header (gen_header s))\<lparr> ph_header := fill m (ph_header (gen_header s)) \<rparr>,
                  gen_state := (if H \<ge> n then GEN_HEADER else GEN_PARTIAL_HEADER) \<rparr>)
      | GEN_HEADER \<Rightarrow>
          (case consumeWord n H (replicate n 0) (gen_header s) of (d, h, left) \<Rightarrow>
             s\<lparr> gen_header := h, gen_out := gen_out s @ [\<lparr> na_data = d, na_keep = kp, na_last = False \<rparr>],
                gen_state := (if left < n then GEN_PARTIAL_HEADER else GEN_HEADER) \<rparr>)
      | GEN_PARTIAL_HEADER \<Rightarrow>
          (case gen_in s of
             [] \<Rightarrow> s
           | w # ws \<Rightarrow>
               (case consumeWord n H (na_data w) (gen_header s) of (d, h, _) \<Rightarrow>
                  s\<lparr> gen_in := ws, gen_header := h, gen_out := gen_out s @ [w\<lparr> na_data := d \<rparr>],
                     gen_state := (if na_last w then GEN_META else GEN_BODY) \<rparr>))
      | GEN_BODY \<Rightarrow>
          (case gen_in s of
             [] \<Rightarrow> s
           | w # ws \<Rightarrow>
               s\<lparr> gen_in := ws, gen_out := gen_out s @ [w], gen_state := (if na_last w then GEN_META else GEN_BODY) \<rparr>))"

section \<open>Collecting a header\<close>

record 'x parse_st =
  par_header :: packetHeader
  par_metaWritten :: bool
  par_in :: "net_axis list"
  par_out :: "net_axis list"
  par_meta :: 'x

text \<open>\<open>wr\<close> says whether the stage passes a word on, given the header, whether the header was reported before this word and
  whether it is complete now; \<open>emit\<close> is what the stage writes to its other streams when the header is complete.\<close>

definition parse_stage :: "nat \<Rightarrow> nat \<Rightarrow> (u8 list \<Rightarrow> bool \<Rightarrow> bool \<Rightarrow> bool) \<Rightarrow> (u8 list \<Rightarrow> 'x \<Rightarrow> 'x) \<Rightarrow> 'x parse_st \<Rightarrow> 'x parse_st" where
  "parse_stage n H wr emit s =
     (case par_in s of
        [] \<Rightarrow> s
      | w # ws \<Rightarrow>
          (let h = parseWord n H (na_data w) (par_header s); hdr = ph_header h;
               report = (ph_ready h \<and> \<not> par_metaWritten s);
               s1 = s\<lparr> par_in := ws, par_header := h,
                       par_out := (if wr hdr (par_metaWritten s) (ph_ready h) then par_out s @ [w] else par_out s),
                       par_meta := (if report then emit hdr (par_meta s) else par_meta s),
                       par_metaWritten := (par_metaWritten s \<or> report) \<rparr>
           in if na_last w then s1\<lparr> par_header := clear_header h, par_metaWritten := False \<rparr> else s1))"

section \<open>Packets with a header in front\<close>

lemma packed_overlay:
  assumes "packed n (w # us) (zs @ bs)" and "length hs = length zs" and "length zs < n"
  shows "packed n (w\<lparr> na_data := hs @ drop (length zs) (na_data w) \<rparr> # us) (hs @ bs)"
  using assms(1)
proof (cases rule: packed_cases)
  case (one d j)
  then have "length zs \<le> j" by (metis assms(3) le_add1 length_append length_take min.absorb2)
  moreover have "bs = drop (length zs) (take j d)" using one by (metis append_eq_conv_conj)
  ultimately show ?thesis
    using one assms packed_end' [of "hs @ drop (length zs) d" n j "keep_of n j" "hs @ bs"] by (simp add: drop_take)
next
  case (more d us' cs)
  then have "zs = take (length zs) d" "bs = drop (length zs) d @ cs"
    using assms(3) by (auto simp: append_eq_append_conv_if)
  then show ?thesis
    using more assms packed_word' [of "hs @ drop (length zs) d" n us' cs "keep_of n n" "hs @ bs"] by simp
qed

lemma packed_drop:
  "packed n ws cs \<Longrightarrow> r * n < length cs \<Longrightarrow> packed n (drop r ws) (drop (r * n) cs)"
proof (induction arbitrary: r rule: packed.induct)
  case (packed_end d k)
  then have "r * n < n" by (metis length_take min.absorb2 order_less_le_trans)
  then have "r = 0" by simp
  with packed_end show ?case by (simp add: packed.packed_end)
next
  case (packed_word d ws bs)
  then show ?case
  proof (cases r)
    case (Suc q)
    with packed_word packed_word.IH [of q] show ?thesis by simp
  qed (simp add: packed.packed_word)
qed

text \<open>The first \<open>r\<close> words of a list of octets, full and without the mark.\<close>

definition full_words :: "nat \<Rightarrow> nat \<Rightarrow> u8 list \<Rightarrow> net_axis list" where
  "full_words n r hs = map (\<lambda>i. \<lparr> na_data = take n (drop (i * n) hs), na_keep = keep_of n n, na_last = False \<rparr>) [0..<r]"

lemma packed_full_words:
  "packed n ws bs \<Longrightarrow> r * n \<le> length hs \<Longrightarrow> packed n (full_words n r hs @ ws) (take (r * n) hs @ bs)"
proof (induction r arbitrary: ws bs)
  case (Suc r)
  have "packed n (\<lparr> na_data = take n (drop (r * n) hs), na_keep = keep_of n n, na_last = False \<rparr> # ws)
      (take n (drop (r * n) hs) @ bs)"
    using Suc.prems by (intro packed_word) auto
  from Suc.IH [OF this] Suc.prems have "packed n (full_words n (Suc r) hs @ ws)
      (take (r * n) hs @ take n (drop (r * n) hs) @ bs)"
    by (simp add: full_words_def)
  moreover have "take (Suc r * n) hs = take (r * n) hs @ take n (drop (r * n) hs)"
    by (metis add.commute mult_Suc take_add)
  ultimately show ?case by simp
qed (simp add: full_words_def)

section \<open>What the sending stage sends\<close>

text \<open>The words that hold nothing but header.\<close>

lemma header_words_run:
  assumes "gen_state s = GEN_HEADER" and "ph_idx (gen_header s) = j" and "(j + 1) * n \<le> H" and "0 < n"
  shows "(header_stage n H kp fill ^^ (H div n - j)) s =
    s\<lparr> gen_state := GEN_PARTIAL_HEADER, gen_header := (gen_header s)\<lparr> ph_idx := H div n \<rparr>,
       gen_out := gen_out s @ map (\<lambda>i. \<lparr> na_data = take n (drop (i * n) (ph_header (gen_header s))), na_keep = kp, na_last = False \<rparr>) [j..<H div n] \<rparr>"
  using assms
proof (induction "H div n - j" arbitrary: s j)
  case 0
  then have "j + 1 \<le> H div n" by (simp add: less_eq_div_iff_mult_less_eq)
  with 0 show ?case by simp
next
  case (Suc k)
  have le: "j + 1 \<le> H div n" using Suc.prems by (simp add: less_eq_div_iff_mult_less_eq)
  have more: "H - (j + 1) * n < n \<longleftrightarrow> j + 1 = H div n"
  proof -
    have "H - (j + 1) * n < n \<longleftrightarrow> \<not> (j + 2) * n \<le> H" using Suc.prems(3) by (simp add: algebra_simps) linarith
    also have "\<dots> \<longleftrightarrow> \<not> j + 2 \<le> H div n" using Suc.prems(4) by (simp add: less_eq_div_iff_mult_less_eq)
    finally show ?thesis using le by linarith
  qed
  let ?w = "\<lparr> na_data = take n (drop (j * n) (ph_header (gen_header s))), na_keep = kp, na_last = False \<rparr>"
  let ?t = "header_stage n H kp fill s"
  have step: "?t = s\<lparr> gen_header := (gen_header s)\<lparr> ph_idx := j + 1 \<rparr>, gen_out := gen_out s @ [?w],
      gen_state := (if j + 1 = H div n then GEN_PARTIAL_HEADER else GEN_HEADER) \<rparr>"
    using Suc.prems more by (simp add: header_stage_def consumeWord_def)
  show ?case
  proof (cases "j + 1 = H div n")
    case True
    then have "H div n - j = 1" "[j..<H div n] = [j]" using upt_rec [of j "H div n"] by simp_all
    with step True show ?thesis by simp
  next
    case False
    then have "j + 2 \<le> H div n" using le by simp
    then have le2: "(j + 1 + 1) * n \<le> H" using Suc.prems(4) by (simp add: less_eq_div_iff_mult_less_eq)
    have k: "k = H div n - (j + 1)" using Suc.hyps(2) by simp
    have "(header_stage n H kp fill ^^ (H div n - (j + 1))) ?t =
      ?t\<lparr> gen_state := GEN_PARTIAL_HEADER, gen_header := (gen_header ?t)\<lparr> ph_idx := H div n \<rparr>,
         gen_out := gen_out ?t @ map (\<lambda>i. \<lparr> na_data = take n (drop (i * n) (ph_header (gen_header ?t))), na_keep = kp, na_last = False \<rparr>)
           [j + 1..<H div n] \<rparr>"
      using step False le2 Suc.prems(4) by (intro Suc.hyps(1) [OF k]) auto
    moreover have "[j..<H div n] = j # [j + 1..<H div n]" using le by (simp add: upt_conv_Cons)
    moreover have "H div n - j = Suc (H div n - (j + 1))" using le by simp
    ultimately show ?thesis using step False by (simp add: funpow_swap1)
  qed
qed

text \<open>The words behind the one with the end of the header are passed on.\<close>

definition gen_absorb :: "net_axis \<times> bool \<Rightarrow> 'm gen_st \<Rightarrow> 'm gen_st" where
  "gen_absorb w s = s\<lparr> gen_in := tl (gen_in s), gen_out := gen_out s @ [fst w],
     gen_state := (if snd w then GEN_META else GEN_BODY) \<rparr>"

interpretation gb: packet_mover "header_stage n H kp fill" "\<lambda>s. gen_state s = GEN_BODY"
  "\<lambda>s. map marked (gen_in s)" gen_absorb
  by unfold_locales (auto simp: header_stage_def gen_absorb_def marked_def)

lemma gen_absorb_packet:
  "\<lbrakk> ws \<noteq> []; gen_in s = ws @ rest \<rbrakk> \<Longrightarrow>
   fold gen_absorb (map marked ws) s = s\<lparr> gen_in := rest, gen_out := gen_out s @ ws,
     gen_state := (if na_last (last ws) then GEN_META else GEN_BODY) \<rparr>"
proof (induction ws arbitrary: s)
  case (Cons w ws)
  then show ?case
    using Cons.IH [of "gen_absorb (marked w) s"]
    by (cases "ws = []") (simp_all add: gen_absorb_def marked_def)
qed simp

lemma packed_marks: "packed n ws bs \<Longrightarrow> ws \<noteq> [] \<and> na_last (last ws)"
  using packed_is_packet [of n ws bs] by (auto simp: is_packet_def last_map marked_def)

lemma body_run:
  assumes "packed n ws bs" and "gen_state s = GEN_BODY" and "gen_in s = ws @ rest"
  shows "(header_stage n H kp fill ^^ length ws) s = s\<lparr> gen_state := GEN_META, gen_in := rest, gen_out := gen_out s @ ws \<rparr>"
  using gb.moves_packet [OF packed_is_packet [OF assms(1)] assms(2), of "map marked rest"]
    gen_absorb_packet [OF _ assms(3)] packed_marks [OF assms(1)] assms(3) by simp

text \<open>The word with the end of the header and the rest of the packet.\<close>

lemma partial_run:
  assumes "packed n ws (zs @ bs)" and "length zs = H mod n" and "0 < n" and "gen_state s = GEN_PARTIAL_HEADER"
    and "ph_idx (gen_header s) = H div n" and "length (ph_header (gen_header s)) = H" and "gen_in s = ws @ rest"
  shows "\<exists>out h. (header_stage n H kp fill ^^ length ws) s =
      s\<lparr> gen_state := GEN_META, gen_in := rest, gen_out := gen_out s @ out, gen_header := h \<rparr>
    \<and> packed n out (drop (H div n * n) (ph_header (gen_header s)) @ bs)"
proof -
  let ?hs = "drop (H div n * n) (ph_header (gen_header s))"
  obtain w us where ws: "ws = w # us" using packed_Cons [OF assms(1)] by blast
  have len: "length ?hs = H mod n" using assms(6) by (simp add: minus_div_mult_eq_mod)
  have big: "\<not> (H div n + 1) * n \<le> H" using assms(3) by (metis Suc_eq_plus1 div_less_iff_less_mult lessI not_le)
  obtain h where step: "header_stage n H kp fill s =
      s\<lparr> gen_in := us @ rest, gen_header := h, gen_out := gen_out s @ [w\<lparr> na_data := ?hs @ drop (H mod n) (na_data w) \<rparr>],
         gen_state := (if na_last w then GEN_META else GEN_BODY) \<rparr>"
  proof (cases "H mod n = 0")
    case True
    then have "?hs = []" "\<not> H div n * n < H" using len by auto
    with True assms(4,5,7) ws big show ?thesis
      by (intro that [of "gen_header s"]) (simp add: header_stage_def consumeWord_def)
  next
    case False
    then have "H div n * n < H" by (metis mod_0_imp_dvd dvd_div_mult_self div_times_less_eq_dividend le_neq_implies_less dvd_imp_mod_0 dvd_triv_right)
    with that assms(4,5,7) ws big show ?thesis by (auto simp: header_stage_def consumeWord_def)
  qed
  let ?w = "w\<lparr> na_data := ?hs @ drop (H mod n) (na_data w) \<rparr>"
  have out: "packed n (?w # us) (?hs @ bs)"
    using packed_overlay [of n w us zs bs ?hs] assms(1-3) ws len by simp
  from assms(1) show ?thesis
  proof (cases rule: packed_cases)
    case (one d j)
    with ws step out show ?thesis by (intro exI [of _ "[?w]"] exI [of _ h]) auto
  next
    case (more d us' cs)
    let ?t = "header_stage n H kp fill s"
    have "(header_stage n H kp fill ^^ length us) ?t = ?t\<lparr> gen_state := GEN_META, gen_in := rest, gen_out := gen_out ?t @ us \<rparr>"
      using more ws step by (intro body_run [of n us cs]) auto
    with ws step out more show ?thesis by (intro exI [of _ "?w # us"] exI [of _ h]) (auto simp: funpow_swap1)
  qed
qed

text \<open>A header and the packet behind it.\<close>

lemma header_stage_packet:
  assumes "packed n ws (zs @ bs)" and "length zs = H mod n" and "0 < n" and "gen_state s = GEN_META"
    and "gen_metaIn s = m # ms" and "gen_in s = ws @ rest" and "hs = fill m (ph_header (gen_header s))" and "length hs = H"
    and "n \<le> H \<longrightarrow> kp = keep_of n n"
  shows "\<exists>out h. (header_stage n H kp fill ^^ (1 + H div n + length ws)) s =
      s\<lparr> gen_metaIn := ms, gen_in := rest, gen_out := gen_out s @ out, gen_header := h \<rparr> \<and> packed n out (hs @ bs)"
proof -
  let ?f = "header_stage n H kp fill"
  let ?h = "(clear_header (gen_header s))\<lparr> ph_header := hs \<rparr>"
  let ?t = "s\<lparr> gen_metaIn := ms, gen_header := ?h\<lparr> ph_idx := H div n \<rparr>, gen_out := gen_out s @ full_words n (H div n) hs,
      gen_state := GEN_PARTIAL_HEADER \<rparr>"
  have t: "(?f ^^ (1 + H div n)) s = ?t"
  proof (cases "n \<le> H")
    case True
    let ?s = "s\<lparr> gen_metaIn := ms, gen_header := ?h, gen_state := GEN_HEADER \<rparr>"
    have "?f s = ?s" using assms True by (simp add: header_stage_def)
    moreover have "(?f ^^ (H div n - 0)) ?s = ?t"
      using header_words_run [of ?s 0 n H kp fill] True assms(3,9) by (simp add: clear_header_def full_words_def)
    ultimately show ?thesis by (simp add: funpow_swap1)
  next
    case False
    then have "H div n = 0" by simp
    with assms False show ?thesis by (simp add: header_stage_def clear_header_def full_words_def)
  qed
  obtain out h where o: "(?f ^^ length ws) ?t = ?t\<lparr> gen_state := GEN_META, gen_in := rest, gen_out := gen_out ?t @ out, gen_header := h \<rparr>"
    "packed n out (drop (H div n * n) hs @ bs)"
    using partial_run [OF assms(1-3), of ?t rest kp fill] assms by auto
  have "packed n (full_words n (H div n) hs @ out) (take (H div n * n) hs @ drop (H div n * n) hs @ bs)"
    using packed_full_words [OF o(2), of "H div n" hs] assms(8) by simp
  then have "packed n (full_words n (H div n) hs @ out) (hs @ bs)" by (metis append_assoc append_take_drop_id)
  moreover have "(?f ^^ (1 + H div n + length ws)) s = (?f ^^ length ws) ?t"
    using t by (metis add.commute comp_apply funpow_add)
  ultimately show ?thesis using o(1) assms(4)
    by (intro exI [of _ "full_words n (H div n) hs @ out"] exI [of _ h]) simp
qed

section \<open>What the collecting stage reads\<close>

text \<open>Behind the word that completes the header.\<close>

lemma parse_after:
  assumes "packed n ws bs" and "ph_ready (par_header s)" and "par_metaWritten s" and "par_in s = ws @ rest"
    and "ph_header (par_header s) = hs"
  shows "(parse_stage n H wr emit ^^ length ws) s =
    s\<lparr> par_header := clear_header (par_header s), par_metaWritten := False, par_in := rest,
       par_out := par_out s @ (if wr hs True True then ws else []) \<rparr>"
  using assms
proof (induction arbitrary: s rule: packed.induct)
  case (packed_end d k)
  then show ?case by (simp add: parse_stage_def parseWord_def)
next
  case (packed_word d ws bs)
  let ?t = "parse_stage n H wr emit s"
  let ?w = "\<lparr> na_data = d, na_keep = keep_of n n, na_last = False \<rparr>"
  have "?t = s\<lparr> par_in := ws @ rest, par_out := par_out s @ (if wr hs True True then [?w] else []) \<rparr>"
    using packed_word.prems by (simp add: parse_stage_def parseWord_def)
  with packed_word.IH [of ?t] packed_word.prems show ?case by (simp add: funpow_swap1)
qed

text \<open>The words that the stage passes on: the one that completes the header, and those behind it.\<close>

definition passed :: "(u8 list \<Rightarrow> bool \<Rightarrow> bool \<Rightarrow> bool) \<Rightarrow> u8 list \<Rightarrow> net_axis list \<Rightarrow> net_axis list" where
  "passed wr hs ws = (case ws of [] \<Rightarrow> []
     | w # us \<Rightarrow> (if wr hs False True then [w] else []) @ (if wr hs True True then us else []))"

lemma last_header_word: "\<not> j * n + n < (H :: nat) \<Longrightarrow> 0 < n \<Longrightarrow> (H - 1) div n \<le> j"
proof -
  assume "\<not> j * n + n < H" and "0 < n"
  moreover have "(j + 1) * n = j * n + n" by simp
  ultimately have "H - 1 < (j + 1) * n" by linarith
  then have "(H - 1) div n < j + 1" using \<open>0 < n\<close> by (simp add: div_less_iff_less_mult)
  then show ?thesis by simp
qed

lemma header_parse_run:
  assumes "packed n ws cs" and "\<not> ph_ready (par_header s)" and "ph_idx (par_header s) = j" and "\<not> par_metaWritten s"
    and "par_in s = ws @ rest" and "length (ph_header (par_header s)) = H" and "j * n < H" and "H \<le> j * n + length cs"
    and "hs = take (j * n) (ph_header (par_header s)) @ take (H - j * n) cs" and "\<And>h. \<not> wr h False False" and "0 < n"
  shows "(parse_stage n H wr emit ^^ length ws) s =
    s\<lparr> par_header := \<lparr> ph_ready = False, ph_idx = 0, ph_header = hs \<rparr>, par_metaWritten := False, par_in := rest,
       par_out := par_out s @ passed wr hs (drop ((H - 1) div n - j) ws), par_meta := emit hs (par_meta s) \<rparr>"
  using assms
proof (induction arbitrary: s j rule: packed.induct)
  case (packed_end d k)
  have le: "\<not> j * n + n < H" using packed_end by simp
  have hs: "hs = take (j * n) (ph_header (par_header s)) @ take (H - j * n) d" using packed_end by (simp add: min_absorb1)
  have r: "(H - 1) div n \<le> j" using le packed_end.prems(10) by (rule last_header_word)
  show ?case using packed_end.prems(1-5,9) le r
    by (simp add: parse_stage_def parseWord_def clear_header_def passed_def hs Let_def)
next
  case (packed_word d ws bs)
  let ?t = "parse_stage n H wr emit s"
  let ?w = "\<lparr> na_data = d, na_keep = keep_of n n, na_last = False \<rparr>"
  let ?h = "par_header s"
  show ?case
  proof (cases "j * n + n < H")
    case True
    have t: "?t = s\<lparr> par_in := ws @ rest,
        par_header := ?h\<lparr> ph_header := take (j * n) (ph_header ?h) @ d @ drop (j * n + n) (ph_header ?h), ph_idx := j + 1 \<rparr> \<rparr>"
      using True packed_word.prems by (simp add: parse_stage_def parseWord_def Let_def)
    have hs: "hs = take ((j + 1) * n) (ph_header (par_header ?t)) @ take (H - (j + 1) * n) bs"
      using True packed_word.prems packed_word.hyps(1) t by (simp add: algebra_simps)
    have len: "length (ph_header (par_header ?t)) = H" using True t packed_word.prems packed_word.hyps(1) by simp
    have "(parse_stage n H wr emit ^^ length ws) ?t =
      ?t\<lparr> par_header := \<lparr> ph_ready = False, ph_idx = 0, ph_header = hs \<rparr>, par_metaWritten := False, par_in := rest,
       par_out := par_out ?t @ passed wr hs (drop ((H - 1) div n - (j + 1)) ws), par_meta := emit hs (par_meta ?t) \<rparr>"
      by (rule packed_word.IH)
         (use t hs len True packed_word.prems packed_word.hyps(1) in \<open>simp_all add: algebra_simps\<close>)
    moreover have "(H - 1) div n - j = Suc ((H - 1) div n - (j + 1))"
    proof -
      have "(j + 1) * n \<le> H - 1" using True by simp
      then have "j + 1 \<le> (H - 1) div n" using packed_word.prems(10) by (simp add: less_eq_div_iff_mult_less_eq)
      then show ?thesis by simp
    qed
    ultimately show ?thesis using t by (simp add: funpow_swap1)
  next
    case False
    have hs: "hs = take (j * n) (ph_header ?h) @ take (H - j * n) d"
      using False packed_word.prems packed_word.hyps(1) by simp
    have t: "?t = s\<lparr> par_in := ws @ rest, par_out := par_out s @ (if wr hs False True then [?w] else []),
        par_header := ?h\<lparr> ph_header := hs, ph_ready := True, ph_idx := j + 1 \<rparr>, par_metaWritten := True,
        par_meta := emit hs (par_meta s) \<rparr>"
      using False packed_word.prems by (simp add: parse_stage_def parseWord_def hs Let_def)
    have "(H - 1) div n \<le> j" using False packed_word.prems(10) by (rule last_header_word)
    with parse_after [OF packed_word.hyps(2), of ?t rest hs H wr emit] t show ?thesis
      by (simp add: funpow_swap1 passed_def clear_header_def)
  qed
qed

text \<open>A header and a packet behind it, collected and passed on from the word with the end of the header.\<close>

lemma parse_stage_packet:
  assumes "packed n ws (hs @ bs)" and "length hs = H" and "0 < H" and "bs \<noteq> []" and "0 < n"
    and "\<not> ph_ready (par_header s)" and "ph_idx (par_header s) = 0" and "length (ph_header (par_header s)) = H"
    and "\<not> par_metaWritten s" and "par_in s = ws @ rest" and "\<And>h. \<not> wr h False False"
    and "wr hs True True = b" and "wr hs False True = (b \<and> \<not> n dvd H)"
  shows "\<exists>out. (parse_stage n H wr emit ^^ length ws) s =
      s\<lparr> par_header := \<lparr> ph_ready = False, ph_idx = 0, ph_header = hs \<rparr>, par_metaWritten := False, par_in := rest,
         par_out := par_out s @ out, par_meta := emit hs (par_meta s) \<rparr>
    \<and> (if b then packed n out (drop (H div n * n) hs @ bs) else out = [])"
proof -
  let ?r = "(H - 1) div n"
  have run: "(parse_stage n H wr emit ^^ length ws) s =
      s\<lparr> par_header := \<lparr> ph_ready = False, ph_idx = 0, ph_header = hs \<rparr>, par_metaWritten := False, par_in := rest,
         par_out := par_out s @ passed wr hs (drop ?r ws), par_meta := emit hs (par_meta s) \<rparr>"
    using header_parse_run [OF assms(1,6,7,9,10,8), of hs wr emit] assms by simp
  have "?r * n \<le> H - 1" by simp
  then have "?r * n < length (hs @ bs)" unfolding length_append assms(2) using assms(3) by linarith
  from packed_drop [OF assms(1) this] obtain w us where w: "drop ?r ws = w # us"
    using packed_Cons by blast
  have lt: "H div n * n < length (hs @ bs)"
    using assms(2,4) div_times_less_eq_dividend [of H n] by (metis add.right_neutral add_less_cancel_left
        le_neq_implies_less length_append length_greater_0_conv order_le_less_trans trans_less_add1)
  have "packed n (if n dvd H then us else w # us) (drop (H div n * n) (hs @ bs))"
  proof (cases "n dvd H")
    case True
    then have "H div n = Suc ?r" using assms(3,5)
      by (metis Suc_pred' dvd_mult_div_cancel div_Suc dvd_imp_mod_0)
    then have "drop (H div n) ws = us" using w by (metis drop_Suc tl_drop list.sel(3))
    with packed_drop [OF assms(1) lt] True show ?thesis by simp
  next
    case False
    then have "H div n = ?r" using assms(3)
      by (metis Suc_pred' div_Suc dvd_eq_mod_eq_0)
    with packed_drop [OF assms(1) lt] w False show ?thesis by simp
  qed
  moreover have "drop (H div n * n) (hs @ bs) = drop (H div n * n) hs @ bs"
    using assms(2) by simp
  moreover have "passed wr hs (drop ?r ws) = (if b then if n dvd H then us else w # us else [])"
    using assms(12,13) w by (simp add: passed_def)
  ultimately show ?thesis using run by (intro exI [of _ "passed wr hs (drop ?r ws)"]) simp
qed

section \<open>Fields\<close>

text \<open>The octets of a value, the lowest first, and the value of octets; \<^verbatim>\<open>header(hi, lo) = v\<close> and \<^verbatim>\<open>header(hi, lo)\<close> for a
  field that begins at octet \<open>i\<close> and has the width of the value.\<close>

definition octets :: "'a::len word \<Rightarrow> u8 list" where
  "octets v = map (\<lambda>i. range_get v (8 * i + 7) (8 * i)) [0..<LENGTH('a) div 8]"

definition of_octets :: "u8 list \<Rightarrow> 'a::len word" where
  "of_octets bs = fold (\<lambda>i v. range_set v (i * 8 + 7) (i * 8) (bs ! i)) [0..<length bs] 0"

definition put_field :: "nat \<Rightarrow> 'a::len word \<Rightarrow> u8 list \<Rightarrow> u8 list" where
  "put_field i v h = take i h @ octets v @ drop (i + LENGTH('a) div 8) h"

definition get_field :: "nat \<Rightarrow> u8 list \<Rightarrow> 'a::len word" where
  "get_field i h = of_octets (take (LENGTH('a) div 8) (drop i h))"

lemma length_octets [simp]: "length (octets (v :: 'a::len word)) = LENGTH('a) div 8"
  by (simp add: octets_def)

lemma of_octets_octets:
  assumes "8 dvd LENGTH('a::len)"
  shows "of_octets (octets (v :: 'a word)) = v"
proof (rule bit_word_eqI)
  fix m assume m: "m < LENGTH('a)"
  then have k: "m < LENGTH('a) div 8 * 8" using assms by simp
  then have d: "m div 8 < LENGTH('a) div 8" by (simp add: less_mult_imp_div_less)
  have "bit (of_octets (octets v) :: 'a word) m \<longleftrightarrow> bit (octets v ! (m div 8)) (m mod 8)"
    unfolding of_octets_def using k m by (subst bit_fold_octets) simp
  also have "\<dots> \<longleftrightarrow> bit v (8 * (m div 8) + m mod 8)"
    using d by (simp add: octets_def bit_range_get)
  finally show "bit (of_octets (octets v) :: 'a word) m \<longleftrightarrow> bit v m" by simp
qed

lemma length_put_field [simp]:
  "i + LENGTH('a) div 8 \<le> length h \<Longrightarrow> length (put_field i (v :: 'a::len word) h) = length h"
  by (simp add: put_field_def)

lemma get_put_same:
  "8 dvd LENGTH('a) \<Longrightarrow> i + LENGTH('a) div 8 \<le> length h \<Longrightarrow> get_field i (put_field i (v :: 'a::len word) h) = v"
  by (simp add: get_field_def put_field_def of_octets_octets)

lemma get_put_other:
  assumes "i + LENGTH('a) div 8 \<le> j \<or> j + LENGTH('b) div 8 \<le> i" and "i + LENGTH('a) div 8 \<le> length h"
  shows "(get_field j (put_field i (v :: 'a::len word) h) :: 'b::len word) = get_field j h"
proof -
  have "take (LENGTH('b) div 8) (drop j (put_field i v h)) = take (LENGTH('b) div 8) (drop j h)"
  proof (cases "i + LENGTH('a) div 8 \<le> j")
    case True
    then have "drop j (put_field i v h) = drop j h" using assms(2) by (simp add: put_field_def)
    then show ?thesis by simp
  next
    case False
    then have le: "j + LENGTH('b) div 8 \<le> i" using assms(1) by simp
    then have "drop j (put_field i v h) = take (i - j) (drop j h) @ octets v @ drop (i + LENGTH('a) div 8) h"
      using assms(2) by (simp add: put_field_def drop_take)
    then show ?thesis using le assms(2) by (simp add: min_absorb1)
  qed
  then show ?thesis by (simp add: get_field_def)
qed

lemmas field_simps = get_put_same get_put_other length_put_field

end
