(* ===== verification/Dataflow.thy ===== *)
theory Dataflow
  imports Prelude
begin

text \<open>
  The modules of the stack are dataflow regions: their stages run side by side and hand words to each other
  over streams (\<^verbatim>\<open>#pragma HLS DATAFLOW\<close>, or one stage after the other in the C simulation).  This theory relates
  such a composition to its stages.

  A stage is run to its end when further invocations change nothing.  The interface \<open>kahn_stage\<close> says that it makes
  no difference for that end whether an input arrives before or after an invocation; the lemmas show that
  two stages with a stream between them, invoked in turn, end where the second stage ends when it is given all
  the output of the first at once.
\<close>

section \<open>The end of a run\<close>

definition settles :: "('s \<Rightarrow> 's) \<Rightarrow> 's \<Rightarrow> 's \<Rightarrow> bool" where
  "settles step s t \<longleftrightarrow> step t = t \<and> (\<exists>k. (step ^^ k) s = t)"

lemma funpow_fixed: "step t = t \<Longrightarrow> (step ^^ k) t = t"
  by (induction k) simp_all

lemma settles_stays: "settles step s t \<Longrightarrow> \<exists>k. \<forall>m\<ge>k. (step ^^ m) s = t"
proof -
  assume "settles step s t"
  then obtain k where k: "(step ^^ k) s = t" "step t = t" by (auto simp: settles_def)
  have "(step ^^ m) s = t" if "k \<le> m" for m
  proof -
    have "(step ^^ m) s = (step ^^ (m - k)) ((step ^^ k) s)"
      using that by (metis comp_apply funpow_add le_add_diff_inverse2)
    then show ?thesis using k by (simp add: funpow_fixed)
  qed
  then show ?thesis by blast
qed

lemma settles_unique: "settles step s t \<Longrightarrow> settles step s u \<Longrightarrow> t = u"
  using settles_stays [of step s t] settles_stays [of step s u] by (metis nle_le)

lemma settles_step: "settles step s t \<Longrightarrow> settles step (step s) t"
  unfolding settles_def by (metis comp_apply funpow.simps(2) funpow_swap1)

lemma settles_back: "settles step (step s) t \<Longrightarrow> settles step s t"
  unfolding settles_def by (metis comp_apply funpow.simps(2) funpow_swap1)

lemma settles_run: "settles step ((step ^^ k) s) t \<Longrightarrow> settles step s t"
  by (induction k) (auto dest: settles_back)

lemma settlesI: "(step ^^ k) s = t \<Longrightarrow> step t = t \<Longrightarrow> settles step s t"
  by (auto simp: settles_def)

text \<open>Two stages that do not talk to each other.\<close>

lemma funpow_map_prod: "(map_prod (f :: 'a \<Rightarrow> 'a) (g :: 'b \<Rightarrow> 'b) ^^ k) p = map_prod (f ^^ k) (g ^^ k) p"
  by (cases p, induction k) simp_all

lemma settles_prod:
  "settles (map_prod f g) (a, b) (a', b') \<longleftrightarrow> settles f a a' \<and> settles g b b'"
proof
  assume l: "settles f a a' \<and> settles g b b'"
  then obtain i j where "\<forall>m\<ge>i. (f ^^ m) a = a'" "\<forall>m\<ge>j. (g ^^ m) b = b'"
    using settles_stays by metis
  then have "(map_prod f g ^^ (i + j)) (a, b) = (a', b')" by (simp add: funpow_map_prod)
  with l show "settles (map_prod f g) (a, b) (a', b')" by (auto simp: settles_def)
qed (auto simp: settles_def funpow_map_prod)

section \<open>Stages\<close>

text \<open>
  \<open>feed\<close> puts input on the streams a stage reads; inputs are put together by \<open>app\<close>.
\<close>

locale kahn_stage =
  fixes step :: "'s \<Rightarrow> 's"
    and feed :: "'i \<Rightarrow> 's \<Rightarrow> 's"
    and app :: "'i \<Rightarrow> 'i \<Rightarrow> 'i"
    and none :: 'i
  assumes feed_none: "feed none s = s"
    and feed_app: "feed (app x y) s = feed y (feed x s)"
    and early: "settles step (feed x s) t \<Longrightarrow> settles step (feed x (step s)) t"

text \<open>The usual reason: a stage that can move moves in the same way when more input is there.\<close>

locale local_stage =
  fixes step :: "'s \<Rightarrow> 's"
    and feed :: "'i \<Rightarrow> 's \<Rightarrow> 's"
    and app :: "'i \<Rightarrow> 'i \<Rightarrow> 'i"
    and none :: 'i
  assumes loc_none: "feed none s = s"
    and loc_app: "feed (app x y) s = feed y (feed x s)"
    and same_move: "step s \<noteq> s \<Longrightarrow> step (feed x s) = feed x (step s)"

sublocale local_stage \<subseteq> kahn_stage step feed app none
proof
  fix x s t
  assume "settles step (feed x s) t"
  then show "settles step (feed x (step s)) t"
    using same_move [of s x] by (cases "step s = s") (auto dest: settles_step)
qed (simp_all add: loc_none loc_app)

text \<open>Two stages side by side, each with an input of its own.\<close>

definition pair_app :: "'a list \<times> 'b list \<Rightarrow> 'a list \<times> 'b list \<Rightarrow> 'a list \<times> 'b list" where
  "pair_app x y = (fst x @ fst y, snd x @ snd y)"

lemma pair_app_simps [simp]:
  "pair_app ([], []) x = x" "pair_app x ([], []) = x" "pair_app (pair_app x y) z = pair_app x (pair_app y z)"
  by (simp_all add: pair_app_def)

locale kahn_pair = a: kahn_stage f feedA "(@)" "[]" + b: kahn_stage g feedB "(@)" "[]"
  for f :: "'s \<Rightarrow> 's" and feedA :: "'i list \<Rightarrow> 's \<Rightarrow> 's" and g :: "'t \<Rightarrow> 't" and feedB :: "'j list \<Rightarrow> 't \<Rightarrow> 't"

sublocale kahn_pair \<subseteq> pair: kahn_stage "map_prod f g" "\<lambda>x. map_prod (feedA (fst x)) (feedB (snd x))" pair_app "([], [])"
proof
  fix x :: "'i list \<times> 'j list" and s t
  assume "settles (map_prod f g) (map_prod (feedA (fst x)) (feedB (snd x)) s) t"
  then show "settles (map_prod f g) (map_prod (feedA (fst x)) (feedB (snd x)) (map_prod f g s)) t"
    by (cases s; cases t) (simp add: settles_prod a.early b.early)
qed (simp_all add: pair_app_def a.feed_none b.feed_none a.feed_app b.feed_app map_prod_def case_prod_beta prod.expand)

section \<open>Two stages with a stream between them\<close>

text \<open>
  The first stage appends to its output \<open>out\<close>, and never looks at it; \<open>clear\<close> takes the output away.
\<close>

locale writer =
  fixes step :: "'a \<Rightarrow> 'a"
    and out :: "'a \<Rightarrow> 'i"
    and clear :: "'a \<Rightarrow> 'a"
    and app :: "'i \<Rightarrow> 'i \<Rightarrow> 'i"
    and none :: 'i
  assumes out_clear: "out (clear a) = none"
    and clear_id: "out a = none \<Longrightarrow> clear a = a"
    and clear_clear: "clear (step (clear a)) = clear (step a)"
    and out_step: "out (step a) = app (out a) (out (step (clear a)))"
    and app_none: "app none x = x" "app x none = x"
    and app_assoc: "app (app x y) z = app x (app y z)"

locale two_stages = w: writer stepA out clear app none + k: kahn_stage stepB feed app none
  for stepA :: "'a \<Rightarrow> 'a" and out :: "'a \<Rightarrow> 'i" and clear :: "'a \<Rightarrow> 'a"
    and stepB :: "'b \<Rightarrow> 'b" and feed :: "'i \<Rightarrow> 'b \<Rightarrow> 'b" and app :: "'i \<Rightarrow> 'i \<Rightarrow> 'i" and none :: 'i +
  fixes pipe :: "'a \<times> 'b \<Rightarrow> 'a \<times> 'b"
  assumes pipe: "pipe (a, b) = (clear (stepA a), stepB (feed (out (stepA a)) b))"
begin

text \<open>What the first stage writes from now on.\<close>

primrec written :: "nat \<Rightarrow> 'a \<Rightarrow> 'i" where
  "written 0 a = none"
| "written (Suc n) a = app (out (stepA (clear a))) (written n (clear (stepA a)))"

lemma written_clear: "written n (clear a) = written n a"
  by (cases n) (simp_all add: w.clear_clear w.clear_id w.out_clear)

lemma out_written: "out ((stepA ^^ n) a) = app (out a) (written n a)"
proof (induction n arbitrary: a)
  case (Suc n)
  have "out ((stepA ^^ Suc n) a) = out ((stepA ^^ n) (stepA a))" by (simp add: funpow_swap1)
  then show ?case using Suc [of "stepA a"] by (simp add: w.out_step [of a] w.app_assoc written_clear)
qed (simp add: w.app_none)

lemma clear_run: "clear ((stepA ^^ n) (clear a)) = clear ((stepA ^^ n) a)"
proof (induction n)
  case (Suc n)
  then show ?case
    by (metis comp_apply funpow.simps(2) w.clear_clear)
qed (simp add: w.clear_id w.out_clear)

lemma pipe_ahead:
  assumes "out a = none" and "settles stepB (feed (written n a) b) t"
  shows "\<exists>b'. (pipe ^^ n) (a, b) = (clear ((stepA ^^ n) a), b') \<and> settles stepB b' t"
  using assms
proof (induction n arbitrary: a b)
  case 0
  then show ?case by (simp add: k.feed_none w.clear_id)
next
  case (Suc n)
  let ?a = "clear (stepA a)" and ?o = "out (stepA a)"
  have "out a = none" by fact
  then have ca: "clear a = a" by (rule w.clear_id)
  have "settles stepB (feed (written n ?a) (stepB (feed ?o b))) t"
    using Suc.prems(2) ca by (intro k.early) (simp add: k.feed_app)
  from Suc.IH [OF w.out_clear this] obtain b' where
    "(pipe ^^ n) (?a, stepB (feed ?o b)) = (clear ((stepA ^^ n) ?a), b')" "settles stepB b' t" by blast
  then show ?case by (simp add: funpow_swap1 pipe clear_run)
qed

theorem pipe_settles:
  assumes "out a = none" and "settles stepA a a'" and "settles stepB (feed (out a') b) t" and "stepA (clear a') = clear a'"
  shows "settles pipe (a, b) (clear a', t)"
proof -
  obtain n where n: "(stepA ^^ n) a = a'" using assms(2) by (auto simp: settles_def)
  have "out a' = written n a" using out_written [of n a] assms(1) n by (simp add: w.app_none)
  with assms(3) pipe_ahead [OF assms(1), of n b t] n obtain b' where
    b': "(pipe ^^ n) (a, b) = (clear a', b')" "settles stepB b' t" by auto
  have still: "pipe (clear a', b) = (clear a', stepB b)" for b
    by (simp add: pipe assms(4) w.out_clear k.feed_none w.clear_id)
  have go: "(pipe ^^ m) (clear a', b) = (clear a', (stepB ^^ m) b)" for m b
    by (induction m) (simp_all add: still)
  obtain m where m: "(stepB ^^ m) b' = t" "stepB t = t" using b'(2) by (auto simp: settles_def)
  have "(pipe ^^ m) ((pipe ^^ n) (a, b)) = (clear a', t)" using b' go m by simp
  then have "(pipe ^^ (m + n)) (a, b) = (clear a', t)" by (simp add: funpow_add)
  then show ?thesis using still m by (auto intro: settlesI)
qed

end

end
