(* ===== verification/Stage_Runs.thy ===== *)
theory Stage_Runs
  imports Packet_Header Dataflow
begin

text \<open>
  The shifting, sending and collecting stages as parts of a composition: they satisfy the laws of the interfaces of
  \<^verbatim>\<open>Dataflow\<close>, and the runs over one packet, as runs that come to an end.
\<close>

section \<open>Inputs and outputs\<close>

definition feed_shift :: "net_axis list \<Rightarrow> shift_st \<Rightarrow> shift_st" where
  "feed_shift ws s = s\<lparr> sh_in := sh_in s @ ws \<rparr>"

definition feed_gen :: "net_axis list \<times> 'm list \<Rightarrow> 'm gen_st \<Rightarrow> 'm gen_st" where
  "feed_gen x s = s\<lparr> gen_metaIn := gen_metaIn s @ snd x, gen_in := gen_in s @ fst x \<rparr>"

lemma rshift_local: "rshiftWordByOctet k s \<noteq> s \<Longrightarrow> rshiftWordByOctet k (feed_shift ws s) = feed_shift ws (rshiftWordByOctet k s)"
  by (cases "sh_remainder s"; cases "sh_in s") (simp_all add: feed_shift_def rshiftWordByOctet_def Let_def)

interpretation rsh: local_stage "rshiftWordByOctet k" feed_shift "(@)" "[]"
  by unfold_locales (simp_all add: rshift_local, simp_all add: feed_shift_def)

lemma gen_local: "header_stage n H kp fill s \<noteq> s \<Longrightarrow> header_stage n H kp fill (feed_gen x s) = feed_gen x (header_stage n H kp fill s)"
  by (cases "gen_state s"; cases "gen_metaIn s"; cases "gen_in s")
     (simp_all add: feed_gen_def header_stage_def split: prod.splits)

interpretation gen: local_stage "header_stage n H kp fill" feed_gen pair_app "([], [])"
  by unfold_locales (simp_all add: gen_local, simp_all add: feed_gen_def pair_app_def)

text \<open>A collecting stage that reports to one stream.\<close>

definition parse_clear :: "'r list parse_st \<Rightarrow> 'r list parse_st" where
  "parse_clear p = p\<lparr> par_out := [], par_meta := [] \<rparr>"

interpretation par: writer "parse_stage n H wr (\<lambda>h ms. ms @ [rep h])" "\<lambda>p. (par_out p, par_meta p)" parse_clear pair_app "([], [])"
  by unfold_locales
     (simp_all add: parse_clear_def, auto simp: parse_stage_def pair_app_def Let_def split: list.split)

definition lshift_clear :: "shift_st \<Rightarrow> shift_st" where
  "lshift_clear s = s\<lparr> sh_out := [] \<rparr>"

interpretation lsh: writer "lshiftWordByOctet n k" sh_out lshift_clear "(@)" "[]"
  by unfold_locales (auto simp: lshift_clear_def lshiftWordByOctet_def Let_def split: list.split)

section \<open>Runs over a packet\<close>

lemma lshift_settles:
  assumes "packed n ws bs" and "k \<le> 32" and "k < n" and "sh_first s" and "\<not> sh_remainder s" and "sh_in s = ws"
  shows "\<exists>t out. settles (lshiftWordByOctet n k) s t \<and> shifted s True [] out t \<and> packed n out (replicate k 0 @ bs)"
proof -
  obtain i out where i: "shifted s True [] out ((lshiftWordByOctet n k ^^ i) s)" "packed n out (replicate k 0 @ bs)"
    using lshift_packet [OF assms(1-5), of "[]"] assms(6) by auto
  moreover have "lshiftWordByOctet n k t = t" if "shifted s True [] out t" for t
    using that by (simp add: shifted_def lshiftWordByOctet_def)
  ultimately show ?thesis by (blast intro: settlesI)
qed

lemma rshift_settles:
  assumes "packed n ws bs" and "k < length bs" and "k < n" and "sh_first s = (k \<noteq> 0)" and "\<not> sh_remainder s" and "sh_in s = ws"
  shows "\<exists>t out. settles (rshiftWordByOctet k) s t \<and> shifted s (k \<noteq> 0) [] out t \<and> packed n out (drop k bs)"
proof -
  obtain i out where i: "shifted s (k \<noteq> 0) [] out ((rshiftWordByOctet k ^^ i) s)" "packed n out (drop k bs)"
    using rshift_packet [OF assms(1-5), of "[]"] assms(6) by auto
  moreover have "rshiftWordByOctet k t = t" if "shifted s (k \<noteq> 0) [] out t" for t
    using that by (simp add: shifted_def rshiftWordByOctet_def)
  ultimately show ?thesis by (blast intro: settlesI)
qed

lemma header_settles:
  assumes "packed n ws (zs @ bs)" and "length zs = H mod n" and "0 < n" and "gen_state s = GEN_META"
    and "gen_metaIn s = [m]" and "gen_in s = ws" and "hs = fill m (ph_header (gen_header s))" and "length hs = H"
    and "n \<le> H \<longrightarrow> kp = keep_of n n"
  shows "\<exists>out h. settles (header_stage n H kp fill) s
      (s\<lparr> gen_metaIn := [], gen_in := [], gen_out := gen_out s @ out, gen_header := h \<rparr>) \<and> packed n out (hs @ bs)"
proof -
  obtain out h where o: "(header_stage n H kp fill ^^ (1 + H div n + length ws)) s =
      s\<lparr> gen_metaIn := [], gen_in := [], gen_out := gen_out s @ out, gen_header := h \<rparr>" "packed n out (hs @ bs)"
    using header_stage_packet [OF assms(1-4), of m "[]" "[]" hs fill kp] assms(5-9) by auto
  then show ?thesis using assms(4)
    by (intro exI [of _ out] exI [of _ h] conjI settlesI [OF o(1)]) (simp_all add: header_stage_def)
qed

lemma parse_settles:
  assumes "packed n ws (hs @ bs)" and "length hs = H" and "0 < H" and "bs \<noteq> []" and "0 < n"
    and "\<not> ph_ready (par_header s)" and "ph_idx (par_header s) = 0" and "length (ph_header (par_header s)) = H"
    and "\<not> par_metaWritten s" and "par_in s = ws" and "\<And>h. \<not> wr h False False"
    and "wr hs True True = b" and "wr hs False True = (b \<and> \<not> n dvd H)"
  shows "\<exists>out. settles (parse_stage n H wr emit) s
      (s\<lparr> par_header := \<lparr> ph_ready = False, ph_idx = 0, ph_header = hs \<rparr>, par_metaWritten := False, par_in := [],
         par_out := par_out s @ out, par_meta := emit hs (par_meta s) \<rparr>)
    \<and> (if b then packed n out (drop (H div n * n) hs @ bs) else out = [])"
proof -
  obtain out where o: "(parse_stage n H wr emit ^^ length ws) s =
      s\<lparr> par_header := \<lparr> ph_ready = False, ph_idx = 0, ph_header = hs \<rparr>, par_metaWritten := False, par_in := [],
         par_out := par_out s @ out, par_meta := emit hs (par_meta s) \<rparr>"
    "if b then packed n out (drop (H div n * n) hs @ bs) else out = []"
    using parse_stage_packet [OF assms(1-9), of "[]" wr b emit] assms(10-13) by auto
  then show ?thesis using assms(9) by (intro exI [of _ out] conjI settlesI [OF o(1)]) (simp_all add: parse_stage_def)
qed

text \<open>A collecting stage that passes every word on.\<close>

lemma parse_pass_run:
  "(parse_stage n H (\<lambda>_ _ _. True) emit ^^ i) s =
     ((parse_stage n H (\<lambda>_ _ _. False) emit ^^ i) s)\<lparr> par_out := par_out s @ take i (par_in s) \<rparr>
   \<and> par_in ((parse_stage n H (\<lambda>_ _ _. False) emit ^^ i) s) = drop i (par_in s)"
proof (induction i)
  case (Suc i)
  let ?t = "(parse_stage n H (\<lambda>_ _ _. False) emit ^^ i) s"
  show ?case
  proof (cases "drop i (par_in s)")
    case Nil
    with Suc show ?thesis by (simp add: parse_stage_def)
  next
    case (Cons w ws)
    then have "take (Suc i) (par_in s) = take i (par_in s) @ [w]" "drop (Suc i) (par_in s) = ws"
      by (metis append_eq_conv_conj append_take_drop_id drop_eq_Nil linorder_not_le list.discI nth_via_drop take_Suc_conv_app_nth)
         (metis Cons drop_Suc list.sel(3) tl_drop)
    with Suc Cons show ?thesis by (simp add: parse_stage_def Let_def)
  qed
qed simp

lemma parse_pass_settles:
  assumes "packed n ws (hs @ bs)" and "length hs = H" and "0 < H" and "bs \<noteq> []" and "0 < n"
    and "\<not> ph_ready (par_header s)" and "ph_idx (par_header s) = 0" and "length (ph_header (par_header s)) = H"
    and "\<not> par_metaWritten s" and "par_in s = ws"
  shows "settles (parse_stage n H (\<lambda>_ _ _. True) emit) s
      (s\<lparr> par_header := \<lparr> ph_ready = False, ph_idx = 0, ph_header = hs \<rparr>, par_metaWritten := False, par_in := [],
         par_out := par_out s @ ws, par_meta := emit hs (par_meta s) \<rparr>)"
proof (rule settlesI)
  have "(parse_stage n H (\<lambda>_ _ _. False) emit ^^ length ws) s =
      s\<lparr> par_header := \<lparr> ph_ready = False, ph_idx = 0, ph_header = hs \<rparr>, par_metaWritten := False, par_in := [],
         par_meta := emit hs (par_meta s) \<rparr>"
    using parse_stage_packet [OF assms(1-9), of "[]" "\<lambda>_ _ _. False" False emit] assms(10) by auto
  with parse_pass_run [where n = n and H = H and emit = emit and i = "length ws" and s = s] assms(10)
  show "(parse_stage n H (\<lambda>_ _ _. True) emit ^^ length ws) s = s\<lparr> par_header := \<lparr> ph_ready = False, ph_idx = 0, ph_header = hs \<rparr>,
      par_metaWritten := False, par_in := [], par_out := par_out s @ ws, par_meta := emit hs (par_meta s) \<rparr>" by simp
qed (simp add: parse_stage_def)

end
