(* ===== verification/Ipv4.thy ===== *)
theory Ipv4
  imports Stage_Runs
begin

text \<open>
  The IPv4 layer, \<^verbatim>\<open>ipv4/ipv4.hpp\<close> and \<^verbatim>\<open>ipv4/ipv4.cpp\<close>: the header, the stages of the receive path (\<^verbatim>\<open>process_ipv4\<close> and
  \<^verbatim>\<open>ipv4_drop_optional_ip_header\<close>, which removes the header) and of the transmit path (the shift that makes room and
  \<^verbatim>\<open>ipv4_generate_ipv4\<close>), and their composition \<^verbatim>\<open>ipv4\<close>.  \<open>n\<close> is the number of octets of a word (\<^verbatim>\<open>WIDTH/8\<close>).
\<close>

section \<open>The header\<close>

definition IPV4_HEADER_OCTETS :: nat where "IPV4_HEADER_OCTETS = 20"

record ipv4Meta =
  im_their_address :: u32
  im_length :: u16

text \<open>The constructor of \<^verbatim>\<open>ipv4Meta\<close> from a long address takes its highest 32 bits.\<close>

definition ipv4Meta_long :: "128 word \<Rightarrow> u16 \<Rightarrow> ipv4Meta" where
  "ipv4Meta_long addr len = \<lparr> im_their_address = range_get addr 127 96, im_length = len \<rparr>"

text \<open>The octets of the addresses stay in the order of the network.\<close>

definition ip_setSrcAddr :: "u32 \<Rightarrow> u8 list \<Rightarrow> u8 list" where "ip_setSrcAddr a = put_field 12 a"
definition ip_getSrcAddr :: "u8 list \<Rightarrow> u32" where "ip_getSrcAddr h = get_field 12 h"
definition ip_setDstAddr :: "u32 \<Rightarrow> u8 list \<Rightarrow> u8 list" where "ip_setDstAddr a = put_field 16 a"
definition ip_getDstAddr :: "u8 list \<Rightarrow> u32" where "ip_getDstAddr h = get_field 16 h"
definition ip_setLength :: "u16 \<Rightarrow> u8 list \<Rightarrow> u8 list" where "ip_setLength l = put_field 2 (reverse l)"
definition ip_getLength :: "u8 list \<Rightarrow> u16" where "ip_getLength h = reverse (get_field 2 h)"
definition ip_setProtocol :: "u8 \<Rightarrow> u8 list \<Rightarrow> u8 list" where "ip_setProtocol p = put_field 9 p"
definition ip_getProtocol :: "u8 list \<Rightarrow> u8" where "ip_getProtocol h = get_field 9 h"
definition ip_getHeaderLength :: "u8 list \<Rightarrow> u4" where "ip_getHeaderLength h = range_get (get_field 0 h :: u8) 3 0"

text \<open>The constructor writes the version, the header length and the time to live.\<close>

definition ipv4Header_init :: "u8 list \<Rightarrow> u8 list" where
  "ipv4Header_init h = put_field 8 (0x40 :: u8) (put_field 0 (0x45 :: u8) h)"

lemmas ip_fields = ip_setSrcAddr_def ip_getSrcAddr_def ip_setDstAddr_def ip_getDstAddr_def ip_setLength_def
  ip_getLength_def ip_setProtocol_def ip_getProtocol_def ip_getHeaderLength_def ipv4Header_init_def

section \<open>The stages\<close>

record process_ipv4_st =
  pip_header :: packetHeader
  pip_headerWordsDropped :: u4
  pip_metaWritten :: bool
  pip_dataIn :: "net_axis list"
  pip_lengthOut :: "u4 list"
  pip_metaOut :: "ipv4Meta list"
  pip_dataOut :: "net_axis list"

definition process_ipv4 :: "nat \<Rightarrow> process_ipv4_st \<Rightarrow> process_ipv4_st" where
  "process_ipv4 n s =
     (case pip_dataIn s of
        [] \<Rightarrow> s
      | w # ws \<Rightarrow>
          (let h = parseWord n IPV4_HEADER_OCTETS (na_data w) (pip_header s); hdr = ph_header h;
               s1 = s\<lparr> pip_dataIn := ws, pip_header := h \<rparr>;
               s2 = (if ph_ready h then s1\<lparr> pip_dataOut := pip_dataOut s1 @ [w] \<rparr> else s1);
               s3 = (if ph_ready h \<and> \<not> pip_metaWritten s2
                     then s2\<lparr> pip_lengthOut := pip_lengthOut s2 @ [ip_getHeaderLength hdr - pip_headerWordsDropped s2],
                              pip_metaOut := pip_metaOut s2 @
                                [\<lparr> im_their_address = ip_getSrcAddr hdr, im_length = ip_getLength hdr \<rparr>],
                              pip_metaWritten := True \<rparr>
                     else s2);
               s4 = s3\<lparr> pip_headerWordsDropped := pip_headerWordsDropped s3 + of_nat (n div 4) \<rparr>
           in if na_last w
              then s4\<lparr> pip_metaWritten := False, pip_header := clear_header h, pip_headerWordsDropped := 0 \<rparr>
              else s4))"

definition ipv4_fill :: "u32 \<Rightarrow> u8 \<Rightarrow> ipv4Meta \<Rightarrow> u8 list \<Rightarrow> u8 list" where
  "ipv4_fill local_ipv4_address protocol m h =
     ip_setProtocol protocol (ip_setSrcAddr local_ipv4_address (ip_setDstAddr (im_their_address m)
       (ip_setLength (im_length m + 20) h)))"

definition generate_ipv4 :: "nat \<Rightarrow> u32 \<Rightarrow> u8 \<Rightarrow> ipv4Meta gen_st \<Rightarrow> ipv4Meta gen_st" where
  "generate_ipv4 n local_ipv4_address protocol =
     header_stage n IPV4_HEADER_OCTETS (keep_bits n 0xFFFFFFFF) (ipv4_fill local_ipv4_address protocol)"

definition ipv4_generate_ipv4 :: "nat \<Rightarrow> u32 \<Rightarrow> u8 \<Rightarrow> ipv4Meta gen_st \<Rightarrow> ipv4Meta gen_st" where
  "ipv4_generate_ipv4 = generate_ipv4"

datatype doh_state = DOH_META | DOH_DROP | DOH_BODY | DOH_SHIFT | DOH_LAST | DOH_SHIFT_FIVE | DOH_LAST_FIVE

record doh_st =
  doh_state :: doh_state
  doh_length :: u4
  doh_prevWord :: net_axis
  doh_lengthIn :: "u4 list"
  doh_dataIn :: "net_axis list"
  doh_dataOut :: "net_axis list"

text \<open>The word the states \<^verbatim>\<open>SHIFT\<close> and \<^verbatim>\<open>SHIFT_FIVE\<close> send: it is the last one when lane \<open>k\<close> of the current word is empty.\<close>

definition doh_send :: "nat \<Rightarrow> net_axis \<Rightarrow> net_axis \<Rightarrow> net_axis" where
  "doh_send k p w =
     \<lparr> na_data = drop k (na_data p) @ take k (na_data w), na_keep = drop k (na_keep p) @ take k (na_keep w),
       na_last = (\<not> na_keep w ! k) \<rparr>"

definition doh_shift :: "nat \<Rightarrow> doh_state \<Rightarrow> doh_st \<Rightarrow> doh_st" where
  "doh_shift k rest s =
     (case doh_dataIn s of
        [] \<Rightarrow> s
      | w # ws \<Rightarrow>
          (let send = doh_send k (doh_prevWord s) w
           in s\<lparr> doh_dataIn := ws, doh_dataOut := doh_dataOut s @ [send], doh_prevWord := w,
                 doh_state := (if na_last send then DOH_META else if na_last w then rest else doh_state s) \<rparr>))"

definition doh_last :: "nat \<Rightarrow> doh_st \<Rightarrow> doh_st" where
  "doh_last k s = s\<lparr> doh_dataOut := doh_dataOut s @ [rshift_rest k (doh_prevWord s)], doh_state := DOH_META \<rparr>"

text \<open>In \<^verbatim>\<open>META\<close> a width other than the four of the code only takes the length.\<close>

definition doh_meta :: "nat \<Rightarrow> doh_st \<Rightarrow> doh_st" where
  "doh_meta n s =
     (case (doh_lengthIn s, doh_dataIn s) of
        (l # ls, w # ws) \<Rightarrow>
          (let s1 = s\<lparr> doh_lengthIn := ls, doh_length := l \<rparr>
           in if n = 8 \<or> n = 16
              then (if l > 1 then s1\<lparr> doh_state := DOH_DROP \<rparr>
                    else s1\<lparr> doh_dataIn := ws, doh_prevWord := w, doh_state := DOH_SHIFT \<rparr>)
              else if (n = 32 \<or> n = 64) \<and> l = 5
              then s1\<lparr> doh_dataIn := ws, doh_prevWord := w,
                       doh_state := (if na_last w then DOH_LAST_FIVE else DOH_SHIFT_FIVE) \<rparr>
              else s1)
      | _ \<Rightarrow> s)"

definition drop_optional_ip_header :: "nat \<Rightarrow> doh_st \<Rightarrow> doh_st" where
  "drop_optional_ip_header n s =
     (case doh_state s of
        DOH_META \<Rightarrow> doh_meta n s
      | DOH_DROP \<Rightarrow>
          (case doh_dataIn s of
             [] \<Rightarrow> s
           | w # ws \<Rightarrow>
               (let l = doh_length s - 2
                in s\<lparr> doh_dataIn := ws, doh_prevWord := w, doh_length := l,
                      doh_state := (if l = 1 then DOH_SHIFT else if l = 0 then DOH_BODY else DOH_DROP) \<rparr>))
      | DOH_BODY \<Rightarrow>
          (case doh_dataIn s of
             [] \<Rightarrow> s
           | w # ws \<Rightarrow>
               s\<lparr> doh_dataIn := ws, doh_dataOut := doh_dataOut s @ [w],
                  doh_state := (if na_last w then DOH_META else DOH_BODY) \<rparr>)
      | DOH_SHIFT \<Rightarrow> doh_shift 4 DOH_LAST s
      | DOH_SHIFT_FIVE \<Rightarrow> doh_shift 20 DOH_LAST_FIVE s
      | DOH_LAST \<Rightarrow> doh_last 4 s
      | DOH_LAST_FIVE \<Rightarrow> doh_last 20 s)"

definition ipv4_drop_optional_ip_header :: "nat \<Rightarrow> doh_st \<Rightarrow> doh_st" where
  "ipv4_drop_optional_ip_header = drop_optional_ip_header"

section \<open>The layer\<close>

type_synonym ipv4_st = "(process_ipv4_st \<times> doh_st) \<times> (shift_st \<times> ipv4Meta gen_st)"

definition ipv4_rx :: "nat \<Rightarrow> process_ipv4_st \<times> doh_st \<Rightarrow> process_ipv4_st \<times> doh_st" where
  "ipv4_rx n = (\<lambda>(p, d).
     (let p1 = process_ipv4 n p;
          d1 = ipv4_drop_optional_ip_header n
                 (d\<lparr> doh_lengthIn := doh_lengthIn d @ pip_lengthOut p1, doh_dataIn := doh_dataIn d @ pip_dataOut p1 \<rparr>)
      in (p1\<lparr> pip_lengthOut := [], pip_dataOut := [] \<rparr>, d1)))"

definition ipv4_tx :: "nat \<Rightarrow> u32 \<Rightarrow> u8 \<Rightarrow> shift_st \<times> ipv4Meta gen_st \<Rightarrow> shift_st \<times> ipv4Meta gen_st" where
  "ipv4_tx n local_ipv4_address protocol = (\<lambda>(l, g).
     (let l1 = ipv4_lshiftWordByOctet n (IPV4_HEADER_OCTETS mod n) l;
          g1 = ipv4_generate_ipv4 n local_ipv4_address protocol (g\<lparr> gen_in := gen_in g @ sh_out l1 \<rparr>)
      in (l1\<lparr> sh_out := [] \<rparr>, g1)))"

definition ipv4 :: "nat \<Rightarrow> u32 \<Rightarrow> u8 \<Rightarrow> ipv4_st \<Rightarrow> ipv4_st" where
  "ipv4 n local_ipv4_address protocol s = (ipv4_rx n (fst s), ipv4_tx n local_ipv4_address protocol (snd s))"

section \<open>Collecting the header\<close>

text \<open>\<^verbatim>\<open>process_ipv4\<close> is a collecting stage: the counter of dropped header words, when it is used, is the number of 32-bit
  words in front of the word with the end of the header.\<close>

definition ip_report :: "nat \<Rightarrow> u8 list \<Rightarrow> u4 \<times> ipv4Meta" where
  "ip_report n h = (ip_getHeaderLength h - of_nat (19 div n * (n div 4)),
                    \<lparr> im_their_address = ip_getSrcAddr h, im_length = ip_getLength h \<rparr>)"

definition as_parse :: "process_ipv4_st \<Rightarrow> (u4 \<times> ipv4Meta) list \<Rightarrow> (u4 \<times> ipv4Meta) list parse_st" where
  "as_parse s ms = \<lparr> par_header = pip_header s, par_metaWritten = pip_metaWritten s, par_in = pip_dataIn s,
     par_out = pip_dataOut s, par_meta = ms \<rparr>"

definition pip_inv :: "nat \<Rightarrow> process_ipv4_st \<Rightarrow> bool" where
  "pip_inv n s \<longleftrightarrow> ph_ready (pip_header s) = pip_metaWritten s
     \<and> (\<not> pip_metaWritten s \<longrightarrow> ph_idx (pip_header s) * n < 20
          \<and> pip_headerWordsDropped s = of_nat (ph_idx (pip_header s) * (n div 4)))"

lemma header_word_index:
  assumes "j * n < (20 :: nat)" and "\<not> j * n + n < 20"
  shows "19 div n = j"
proof -
  have "n * j \<le> 19" "19 < n * Suc j" using assms by (simp_all add: algebra_simps)
  then show ?thesis by (intro div_nat_eqI)
qed

lemma process_ipv4_parses:
  assumes "pip_inv n s" and "map fst ms = pip_lengthOut s" and "map snd ms = pip_metaOut s" and "0 < n"
  shows "\<exists>ms'. pip_inv n (process_ipv4 n s)
    \<and> as_parse (process_ipv4 n s) ms' =
        parse_stage n IPV4_HEADER_OCTETS (\<lambda>h w r. r) (\<lambda>h ms. ms @ [ip_report n h]) (as_parse s ms)
    \<and> map fst ms' = pip_lengthOut (process_ipv4 n s) \<and> map snd ms' = pip_metaOut (process_ipv4 n s)"
proof (cases "pip_dataIn s")
  case Nil
  with assms show ?thesis by (intro exI [of _ ms]) (simp add: process_ipv4_def parse_stage_def as_parse_def)
next
  case (Cons w ws)
  let ?h = "parseWord n IPV4_HEADER_OCTETS (na_data w) (pip_header s)"
  show ?thesis
  proof (cases "ph_ready ?h \<and> \<not> pip_metaWritten s")
    case True
    then have "\<not> ph_idx (pip_header s) * n + n < 20" using assms(1)
      by (auto simp: pip_inv_def parseWord_def IPV4_HEADER_OCTETS_def Let_def split: if_splits)
    then have "pip_headerWordsDropped s = of_nat (19 div n * (n div 4))"
      using assms(1) True header_word_index [of "ph_idx (pip_header s)" n] by (simp add: pip_inv_def)
    then have rep: "(ip_getHeaderLength (ph_header ?h) - pip_headerWordsDropped s,
        \<lparr> im_their_address = ip_getSrcAddr (ph_header ?h), im_length = ip_getLength (ph_header ?h) \<rparr>) = ip_report n (ph_header ?h)"
      by (simp add: ip_report_def)
    show ?thesis using True Cons assms
      by (intro exI [of _ "ms @ [ip_report n (ph_header ?h)]"])
         (simp add: process_ipv4_def parse_stage_def as_parse_def pip_inv_def clear_header_def Let_def flip: rep)
  next
    case False
    then have "pip_inv n (process_ipv4 n s)" using Cons assms(1,4)
      by (auto simp: process_ipv4_def pip_inv_def clear_header_def parseWord_def IPV4_HEADER_OCTETS_def algebra_simps Let_def
          split: if_splits)
    with False Cons assms show ?thesis
      by (intro exI [of _ ms]) (auto simp: process_ipv4_def parse_stage_def as_parse_def clear_header_def Let_def)
  qed
qed

lemma process_ipv4_run:
  assumes "pip_inv n s" and "map fst ms = pip_lengthOut s" and "map snd ms = pip_metaOut s" and "0 < n"
  shows "\<exists>ms'. pip_inv n ((process_ipv4 n ^^ i) s)
    \<and> as_parse ((process_ipv4 n ^^ i) s) ms' =
        (parse_stage n IPV4_HEADER_OCTETS (\<lambda>h w r. r) (\<lambda>h ms. ms @ [ip_report n h]) ^^ i) (as_parse s ms)
    \<and> map fst ms' = pip_lengthOut ((process_ipv4 n ^^ i) s) \<and> map snd ms' = pip_metaOut ((process_ipv4 n ^^ i) s)"
proof (induction i)
  case (Suc i)
  then show ?case using process_ipv4_parses [OF _ _ _ assms(4)] by fastforce
qed (use assms in auto)

text \<open>What the stage has done with one packet: it reports the source and passes the packet on from the word with the end of the
  header.\<close>

lemma process_ipv4_settles:
  assumes "packed n ws (hs @ bs)" and "length hs = IPV4_HEADER_OCTETS" and "bs \<noteq> []" and "0 < n" and "\<not> n dvd IPV4_HEADER_OCTETS"
    and "pip_header s = \<lparr> ph_ready = False, ph_idx = 0, ph_header = h \<rparr>" and "length h = IPV4_HEADER_OCTETS"
    and "\<not> pip_metaWritten s" and "pip_headerWordsDropped s = 0" and "pip_dataIn s = ws"
    and "pip_lengthOut s = []" and "pip_metaOut s = []" and "pip_dataOut s = []"
  shows "\<exists>t. settles (process_ipv4 n) s t \<and> pip_lengthOut t = [fst (ip_report n hs)] \<and> pip_metaOut t = [snd (ip_report n hs)]
    \<and> packed n (pip_dataOut t) (drop (IPV4_HEADER_OCTETS div n * n) hs @ bs) \<and> pip_dataIn t = []"
proof -
  let ?f = "parse_stage n IPV4_HEADER_OCTETS (\<lambda>h w r. r) (\<lambda>h ms. ms @ [ip_report n h])"
  let ?s = "as_parse s []"
  obtain out where o: "settles ?f ?s
      (?s\<lparr> par_header := \<lparr> ph_ready = False, ph_idx = 0, ph_header = hs \<rparr>, par_metaWritten := False, par_in := [],
         par_out := par_out ?s @ out, par_meta := par_meta ?s @ [ip_report n hs] \<rparr>)" (is "settles _ _ ?t")
    "packed n out (drop (IPV4_HEADER_OCTETS div n * n) hs @ bs)"
    using parse_settles [OF assms(1,2) _ assms(3,4), of ?s "\<lambda>h w r. r" True "\<lambda>h ms. ms @ [ip_report n h]"] assms
    by (auto simp: as_parse_def IPV4_HEADER_OCTETS_def)
  then obtain i where i: "(?f ^^ i) ?s = ?t" by (auto simp: settles_def)
  have "pip_inv n s" using assms by (simp add: pip_inv_def)
  from process_ipv4_run [OF this, of "[]" i] assms obtain ms' where
    ms': "as_parse ((process_ipv4 n ^^ i) s) ms' = ?t" "map fst ms' = pip_lengthOut ((process_ipv4 n ^^ i) s)"
      "map snd ms' = pip_metaOut ((process_ipv4 n ^^ i) s)"
    unfolding i by auto
  let ?u = "(process_ipv4 n ^^ i) s"
  from ms'(1) assms have u: "ms' = [ip_report n hs]" "pip_dataIn ?u = []" "pip_dataOut ?u = out"
    by (simp_all add: as_parse_def)
  then have "settles (process_ipv4 n) s ?u" by (intro settlesI [OF refl]) (simp add: process_ipv4_def)
  with u ms'(2,3) o(2) show ?thesis by (intro exI [of _ ?u]) simp
qed

section \<open>Removing the header\<close>

interpretation five: down_shifter "drop_optional_ip_header n" n 20
  "\<lambda>s. doh_state s = DOH_SHIFT_FIVE \<and> doh_lengthIn s = ls" "\<lambda>s. doh_state s = DOH_LAST_FIVE \<and> doh_lengthIn s = ls"
  "\<lambda>s. doh_state s = DOH_META \<and> doh_lengthIn s = ls" doh_prevWord doh_dataIn doh_dataOut
  by unfold_locales
     (auto simp: drop_optional_ip_header_def doh_shift_def doh_last_def doh_send_def rshift_word_def True_in_keep nth_keep_of Let_def)

interpretation four: down_shifter "drop_optional_ip_header n" n 4
  "\<lambda>s. doh_state s = DOH_SHIFT \<and> doh_lengthIn s = ls" "\<lambda>s. doh_state s = DOH_LAST \<and> doh_lengthIn s = ls"
  "\<lambda>s. doh_state s = DOH_META \<and> doh_lengthIn s = ls" doh_prevWord doh_dataIn doh_dataOut
  by unfold_locales
     (auto simp: drop_optional_ip_header_def doh_shift_def doh_last_def doh_send_def rshift_word_def True_in_keep nth_keep_of Let_def)

text \<open>A packet whose header is in front of its first word, or whose first word begins with the last 32-bit word of the header.\<close>

lemma doh_idle: "doh_state s = DOH_META \<Longrightarrow> doh_lengthIn s = [] \<Longrightarrow> drop_optional_ip_header n s = s"
  by (simp add: drop_optional_ip_header_def doh_meta_def)

lemma doh_wide:
  assumes "packed n ws (hs @ bs)" and "length hs = 20" and "bs \<noteq> []" and "n = 32 \<or> n = 64"
    and "doh_state s = DOH_META" and "doh_lengthIn s = [5]" and "doh_dataIn s = ws" and "doh_dataOut s = []"
  shows "\<exists>t. settles (drop_optional_ip_header n) s t \<and> packed n (doh_dataOut t) bs \<and> doh_state t = DOH_META
    \<and> doh_lengthIn t = [] \<and> doh_dataIn t = []"
  using assms(1)
proof (cases rule: packed_cases)
  case (one d j)
  let ?w = "\<lparr> na_data = d, na_keep = keep_of n j, na_last = True \<rparr>"
  have j: "20 < j" "drop 20 (take j d) = bs"
    using one assms(2,3) by (metis append_Nil2 diff_is_0_eq drop_eq_Nil le_antisym length_drop length_take linorder_not_le append_eq_conv_conj min.absorb2)+
  then have "rshift_rest 20 ?w = \<lparr> na_data = drop 20 d @ replicate 20 0, na_keep = keep_of n (j - 20), na_last = True \<rparr>"
    using one by (simp add: rshift_rest_def keep_residue)
  then have "packed n [rshift_rest 20 ?w] bs"
    using one j packed_end' [of "drop 20 d @ replicate 20 0" n "j - 20"] by (simp add: drop_take)
  moreover have "(drop_optional_ip_header n ^^ 2) s = s\<lparr> doh_lengthIn := [], doh_length := 5, doh_dataIn := [],
      doh_prevWord := ?w, doh_dataOut := [rshift_rest 20 ?w] \<rparr>"
    using one assms(4-) by (auto simp: numeral_2_eq_2 drop_optional_ip_header_def doh_meta_def doh_last_def Let_def)
  ultimately show ?thesis using assms(5)
    by (intro exI [of _ "(drop_optional_ip_header n ^^ 2) s"] conjI settlesI [OF refl] doh_idle) simp_all
next
  case (more d us cs)
  let ?w = "\<lparr> na_data = d, na_keep = keep_of n n, na_last = False \<rparr>"
  let ?s = "drop_optional_ip_header n s"
  have s: "?s = s\<lparr> doh_lengthIn := [], doh_length := 5, doh_dataIn := us, doh_prevWord := ?w, doh_state := DOH_SHIFT_FIVE \<rparr>"
    using more assms(4-) by (auto simp: drop_optional_ip_header_def doh_meta_def Let_def)
  have bs: "bs = drop 20 d @ cs" using more assms(2,4) by (auto simp: append_eq_append_conv_if)
  obtain i out where i: "doh_state ((drop_optional_ip_header n ^^ i) ?s) = DOH_META" "doh_lengthIn ((drop_optional_ip_header n ^^ i) ?s) = []"
    "doh_dataIn ((drop_optional_ip_header n ^^ i) ?s) = []" "doh_dataOut ((drop_optional_ip_header n ^^ i) ?s) = out" "packed n out bs"
    using five.tail [of n us cs ?s "[]" "[]"] s more assms(4,8) bs by auto
  then show ?thesis
    by (intro exI [of _ "(drop_optional_ip_header n ^^ Suc i) s"] conjI settlesI [OF refl] doh_idle)
       (simp_all add: funpow_swap1)
qed

section \<open>The stages in a composition\<close>

definition feed_doh :: "net_axis list \<times> u4 list \<Rightarrow> doh_st \<Rightarrow> doh_st" where
  "feed_doh x s = s\<lparr> doh_lengthIn := doh_lengthIn s @ snd x, doh_dataIn := doh_dataIn s @ fst x \<rparr>"

lemma doh_local:
  "drop_optional_ip_header n s \<noteq> s \<Longrightarrow> drop_optional_ip_header n (feed_doh x s) = feed_doh x (drop_optional_ip_header n s)"
  by (cases "doh_state s"; cases "doh_lengthIn s"; cases "doh_dataIn s")
     (simp_all add: feed_doh_def drop_optional_ip_header_def doh_meta_def doh_shift_def doh_last_def Let_def)

interpretation doh: local_stage "drop_optional_ip_header n" feed_doh pair_app "([], [])"
  by unfold_locales (simp_all add: doh_local, simp_all add: feed_doh_def pair_app_def)

definition pip_clear :: "process_ipv4_st \<Rightarrow> process_ipv4_st" where
  "pip_clear s = s\<lparr> pip_lengthOut := [], pip_dataOut := [] \<rparr>"

interpretation pip: writer "process_ipv4 n" "\<lambda>s. (pip_dataOut s, pip_lengthOut s)" pip_clear pair_app "([], [])"
  by unfold_locales
     (simp_all add: pip_clear_def, simp_all add: process_ipv4_def pair_app_def Let_def split: list.split)

interpretation irx: two_stages "process_ipv4 n" "\<lambda>s. (pip_dataOut s, pip_lengthOut s)" pip_clear
  "drop_optional_ip_header n" feed_doh pair_app "([], [])" "ipv4_rx n"
  by unfold_locales
     (simp add: ipv4_rx_def pip_clear_def feed_doh_def ipv4_drop_optional_ip_header_def Let_def)

definition feed_words :: "net_axis list \<Rightarrow> 'm gen_st \<Rightarrow> 'm gen_st" where
  "feed_words ws = feed_gen (ws, [])"

interpretation genw: local_stage "header_stage n H kp fill" feed_words "(@)" "[]"
  by unfold_locales (simp_all add: feed_words_def gen_local, simp_all add: feed_gen_def)

interpretation itx: two_stages "lshiftWordByOctet n (IPV4_HEADER_OCTETS mod n)" sh_out lshift_clear
  "ipv4_generate_ipv4 n local protocol" feed_words "(@)" "[]" "ipv4_tx n local protocol"
proof (intro two_stages.intro two_stages_axioms.intro)
  show "kahn_stage (ipv4_generate_ipv4 n local protocol) feed_words (@) []"
    unfolding ipv4_generate_ipv4_def generate_ipv4_def by (rule genw.kahn_stage_axioms)
  show "writer (lshiftWordByOctet n (IPV4_HEADER_OCTETS mod n)) sh_out lshift_clear (@) []"
    by (rule lsh.writer_axioms)
qed (simp add: ipv4_tx_def lshift_clear_def feed_words_def feed_gen_def ipv4_lshiftWordByOctet_def Let_def split: prod.split)

section \<open>Packets through the layer\<close>

definition ipv4_rx_start :: "net_axis list \<Rightarrow> u8 list \<Rightarrow> doh_st \<Rightarrow> process_ipv4_st \<times> doh_st" where
  "ipv4_rx_start ws h d =
     (\<lparr> pip_header = \<lparr> ph_ready = False, ph_idx = 0, ph_header = h \<rparr>, pip_headerWordsDropped = 0, pip_metaWritten = False,
        pip_dataIn = ws, pip_lengthOut = [], pip_metaOut = [], pip_dataOut = [] \<rparr>,
      d\<lparr> doh_state := DOH_META, doh_lengthIn := [], doh_dataIn := [], doh_dataOut := [] \<rparr>)"

definition ipv4_tx_start :: "ipv4Meta list \<Rightarrow> net_axis list \<Rightarrow> net_axis \<Rightarrow> packetHeader \<Rightarrow> shift_st \<times> ipv4Meta gen_st" where
  "ipv4_tx_start ms ws p h =
     (\<lparr> sh_first = True, sh_remainder = False, sh_prev = p, sh_in = ws, sh_out = [] \<rparr>,
      \<lparr> gen_state = GEN_META, gen_header = h, gen_metaIn = ms, gen_in = [], gen_out = [] \<rparr>)"

text \<open>A header register that holds what the constructor wrote holds it for ever; the rest is what the request says.\<close>

lemma ipv4_fill_fields:
  assumes "length h = IPV4_HEADER_OCTETS"
  shows "length (ipv4_fill a pr m h) = IPV4_HEADER_OCTETS" and "ip_getSrcAddr (ipv4_fill a pr m h) = a"
    and "ip_getDstAddr (ipv4_fill a pr m h) = im_their_address m" and "ip_getLength (ipv4_fill a pr m h) = im_length m + 20"
    and "ip_getProtocol (ipv4_fill a pr m h) = pr" and "ip_getHeaderLength (ipv4_fill a pr m h) = ip_getHeaderLength h"
  using assms by (simp_all add: ipv4_fill_def ip_fields field_simps IPV4_HEADER_OCTETS_def reverse_reverse)

lemma ipv4_tx_sends:
  assumes "packed n ws bs" and "n = 32 \<or> n = 64" and "length (ph_header h) = IPV4_HEADER_OCTETS"
  shows "\<exists>l g. settles (ipv4_tx n a pr) (ipv4_tx_start [m] ws p h) (l, g)
    \<and> packed n (gen_out g) (ipv4_fill a pr m (ph_header h) @ bs)"
proof -
  let ?k = "IPV4_HEADER_OCTETS mod n"
  have k: "?k \<le> 32" "?k < n" "0 < n" using assms(2) by (auto simp: IPV4_HEADER_OCTETS_def)
  obtain l0 g0 where start: "ipv4_tx_start [m] ws p h = (l0, g0)" by (metis surj_pair)
  note st = start [unfolded ipv4_tx_start_def, symmetric]
  obtain l out where l: "settles (lshiftWordByOctet n ?k) l0 l" "shifted l0 True [] out l" "packed n out (replicate ?k 0 @ bs)"
    using lshift_settles [OF assms(1) k(1,2), where s = l0] st by auto
  have out: "sh_out l = out" using l(2) st by (simp add: shifted_def)
  let ?g0 = "feed_words out g0"
  obtain o' h' where g: "settles (ipv4_generate_ipv4 n a pr) ?g0
      (?g0\<lparr> gen_metaIn := [], gen_in := [], gen_out := gen_out ?g0 @ o', gen_header := h' \<rparr>)" "packed n o' (ipv4_fill a pr m (ph_header h) @ bs)"
    unfolding ipv4_generate_ipv4_def generate_ipv4_def
    using header_settles [OF l(3), where H = IPV4_HEADER_OCTETS and s = ?g0 and m = m and fill = "ipv4_fill a pr"
        and kp = "keep_bits n 0xFFFFFFFF", OF _ k(3) _ _ _ refl]
      st assms(2,3) ipv4_fill_fields(1) [of "ph_header h" a pr m] by (auto simp: feed_words_def feed_gen_def IPV4_HEADER_OCTETS_def)
  let ?g = "?g0\<lparr> gen_metaIn := [], gen_in := [], gen_out := gen_out ?g0 @ o', gen_header := h' \<rparr>"
  have "settles (ipv4_tx n a pr) (l0, g0) (lshift_clear l, ?g)"
  proof (rule itx.pipe_settles [OF _ l(1)])
    show "lshiftWordByOctet n ?k (lshift_clear l) = lshift_clear l"
      using l(2) by (simp add: lshift_clear_def lshiftWordByOctet_def shifted_def)
  qed (use st g out in simp_all)
  then show ?thesis unfolding start using st g(2)
    by (intro exI [of _ "lshift_clear l"] exI [of _ ?g]) (simp add: feed_words_def feed_gen_def)
qed

lemma ipv4_rx_receives:
  assumes "packed n ws (hs @ bs)" and "length hs = IPV4_HEADER_OCTETS" and "bs \<noteq> []" and "n = 32 \<or> n = 64"
    and "ip_getHeaderLength hs = 5" and "length h = IPV4_HEADER_OCTETS"
  shows "\<exists>q d'. settles (ipv4_rx n) (ipv4_rx_start ws h d) (q, d')
    \<and> pip_metaOut q = [\<lparr> im_their_address = ip_getSrcAddr hs, im_length = ip_getLength hs \<rparr>] \<and> packed n (doh_dataOut d') bs"
proof -
  obtain q0 d0 where start: "ipv4_rx_start ws h d = (q0, d0)" by (metis surj_pair)
  note st = start [unfolded ipv4_rx_start_def, symmetric]
  have n: "0 < n" "\<not> n dvd IPV4_HEADER_OCTETS" using assms(4) by (auto simp: IPV4_HEADER_OCTETS_def)
  obtain q where q: "settles (process_ipv4 n) q0 q" "pip_lengthOut q = [fst (ip_report n hs)]" "pip_metaOut q = [snd (ip_report n hs)]"
    "packed n (pip_dataOut q) (drop (IPV4_HEADER_OCTETS div n * n) hs @ bs)" "pip_dataIn q = []"
    using process_ipv4_settles [OF assms(1-3) n, of q0] st assms(6) by auto
  have "packed n (pip_dataOut q) (hs @ bs)" "pip_lengthOut q = [5]"
    using q assms(4,5) by (auto simp: IPV4_HEADER_OCTETS_def ip_report_def)
  then obtain d' where d': "settles (drop_optional_ip_header n) (feed_doh (pip_dataOut q, pip_lengthOut q) d0) d'"
    "packed n (doh_dataOut d') bs"
    using doh_wide [of n "pip_dataOut q" hs bs "feed_doh (pip_dataOut q, pip_lengthOut q) d0"] assms(2-4) st
    by (auto simp: feed_doh_def IPV4_HEADER_OCTETS_def)
  have "settles (ipv4_rx n) (q0, d0) (pip_clear q, d')"
  proof (rule irx.pipe_settles [OF _ q(1) d'(1)])
    show "process_ipv4 n (pip_clear q) = pip_clear q" using q(5) by (simp add: process_ipv4_def pip_clear_def)
  qed (use st in simp)
  then show ?thesis unfolding start using q(3) d'(2)
    by (intro exI [of _ "pip_clear q"] exI [of _ d']) (simp add: pip_clear_def ip_report_def)
qed

text \<open>
  With words of 8 octets and an odd number of 32-bit words left of the header, the word that \<^verbatim>\<open>DROP\<close> drops last is the previous
  word of \<^verbatim>\<open>SHIFT\<close>: its upper half and the lower half of the next word are sent, although both belong to the options.
\<close>

lemma odd_options_leak:
  assumes "doh_state s = DOH_META" and "doh_lengthIn s = 3 # ls" and "doh_dataIn s = w0 # w1 # ws"
  shows "doh_dataOut ((drop_optional_ip_header 8 ^^ 3) s) = doh_dataOut s @ [doh_send 4 w0 w1]"
  using assms
  by (simp add: numeral_3_eq_3 drop_optional_ip_header_def doh_meta_def doh_shift_def Let_def)

end
