(* ===== verification/Udp.thy ===== *)
theory Udp
  imports Ipv4
begin

text \<open>
  The UDP layer, \<^verbatim>\<open>udp/udp.hpp\<close> and \<^verbatim>\<open>udp/udp.cpp\<close>: the header, the stages of the receive path (\<^verbatim>\<open>process_udp\<close>, the shift
  that removes the header, \<^verbatim>\<open>merge_rx_meta\<close>) and of the transmit path (\<^verbatim>\<open>split_tx_meta\<close>, the shift that makes room,
  \<^verbatim>\<open>generate_udp\<close>), and their composition \<^verbatim>\<open>udp\<close>.  The stages over packet headers, the shifts and the composition of
  stages come from the theories below.

  \<open>n\<close> is the number of octets of a word (\<^verbatim>\<open>WIDTH/8\<close>).
\<close>

section \<open>The header\<close>

definition UDP_HEADER_OCTETS :: nat where "UDP_HEADER_OCTETS = 8"

record ipUdpMeta =
  ium_their_address :: "128 word"
  ium_their_port :: u16
  ium_my_port :: u16
  ium_length :: u16

record udpMeta =
  um_their_port :: u16
  um_my_port :: u16
  um_length :: u16
  um_valid :: bool

definition udp_setSrcPort :: "u16 \<Rightarrow> u8 list \<Rightarrow> u8 list" where "udp_setSrcPort p = put_field 0 (reverse p)"
definition udp_getSrcPort :: "u8 list \<Rightarrow> u16" where "udp_getSrcPort h = reverse (get_field 0 h)"
definition udp_setDstPort :: "u16 \<Rightarrow> u8 list \<Rightarrow> u8 list" where "udp_setDstPort p = put_field 2 (reverse p)"
definition udp_getDstPort :: "u8 list \<Rightarrow> u16" where "udp_getDstPort h = reverse (get_field 2 h)"
definition udp_setLength :: "u16 \<Rightarrow> u8 list \<Rightarrow> u8 list" where "udp_setLength l = put_field 4 (reverse l)"
definition udp_getLength :: "u8 list \<Rightarrow> u16" where "udp_getLength h = reverse (get_field 4 h)"

lemmas udp_fields = udp_setSrcPort_def udp_getSrcPort_def udp_setDstPort_def udp_getDstPort_def udp_setLength_def
  udp_getLength_def

section \<open>The stages\<close>

text \<open>A word goes on when its packet is for the port: from the word with the end of the header when words are wider
  than the header, from the word behind it otherwise.\<close>

definition process_udp :: "nat \<Rightarrow> u16 \<Rightarrow> udpMeta list parse_st \<Rightarrow> udpMeta list parse_st" where
  "process_udp n regListenPort =
     parse_stage n UDP_HEADER_OCTETS
       (\<lambda>h metaWritten ready.
          metaWritten \<and> udp_getDstPort h = regListenPort \<and> n \<le> UDP_HEADER_OCTETS
          \<or> ready \<and> udp_getDstPort h = regListenPort \<and> n > UDP_HEADER_OCTETS)
       (\<lambda>h ms. ms @ [\<lparr> um_their_port = udp_getSrcPort h, um_my_port = udp_getDstPort h, um_length = udp_getLength h,
                        um_valid = (udp_getDstPort h = regListenPort) \<rparr>])"

definition udp_fill :: "udpMeta \<Rightarrow> u8 list \<Rightarrow> u8 list" where
  "udp_fill m h = udp_setLength (um_length m) (udp_setSrcPort (um_my_port m) (udp_setDstPort (um_their_port m) h))"

definition generate_udp :: "nat \<Rightarrow> udpMeta gen_st \<Rightarrow> udpMeta gen_st" where
  "generate_udp n = header_stage n UDP_HEADER_OCTETS (keep_bits n 0xFFFFFFFF) udp_fill"

record split_tx_st =
  spl_metaIn :: "ipUdpMeta list"
  spl_metaOut0 :: "ipv4Meta list"
  spl_metaOut1 :: "udpMeta list"

definition split_tx_meta :: "split_tx_st \<Rightarrow> split_tx_st" where
  "split_tx_meta s =
     (case spl_metaIn s of
        [] \<Rightarrow> s
      | m # ms \<Rightarrow>
          (let tempLen = ium_length m + 8
           in s\<lparr> spl_metaIn := ms, spl_metaOut0 := spl_metaOut0 s @ [ipv4Meta_long (ium_their_address m) tempLen],
                 spl_metaOut1 := spl_metaOut1 s @ [\<lparr> um_their_port = ium_their_port m, um_my_port = ium_my_port m,
                                                      um_length = tempLen, um_valid = True \<rparr>] \<rparr>))"

record merge_rx_st =
  mrg_ipMetaIn :: "ipv4Meta list"
  mrg_udpMetaIn :: "udpMeta list"
  mrg_metaOut :: "ipUdpMeta list"

text \<open>The 32 bits of the address become the lowest bits of the long one.\<close>

definition merge_rx_meta :: "merge_rx_st \<Rightarrow> merge_rx_st" where
  "merge_rx_meta s =
     (case (mrg_ipMetaIn s, mrg_udpMetaIn s) of
        (m0 # is, m1 # us) \<Rightarrow>
          s\<lparr> mrg_ipMetaIn := is, mrg_udpMetaIn := us,
             mrg_metaOut := (if um_valid m1
               then mrg_metaOut s @ [\<lparr> ium_their_address = ucast (im_their_address m0), ium_their_port = um_their_port m1,
                                        ium_my_port = um_my_port m1, ium_length = um_length m1 \<rparr>]
               else mrg_metaOut s) \<rparr>
      | _ \<Rightarrow> s)"

section \<open>The layer\<close>

type_synonym udp_rx_st = "udpMeta list parse_st \<times> shift_st \<times> merge_rx_st"
type_synonym udp_tx_st = "(split_tx_st \<times> shift_st) \<times> udpMeta gen_st"

text \<open>The stages in the order of the calls, each stream handed to its reader.\<close>

definition udp_rx :: "nat \<Rightarrow> u16 \<Rightarrow> udp_rx_st \<Rightarrow> udp_rx_st" where
  "udp_rx n regListenPort = (\<lambda>(p, r, m).
     (let p1 = process_udp n regListenPort p;
          r1 = udp_rshiftWordByOctet (UDP_HEADER_OCTETS mod n) (r\<lparr> sh_in := sh_in r @ par_out p1 \<rparr>);
          m1 = merge_rx_meta (m\<lparr> mrg_udpMetaIn := mrg_udpMetaIn m @ par_meta p1 \<rparr>)
      in (p1\<lparr> par_out := [], par_meta := [] \<rparr>, r1, m1)))"

definition udp_tx :: "nat \<Rightarrow> udp_tx_st \<Rightarrow> udp_tx_st" where
  "udp_tx n = (\<lambda>((c, l), g).
     (let c1 = split_tx_meta c;
          l1 = udp_lshiftWordByOctet n (UDP_HEADER_OCTETS mod n) l;
          g1 = generate_udp n (g\<lparr> gen_metaIn := gen_metaIn g @ spl_metaOut1 c1, gen_in := gen_in g @ sh_out l1 \<rparr>)
      in ((c1\<lparr> spl_metaOut1 := [] \<rparr>, l1\<lparr> sh_out := [] \<rparr>), g1)))"

definition udp :: "nat \<Rightarrow> u16 \<Rightarrow> udp_rx_st \<times> udp_tx_st \<Rightarrow> udp_rx_st \<times> udp_tx_st" where
  "udp n regListenPort s = (udp_rx n regListenPort (fst s), udp_tx n (snd s))"

section \<open>The stages in a composition\<close>

definition feed_merge :: "udpMeta list \<Rightarrow> merge_rx_st \<Rightarrow> merge_rx_st" where
  "feed_merge us s = s\<lparr> mrg_udpMetaIn := mrg_udpMetaIn s @ us \<rparr>"

lemma merge_local: "merge_rx_meta s \<noteq> s \<Longrightarrow> merge_rx_meta (feed_merge us s) = feed_merge us (merge_rx_meta s)"
  by (cases "mrg_ipMetaIn s"; cases "mrg_udpMetaIn s") (simp_all add: feed_merge_def merge_rx_meta_def)

interpretation mrg: local_stage merge_rx_meta feed_merge "(@)" "[]"
  by unfold_locales (simp_all add: merge_local, simp_all add: feed_merge_def)

interpretation rm: kahn_pair "rshiftWordByOctet k" feed_shift merge_rx_meta feed_merge
  by unfold_locales

text \<open>The two stages in front of the sending one.\<close>

definition tx_clear :: "split_tx_st \<times> shift_st \<Rightarrow> split_tx_st \<times> shift_st" where
  "tx_clear a = ((fst a)\<lparr> spl_metaOut1 := [] \<rparr>, (snd a)\<lparr> sh_out := [] \<rparr>)"

interpretation txw: writer "map_prod split_tx_meta (lshiftWordByOctet n k)" "\<lambda>a. (sh_out (snd a), spl_metaOut1 (fst a))"
  tx_clear pair_app "([], [])"
  by unfold_locales
     (auto simp: tx_clear_def split_tx_meta_def lshiftWordByOctet_def pair_app_def Let_def split: list.split)

interpretation urx: two_stages "process_udp n port" "\<lambda>p. (par_out p, par_meta p)" parse_clear
  "map_prod (rshiftWordByOctet (UDP_HEADER_OCTETS mod n)) merge_rx_meta" "\<lambda>x. map_prod (feed_shift (fst x)) (feed_merge (snd x))"
  pair_app "([], [])" "udp_rx n port"
proof (intro two_stages.intro two_stages_axioms.intro)
  show "writer (process_udp n port) (\<lambda>p. (par_out p, par_meta p)) parse_clear pair_app ([], [])"
    unfolding process_udp_def by (rule par.writer_axioms)
  show "kahn_stage (map_prod (rshiftWordByOctet (UDP_HEADER_OCTETS mod n)) merge_rx_meta)
      (\<lambda>x. map_prod (feed_shift (fst x)) (feed_merge (snd x))) pair_app ([], [])"
    by (rule rm.pair.kahn_stage_axioms)
qed (simp add: udp_rx_def parse_clear_def feed_shift_def feed_merge_def udp_rshiftWordByOctet_def Let_def split: prod.split)

interpretation utx: two_stages "map_prod split_tx_meta (lshiftWordByOctet n (UDP_HEADER_OCTETS mod n))"
  "\<lambda>a. (sh_out (snd a), spl_metaOut1 (fst a))" tx_clear "generate_udp n" feed_gen pair_app "([], [])" "udp_tx n"
proof (intro two_stages.intro two_stages_axioms.intro)
  show "writer (map_prod split_tx_meta (lshiftWordByOctet n (UDP_HEADER_OCTETS mod n)))
      (\<lambda>a. (sh_out (snd a), spl_metaOut1 (fst a))) tx_clear pair_app ([], [])"
    by (rule txw.writer_axioms)
  show "kahn_stage (generate_udp n) feed_gen pair_app ([], [])"
    unfolding generate_udp_def by (rule gen.kahn_stage_axioms)
qed (simp add: udp_tx_def tx_clear_def feed_gen_def udp_lshiftWordByOctet_def Let_def split: prod.split)

section \<open>Datagrams are delivered to the port they are sent to\<close>

text \<open>The layer with datagrams waiting on its inputs, and nothing under way: the registers that hold no state (the last word of
  a shift, the octets of the headers) are arbitrary.\<close>

definition udp_rx_start :: "nat \<Rightarrow> ipv4Meta list \<Rightarrow> net_axis list \<Rightarrow> net_axis \<Rightarrow> u8 list \<Rightarrow> udp_rx_st" where
  "udp_rx_start n ims ws p h =
     (\<lparr> par_header = \<lparr> ph_ready = False, ph_idx = 0, ph_header = h \<rparr>, par_metaWritten = False, par_in = ws, par_out = [],
        par_meta = [] \<rparr>,
      \<lparr> sh_first = (UDP_HEADER_OCTETS mod n \<noteq> 0), sh_remainder = False, sh_prev = p, sh_in = [], sh_out = [] \<rparr>,
      \<lparr> mrg_ipMetaIn = ims, mrg_udpMetaIn = [], mrg_metaOut = [] \<rparr>)"

definition udp_tx_start :: "ipUdpMeta list \<Rightarrow> net_axis list \<Rightarrow> net_axis \<Rightarrow> packetHeader \<Rightarrow> udp_tx_st" where
  "udp_tx_start ms ws p h =
     ((\<lparr> spl_metaIn = ms, spl_metaOut0 = [], spl_metaOut1 = [] \<rparr>,
       \<lparr> sh_first = True, sh_remainder = False, sh_prev = p, sh_in = ws, sh_out = [] \<rparr>),
      \<lparr> gen_state = GEN_META, gen_header = h, gen_metaIn = [], gen_in = [], gen_out = [] \<rparr>)"

text \<open>The header of a datagram: the ports and the length can be read back.\<close>

lemma udp_fill_fields:
  assumes "length h = UDP_HEADER_OCTETS"
  shows "length (udp_fill m h) = UDP_HEADER_OCTETS" and "udp_getSrcPort (udp_fill m h) = um_my_port m"
    and "udp_getDstPort (udp_fill m h) = um_their_port m" and "udp_getLength (udp_fill m h) = um_length m"
  using assms by (simp_all add: udp_fill_def udp_fields field_simps UDP_HEADER_OCTETS_def reverse_reverse)

lemma udp_header_mod: "UDP_HEADER_OCTETS mod n \<le> 32"
  using mod_less_eq_dividend [of 8 n] unfolding UDP_HEADER_OCTETS_def by linarith

lemma udp_tx_sends:
  assumes "packed n ws bs" and "0 < n" and "length (ph_header h) = UDP_HEADER_OCTETS"
    and "m' = \<lparr> um_their_port = ium_their_port m, um_my_port = ium_my_port m, um_length = ium_length m + 8, um_valid = True \<rparr>"
  shows "\<exists>c l g. settles (udp_tx n) (udp_tx_start [m] ws p h) ((c, l), g)
    \<and> spl_metaOut0 c = [ipv4Meta_long (ium_their_address m) (ium_length m + 8)]
    \<and> packed n (gen_out g) (udp_fill m' (ph_header h) @ bs)"
proof -
  let ?k = "UDP_HEADER_OCTETS mod n"
  obtain c l0 g0 where start: "udp_tx_start [m] ws p h = ((c, l0), g0)" by (metis surj_pair)
  note st = start [unfolded udp_tx_start_def, symmetric]
  let ?c = "c\<lparr> spl_metaIn := [], spl_metaOut0 := [ipv4Meta_long (ium_their_address m) (ium_length m + 8)], spl_metaOut1 := [m'] \<rparr>"
  have c: "settles split_tx_meta c ?c"
    using st assms(4) by (intro settlesI [where k = 1]) (simp_all add: split_tx_meta_def Let_def)
  obtain l out where l: "settles (lshiftWordByOctet n ?k) l0 l" "shifted l0 True [] out l" "packed n out (replicate ?k 0 @ bs)"
    using lshift_settles [OF assms(1) udp_header_mod [of n], where s = l0] st assms(2) by auto
  have kp: "n \<le> UDP_HEADER_OCTETS \<longrightarrow> keep_bits n 0xFFFFFFFF = keep_of n n"
    by (simp add: UDP_HEADER_OCTETS_def keep_ones keep_of_full)
  have out: "sh_out l = out" using l(2) st by (simp add: shifted_def)
  obtain o' h' where g: "settles (generate_udp n) (feed_gen (out, [m']) g0)
      ((feed_gen (out, [m']) g0)\<lparr> gen_metaIn := [], gen_in := [], gen_out := gen_out (feed_gen (out, [m']) g0) @ o', gen_header := h' \<rparr>)"
      (is "settles _ _ ?g") "packed n o' (udp_fill m' (ph_header h) @ bs)"
    unfolding generate_udp_def
    using header_settles [OF l(3), where H = UDP_HEADER_OCTETS and s = "feed_gen (out, [m']) g0" and m = m' and fill = udp_fill
        and kp = "keep_bits n 0xFFFFFFFF", OF _ assms(2) _ _ _ refl]
      st assms(2,3) kp udp_fill_fields(1) [of "ph_header h" m'] by (auto simp: feed_gen_def)
  have "settles (udp_tx n) ((c, l0), g0) (tx_clear (?c, l), ?g)"
  proof (rule utx.pipe_settles)
    show "settles (map_prod split_tx_meta (lshiftWordByOctet n ?k)) (c, l0) (?c, l)" using c l by (simp add: settles_prod)
    show "map_prod split_tx_meta (lshiftWordByOctet n ?k) (tx_clear (?c, l)) = tx_clear (?c, l)"
      using l(2) by (simp add: tx_clear_def split_tx_meta_def lshiftWordByOctet_def shifted_def)
  qed (use st g out in simp_all)
  then show ?thesis using start st g(2)
    by (intro exI [of _ "fst (tx_clear (?c, l))"] exI [of _ "snd (tx_clear (?c, l))"] exI [of _ ?g])
       (simp add: tx_clear_def feed_gen_def)
qed

lemma udp_rx_receives:
  assumes "packed n ws (hs @ bs)" and "length hs = UDP_HEADER_OCTETS" and "bs \<noteq> []" and "0 < n"
    and "n dvd UDP_HEADER_OCTETS \<or> UDP_HEADER_OCTETS < n" and "length h = UDP_HEADER_OCTETS"
  shows "\<exists>q r d. settles (udp_rx n port) (udp_rx_start n [im] ws p h) (q, r, d)
    \<and> (if udp_getDstPort hs = port
       then packed n (sh_out r) bs
         \<and> mrg_metaOut d = [\<lparr> ium_their_address = ucast (im_their_address im), ium_their_port = udp_getSrcPort hs,
                              ium_my_port = port, ium_length = udp_getLength hs \<rparr>]
       else sh_out r = [] \<and> mrg_metaOut d = [])"
proof -
  let ?H = UDP_HEADER_OCTETS and ?b = "udp_getDstPort hs = port"
  let ?k = "?H mod n"
  obtain q0 r0 d0 where start: "udp_rx_start n [im] ws p h = (q0, r0, d0)" by (metis surj_pair)
  note st = start [unfolded udp_rx_start_def, symmetric]
  let ?m = "\<lparr> um_their_port = udp_getSrcPort hs, um_my_port = udp_getDstPort hs, um_length = udp_getLength hs, um_valid = ?b \<rparr>"
  let ?wr = "\<lambda>h metaWritten ready.
      metaWritten \<and> udp_getDstPort h = port \<and> n \<le> ?H \<or> ready \<and> udp_getDstPort h = port \<and> n > ?H"
  have pos: "0 < ?H" by (simp add: UDP_HEADER_OCTETS_def)
  have "n \<le> ?H \<longleftrightarrow> n dvd ?H" using assms(5) pos by (auto dest: dvd_imp_le)
  then have wr: "?wr hs True True = ?b" "?wr hs False True = (?b \<and> \<not> n dvd ?H)" "\<not> ?wr h' False False" for h'
    by auto
  obtain u where q: "settles (process_udp n port) q0
      (q0\<lparr> par_header := \<lparr> ph_ready = False, ph_idx = 0, ph_header = hs \<rparr>, par_metaWritten := False, par_in := [],
          par_out := par_out q0 @ u, par_meta := par_meta q0 @ [?m] \<rparr>)" (is "settles _ _ ?q")
    "if ?b then packed n u (drop (?H div n * n) hs @ bs) else u = []"
    unfolding process_udp_def
    using parse_settles [OF assms(1,2) pos assms(3,4), of q0 ?wr ?b
        "\<lambda>h ms. ms @ [\<lparr> um_their_port = udp_getSrcPort h, um_my_port = udp_getDstPort h, um_length = udp_getLength h,
                        um_valid = (udp_getDstPort h = port) \<rparr>]"] st assms(6) wr by auto
  have "\<exists>r. settles (rshiftWordByOctet ?k) (feed_shift u r0) r \<and> (if ?b then packed n (sh_out r) bs else sh_out r = [])"
  proof (cases ?b)
    case True
    have dl: "length (drop (?H div n * n) hs) = ?k" using assms(2) by (simp add: minus_div_mult_eq_mod)
    then have k: "?k < length (drop (?H div n * n) hs @ bs)" using assms(3) by simp
    obtain r out where "settles (rshiftWordByOctet ?k) (feed_shift u r0) r" "shifted (feed_shift u r0) (?k \<noteq> 0) [] out r"
      "packed n out (drop ?k (drop (?H div n * n) hs @ bs))"
      using rshift_settles [of n u _ ?k "feed_shift u r0", OF _ k] q(2) True st assms(4) by (auto simp: feed_shift_def)
    moreover have "drop ?k (drop (?H div n * n) hs @ bs) = bs" by (metis append_eq_conv_conj dl)
    ultimately show ?thesis using True st by (intro exI [of _ r]) (simp add: feed_shift_def shifted_def)
  next
    case False
    with q(2) st show ?thesis
      by (intro exI [of _ r0] conjI settlesI [where k = 0]) (auto simp: feed_shift_def rshiftWordByOctet_def)
  qed
  then obtain r where r: "settles (rshiftWordByOctet ?k) (feed_shift u r0) r" "if ?b then packed n (sh_out r) bs else sh_out r = []"
    by blast
  let ?d = "merge_rx_meta (feed_merge [?m] d0)"
  have d: "settles merge_rx_meta (feed_merge [?m] d0) ?d"
    using st by (intro settlesI [where k = 1]) (simp_all add: merge_rx_meta_def feed_merge_def)
  have "settles (udp_rx n port) (q0, r0, d0) (parse_clear ?q, r, ?d)"
  proof (rule urx.pipe_settles [OF _ q(1)])
    show "settles (map_prod (rshiftWordByOctet ?k) merge_rx_meta)
        (map_prod (feed_shift (fst (par_out ?q, par_meta ?q))) (feed_merge (snd (par_out ?q, par_meta ?q))) (r0, d0)) (r, ?d)"
      using r d st by (simp add: settles_prod)
    show "process_udp n port (parse_clear ?q) = parse_clear ?q"
      by (simp add: process_udp_def parse_stage_def parse_clear_def)
  qed (use st in simp)
  moreover have "mrg_metaOut ?d = (if ?b then [\<lparr> ium_their_address = ucast (im_their_address im),
      ium_their_port = udp_getSrcPort hs, ium_my_port = udp_getDstPort hs, ium_length = udp_getLength hs \<rparr>] else [])"
    using st by (simp add: merge_rx_meta_def feed_merge_def)
  ultimately show ?thesis unfolding start using r(2)
    by (intro exI [of _ "parse_clear ?q"] exI [of _ r] exI [of _ ?d]) (simp split: if_splits)
qed

text \<open>
  A datagram through the layers of two hosts.  The sending layer settles with the datagram behind an 8-octet
  header on its output, and the request for the layer below: the highest 32 bits of the address, and the
  length with the header.  The receiving layer, given these words and the source \<open>im\<close> of the packet, settles with exactly
  the payload on its output and one report of the sender's ports and the length (header included) if it listens on the
  port, and with no word and no report at all if it does not.  The stages of each layer run side by side.
\<close>

theorem udp_delivers:
  assumes "packed n ws bs" and "0 < n" and "n dvd UDP_HEADER_OCTETS \<or> UDP_HEADER_OCTETS < n"
    and "length (ph_header h) = UDP_HEADER_OCTETS" and "length h' = UDP_HEADER_OCTETS"
  shows "\<exists>c l g q r d r0 t0.
    settles (udp n lport) (udp_rx_start n [] [] p' h', udp_tx_start [m] ws p h) (r0, (c, l), g)
    \<and> spl_metaOut0 c = [ipv4Meta_long (ium_their_address m) (ium_length m + 8)]
    \<and> settles (udp n port) (udp_rx_start n [im] (gen_out g) p' h', udp_tx_start [] [] p h) ((q, r, d), t0)
    \<and> (if ium_their_port m = port
       then packed n (sh_out r) bs
         \<and> mrg_metaOut d = [\<lparr> ium_their_address = ucast (im_their_address im), ium_their_port = ium_my_port m,
                              ium_my_port = port, ium_length = ium_length m + 8 \<rparr>]
       else sh_out r = [] \<and> mrg_metaOut d = [])"
proof -
  have both: "udp n x = map_prod (udp_rx n x) (udp_tx n)" for x by (auto simp: udp_def)
  let ?m = "\<lparr> um_their_port = ium_their_port m, um_my_port = ium_my_port m, um_length = ium_length m + 8, um_valid = True \<rparr>"
  obtain c l g where tx: "settles (udp_tx n) (udp_tx_start [m] ws p h) ((c, l), g)"
    "spl_metaOut0 c = [ipv4Meta_long (ium_their_address m) (ium_length m + 8)]"
    "packed n (gen_out g) (udp_fill ?m (ph_header h) @ bs)"
    using udp_tx_sends [OF assms(1,2,4) refl] by blast
  note hs = udp_fill_fields [OF assms(4), of ?m]
  have "bs \<noteq> []" using packed_length [OF assms(1)] by auto
  then obtain q r d where rx: "settles (udp_rx n port) (udp_rx_start n [im] (gen_out g) p' h') (q, r, d)"
    "if ium_their_port m = port
       then packed n (sh_out r) bs
         \<and> mrg_metaOut d = [\<lparr> ium_their_address = ucast (im_their_address im), ium_their_port = ium_my_port m,
                              ium_my_port = port, ium_length = ium_length m + 8 \<rparr>]
       else sh_out r = [] \<and> mrg_metaOut d = []"
    using udp_rx_receives [OF tx(3) hs(1) _ assms(2,3,5), where port = port and im = im and p = p']
    unfolding hs udpMeta.select_convs by blast
  have "settles (udp_rx n lport) (udp_rx_start n [] [] p' h') (udp_rx_start n [] [] p' h')"
    by (rule settlesI [where k = 0])
       (simp_all add: udp_rx_def udp_rx_start_def process_udp_def parse_stage_def udp_rshiftWordByOctet_def
          rshiftWordByOctet_def merge_rx_meta_def)
  moreover have "settles (udp_tx n) (udp_tx_start [] [] p h) (udp_tx_start [] [] p h)"
    by (rule settlesI [where k = 0])
       (simp_all add: udp_tx_def udp_tx_start_def split_tx_meta_def udp_lshiftWordByOctet_def lshiftWordByOctet_def
          generate_udp_def header_stage_def)
  ultimately show ?thesis using tx rx
    by (intro exI [of _ c] exI [of _ l] exI [of _ g] exI [of _ q] exI [of _ r] exI [of _ d]
          exI [of _ "udp_rx_start n [] [] p' h'"] exI [of _ "udp_tx_start [] [] p h"])
       (simp add: both settles_prod)
qed

text \<open>A report carries the address of the sender in its lowest bits, a request is taken from the highest: an answer to the address
  of a report goes to the address 0.\<close>

lemma answer_to_report:
  "ipv4Meta_long (ucast (a :: u32)) len = \<lparr> im_their_address = 0, im_length = len \<rparr>"
proof -
  have "(range_get (ucast a :: 128 word) 127 96 :: u32) = 0"
    by (rule bit_word_eqI) (auto simp: bit_range_get bit_simps dest: bit_imp_le_length)
  then show ?thesis by (simp add: ipv4Meta_long_def)
qed

section \<open>Datagrams over the IPv4 layer\<close>

text \<open>
  (C17) A datagram through the UDP and IPv4 layers of two hosts, at the two widths for which the IPv4 layer removes headers without
  options.  The layers of the sender settle with the packet \<open>g'\<close> on the wire; the IPv4 layer of the receiver, given
  these words, settles with the source address of the sender and the UDP datagram; the UDP layer, given both, settles with exactly
  the payload and one report (the address and the port of the sender, the port of the receiver, the length with the UDP header)
  when it listens on the port, and with no word and no report when it does not.
\<close>

theorem datagram_over_ipv4:
  assumes "packed n ws bs" and "n = 32 \<or> n = 64"
    and "length (ph_header h) = UDP_HEADER_OCTETS" and "length h' = UDP_HEADER_OCTETS"
    and "length (ph_header i) = IPV4_HEADER_OCTETS" and "ip_getHeaderLength (ph_header i) = 5" and "length i' = IPV4_HEADER_OCTETS"
  shows "\<exists>c l g l' g' q0 d0 q r d.
    settles (udp_tx n) (udp_tx_start [m] ws p h) ((c, l), g)
    \<and> settles (ipv4_tx n local protocol) (ipv4_tx_start (spl_metaOut0 c) (gen_out g) p i) (l', g')
    \<and> settles (ipv4_rx n) (ipv4_rx_start (gen_out g') i' dd) (q0, d0)
    \<and> settles (udp_rx n port) (udp_rx_start n (pip_metaOut q0) (doh_dataOut d0) p' h') (q, r, d)
    \<and> (if ium_their_port m = port
       then packed n (sh_out r) bs
         \<and> mrg_metaOut d = [\<lparr> ium_their_address = ucast local, ium_their_port = ium_my_port m, ium_my_port = port,
                              ium_length = ium_length m + 8 \<rparr>]
       else sh_out r = [] \<and> mrg_metaOut d = [])"
proof -
  have n: "0 < n" "n dvd UDP_HEADER_OCTETS \<or> UDP_HEADER_OCTETS < n" using assms(2) by (auto simp: UDP_HEADER_OCTETS_def)
  have ne: "bs \<noteq> []" using packed_length [OF assms(1)] by auto
  let ?m = "\<lparr> um_their_port = ium_their_port m, um_my_port = ium_my_port m, um_length = ium_length m + 8, um_valid = True \<rparr>"
  let ?im = "ipv4Meta_long (ium_their_address m) (ium_length m + 8)"
  obtain c l g where tx: "settles (udp_tx n) (udp_tx_start [m] ws p h) ((c, l), g)" "spl_metaOut0 c = [?im]"
    "packed n (gen_out g) (udp_fill ?m (ph_header h) @ bs)"
    using udp_tx_sends [OF assms(1) n(1) assms(3) refl] by blast
  obtain l' g' where itx: "settles (ipv4_tx n local protocol) (ipv4_tx_start [?im] (gen_out g) p i) (l', g')"
    "packed n (gen_out g') (ipv4_fill local protocol ?im (ph_header i) @ udp_fill ?m (ph_header h) @ bs)"
    using ipv4_tx_sends [OF tx(3) assms(2,5)] by blast
  note ih = ipv4_fill_fields [OF assms(5), of local protocol ?im] and uh = udp_fill_fields [OF assms(3), of ?m]
  obtain q0 d0 where irx: "settles (ipv4_rx n) (ipv4_rx_start (gen_out g') i' dd) (q0, d0)"
    "pip_metaOut q0 = [\<lparr> im_their_address = local, im_length = im_length ?im + 20 \<rparr>]"
    "packed n (doh_dataOut d0) (udp_fill ?m (ph_header h) @ bs)"
    using ipv4_rx_receives [OF itx(2) ih(1) _ assms(2) _ assms(7), of dd] ne unfolding ih assms(6) by auto
  obtain q r d where "settles (udp_rx n port) (udp_rx_start n (pip_metaOut q0) (doh_dataOut d0) p' h') (q, r, d)"
    "if ium_their_port m = port
     then packed n (sh_out r) bs
       \<and> mrg_metaOut d = [\<lparr> ium_their_address = ucast local, ium_their_port = ium_my_port m, ium_my_port = port,
                            ium_length = ium_length m + 8 \<rparr>]
     else sh_out r = [] \<and> mrg_metaOut d = []"
    using udp_rx_receives [OF irx(3) uh(1) ne n assms(4), where port = port and p = p'
        and im = "\<lparr> im_their_address = local, im_length = im_length ?im + 20 \<rparr>"]
    unfolding uh udpMeta.select_convs ipv4Meta.select_convs irx(2) [symmetric] by blast
  with tx(1) itx(1) irx(1) show ?thesis unfolding tx(2) [symmetric] by blast
qed

text \<open>Three octets to port 7, from port 9 of the host with address 6, over words of 64 octets.\<close>

theorem datagram_over_ipv4_witness:
  "let d = [1, 2, 3] @ replicate 61 0;
       ws = [\<lparr> na_data = d, na_keep = keep_of 64 3, na_last = True \<rparr>];
       m = \<lparr> ium_their_address = 5, ium_their_port = 7, ium_my_port = 9, ium_length = 3 \<rparr>;
       z = replicate 8 0; i = ipv4Header_init (replicate 20 0); w0 = zero_word 64;
       dd = \<lparr> doh_state = DOH_META, doh_length = 0, doh_prevWord = w0, doh_lengthIn = [], doh_dataIn = [], doh_dataOut = [] \<rparr>
   in \<exists>c l g l' g' q0 d0 q r d.
     settles (udp_tx 64) (udp_tx_start [m] ws w0 \<lparr> ph_ready = False, ph_idx = 0, ph_header = z \<rparr>) ((c, l), g)
     \<and> settles (ipv4_tx 64 6 0x11) (ipv4_tx_start (spl_metaOut0 c) (gen_out g) w0 \<lparr> ph_ready = False, ph_idx = 0, ph_header = i \<rparr>) (l', g')
     \<and> settles (ipv4_rx 64) (ipv4_rx_start (gen_out g') i dd) (q0, d0)
     \<and> settles (udp_rx 64 7) (udp_rx_start 64 (pip_metaOut q0) (doh_dataOut d0) w0 z) (q, r, d)
     \<and> packed 64 (sh_out r) [1, 2, 3]
     \<and> mrg_metaOut d = [\<lparr> ium_their_address = 6, ium_their_port = 9, ium_my_port = 7, ium_length = 11 \<rparr>]"
proof -
  have p: "packed 64 [\<lparr> na_data = [1, 2, 3] @ replicate 61 0, na_keep = keep_of 64 3, na_last = True \<rparr>] [1, 2, 3]"
    by (rule packed_end' [where k = 3]) simp_all
  have i: "length (ipv4Header_init (replicate 20 0)) = 20" "ip_getHeaderLength (ipv4Header_init (replicate 20 0)) = 5"
    by (simp_all add: ip_fields field_simps range_get_def)
  show ?thesis
    using datagram_over_ipv4 [OF p, where h = "\<lparr> ph_ready = False, ph_idx = 0, ph_header = replicate 8 0 \<rparr>" and h' = "replicate 8 0"
      and i = "\<lparr> ph_ready = False, ph_idx = 0, ph_header = ipv4Header_init (replicate 20 0) \<rparr>" and i' = "ipv4Header_init (replicate 20 0)"
      and port = 7 and p = "zero_word 64" and p' = "zero_word 64" and local = 6 and protocol = "0x11"
      and m = "\<lparr> ium_their_address = 5, ium_their_port = 7, ium_my_port = 9, ium_length = 3 \<rparr>"
      and dd = "\<lparr> doh_state = DOH_META, doh_length = 0, doh_prevWord = zero_word 64, doh_lengthIn = [], doh_dataIn = [], doh_dataOut = [] \<rparr>"]
      i
    unfolding Let_def by (simp add: UDP_HEADER_OCTETS_def IPV4_HEADER_OCTETS_def)
qed

end
