(* ===== verification/Checksum.thy ===== *)
theory Checksum
  imports Stage_Runs
begin

text \<open>
  The Internet checksum: the sums per 16-bit lane that \<^verbatim>\<open>two_complement_subchecksums\<close> (TCP) and \<^verbatim>\<open>compute_ipv4_checksum\<close>
  (IP header, with its two copies) build while a packet passes, and the trees that add them up,
  \<^verbatim>\<open>finalize_ipv4_checksum\<close>, \<^verbatim>\<open>toe_check_ipv4_checksum\<close> and their copies.  The code keeps 17-bit lanes and folds the carry
  after every addition.

  The lemmas show that the lanes and the tree compute the one's complement sum of the octets of the packet (\<open>ones_sum\<close> of the
  big-endian 16-bit words, an odd last octet padded with zeros), for every packet length.
\<close>

type_synonym u17 = "17 word"

section \<open>The code\<close>

text \<open>\<^verbatim>\<open>sum += temp; sum = (sum + (sum >> 16)) & 0xFFFF\<close>.\<close>

definition lane_add :: "u17 \<Rightarrow> u17 \<Rightarrow> u17" where
  "lane_add s t = (let s1 = s + t in (s1 + drop_bit 16 s1) AND 0xFFFF)"

text \<open>A 16-bit word from two octets, the first one the higher.\<close>

definition be16 :: "u8 \<Rightarrow> u8 \<Rightarrow> u17" where
  "be16 hi lo = push_bit 8 (ucast hi) OR ucast lo"

record subcheck_st =
  tcs_sums :: "u17 list"
  tcs_in :: "net_axis list"
  tcs_out :: "net_axis list"
  tcs_subSums :: "u17 list list"

definition tcs_lane :: "net_axis \<Rightarrow> nat \<Rightarrow> u17 \<Rightarrow> u17" where
  "tcs_lane w i s =
     (if na_keep w ! (2 * i) \<and> na_keep w ! (2 * i + 1) then lane_add s (be16 (na_data w ! (2 * i)) (na_data w ! (2 * i + 1)))
      else if na_keep w ! (2 * i) then lane_add s (be16 (na_data w ! (2 * i)) 0)
      else s)"

definition two_complement_subchecksums :: "nat \<Rightarrow> subcheck_st \<Rightarrow> subcheck_st" where
  "two_complement_subchecksums n s =
     (case tcs_in s of
        [] \<Rightarrow> s
      | w # ws \<Rightarrow>
          (let sums = map (\<lambda>i. tcs_lane w i (tcs_sums s ! i)) [0..<n div 2];
               s1 = s\<lparr> tcs_in := ws, tcs_out := tcs_out s @ [w], tcs_sums := sums \<rparr>
           in if na_last w
              then s1\<lparr> tcs_subSums := tcs_subSums s @ [sums], tcs_sums := replicate (n div 2) 0 \<rparr>
              else s1))"

record ipsum_st =
  cics_ip_sums :: "u17 list"
  cics_ipHeaderLen :: u4
  cics_firstWord :: bool
  cics_in :: "net_axis list"
  cics_out :: "net_axis list"
  cics_subSums :: "u17 list list"

definition cics_lane :: "bool \<Rightarrow> u4 \<Rightarrow> net_axis \<Rightarrow> nat \<Rightarrow> u17 \<Rightarrow> u17" where
  "cics_lane skipChecksum len w i s =
     (if (\<not> skipChecksum \<or> i \<noteq> 5) \<and> i div 2 < unat len
      then lane_add s (be16 (na_data w ! (2 * i)) (na_data w ! (2 * i + 1))) else s)"

text \<open>The version for words of 64 octets.\<close>

definition compute_ipv4_checksum :: "bool \<Rightarrow> ipsum_st \<Rightarrow> ipsum_st" where
  "compute_ipv4_checksum skipChecksum s =
     (case cics_in s of
        [] \<Rightarrow> s
      | w # ws \<Rightarrow>
          (let s1 = s\<lparr> cics_in := ws, cics_out := cics_out s @ [w] \<rparr>;
               len = range_get (na_data w ! 0) 3 0;
               sums = map (\<lambda>i. cics_lane skipChecksum len w i (cics_ip_sums s ! i)) [0..<32];
               s2 = (if cics_firstWord s1
                     then s1\<lparr> cics_ipHeaderLen := len, cics_ip_sums := sums, cics_subSums := cics_subSums s @ [sums],
                              cics_firstWord := False \<rparr>
                     else s1)
           in if na_last w then s2\<lparr> cics_ip_sums := replicate 32 0, cics_firstWord := True \<rparr> else s2))"

definition mac_compute_ipv4_checksum :: "bool \<Rightarrow> ipsum_st \<Rightarrow> ipsum_st" where
  "mac_compute_ipv4_checksum = compute_ipv4_checksum"

definition ip_handler_compute_ipv4_checksum :: "bool \<Rightarrow> ipsum_st \<Rightarrow> ipsum_st" where
  "ip_handler_compute_ipv4_checksum = compute_ipv4_checksum"

text \<open>One level of the tree: lane \<open>i\<close> takes up lane \<open>i + k\<close>, for the lowest \<open>k\<close> lanes.\<close>

definition fold_lanes :: "nat \<Rightarrow> u17 list \<Rightarrow> u17 list" where
  "fold_lanes k sums = map (\<lambda>i. lane_add (sums ! i) (sums ! (i + k))) [0..<k] @ drop k sums"

definition sum_tree :: "nat \<Rightarrow> u17 list \<Rightarrow> u17" where
  "sum_tree N sums =
     (let s1 = (if N \<ge> 32 then fold_lanes 16 sums else sums);
          s2 = (if N \<ge> 16 then fold_lanes 8 s1 else s1);
          s3 = (if N \<ge> 8 then fold_lanes 4 s2 else s2);
          s4 = fold_lanes 2 s3
      in lane_add (s4 ! 0) (s4 ! 1))"

definition finalize_ipv4_checksum :: "nat \<Rightarrow> u17 list list \<times> u16 list \<Rightarrow> u17 list list \<times> u16 list" where
  "finalize_ipv4_checksum N s =
     (case fst s of
        [] \<Rightarrow> s
      | sums # rest \<Rightarrow> (rest, snd s @ [range_get (NOT (sum_tree N sums)) 15 0]))"

definition mac_finalize_ipv4_checksum :: "nat \<Rightarrow> u17 list list \<times> u16 list \<Rightarrow> u17 list list \<times> u16 list" where
  "mac_finalize_ipv4_checksum = finalize_ipv4_checksum"

definition toe_check_ipv4_checksum :: "nat \<Rightarrow> u17 list list \<times> bool list \<Rightarrow> u17 list list \<times> bool list" where
  "toe_check_ipv4_checksum N s =
     (case fst s of
        [] \<Rightarrow> s
      | sums # rest \<Rightarrow> (rest, snd s @ [(range_get (NOT (sum_tree N sums)) 15 0 :: u16) = 0]))"

definition ip_handler_check_ipv4_checksum :: "nat \<Rightarrow> u17 list list \<times> bool list \<Rightarrow> u17 list list \<times> bool list" where
  "ip_handler_check_ipv4_checksum = toe_check_ipv4_checksum"

section \<open>One's complement sums\<close>

text \<open>The value that end-around carries leave of a sum: 0 only for 0, otherwise the representative from 1 to 65535.\<close>

definition ones_sum :: "nat \<Rightarrow> nat" where
  "ones_sum S = (if S = 0 then 0 else (S - 1) mod 65535 + 1)"

fun be_sum :: "u8 list \<Rightarrow> nat" where
  "be_sum [] = 0"
| "be_sum [a] = 256 * unat a"
| "be_sum (a # b # bs) = 256 * unat a + unat b + be_sum bs"

lemma ones_sum_le: "ones_sum S \<le> 65535"
proof -
  have "(S - 1) mod 65535 < 65535" by simp
  then have "(S - 1) mod 65535 + 1 \<le> 65535" by linarith
  then show ?thesis by (simp only: ones_sum_def split: if_split) simp
qed

lemma ones_sum_id: "S \<le> 65535 \<Longrightarrow> ones_sum S = S"
  by (simp add: ones_sum_def)

lemma ones_sum_mod: "ones_sum S mod 65535 = S mod 65535"
proof (cases "S = 0")
  case False
  then have "(Suc ((S - 1) mod 65535)) mod 65535 = Suc (S - 1) mod 65535" by (rule_tac mod_Suc_eq)
  with False show ?thesis by (simp add: ones_sum_def)
qed (simp add: ones_sum_def)

lemma ones_sum_unique: "x \<le> 65535 \<Longrightarrow> x mod 65535 = S mod 65535 \<Longrightarrow> (x = 0 \<longleftrightarrow> S = 0) \<Longrightarrow> x = ones_sum S"
proof -
  assume x: "x \<le> 65535" "x mod 65535 = S mod 65535" "x = 0 \<longleftrightarrow> S = 0"
  have eq: "x mod 65535 = ones_sum S mod 65535" using x(2) ones_sum_mod by simp
  have z: "ones_sum S = 0 \<longleftrightarrow> S = 0" by (simp add: ones_sum_def)
  have le: "ones_sum S \<le> 65535" by (rule ones_sum_le)
  show "x = ones_sum S"
  proof (cases "x = 65535 \<or> ones_sum S = 65535")
    case True
    then have "x mod 65535 = 0" "ones_sum S mod 65535 = 0" using eq by auto
    then show ?thesis using x z le by (auto simp: le_less)
  next
    case False
    with eq x le show ?thesis by (simp add: le_less)
  qed
qed

lemma ones_sum_add: "ones_sum (ones_sum a + ones_sum b) = ones_sum (a + b)"
proof (rule ones_sum_unique [symmetric, THEN sym])
  show "ones_sum (ones_sum a + ones_sum b) mod 65535 = (a + b) mod 65535"
    by (metis ones_sum_mod mod_add_eq)
  show "ones_sum (ones_sum a + ones_sum b) = 0 \<longleftrightarrow> a + b = 0"
    by (simp add: ones_sum_def)
qed (rule ones_sum_le)

lemma unat_lane_add:
  assumes "unat s \<le> 65535" and "unat t \<le> 65535"
  shows "unat (lane_add s t) = ones_sum (unat s + unat t)"
proof -
  define S where "S = unat s + unat t"
  have S: "S \<le> 131070" using assms by (simp add: S_def)
  have s1: "unat (s + t) = S" using S by (simp add: unat_word_ariths S_def)
  have d: "unat (drop_bit 16 (s + t)) = S div 65536" by (simp add: unat_drop_bit s1)
  have "S div 65536 \<le> 1" using S by simp
  then have "unat (s + t + drop_bit 16 (s + t)) = S + S div 65536"
    using S by (subst unat_word_ariths(1)) (simp add: s1 d)
  moreover have "lane_add s t = take_bit 16 (s + t + drop_bit 16 (s + t))"
    by (simp add: lane_add_def take_bit_eq_mask mask_eq_exp_minus_1 Let_def)
  ultimately have v: "unat (lane_add s t) = (S + S div 65536) mod 65536"
    by (simp only: unsigned_take_bit_eq) (simp add: take_bit_eq_mod)
  show ?thesis
  proof (cases "S \<le> 65535")
    case True
    then show ?thesis using v by (simp add: ones_sum_id S_def [symmetric])
  next
    case False
    then have "S div 65536 = 1" "(S + 1) mod 65536 = S - 65535" "(S - 1) mod 65535 = S - 1 - 65535"
      using S by (simp_all add: div_nat_eqI mod_if)
    with v False show ?thesis by (simp add: ones_sum_def S_def [symmetric])
  qed
qed

lemma unat_be16: "unat (be16 a b) = 256 * unat a + unat b"
proof -
  have "be16 a b = push_bit 8 (ucast a) + ucast b"
    unfolding be16_def
    by (rule disjunctive_add [symmetric]) (auto simp: bit_simps dest: bit_imp_le_length)
  moreover have "unat a < 256" "unat b < 256" using unsigned_less [of a, where 'a = nat] unsigned_less [of b, where 'a = nat] by simp_all
  ultimately show ?thesis
    by (simp add: unat_word_ariths push_bit_eq_mult unat_ucast_up)
qed

lemma be16_le: "unat (be16 a b) \<le> 65535"
proof -
  have "unat a < 256" "unat b < 256" using unsigned_less [of a, where 'a = nat] unsigned_less [of b, where 'a = nat] by simp_all
  then show ?thesis unfolding unat_be16 by simp
qed

section \<open>The tree\<close>

text \<open>Lanes whose values are one's complement sums of given amounts.\<close>

definition lanes_hold :: "u17 list \<Rightarrow> nat list \<Rightarrow> bool" where
  "lanes_hold sums vs \<longleftrightarrow> map unat sums = map ones_sum vs"

lemma lane_add_sum:
  "unat s = ones_sum a \<Longrightarrow> unat t = ones_sum b \<Longrightarrow> unat (lane_add s t) = ones_sum (a + b)"
  by (simp add: unat_lane_add ones_sum_le ones_sum_add)

lemma fold_lanes_hold:
  assumes "lanes_hold sums vs" and "length vs = 2 * k"
  shows "lanes_hold (take k (fold_lanes k sums)) (map (\<lambda>i. vs ! i + vs ! (i + k)) [0..<k])"
proof -
  have len: "length sums = 2 * k" using assms by (metis lanes_hold_def length_map)
  have at: "unat (sums ! i) = ones_sum (vs ! i)" if "i < 2 * k" for i
    using assms len that by (metis lanes_hold_def nth_map)
  have "take k (fold_lanes k sums) = map (\<lambda>i. lane_add (sums ! i) (sums ! (i + k))) [0..<k]"
    by (simp add: fold_lanes_def)
  then show ?thesis by (simp add: lanes_hold_def lane_add_sum at)
qed

lemma sum_halves: "length vs = 2 * k \<Longrightarrow> sum_list (map (\<lambda>i. vs ! i + vs ! (i + k)) [0..<k]) = sum_list (vs :: nat list)"
proof -
  assume len: "length vs = 2 * k"
  have "sum_list vs = sum_list (map (nth vs) [0..<k + k])" using len by (metis map_nth mult_2)
  also have "\<dots> = sum_list (map (nth vs) [0..<k]) + sum_list (map (nth vs) [k..<k + k])"
    by (subst upt_add_eq_append) simp_all
  also have "[k..<k + k] = map (\<lambda>i. i + k) [0..<k]" by (simp add: map_add_upt)
  finally show ?thesis by (simp add: sum_list_addf comp_def)
qed

text \<open>A level uses only the lanes it needs, so the lanes above do not matter.\<close>

lemma fold_lanes_take: "2 * k \<le> length sums \<Longrightarrow> take k (fold_lanes k sums) = take k (fold_lanes k (take (2 * k) sums))"
  by (simp add: fold_lanes_def)

lemma length_fold_lanes: "k \<le> length sums \<Longrightarrow> length (fold_lanes k sums) = length sums"
  by (simp add: fold_lanes_def)

text \<open>One level, for the lanes that the next one uses.\<close>

lemma level:
  assumes "lanes_hold (take (2 * k) sums) vs" and "length vs = 2 * k"
  shows "\<exists>vs'. lanes_hold (take k (fold_lanes k sums)) vs' \<and> length vs' = k \<and> sum_list vs' = sum_list vs
    \<and> length (fold_lanes k sums) = length sums"
proof -
  have len: "2 * k \<le> length sums"
    using assms by (metis lanes_hold_def length_map length_take min.cobounded1)
  have "lanes_hold (take k (fold_lanes k (take (2 * k) sums))) (map (\<lambda>i. vs ! i + vs ! (i + k)) [0..<k])"
    by (rule fold_lanes_hold [OF assms])
  then show ?thesis using len assms(2)
    by (intro exI [of _ "map (\<lambda>i. vs ! i + vs ! (i + k)) [0..<k]"])
       (simp add: fold_lanes_take [symmetric] sum_halves length_fold_lanes)
qed

lemma two_lanes: "lanes_hold (take 2 F) [a, b] \<Longrightarrow> unat (F ! 0) = ones_sum a \<and> unat (F ! 1) = ones_sum b"
proof -
  assume "lanes_hold (take 2 F) [a, b]"
  then have m: "map unat (take 2 F) = [ones_sum a, ones_sum b]" by (simp add: lanes_hold_def)
  then obtain x y zs where "F = x # y # zs"
    by (cases F; cases "tl F") (auto simp: take_Cons')
  with m show ?thesis by simp
qed

lemma sum_tree_sum:
  assumes "lanes_hold sums vs" and "length vs = N" and "N = 4 \<or> N = 8 \<or> N = 16 \<or> N = 32"
  shows "unat (sum_tree N sums) = ones_sum (sum_list vs)"
proof -
  have len: "length sums = N" using assms by (metis lanes_hold_def length_map)
  let ?s1 = "if N \<ge> 32 then fold_lanes 16 sums else sums"
  let ?s2 = "if N \<ge> 16 then fold_lanes 8 ?s1 else ?s1"
  let ?s3 = "if N \<ge> 8 then fold_lanes 4 ?s2 else ?s2"
  have "\<exists>v. lanes_hold (take (min N 16) ?s1) v \<and> length v = min N 16 \<and> sum_list v = sum_list vs"
    using level [of 16 sums vs] assms len by (auto intro: exI [of _ vs])
  then obtain v1 where v1: "lanes_hold (take (min N 16) ?s1) v1" "length v1 = min N 16" "sum_list v1 = sum_list vs" by blast
  have "\<exists>v. lanes_hold (take (min N 8) ?s2) v \<and> length v = min N 8 \<and> sum_list v = sum_list vs"
    using level [of 8 ?s1 v1] v1 assms(3) by (auto intro: exI [of _ v1])
  then obtain v2 where v2: "lanes_hold (take (min N 8) ?s2) v2" "length v2 = min N 8" "sum_list v2 = sum_list vs" by blast
  have "\<exists>v. lanes_hold (take 4 ?s3) v \<and> length v = 4 \<and> sum_list v = sum_list vs"
    using level [of 4 ?s2 v2] v2 assms(3) by (auto intro: exI [of _ v2])
  then obtain v3 where v3: "lanes_hold (take 4 ?s3) v3" "length v3 = 4" "sum_list v3 = sum_list vs" by blast
  then obtain v4 where v4: "lanes_hold (take 2 (fold_lanes 2 ?s3)) v4" "length v4 = 2" "sum_list v4 = sum_list vs"
    "length (fold_lanes 2 ?s3) = length ?s3" using level [of 2 ?s3 v3] by auto
  from v4(2) obtain a b where ab: "v4 = [a, b]" by (auto simp: numeral_2_eq_2 length_Suc_conv)
  then have "unat (fold_lanes 2 ?s3 ! 0) = ones_sum a" "unat (fold_lanes 2 ?s3 ! 1) = ones_sum b"
    using two_lanes [OF v4(1) [unfolded ab]] by auto
  then show ?thesis using v4(3) ab by (simp add: sum_tree_def Let_def lane_add_sum)
qed

section \<open>Lanes of a packet\<close>

lemma be_sum_append: "even (length xs) \<Longrightarrow> be_sum (xs @ ys) = be_sum xs + be_sum ys"
  by (induction xs rule: be_sum.induct) simp_all

text \<open>What lane \<open>i\<close> takes of a list of octets.\<close>

definition lane_val :: "u8 list \<Rightarrow> nat \<Rightarrow> nat" where
  "lane_val bs i = (if 2 * i + 1 < length bs then 256 * unat (bs ! (2 * i)) + unat (bs ! (2 * i + 1))
     else if 2 * i < length bs then 256 * unat (bs ! (2 * i)) else 0)"

lemma sum_lane_val: "length bs \<le> 2 * m \<Longrightarrow> sum_list (map (lane_val bs) [0..<m]) = be_sum bs"
proof (induction bs arbitrary: m rule: be_sum.induct)
  case 1
  then show ?case by (simp add: lane_val_def)
next
  case (2 a)
  then obtain k where "m = Suc k" by (cases m) auto
  moreover have "map (lane_val [a]) (map Suc [0..<k]) = map (\<lambda>_. 0) [0..<k]" by (simp add: lane_val_def)
  ultimately show ?case by (simp add: upt_conv_Cons map_Suc_upt [symmetric] lane_val_def del: upt_Suc)
next
  case (3 a b bs)
  then obtain k where k: "m = Suc k" by (cases m) auto
  have "[0..<m] = 0 # map Suc [0..<k]" by (simp add: k upt_conv_Cons map_Suc_upt del: upt_Suc)
  moreover have "map (lane_val (a # b # bs)) (map Suc [0..<k]) = map (lane_val bs) [0..<k]" by (auto simp: lane_val_def)
  moreover have "lane_val (a # b # bs) 0 = 256 * unat a + unat b" by (simp add: lane_val_def)
  moreover have "sum_list (map (lane_val bs) [0..<k]) = be_sum bs" using 3 k by simp
  ultimately show ?case by (simp del: map_map)
qed

lemma tcs_lane_hold:
  assumes "unat s = ones_sum v" and "length d = n" and "k \<le> n" and "2 * i + 1 < n"
  shows "unat (tcs_lane \<lparr> na_data = d, na_keep = keep_of n k, na_last = b \<rparr> i s) = ones_sum (v + lane_val (take k d) i)"
proof -
  have "unat (be16 x y) = ones_sum (256 * unat x + unat y)" for x y
    using be16_le [of x y] by (simp add: unat_be16 ones_sum_id)
  moreover from this [of _ 0] have "unat (be16 x 0) = ones_sum (256 * unat x)" for x by simp
  ultimately show ?thesis using assms
    by (auto simp: tcs_lane_def lane_val_def nth_keep_of lane_add_sum)
qed

lemma tcs_word:
  assumes "lanes_hold sums vs" and "length vs = n div 2" and "even n" and "length d = n" and "k \<le> n"
  shows "lanes_hold (map (\<lambda>i. tcs_lane \<lparr> na_data = d, na_keep = keep_of n k, na_last = b \<rparr> i (sums ! i)) [0..<n div 2])
      (map (\<lambda>i. vs ! i + lane_val (take k d) i) [0..<n div 2])"
    (is ?h)
    and "sum_list (map (\<lambda>i. vs ! i + lane_val (take k d) i) [0..<n div 2]) = sum_list vs + be_sum (take k d)"
proof -
  have "length sums = n div 2" using assms(1,2) by (metis lanes_hold_def length_map)
  then have "unat (sums ! i) = ones_sum (vs ! i)" if "i < n div 2" for i
    using assms(1,2) that by (metis lanes_hold_def nth_map)
  then show ?h using assms(3-) by (auto simp: lanes_hold_def tcs_lane_hold intro!: tcs_lane_hold)
  have "map (nth vs) [0..<n div 2] = vs" using assms(2) by (metis map_nth)
  moreover have "sum_list (map (lane_val (take k d)) [0..<n div 2]) = be_sum (take k d)"
    using assms(3-) by (intro sum_lane_val) auto
  ultimately show "sum_list (map (\<lambda>i. vs ! i + lane_val (take k d) i) [0..<n div 2]) = sum_list vs + be_sum (take k d)"
    by (simp add: sum_list_addf)
qed

lemma subchecksums_packet:
  assumes "packed n ws bs" and "even n" and "tcs_in s = ws @ rest" and "lanes_hold (tcs_sums s) vs" and "length vs = n div 2"
  shows "\<exists>sums vs'. (two_complement_subchecksums n ^^ length ws) s =
      s\<lparr> tcs_in := rest, tcs_out := tcs_out s @ ws, tcs_sums := replicate (n div 2) 0, tcs_subSums := tcs_subSums s @ [sums] \<rparr>
    \<and> lanes_hold sums vs' \<and> length vs' = n div 2 \<and> sum_list vs' = sum_list vs + be_sum bs"
  using assms
proof (induction arbitrary: s vs rule: packed.induct)
  case (packed_end d k)
  let ?vs = "map (\<lambda>i. vs ! i + lane_val (take k d) i) [0..<n div 2]"
  show ?case using tcs_word(1) [OF packed_end.prems(3,4,1) packed_end.hyps(1,3), where b = True]
      tcs_word(2) [OF packed_end.prems(3,4,1) packed_end.hyps(1,3)] packed_end.prems
    by (intro exI [of _ "map (\<lambda>i. tcs_lane \<lparr> na_data = d, na_keep = keep_of n k, na_last = True \<rparr> i (tcs_sums s ! i)) [0..<n div 2]"]
        exI [of _ ?vs]) (simp add: two_complement_subchecksums_def)
next
  case (packed_word d ws bs)
  let ?t = "two_complement_subchecksums n s"
  let ?w = "\<lparr> na_data = d, na_keep = keep_of n n, na_last = False \<rparr>"
  let ?vs = "map (\<lambda>i. vs ! i + lane_val (take n d) i) [0..<n div 2]"
  have t: "?t = s\<lparr> tcs_in := ws @ rest, tcs_out := tcs_out s @ [?w],
      tcs_sums := map (\<lambda>i. tcs_lane ?w i (tcs_sums s ! i)) [0..<n div 2] \<rparr>"
    using packed_word.prems by (simp add: two_complement_subchecksums_def)
  note w = tcs_word(1) [OF packed_word.prems(3,4,1) packed_word.hyps(1) order_refl, where b = False]
    tcs_word(2) [OF packed_word.prems(3,4,1) packed_word.hyps(1) order_refl]
  obtain sums vs' where "(two_complement_subchecksums n ^^ length ws) ?t =
      ?t\<lparr> tcs_in := rest, tcs_out := tcs_out ?t @ ws, tcs_sums := replicate (n div 2) 0, tcs_subSums := tcs_subSums ?t @ [sums] \<rparr>"
    "lanes_hold sums vs'" "length vs' = n div 2" "sum_list vs' = sum_list ?vs + be_sum bs"
    using packed_word.IH [of ?t ?vs] packed_word.prems w(1) t by auto
  then show ?case using t w(2) packed_word.hyps(1) packed_word.prems(1)
    by (intro exI [of _ sums] exI [of _ vs']) (simp add: funpow_swap1 be_sum_append)
qed

lemma lanes_hold_zero: "lanes_hold (replicate m 0) (replicate m 0)"
  by (simp add: lanes_hold_def ones_sum_def)

text \<open>The complement of a lane, as a 16-bit value.\<close>

lemma unat_complement:
  assumes "unat x \<le> 65535"
  shows "unat (range_get (NOT (x :: u17)) 15 0 :: u16) = 65535 - unat x"
proof -
  have "(range_get (NOT x) 15 0 :: u16) = NOT (ucast x)"
    by (rule bit_word_eqI) (simp add: bit_range_get bit_simps)
  moreover have "unat (ucast x :: u16) = unat x"
    using assms by (simp add: unsigned_ucast_eq take_bit_nat_eq_self)
  moreover have "unat (NOT (y :: u16)) = 65535 - unat y" for y
  proof -
    have "NOT y = - 1 - y" by (simp add: not_eq_complement)
    then have "unat (NOT y) = unat (- 1 :: u16) - unat y" by (simp only: unat_sub [of y "- 1"] word_order.extremum)
    then show ?thesis by (simp add: unsigned_minus_1_eq_mask mask_eq_exp_minus_1)
  qed
  ultimately show ?thesis by simp
qed

lemma finalize_value:
  assumes "lanes_hold sums vs" and "length vs = N" and "N = 4 \<or> N = 8 \<or> N = 16 \<or> N = 32"
  shows "\<exists>c. finalize_ipv4_checksum N (sums # rest, cs) = (rest, cs @ [c]) \<and> unat c = 65535 - ones_sum (sum_list vs)"
  using sum_tree_sum [OF assms] ones_sum_le [of "sum_list vs"]
  by (simp add: finalize_ipv4_checksum_def unat_complement)

lemma ones_sum_top: "ones_sum S = 65535 \<longleftrightarrow> 0 < S \<and> 65535 dvd S"
proof
  assume a: "ones_sum S = 65535"
  then have "S mod 65535 = 0" using ones_sum_mod [of S] by simp
  moreover have "S \<noteq> 0"
  proof
    assume "S = 0"
    with a show False by (simp add: ones_sum_def)
  qed
  ultimately show "0 < S \<and> 65535 dvd S" by auto
next
  assume a: "0 < S \<and> 65535 dvd S"
  then show "ones_sum S = 65535" by (intro ones_sum_unique [symmetric]) auto
qed

lemma check_value:
  assumes "lanes_hold sums vs" and "length vs = N" and "N = 4 \<or> N = 8 \<or> N = 16 \<or> N = 32"
  shows "toe_check_ipv4_checksum N (sums # rest, cs) = (rest, cs @ [0 < sum_list vs \<and> 65535 dvd sum_list vs])"
proof -
  let ?x = "range_get (NOT (sum_tree N sums)) 15 0 :: u16"
  have v: "unat (sum_tree N sums) = ones_sum (sum_list vs)" by (rule sum_tree_sum [OF assms])
  have "?x = 0 \<longleftrightarrow> unat ?x = 0" by (metis unat_0 unsigned_word_eqI)
  also have "\<dots> \<longleftrightarrow> ones_sum (sum_list vs) = 65535"
    using v ones_sum_le [of "sum_list vs"] by (auto simp: unat_complement)
  finally show ?thesis by (simp add: toe_check_ipv4_checksum_def ones_sum_top)
qed

text \<open>
  (C18) The checksum units compute the Internet checksum.  Over any packet, at every width the trees are built for, the lanes
  of \<^verbatim>\<open>two_complement_subchecksums\<close> pass the packet on unchanged; from what they report, the generator computes the complement of
  the one's complement sum of the 16-bit words of the packet (an odd octet padded), and the checker accepts exactly
  when that sum is a positive multiple of 65535, that is when it is all ones.  The lanes are zero again for the next packet.
\<close>

theorem checksum_is_ones_complement:
  assumes "packed n ws bs" and "n = 8 \<or> n = 16 \<or> n = 32 \<or> n = 64" and "tcs_in s = ws @ rest"
    and "tcs_sums s = replicate (n div 2) 0" and "tcs_subSums s = []"
  shows "\<exists>c. let t = (two_complement_subchecksums n ^^ length ws) s
    in tcs_out t = tcs_out s @ ws \<and> tcs_in t = rest \<and> tcs_sums t = replicate (n div 2) 0
     \<and> finalize_ipv4_checksum (n div 2) (tcs_subSums t, []) = ([], [c])
     \<and> unat c = 65535 - ones_sum (be_sum bs)
     \<and> toe_check_ipv4_checksum (n div 2) (tcs_subSums t, []) = ([], [0 < be_sum bs \<and> 65535 dvd be_sum bs])"
proof -
  have n: "even n" "n div 2 = 4 \<or> n div 2 = 8 \<or> n div 2 = 16 \<or> n div 2 = 32" using assms(2) by auto
  obtain sums vs' where t: "(two_complement_subchecksums n ^^ length ws) s =
      s\<lparr> tcs_in := rest, tcs_out := tcs_out s @ ws, tcs_sums := replicate (n div 2) 0, tcs_subSums := tcs_subSums s @ [sums] \<rparr>"
    "lanes_hold sums vs'" "length vs' = n div 2" "sum_list vs' = be_sum bs"
    using subchecksums_packet [OF assms(1) n(1) assms(3), of "replicate (n div 2) 0"] assms(4) lanes_hold_zero
    by (auto simp: sum_list_replicate)
  obtain c where c: "finalize_ipv4_checksum (n div 2) ([sums], []) = ([], [c])" "unat c = 65535 - ones_sum (be_sum bs)"
    using finalize_value [OF t(2,3) n(2), of "[]" "[]"] t(4) by auto
  with t assms(5) check_value [OF t(2,3) n(2), of "[]" "[]"] show ?thesis
    by (intro exI [of _ c]) (simp add: Let_def)
qed

theorem checksum_is_ones_complement_witness:
  "let ws = [\<lparr> na_data = [0x45, 0, 1] @ replicate 5 0, na_keep = keep_of 8 3, na_last = True \<rparr>];
       s = \<lparr> tcs_sums = replicate 4 0, tcs_in = ws, tcs_out = [], tcs_subSums = [] \<rparr>
   in \<exists>c. finalize_ipv4_checksum 4 (tcs_subSums ((two_complement_subchecksums 8 ^^ 1) s), []) = ([], [c]) \<and> unat c = 65535 - 17920"
proof -
  let ?ws = "[\<lparr> na_data = [0x45, 0, 1] @ replicate 5 0, na_keep = keep_of 8 3, na_last = True \<rparr>]"
  have p: "packed 8 ?ws [0x45, 0, 1]"
    by (rule packed_end' [where k = 3]) simp_all
  show ?thesis
    using checksum_is_ones_complement [OF p, where rest = "[]"
      and s = "\<lparr> tcs_sums = replicate 4 0, tcs_in = ?ws, tcs_out = [], tcs_subSums = [] \<rparr>"]
    by (auto simp: Let_def ones_sum_def)
qed

section \<open>The header of an IP packet\<close>

lemma octets_reverse:
  assumes "8 dvd LENGTH('a::len)"
  shows "octets (reverse (v :: 'a word)) = rev (octets v)"
proof (rule nth_equalityI)
  fix i assume "i < length (octets (reverse v))"
  then have i: "i < LENGTH('a) div 8" by simp
  obtain k where k: "LENGTH('a) = 8 * k" using assms by (auto elim: dvdE)
  have "octets (reverse v) ! i = rev (octets v) ! i"
  proof (rule bit_word_eqI)
    fix m assume "m < LENGTH(8)"
    then have m: "m < 8" by simp
    have "8 * i + m < 8 * k" using i k m by auto
    moreover have "8 * k - (8 * i + m) div 8 * 8 - 8 + (8 * i + m) mod 8 = 8 * (k - Suc i) + m"
      using i k m by (simp add: algebra_simps)
    ultimately show "bit (octets (reverse v) ! i) m \<longleftrightarrow> bit (rev (octets v) ! i) m"
      using i k m by (simp add: octets_def rev_nth bit_range_get bit_reverse [OF assms])
  qed
  then show "octets (reverse v) ! i = rev (octets v) ! i" .
qed simp

lemma octets_u16: "octets (v :: u16) = [range_get v 7 0, range_get v 15 8]"
  by (simp add: octets_def upt_rec)

lemma unat_u16_octets: "256 * unat (range_get v 15 8 :: u8) + unat (range_get v 7 0 :: u8) = unat (v :: u16)"
proof -
  have "unat (range_get v 7 0 :: u8) = unat v mod 256"
    by (simp only: range_get_def unsigned_ucast_eq unsigned_take_bit_eq) (simp add: take_bit_eq_mod)
  moreover have "unat v div 256 < 256" using unsigned_less [of v, where 'a = nat] by auto
  then have "unat (range_get v 15 8 :: u8) = unat v div 256"
    by (simp only: range_get_def unsigned_ucast_eq unsigned_take_bit_eq unat_drop_bit) (simp add: take_bit_eq_mod)
  ultimately show ?thesis by simp
qed

text \<open>Writing a value into the checksum field adds it to the sum of the header with an empty field.\<close>

definition empty_checksum :: "u8 list \<Rightarrow> u8 list" where
  "empty_checksum h = take 10 h @ [0, 0] @ drop 12 h"

lemma be_sum_put_checksum:
  assumes "12 \<le> length h"
  shows "be_sum (put_field 10 (reverse (c :: u16)) h) = be_sum (empty_checksum h) + unat c"
proof -
  have "put_field 10 (reverse c) h = take 10 h @ [range_get c 15 8, range_get c 7 0] @ drop 12 h"
    by (simp add: put_field_def octets_reverse) (simp add: octets_u16)
  moreover have "even (length (take 10 h))" using assms by simp
  ultimately show ?thesis unfolding empty_checksum_def
    by (simp add: be_sum_append flip: unat_u16_octets)
qed

text \<open>The header in the first word of a packet, as long as its length field says.\<close>

definition ip_len :: "u8 list \<Rightarrow> u4" where "ip_len d = range_get (d ! 0) 3 0"

definition ip_head :: "u8 list \<Rightarrow> u8 list" where "ip_head d = take (4 * unat (ip_len d)) d"

definition summed_head :: "bool \<Rightarrow> u8 list \<Rightarrow> u8 list" where
  "summed_head skip d = (if skip then empty_checksum (ip_head d) else ip_head d)"

lemma ip_len_le: "unat (ip_len d) \<le> 15"
  using unsigned_less [of "ip_len d", where 'a = nat] by simp

lemma length_ip_head: "length d = 64 \<Longrightarrow> length (ip_head d) = 4 * unat (ip_len d)"
  using ip_len_le [of d] by (simp add: ip_head_def)

lemma cics_lane_val:
  assumes "length d = 64" and "na_data w = d" and "skip \<longrightarrow> 3 \<le> unat (ip_len d)" and "i < 32"
  shows "unat (cics_lane skip (ip_len d) w i 0) = ones_sum (lane_val (summed_head skip d) i)"
proof -
  let ?l = "unat (ip_len d)"
  have len: "length (summed_head skip d) = 4 * ?l"
    using assms(3) length_ip_head [OF assms(1)] by (auto simp: summed_head_def empty_checksum_def)
  have odd: "2 * i + 1 < 4 * ?l \<longleftrightarrow> i div 2 < ?l" "2 * i < 4 * ?l \<longleftrightarrow> i div 2 < ?l" by linarith+
  have at: "summed_head skip d ! j = (if skip \<and> (j = 10 \<or> j = 11) then 0 else d ! j)" if "j < 4 * ?l" for j
  proof (cases skip)
    case True
    then have "4 * ?l = length (ip_head d)" "12 \<le> 4 * ?l" using assms(1,3) by (simp_all add: length_ip_head)
    then show ?thesis using True that
      by (auto simp: summed_head_def empty_checksum_def nth_append nth_Cons' ip_head_def)
  qed (use that in \<open>simp add: summed_head_def ip_head_def\<close>)
  have z: "unat (lane_add 0 (be16 x y)) = ones_sum (256 * unat x + unat y)" for x y
    using be16_le [of x y] by (simp add: unat_lane_add unat_be16)
  have "lane_val (summed_head skip d) i =
      (if (\<not> skip \<or> i \<noteq> 5) \<and> i div 2 < ?l then 256 * unat (d ! (2 * i)) + unat (d ! (2 * i + 1)) else 0)"
    using len odd at by (auto simp: lane_val_def)
  moreover have "ones_sum 0 = 0" by (simp add: ones_sum_def)
  ultimately show ?thesis using assms(2) z by (simp add: cics_lane_def)
qed

lemma cics_rest:
  assumes "packed n ws bs" and "cics_in s = ws @ rest" and "\<not> cics_firstWord s"
  shows "(compute_ipv4_checksum skip ^^ length ws) s =
    s\<lparr> cics_in := rest, cics_out := cics_out s @ ws, cics_ip_sums := replicate 32 0, cics_firstWord := True \<rparr>"
  using assms
proof (induction arbitrary: s rule: packed.induct)
  case (packed_word d ws bs)
  let ?t = "compute_ipv4_checksum skip s"
  have "?t = s\<lparr> cics_in := ws @ rest, cics_out := cics_out s @ [\<lparr> na_data = d, na_keep = keep_of n n, na_last = False \<rparr>] \<rparr>"
    using packed_word.prems by (simp add: compute_ipv4_checksum_def Let_def)
  with packed_word.IH [of ?t] packed_word.prems show ?case by (simp add: funpow_swap1)
qed (simp add: compute_ipv4_checksum_def Let_def)

lemma ipsum_packet:
  assumes "packed 64 ws bs" and "cics_in s = ws @ rest" and "cics_firstWord s" and "cics_ip_sums s = replicate 32 0"
    and "d = na_data (hd ws)" and "skip \<longrightarrow> 3 \<le> unat (ip_len d)"
  shows "\<exists>sums vs. (compute_ipv4_checksum skip ^^ length ws) s =
      s\<lparr> cics_in := rest, cics_out := cics_out s @ ws, cics_ipHeaderLen := ip_len d, cics_subSums := cics_subSums s @ [sums] \<rparr>
    \<and> lanes_hold sums vs \<and> length vs = 32 \<and> sum_list vs = be_sum (summed_head skip d)"
proof -
  obtain w us where ws: "ws = w # us" using packed_Cons [OF assms(1)] by blast
  have d: "length d = 64" "na_data w = d" using assms(1,5) ws by (auto elim: packed_cases)
  let ?sums = "map (\<lambda>i. cics_lane skip (ip_len d) w i (replicate 32 0 ! i)) [0..<32]"
  let ?vs = "map (lane_val (summed_head skip d)) [0..<32]"
  have "lanes_hold ?sums ?vs" using cics_lane_val [OF d assms(6)] by (simp add: lanes_hold_def)
  moreover have "length (summed_head skip d) \<le> 64"
    using length_ip_head [OF d(1)] ip_len_le [of d] assms(6) by (auto simp: summed_head_def empty_checksum_def)
  then have "sum_list ?vs = be_sum (summed_head skip d)" using sum_lane_val [of _ 32] by simp
  moreover have "(compute_ipv4_checksum skip ^^ length ws) s =
      s\<lparr> cics_in := rest, cics_out := cics_out s @ ws, cics_ipHeaderLen := ip_len d, cics_subSums := cics_subSums s @ [?sums] \<rparr>"
  proof (cases "us = []")
    case True
    then have "na_last w" using packed_marks [OF assms(1)] ws by simp
    with True ws assms d show ?thesis by (simp add: compute_ipv4_checksum_def ip_len_def Let_def)
  next
    case False
    then have "\<not> na_last w" "\<exists>cs. packed 64 us cs" using assms(1) ws by (auto elim: packed_cases)
    then obtain cs where us: "packed 64 us cs" and "\<not> na_last w" by blast
    let ?t = "compute_ipv4_checksum skip s"
    have "?t = s\<lparr> cics_in := us @ rest, cics_out := cics_out s @ [w], cics_ipHeaderLen := ip_len d, cics_ip_sums := ?sums,
        cics_subSums := cics_subSums s @ [?sums], cics_firstWord := False \<rparr>"
      using ws assms d \<open>\<not> na_last w\<close> by (simp add: compute_ipv4_checksum_def ip_len_def Let_def)
    with cics_rest [OF us, of ?t rest skip] ws assms(3,4) show ?thesis by (simp add: funpow_swap1)
  qed
  ultimately show ?thesis by (intro exI [of _ ?sums] exI [of _ ?vs]) simp
qed

text \<open>A header with the checksum that is computed for it is accepted.\<close>

lemma checksum_accepted:
  assumes "unat (c :: u16) = 65535 - ones_sum (be_sum (empty_checksum h))" and "12 \<le> length h"
  shows "0 < be_sum (put_field 10 (reverse c) h) \<and> 65535 dvd be_sum (put_field 10 (reverse c) h)"
proof -
  let ?S = "be_sum (empty_checksum h)"
  have sum: "be_sum (put_field 10 (reverse c) h) = ?S + (65535 - ones_sum ?S)"
    using be_sum_put_checksum [OF assms(2), of c] assms(1) by simp
  have le: "ones_sum ?S \<le> 65535" by (rule ones_sum_le)
  have pos: "0 < ?S + (65535 - ones_sum ?S)" by (cases "?S = 0") (simp_all add: ones_sum_def)
  have "(?S + (65535 - ones_sum ?S)) mod 65535 = (ones_sum ?S + (65535 - ones_sum ?S)) mod 65535"
    by (metis ones_sum_mod mod_add_cong)
  also have "\<dots> = 0" using le by simp
  finally show ?thesis using sum pos by auto
qed

end
