(* ===== verification/Ip_Handler.thy ===== *)
theory Ip_Handler
  imports Ipv4 Checksum
begin

text \<open>
  The demultiplexer of received frames, \<^verbatim>\<open>ip_handler/ip_handler.cpp\<close>, with the Ethernet header of \<^verbatim>\<open>ethernet/ethernet.hpp\<close>: frames are
  routed by EtherType, the Ethernet header is removed, IPv4 packets are checked (header checksum and
  destination address), cut to the length of their header and routed by protocol.  Words have 64 octets
  (\<^verbatim>\<open>DATA_WIDTH = 512\<close>), the width for which the file has its own \<^verbatim>\<open>cut_length\<close>.

  Each stage is a definition on its own state; \<open>ip_handler\<close> invokes them in the order of the code and hands the words
  over.  The lemmas give the run of every stage over one packet, and the theorem what becomes of a frame: which
  output gets it, and which octets arrive there.
\<close>

section \<open>Ethernet header\<close>

definition ETH_HEADER_OCTETS :: nat where "ETH_HEADER_OCTETS = 14"

definition eth_setDstAddress :: "48 word \<Rightarrow> u8 list \<Rightarrow> u8 list" where "eth_setDstAddress a = put_field 0 a"
definition eth_setSrcAddress :: "48 word \<Rightarrow> u8 list \<Rightarrow> u8 list" where "eth_setSrcAddress a = put_field 6 a"
definition eth_setEthertype :: "u16 \<Rightarrow> u8 list \<Rightarrow> u8 list" where "eth_setEthertype t = put_field 12 (reverse t)"
definition eth_getEthertype :: "u8 list \<Rightarrow> u16" where "eth_getEthertype h = reverse (get_field 12 h)"

lemmas eth_fields = eth_setDstAddress_def eth_setSrcAddress_def eth_setEthertype_def eth_getEthertype_def

definition ARP_TYPE :: u16 where "ARP_TYPE = 0x0806"
definition IPv4_TYPE :: u16 where "IPv4_TYPE = 0x0800"
definition IPv6_TYPE :: u16 where "IPv6_TYPE = 0x86DD"
definition ICMP_PROTO :: u8 where "ICMP_PROTO = 0x01"
definition ICMPv6_PROTO :: u8 where "ICMPv6_PROTO = 0x3a"
definition UDP_PROTO :: u8 where "UDP_PROTO = 0x11"
definition TCP_PROTO :: u8 where "TCP_PROTO = 0x06"

section \<open>The stages\<close>

definition detect_eth_protocol :: "nat \<Rightarrow> u16 list parse_st \<Rightarrow> u16 list parse_st" where
  "detect_eth_protocol n = parse_stage n ETH_HEADER_OCTETS (\<lambda>_ _ _. True) (\<lambda>h ts. ts @ [eth_getEthertype h])"

record route_st =
  rep_fsmState :: bool
  rep_etherType :: u16
  rep_etherTypeIn :: "u16 list"
  rep_dataIn :: "net_axis list"
  rep_ARP :: "net_axis list"
  rep_IP :: "net_axis list"
  rep_IPv6 :: "net_axis list"

definition route_word :: "bool \<Rightarrow> u16 \<Rightarrow> net_axis \<Rightarrow> route_st \<Rightarrow> route_st" where
  "route_word ip t w s =
     (if t = ARP_TYPE then s\<lparr> rep_ARP := rep_ARP s @ [w] \<rparr>
      else if t = IPv4_TYPE \<and> ip then s\<lparr> rep_IP := rep_IP s @ [w] \<rparr>
      else if t = IPv6_TYPE \<and> ip then s\<lparr> rep_IPv6 := rep_IPv6 s @ [w] \<rparr>
      else s)"

definition route_by_eth_protocol :: "nat \<Rightarrow> route_st \<Rightarrow> route_st" where
  "route_by_eth_protocol n s =
     (if \<not> rep_fsmState s
      then (case (rep_etherTypeIn s, rep_dataIn s) of
          (t # ts, w # ws) \<Rightarrow>
            (route_word (n > 8) t w (s\<lparr> rep_etherTypeIn := ts, rep_dataIn := ws, rep_etherType := t \<rparr>))
              \<lparr> rep_fsmState := \<not> na_last w \<rparr>
        | _ \<Rightarrow> s)
      else (case rep_dataIn s of
          [] \<Rightarrow> s
        | w # ws \<Rightarrow> (route_word True (rep_etherType s) w (s\<lparr> rep_dataIn := ws \<rparr>))\<lparr> rep_fsmState := \<not> na_last w \<rparr>))"

text \<open>The reports go to two streams: whether the packet is for this host, and its protocol.\<close>

definition extract_ip_meta :: "nat \<Rightarrow> u32 \<Rightarrow> (bool list \<times> u8 list) parse_st \<Rightarrow> (bool list \<times> u8 list) parse_st" where
  "extract_ip_meta n myIpAddress =
     parse_stage n IPV4_HEADER_OCTETS (\<lambda>_ _ _. True)
       (\<lambda>h m. (fst m @ [ip_getDstAddr h = myIpAddress \<or> ip_getDstAddr h = 0xFFFFFFFF], snd m @ [ip_getProtocol h]))"

datatype iid_state = IID_GET_VALID | IID_FWD | IID_DROP

record ip_dropper_st =
  iid_state :: iid_state
  iid_dataIn :: "net_axis list"
  iid_validChecksumIn :: "bool list"
  iid_validIpAddressIn :: "bool list"
  iid_dataOut :: "net_axis list"
  iid_ipv4ValidOut :: "bool list"

definition ip_invalid_dropper :: "ip_dropper_st \<Rightarrow> ip_dropper_st" where
  "ip_invalid_dropper s =
     (case iid_state s of
        IID_GET_VALID \<Rightarrow>
          (case (iid_validChecksumIn s, iid_validIpAddressIn s) of
             (c # cs, a # as) \<Rightarrow>
               s\<lparr> iid_validChecksumIn := cs, iid_validIpAddressIn := as, iid_ipv4ValidOut := iid_ipv4ValidOut s @ [c \<and> a],
                  iid_state := (if c \<and> a then IID_FWD else IID_DROP) \<rparr>
           | _ \<Rightarrow> s)
      | IID_FWD \<Rightarrow>
          (case iid_dataIn s of
             [] \<Rightarrow> s
           | w # ws \<Rightarrow> s\<lparr> iid_dataIn := ws, iid_dataOut := iid_dataOut s @ [w],
                          iid_state := (if na_last w then IID_GET_VALID else IID_FWD) \<rparr>)
      | IID_DROP \<Rightarrow>
          (case iid_dataIn s of
             [] \<Rightarrow> s
           | w # ws \<Rightarrow> s\<lparr> iid_dataIn := ws, iid_state := (if na_last w then IID_GET_VALID else IID_DROP) \<rparr>))"

record cut_st =
  cl_rest :: bool
  cl_dataIn :: "net_axis list"
  cl_dataOut :: "net_axis list"

text \<open>The length of the packet is in octets 2 and 3 of the first word; \<^verbatim>\<open>lenToKeep\<close> takes its lowest six bits.\<close>

definition cut_length :: "cut_st \<Rightarrow> cut_st" where
  "cut_length s =
     (case cl_dataIn s of
        [] \<Rightarrow> s
      | w # ws \<Rightarrow>
          (if cl_rest s
           then s\<lparr> cl_dataIn := ws, cl_dataOut := cl_dataOut s @ [w], cl_rest := \<not> na_last w \<rparr>
           else (let totalLength = ip_getLength (na_data w);
                     w1 = (if na_last w then w\<lparr> na_keep := keep_bits 64 (lenToKeep (ucast totalLength)) \<rparr> else w)
                 in s\<lparr> cl_dataIn := ws, cl_dataOut := cl_dataOut s @ [w1], cl_rest := \<not> na_last w \<rparr>)))"

record dip_st =
  dip_pkg :: bool
  dip_ipProtocol :: u8
  dip_protocolIn :: "u8 list"
  dip_validIn :: "bool list"
  dip_dataIn :: "net_axis list"
  dip_ICMP :: "net_axis list"
  dip_UDP :: "net_axis list"
  dip_TCP :: "net_axis list"

definition detect_ipv4_protocol :: "dip_st \<Rightarrow> dip_st" where
  "detect_ipv4_protocol s =
     (if \<not> dip_pkg s
      then (case (dip_protocolIn s, dip_validIn s) of
          (p # ps, v # vs) \<Rightarrow> s\<lparr> dip_protocolIn := ps, dip_validIn := vs, dip_ipProtocol := p, dip_pkg := v \<rparr>
        | _ \<Rightarrow> s)
      else (case dip_dataIn s of
          [] \<Rightarrow> s
        | w # ws \<Rightarrow>
            (let s1 = s\<lparr> dip_dataIn := ws, dip_pkg := \<not> na_last w \<rparr>; p = dip_ipProtocol s
             in if p = ICMP_PROTO then s1\<lparr> dip_ICMP := dip_ICMP s @ [w] \<rparr>
                else if p = UDP_PROTO then s1\<lparr> dip_UDP := dip_UDP s @ [w] \<rparr>
                else if p = TCP_PROTO then s1\<lparr> dip_TCP := dip_TCP s @ [w] \<rparr>
                else s1)))"

record dip6_st =
  dip6_state :: bool
  dip6_nextHeader :: u8
  dip6_dataIn :: "net_axis list"
  dip6_ICMPv6 :: "net_axis list"
  dip6_UDP :: "net_axis list"

definition detect_ipv6_protocol :: "dip6_st \<Rightarrow> dip6_st" where
  "detect_ipv6_protocol s =
     (case dip6_dataIn s of
        [] \<Rightarrow> s
      | w # ws \<Rightarrow>
          (let nextHeader = (if dip6_state s then dip6_nextHeader s else na_data w ! 6);
               s1 = s\<lparr> dip6_dataIn := ws, dip6_nextHeader := nextHeader, dip6_state := \<not> na_last w \<rparr>
           in if nextHeader = ICMPv6_PROTO then s1\<lparr> dip6_ICMPv6 := dip6_ICMPv6 s @ [w] \<rparr>
              else if nextHeader = UDP_PROTO then s1\<lparr> dip6_UDP := dip6_UDP s @ [w] \<rparr>
              else s1))"

text \<open>The input and the two outputs.\<close>

definition ip_handler_duplicate_stream :: "'a list \<times> 'a list \<times> 'a list \<Rightarrow> 'a list \<times> 'a list \<times> 'a list" where
  "ip_handler_duplicate_stream = (\<lambda>(i, o0, o1). case i of [] \<Rightarrow> (i, o0, o1) | w # ws \<Rightarrow> (ws, o0 @ [w], o1 @ [w]))"

section \<open>The handler\<close>

record ip_handler_st =
  ih_eth :: "u16 list parse_st"
  ih_route :: route_st
  ih_shift4 :: shift_st
  ih_shift6 :: shift_st
  ih_meta :: "(bool list \<times> u8 list) parse_st"
  ih_sums :: ipsum_st
  ih_check :: "u17 list list \<times> bool list"
  ih_drop :: ip_dropper_st
  ih_cut :: cut_st
  ih_proto :: dip_st
  ih_proto6 :: dip6_st
  ih_dup :: "net_axis list \<times> net_axis list \<times> net_axis list"

text \<open>The calls in the order of the code; after each call its output streams are handed to their readers.\<close>

definition ip_handler :: "u32 \<Rightarrow> ip_handler_st \<Rightarrow> ip_handler_st" where
  "ip_handler myIpAddress s =
     (let n = 64; k = ETH_HEADER_OCTETS mod n;
          e = detect_eth_protocol n (ih_eth s);
          r = route_by_eth_protocol n ((ih_route s)\<lparr> rep_etherTypeIn := rep_etherTypeIn (ih_route s) @ par_meta e,
                                                    rep_dataIn := rep_dataIn (ih_route s) @ par_out e \<rparr>);
          h4 = ip_handler_rshiftWordByOctet k ((ih_shift4 s)\<lparr> sh_in := sh_in (ih_shift4 s) @ rep_IP r \<rparr>);
          h6 = ip_handler_rshiftWordByOctet k ((ih_shift6 s)\<lparr> sh_in := sh_in (ih_shift6 s) @ rep_IPv6 r \<rparr>);
          m = extract_ip_meta n myIpAddress ((ih_meta s)\<lparr> par_in := par_in (ih_meta s) @ sh_out h4 \<rparr>);
          c = ip_handler_compute_ipv4_checksum False ((ih_sums s)\<lparr> cics_in := cics_in (ih_sums s) @ par_out m \<rparr>);
          v = ip_handler_check_ipv4_checksum (n div 2) (fst (ih_check s) @ cics_subSums c, snd (ih_check s));
          d = ip_invalid_dropper ((ih_drop s)\<lparr> iid_dataIn := iid_dataIn (ih_drop s) @ cics_out c,
                                               iid_validChecksumIn := iid_validChecksumIn (ih_drop s) @ snd v,
                                               iid_validIpAddressIn := iid_validIpAddressIn (ih_drop s) @ fst (par_meta m) \<rparr>);
          l = cut_length ((ih_cut s)\<lparr> cl_dataIn := cl_dataIn (ih_cut s) @ iid_dataOut d \<rparr>);
          p = detect_ipv4_protocol ((ih_proto s)\<lparr> dip_protocolIn := dip_protocolIn (ih_proto s) @ snd (par_meta m),
                                                  dip_validIn := dip_validIn (ih_proto s) @ iid_ipv4ValidOut d,
                                                  dip_dataIn := dip_dataIn (ih_proto s) @ cl_dataOut l \<rparr>);
          p6 = detect_ipv6_protocol ((ih_proto6 s)\<lparr> dip6_dataIn := dip6_dataIn (ih_proto6 s) @ sh_out h6 \<rparr>);
          u = ip_handler_duplicate_stream (fst (ih_dup s) @ dip_UDP p, snd (ih_dup s))
      in \<lparr> ih_eth = e\<lparr> par_out := [], par_meta := [] \<rparr>, ih_route = r\<lparr> rep_IP := [], rep_IPv6 := [] \<rparr>,
           ih_shift4 = h4\<lparr> sh_out := [] \<rparr>, ih_shift6 = h6\<lparr> sh_out := [] \<rparr>, ih_meta = m\<lparr> par_out := [], par_meta := ([], []) \<rparr>,
           ih_sums = c\<lparr> cics_out := [], cics_subSums := [] \<rparr>, ih_check = (fst v, []),
           ih_drop = d\<lparr> iid_dataOut := [], iid_ipv4ValidOut := [] \<rparr>, ih_cut = l\<lparr> cl_dataOut := [] \<rparr>,
           ih_proto = p\<lparr> dip_UDP := [] \<rparr>, ih_proto6 = p6, ih_dup = u \<rparr>)"

section \<open>Runs of the stages over a packet\<close>

text \<open>What is delivered when \<open>c\<close> holds.\<close>

definition sel :: "bool \<Rightarrow> 'a list \<Rightarrow> 'a list" where "sel c ws = (if c then ws else [])"

lemma sel_simps [simp]: "sel True ws = ws" "sel False ws = []" "sel c [] = []"
  by (simp_all add: sel_def)

lemma sel_Cons: "sel c (w # ws) = sel c [w] @ sel c ws"
  by (simp add: sel_def)

lemma route_word_sel:
  "route_word True t w s = s\<lparr> rep_ARP := rep_ARP s @ sel (t = ARP_TYPE) [w], rep_IP := rep_IP s @ sel (t = IPv4_TYPE) [w],
     rep_IPv6 := rep_IPv6 s @ sel (t = IPv6_TYPE) [w] \<rparr>"
  by (simp add: route_word_def sel_def ARP_TYPE_def IPv4_TYPE_def IPv6_TYPE_def)

lemma route_rest:
  assumes "packed n ws bs" and "rep_fsmState s" and "rep_dataIn s = ws" and "rep_etherType s = t"
  shows "(route_by_eth_protocol k ^^ length ws) s = s\<lparr> rep_fsmState := False, rep_dataIn := [],
     rep_ARP := rep_ARP s @ sel (t = ARP_TYPE) ws, rep_IP := rep_IP s @ sel (t = IPv4_TYPE) ws,
     rep_IPv6 := rep_IPv6 s @ sel (t = IPv6_TYPE) ws \<rparr>"
  using assms
proof (induction arbitrary: s rule: packed.induct)
  case (packed_word d ws bs)
  let ?t = "route_by_eth_protocol k s" and ?w = "\<lparr> na_data = d, na_keep = keep_of n n, na_last = False \<rparr>"
  have "?t = s\<lparr> rep_dataIn := ws, rep_ARP := rep_ARP s @ sel (t = ARP_TYPE) [?w], rep_IP := rep_IP s @ sel (t = IPv4_TYPE) [?w],
      rep_IPv6 := rep_IPv6 s @ sel (t = IPv6_TYPE) [?w] \<rparr>"
    using packed_word.prems by (simp add: route_by_eth_protocol_def route_word_sel)
  with packed_word.IH [of ?t] packed_word.prems show ?case by (simp add: funpow_swap1 sel_Cons [of _ ?w ws])
qed (simp add: route_by_eth_protocol_def route_word_sel)

lemma route_settles:
  assumes "packed n ws bs" and "8 < k" and "\<not> rep_fsmState s" and "rep_dataIn s = ws" and "rep_etherTypeIn s = [t]"
  shows "settles (route_by_eth_protocol k) s (s\<lparr> rep_etherType := t, rep_etherTypeIn := [], rep_dataIn := [],
     rep_ARP := rep_ARP s @ sel (t = ARP_TYPE) ws, rep_IP := rep_IP s @ sel (t = IPv4_TYPE) ws,
     rep_IPv6 := rep_IPv6 s @ sel (t = IPv6_TYPE) ws \<rparr>)"
proof (rule settlesI)
  obtain w us where ws: "ws = w # us" using packed_Cons [OF assms(1)] by blast
  let ?t = "route_by_eth_protocol k s"
  have t: "?t = s\<lparr> rep_etherType := t, rep_etherTypeIn := [], rep_dataIn := us, rep_fsmState := \<not> na_last w,
      rep_ARP := rep_ARP s @ sel (t = ARP_TYPE) [w], rep_IP := rep_IP s @ sel (t = IPv4_TYPE) [w],
      rep_IPv6 := rep_IPv6 s @ sel (t = IPv6_TYPE) [w] \<rparr>"
    using assms(2-5) ws by (simp add: route_by_eth_protocol_def route_word_sel)
  show "(route_by_eth_protocol k ^^ length ws) s = s\<lparr> rep_etherType := t, rep_etherTypeIn := [], rep_dataIn := [],
     rep_ARP := rep_ARP s @ sel (t = ARP_TYPE) ws, rep_IP := rep_IP s @ sel (t = IPv4_TYPE) ws,
     rep_IPv6 := rep_IPv6 s @ sel (t = IPv6_TYPE) ws \<rparr>"
    using assms(1)
  proof (cases rule: packed_cases)
    case (one d j)
    with ws have "na_last w" "us = []" by auto
    with t ws assms(3) show ?thesis by simp
  next
    case (more d us' cs)
    with ws have "packed n us cs" "\<not> na_last w" by auto
    with route_rest [of n us cs ?t t k] t ws assms(3) show ?thesis by (simp add: funpow_swap1 sel_Cons [of _ w us])
  qed
qed (use assms(3) in \<open>simp add: route_by_eth_protocol_def\<close>)

lemma dropper_body:
  assumes "packed n ws bs" and "iid_state s = (if v then IID_FWD else IID_DROP)" and "iid_dataIn s = ws"
  shows "(ip_invalid_dropper ^^ length ws) s =
    s\<lparr> iid_state := IID_GET_VALID, iid_dataIn := [], iid_dataOut := iid_dataOut s @ sel v ws \<rparr>"
  using assms
proof (induction arbitrary: s rule: packed.induct)
  case (packed_word d ws bs)
  let ?t = "ip_invalid_dropper s" and ?w = "\<lparr> na_data = d, na_keep = keep_of n n, na_last = False \<rparr>"
  have "?t = s\<lparr> iid_dataIn := ws, iid_dataOut := iid_dataOut s @ sel v [?w] \<rparr>"
    using packed_word.prems by (cases v) (simp_all add: ip_invalid_dropper_def)
  with packed_word.IH [of ?t] packed_word.prems show ?case by (simp add: funpow_swap1 sel_Cons [of _ ?w ws])
next
  case (packed_end d k)
  then show ?case by (cases v) (simp_all add: ip_invalid_dropper_def)
qed

lemma dropper_settles:
  assumes "packed n ws bs" and "iid_state s = IID_GET_VALID" and "iid_dataIn s = ws"
    and "iid_validChecksumIn s = [c]" and "iid_validIpAddressIn s = [a]"
  shows "settles ip_invalid_dropper s (s\<lparr> iid_dataIn := [], iid_validChecksumIn := [], iid_validIpAddressIn := [],
    iid_dataOut := iid_dataOut s @ sel (c \<and> a) ws, iid_ipv4ValidOut := iid_ipv4ValidOut s @ [c \<and> a] \<rparr>)"
proof (rule settlesI)
  let ?t = "ip_invalid_dropper s"
  have t: "?t = s\<lparr> iid_validChecksumIn := [], iid_validIpAddressIn := [], iid_ipv4ValidOut := iid_ipv4ValidOut s @ [c \<and> a],
      iid_state := (if c \<and> a then IID_FWD else IID_DROP) \<rparr>"
    using assms(2-5) by (simp add: ip_invalid_dropper_def)
  with dropper_body [OF assms(1), of ?t "c \<and> a"] assms
  show "(ip_invalid_dropper ^^ Suc (length ws)) s = s\<lparr> iid_dataIn := [], iid_validChecksumIn := [], iid_validIpAddressIn := [],
    iid_dataOut := iid_dataOut s @ sel (c \<and> a) ws, iid_ipv4ValidOut := iid_ipv4ValidOut s @ [c \<and> a] \<rparr>"
    by (simp add: funpow_swap1)
qed (use assms(2) in \<open>simp add: ip_invalid_dropper_def\<close>)

text \<open>The octets of a packet after the cut: only a packet of one word is cut.\<close>

definition cut_octets :: "u8 list \<Rightarrow> u8 list" where
  "cut_octets bs = (if length bs \<le> 64 then take (unat (ip_getLength bs)) bs else bs)"

lemma ip_getLength_prefix: "4 \<le> k \<Longrightarrow> ip_getLength (take k d) = ip_getLength d"
  by (simp add: ip_getLength_def get_field_def drop_take min_def)

lemma cut_rest:
  assumes "packed n ws bs" and "cl_rest s" and "cl_dataIn s = ws"
  shows "(cut_length ^^ length ws) s = s\<lparr> cl_rest := False, cl_dataIn := [], cl_dataOut := cl_dataOut s @ ws \<rparr>"
  using assms
proof (induction arbitrary: s rule: packed.induct)
  case (packed_word d ws bs)
  let ?t = "cut_length s" and ?w = "\<lparr> na_data = d, na_keep = keep_of n n, na_last = False \<rparr>"
  have "?t = s\<lparr> cl_dataIn := ws, cl_dataOut := cl_dataOut s @ [?w] \<rparr>"
    using packed_word.prems by (simp add: cut_length_def)
  with packed_word.IH [of ?t] packed_word.prems show ?case by (simp add: funpow_swap1)
qed (simp add: cut_length_def)

lemma keep_bits_len:
  assumes "0 < k" and "k \<le> 64"
  shows "keep_bits 64 (lenToKeep (of_nat k)) = keep_of 64 k"
proof (cases "k = 64")
  case True
  then show ?thesis by (intro keep_of_eqI) (simp_all add: keep_bits_def lenToKeep_def bit_simps)
qed (use assms keep_bits_lenToKeep [of k 64] in simp)

lemma cut_settles:
  assumes "packed 64 ws bs" and "\<not> cl_rest s" and "cl_dataIn s = ws" and "4 \<le> length bs" and "cl_dataOut s = []"
    and "0 < unat (ip_getLength bs)" and "length bs \<le> 64 \<longrightarrow> unat (ip_getLength bs) \<le> length bs"
  shows "\<exists>out. settles cut_length s (s\<lparr> cl_dataIn := [], cl_dataOut := out \<rparr>) \<and> packed 64 out (cut_octets bs)"
  using assms(1)
proof (cases rule: packed_cases)
  case (one d j)
  let ?L = "unat (ip_getLength bs)"
  let ?w = "\<lparr> na_data = d, na_keep = keep_of 64 ?L, na_last = True \<rparr>"
  have j: "4 \<le> j" "ip_getLength bs = ip_getLength d" "?L \<le> j" "j \<le> 64"
    using one assms(4,7) by (auto simp: ip_getLength_prefix)
  have "(ucast (ip_getLength d) :: u6) = of_nat ?L" using j(2) by simp
  then have "keep_bits 64 (lenToKeep (ucast (ip_getLength d))) = keep_of 64 ?L"
    using keep_bits_len [OF assms(6)] j(3,4) by (metis order_trans)
  then have "cut_length s = s\<lparr> cl_dataIn := [], cl_dataOut := [?w] \<rparr>"
    using one(1) assms(2,3,5) by (simp add: cut_length_def Let_def)
  moreover have "packed 64 [?w] (cut_octets bs)"
    using one j assms(6) by (intro packed_end') (simp_all add: cut_octets_def min_def)
  ultimately show ?thesis
    by (intro exI [of _ "[?w]"] conjI settlesI [where k = 1]) (simp_all add: cut_length_def)
next
  case (more d us cs)
  let ?w = "\<lparr> na_data = d, na_keep = keep_of 64 64, na_last = False \<rparr>" and ?t = "cut_length s"
  have "?t = s\<lparr> cl_dataIn := us, cl_dataOut := [?w], cl_rest := True \<rparr>"
    using more assms(2,3,5) by (simp add: cut_length_def Let_def)
  with cut_rest [OF more(4), of ?t] have "(cut_length ^^ Suc (length us)) s = s\<lparr> cl_dataIn := [], cl_dataOut := ws \<rparr>"
    using more assms(2) by (simp add: funpow_swap1)
  moreover have "cs \<noteq> []" using packed_length [OF more(4)] by auto
  then have "cut_octets bs = bs" using more by (simp add: cut_octets_def)
  ultimately show ?thesis using assms(1)
    by (intro exI [of _ ws] conjI settlesI [where k = "Suc (length us)"]) (simp_all add: cut_length_def)
qed

lemma dip_body:
  assumes "packed n ws bs" and "dip_pkg s" and "dip_dataIn s = ws" and "dip_ipProtocol s = p"
  shows "(detect_ipv4_protocol ^^ length ws) s = s\<lparr> dip_pkg := False, dip_dataIn := [],
    dip_ICMP := dip_ICMP s @ sel (p = ICMP_PROTO) ws, dip_UDP := dip_UDP s @ sel (p = UDP_PROTO) ws,
    dip_TCP := dip_TCP s @ sel (p = TCP_PROTO) ws \<rparr>"
  using assms
proof (induction arbitrary: s rule: packed.induct)
  case (packed_word d ws bs)
  let ?t = "detect_ipv4_protocol s" and ?w = "\<lparr> na_data = d, na_keep = keep_of n n, na_last = False \<rparr>"
  have "?t = s\<lparr> dip_dataIn := ws, dip_ICMP := dip_ICMP s @ sel (p = ICMP_PROTO) [?w],
      dip_UDP := dip_UDP s @ sel (p = UDP_PROTO) [?w], dip_TCP := dip_TCP s @ sel (p = TCP_PROTO) [?w] \<rparr>"
    using packed_word.prems by (auto simp: detect_ipv4_protocol_def sel_def ICMP_PROTO_def UDP_PROTO_def TCP_PROTO_def Let_def)
  with packed_word.IH [of ?t] packed_word.prems show ?case by (simp add: funpow_swap1 sel_Cons [of _ ?w ws])
qed (auto simp: detect_ipv4_protocol_def sel_def ICMP_PROTO_def UDP_PROTO_def TCP_PROTO_def Let_def)

lemma dip_settles:
  assumes "if v then packed n ws bs else ws = []" and "\<not> dip_pkg s" and "dip_dataIn s = ws" and "dip_protocolIn s = [p]" and "dip_validIn s = [v]"
  shows "settles detect_ipv4_protocol s (s\<lparr> dip_ipProtocol := p, dip_protocolIn := [], dip_validIn := [], dip_dataIn := [],
    dip_ICMP := dip_ICMP s @ sel (p = ICMP_PROTO) ws, dip_UDP := dip_UDP s @ sel (p = UDP_PROTO) ws,
    dip_TCP := dip_TCP s @ sel (p = TCP_PROTO) ws \<rparr>)"
proof (rule settlesI)
  let ?t = "detect_ipv4_protocol s"
  have t: "?t = s\<lparr> dip_ipProtocol := p, dip_protocolIn := [], dip_validIn := [], dip_pkg := v \<rparr>"
    using assms(2-5) by (simp add: detect_ipv4_protocol_def)
  show "(detect_ipv4_protocol ^^ Suc (length ws)) s = s\<lparr> dip_ipProtocol := p, dip_protocolIn := [], dip_validIn := [], dip_dataIn := [],
    dip_ICMP := dip_ICMP s @ sel (p = ICMP_PROTO) ws, dip_UDP := dip_UDP s @ sel (p = UDP_PROTO) ws,
    dip_TCP := dip_TCP s @ sel (p = TCP_PROTO) ws \<rparr>"
    using dip_body [of n ws bs ?t p] t assms by (cases v) (simp_all add: funpow_swap1)
qed (use assms(2) in \<open>simp add: detect_ipv4_protocol_def\<close>)

section \<open>What becomes of a frame\<close>

text \<open>Stages with nothing under way; the header registers hold arbitrary octets, and so does the last word of the shift.\<close>

definition parse_start :: "'x \<Rightarrow> net_axis list \<Rightarrow> u8 list \<Rightarrow> 'x parse_st" where
  "parse_start m ws h = \<lparr> par_header = \<lparr> ph_ready = False, ph_idx = 0, ph_header = h \<rparr>, par_metaWritten = False,
     par_in = ws, par_out = [], par_meta = m \<rparr>"

definition route_start :: "u16 list \<Rightarrow> net_axis list \<Rightarrow> route_st" where
  "route_start ts ws = \<lparr> rep_fsmState = False, rep_etherType = 0, rep_etherTypeIn = ts, rep_dataIn = ws, rep_ARP = [],
     rep_IP = [], rep_IPv6 = [] \<rparr>"

definition shift_start :: "bool \<Rightarrow> net_axis list \<Rightarrow> net_axis \<Rightarrow> shift_st" where
  "shift_start b ws p = \<lparr> sh_first = b, sh_remainder = False, sh_prev = p, sh_in = ws, sh_out = [] \<rparr>"

definition ipsum_start :: "net_axis list \<Rightarrow> ipsum_st" where
  "ipsum_start ws = \<lparr> cics_ip_sums = replicate 32 0, cics_ipHeaderLen = 0, cics_firstWord = True, cics_in = ws, cics_out = [],
     cics_subSums = [] \<rparr>"

definition ip_dropper_start :: "net_axis list \<Rightarrow> bool list \<Rightarrow> bool list \<Rightarrow> ip_dropper_st" where
  "ip_dropper_start ws cs as = \<lparr> iid_state = IID_GET_VALID, iid_dataIn = ws, iid_validChecksumIn = cs, iid_validIpAddressIn = as,
     iid_dataOut = [], iid_ipv4ValidOut = [] \<rparr>"

definition cut_start :: "net_axis list \<Rightarrow> cut_st" where
  "cut_start ws = \<lparr> cl_rest = False, cl_dataIn = ws, cl_dataOut = [] \<rparr>"

definition dip_start :: "u8 list \<Rightarrow> bool list \<Rightarrow> net_axis list \<Rightarrow> dip_st" where
  "dip_start ps vs ws = \<lparr> dip_pkg = False, dip_ipProtocol = 0, dip_protocolIn = ps, dip_validIn = vs, dip_dataIn = ws,
     dip_ICMP = [], dip_UDP = [], dip_TCP = [] \<rparr>"

text \<open>The outputs of the handler for the words of its input: every stage is run to its end on what the stages before it have
  written.\<close>

definition ip_stages :: "u32 \<Rightarrow> u8 list \<Rightarrow> net_axis \<Rightarrow> net_axis list \<Rightarrow> dip_st \<Rightarrow> bool" where
  "ip_stages my h p0 ws p \<longleftrightarrow> (\<exists>r m c v d l.
     settles (ip_handler_rshiftWordByOctet ETH_HEADER_OCTETS) (shift_start True ws p0) r
     \<and> settles (extract_ip_meta 64 my) (parse_start ([], []) (sh_out r) h) m
     \<and> settles (ip_handler_compute_ipv4_checksum False) (ipsum_start (par_out m)) c
     \<and> settles (ip_handler_check_ipv4_checksum 32) (cics_subSums c, []) v
     \<and> settles ip_invalid_dropper (ip_dropper_start (cics_out c) (snd v) (fst (par_meta m))) d
     \<and> settles cut_length (cut_start (iid_dataOut d)) l
     \<and> settles detect_ipv4_protocol (dip_start (snd (par_meta m)) (iid_ipv4ValidOut d) (cl_dataOut l)) p)"

text \<open>An IPv4 packet is accepted when the one's complement sum of its header is all ones and it is addressed to the host or to all.\<close>

definition ip_accepted :: "u32 \<Rightarrow> u8 list \<Rightarrow> bool" where
  "ip_accepted my b \<longleftrightarrow> 0 < be_sum (ip_head b) \<and> 65535 dvd be_sum (ip_head b) \<and> (ip_getDstAddr b = my \<or> ip_getDstAddr b = 0xFFFFFFFF)"

definition ip_complete :: "u8 list \<Rightarrow> bool" where
  "ip_complete b \<longleftrightarrow> 20 < length b \<and> 4 * unat (ip_len b) \<le> length b \<and> 0 < unat (ip_getLength b)
     \<and> (length b \<le> 64 \<longrightarrow> unat (ip_getLength b) \<le> length b)"

lemma first_word:
  assumes "packed n ws b"
  shows "take (min n (length b)) (na_data (hd ws)) = take n b" and "length (na_data (hd ws)) = n"
  using assms by (cases rule: packed_cases; auto simp: min_def)+

lemma get_field_take: "i + LENGTH('a) div 8 \<le> k \<Longrightarrow> (get_field i (take k h) :: 'a::len word) = get_field i h"
  by (simp add: get_field_def drop_take min_def)

lemma head_of_word:
  assumes "packed 64 ws b" and "0 < length b" and "4 * unat (ip_len b) \<le> length b"
  shows "ip_len (na_data (hd ws)) = ip_len b" and "ip_head (na_data (hd ws)) = ip_head b"
proof -
  let ?d = "na_data (hd ws)"
  note f = first_word [OF assms(1)]
  have "?d ! 0 = b ! 0" using f assms(2) by (metis min_less_iff_conj nth_take zero_less_numeral)
  then show len: "ip_len ?d = ip_len b" by (simp add: ip_len_def)
  have "take (4 * unat (ip_len b)) ?d = take (4 * unat (ip_len b)) (take (min 64 (length b)) ?d)"
    using ip_len_le [of b] assms(3) by (simp add: min_def)
  also have "\<dots> = take (4 * unat (ip_len b)) b" using f ip_len_le [of b] by (simp add: min_def)
  finally show "ip_head ?d = ip_head b" by (simp add: ip_head_def len)
qed

lemma ip_stages_packet:
  assumes "packed 64 ws (e @ b)" and "length e = ETH_HEADER_OCTETS" and "ip_complete b" and "length h = IPV4_HEADER_OCTETS"
  shows "\<exists>p out. ip_stages my h p0 ws p
    \<and> dip_ICMP p = sel (ip_accepted my b \<and> ip_getProtocol b = ICMP_PROTO) out
    \<and> dip_UDP p = sel (ip_accepted my b \<and> ip_getProtocol b = UDP_PROTO) out
    \<and> dip_TCP p = sel (ip_accepted my b \<and> ip_getProtocol b = TCP_PROTO) out
    \<and> packed 64 out (cut_octets b)"
proof -
  let ?H = IPV4_HEADER_OCTETS
  have c: "20 < length b" "4 * unat (ip_len b) \<le> length b" "0 < unat (ip_getLength b)"
    "length b \<le> 64 \<longrightarrow> unat (ip_getLength b) \<le> length b" using assms(3) by (simp_all add: ip_complete_def)
  have ne: "b \<noteq> []" using c(1) by auto
  obtain r out where r: "settles (rshiftWordByOctet ETH_HEADER_OCTETS) (shift_start True ws p0) r"
    "sh_out r = out" "packed 64 out b"
    using rshift_settles [OF assms(1), of ETH_HEADER_OCTETS "shift_start True ws p0"] assms(2) ne
    by (auto simp: ETH_HEADER_OCTETS_def shift_start_def shifted_def)
  obtain hs bs where hb: "b = hs @ bs" "length hs = ?H" "bs \<noteq> []"
    using c(1) by (metis IPV4_HEADER_OCTETS_def append_Nil2 append_take_drop_id length_take linorder_not_less min.absorb4 nat_less_le)
  let ?ok = "ip_getDstAddr b = my \<or> ip_getDstAddr b = 0xFFFFFFFF" and ?pr = "ip_getProtocol b"
  have hs: "ip_getDstAddr hs = ip_getDstAddr b" "ip_getProtocol hs = ?pr"
    using hb(1,2) get_field_take [of 16 20 b, where 'a = 32] get_field_take [of 9 20 b, where 'a = 8]
    by (simp_all add: ip_getDstAddr_def ip_getProtocol_def IPV4_HEADER_OCTETS_def)
  let ?mz = "parse_start ([], []) out h" and ?hd = "\<lparr> ph_ready = False, ph_idx = 0, ph_header = hs \<rparr>"
  have m: "settles (extract_ip_meta 64 my) ?mz
      (?mz\<lparr> par_header := ?hd, par_metaWritten := False, par_in := [], par_out := out, par_meta := ([?ok], [?pr]) \<rparr>)"
    (is "settles _ _ ?m")
    using parse_pass_settles [of 64 out hs bs ?H ?mz "\<lambda>h m. (fst m @ [ip_getDstAddr h = my \<or> ip_getDstAddr h = 0xFFFFFFFF], snd m @ [ip_getProtocol h])"]
      r(3) hb hs assms(4) by (simp add: extract_ip_meta_def parse_start_def IPV4_HEADER_OCTETS_def)
  let ?d = "na_data (hd out)"
  obtain sums vs where s: "(compute_ipv4_checksum False ^^ length out) (ipsum_start out) =
      (ipsum_start out)\<lparr> cics_in := [], cics_out := out, cics_ipHeaderLen := ip_len ?d, cics_subSums := [sums] \<rparr>"
    "lanes_hold sums vs" "length vs = 32" "sum_list vs = be_sum (summed_head False ?d)"
    using ipsum_packet [OF r(3), of "ipsum_start out" "[]" ?d False] by (auto simp: ipsum_start_def)
  let ?c = "(ipsum_start out)\<lparr> cics_in := [], cics_out := out, cics_ipHeaderLen := ip_len ?d, cics_subSums := [sums] \<rparr>"
  have cs: "settles (compute_ipv4_checksum False) (ipsum_start out) ?c"
    by (rule settlesI [OF s(1)]) (simp add: compute_ipv4_checksum_def)
  have "sum_list vs = be_sum (ip_head b)" using s(4) head_of_word [OF r(3)] c ne by (simp add: summed_head_def)
  then have v: "settles (toe_check_ipv4_checksum 32) ([sums], []) ([], [0 < be_sum (ip_head b) \<and> 65535 dvd be_sum (ip_head b)])"
    using check_value [OF s(2,3), of "[]" "[]"]
    by (intro settlesI [where k = 1]) (simp_all add: toe_check_ipv4_checksum_def)
  let ?v = "0 < be_sum (ip_head b) \<and> 65535 dvd be_sum (ip_head b)"
  have acc: "ip_accepted my b = (?v \<and> ?ok)" by (simp add: ip_accepted_def)
  let ?dz = "ip_dropper_start out [?v] [?ok]"
  let ?D = "?dz\<lparr> iid_dataIn := [], iid_validChecksumIn := [], iid_validIpAddressIn := [],
    iid_dataOut := sel (ip_accepted my b) out, iid_ipv4ValidOut := [ip_accepted my b] \<rparr>"
  have d: "settles ip_invalid_dropper ?dz ?D"
    using dropper_settles [OF r(3), of ?dz ?v ?ok] unfolding acc by (simp add: ip_dropper_start_def)
  have "\<exists>l o'. settles cut_length (cut_start (sel (ip_accepted my b) out)) l \<and> cl_dataOut l = sel (ip_accepted my b) o' \<and> packed 64 o' (cut_octets b)"
  proof -
    obtain o' where "settles cut_length (cut_start out) ((cut_start out)\<lparr> cl_dataIn := [], cl_dataOut := o' \<rparr>)" "packed 64 o' (cut_octets b)"
      using cut_settles [OF r(3), of "cut_start out"] c by (auto simp: cut_start_def)
    moreover have "settles cut_length (cut_start []) (cut_start [])"
      by (intro settlesI [where k = 0]) (simp_all add: cut_start_def cut_length_def)
    moreover have "cl_dataOut (cut_start []) = []" by (simp add: cut_start_def)
    ultimately show ?thesis by (cases "ip_accepted my b") force+
  qed
  then obtain l o' where l: "settles cut_length (cut_start (sel (ip_accepted my b) out)) l" "cl_dataOut l = sel (ip_accepted my b) o'"
    "packed 64 o' (cut_octets b)" by blast
  let ?pz = "dip_start [?pr] [ip_accepted my b] (sel (ip_accepted my b) o')"
  let ?P = "?pz\<lparr> dip_ipProtocol := ?pr, dip_protocolIn := [], dip_validIn := [], dip_dataIn := [],
    dip_ICMP := sel (?pr = ICMP_PROTO) (dip_dataIn ?pz), dip_UDP := sel (?pr = UDP_PROTO) (dip_dataIn ?pz),
    dip_TCP := sel (?pr = TCP_PROTO) (dip_dataIn ?pz) \<rparr>"
  have p: "settles detect_ipv4_protocol ?pz ?P"
    using dip_settles [of "ip_accepted my b" 64 "dip_dataIn ?pz" "cut_octets b" ?pz ?pr] l(3) by (simp add: dip_start_def)
  have "ip_stages my h p0 ws ?P"
    unfolding ip_stages_def ip_handler_rshiftWordByOctet_def ip_handler_compute_ipv4_checksum_def ip_handler_check_ipv4_checksum_def
    by (rule exI [of _ r], rule exI [of _ ?m], rule exI [of _ ?c],
        rule exI [of _ "([], [?v])"], rule exI [of _ ?D], rule exI [of _ l])
       (use r(1,2) m cs v d l(1,2) p in simp)
  then show ?thesis using l(3)
    by (intro exI [of _ ?P] exI [of _ o']) (auto simp: dip_start_def sel_def)
qed

lemma ip_stages_idle:
  "\<exists>p. ip_stages my h pz [] p \<and> dip_ICMP p = [] \<and> dip_UDP p = [] \<and> dip_TCP p = []"
proof (intro exI conjI)
  show "ip_stages my h pz [] (dip_start [] [] [])"
    unfolding ip_stages_def
  proof (intro exI conjI)
    show "settles (ip_handler_rshiftWordByOctet ETH_HEADER_OCTETS) (shift_start True [] pz) (shift_start True [] pz)"
      by (rule settlesI [where k = 0]) (simp_all add: ip_handler_rshiftWordByOctet_def rshiftWordByOctet_def shift_start_def)
    show "settles (extract_ip_meta 64 my) (parse_start ([], []) (sh_out (shift_start True [] pz)) h) (parse_start ([], []) [] h)"
      by (rule settlesI [where k = 0]) (simp_all add: extract_ip_meta_def parse_stage_def parse_start_def shift_start_def)
    show "settles (ip_handler_compute_ipv4_checksum False) (ipsum_start (par_out (parse_start ([], []) [] h))) (ipsum_start [])"
      by (rule settlesI [where k = 0])
         (simp_all add: ip_handler_compute_ipv4_checksum_def compute_ipv4_checksum_def ipsum_start_def parse_start_def)
    show "settles (ip_handler_check_ipv4_checksum 32) (cics_subSums (ipsum_start []), []) ([], [])"
      by (rule settlesI [where k = 0]) (simp_all add: ip_handler_check_ipv4_checksum_def toe_check_ipv4_checksum_def ipsum_start_def)
    show "settles ip_invalid_dropper (ip_dropper_start (cics_out (ipsum_start [])) (snd ([], [])) (fst (par_meta (parse_start ([], []) [] h))))
        (ip_dropper_start [] [] [])"
      by (rule settlesI [where k = 0]) (simp_all add: ip_invalid_dropper_def ip_dropper_start_def ipsum_start_def parse_start_def)
    show "settles cut_length (cut_start (iid_dataOut (ip_dropper_start [] [] []))) (cut_start [])"
      by (rule settlesI [where k = 0]) (simp_all add: cut_length_def cut_start_def ip_dropper_start_def)
    show "settles detect_ipv4_protocol (dip_start (snd (par_meta (parse_start ([], []) [] h))) (iid_ipv4ValidOut (ip_dropper_start [] [] []))
        (cl_dataOut (cut_start []))) (dip_start [] [] [])"
      by (rule settlesI [where k = 0])
         (simp_all add: detect_ipv4_protocol_def dip_start_def parse_start_def ip_dropper_start_def cut_start_def)
  qed
qed (simp_all add: dip_start_def)

definition handler_stages :: "u32 \<Rightarrow> u8 list \<Rightarrow> u8 list \<Rightarrow> net_axis \<Rightarrow> net_axis list \<Rightarrow> route_st \<Rightarrow> dip_st \<Rightarrow> bool" where
  "handler_stages my he hi pz ws r p \<longleftrightarrow> (\<exists>e.
     settles (detect_eth_protocol 64) (parse_start [] ws he) e
     \<and> settles (route_by_eth_protocol 64) (route_start (par_meta e) (par_out e)) r
     \<and> ip_stages my hi pz (rep_IP r) p)"

lemma handler_stages_frame:
  assumes "packed 64 ws (e @ b)" and "length e = ETH_HEADER_OCTETS" and "b \<noteq> []" and "t = eth_getEthertype e"
    and "t = IPv4_TYPE \<longrightarrow> ip_complete b" and "length he = ETH_HEADER_OCTETS" and "length hi = IPV4_HEADER_OCTETS"
  shows "\<exists>r p out. handler_stages my he hi pz ws r p
    \<and> rep_ARP r = sel (t = ARP_TYPE) ws \<and> rep_IPv6 r = sel (t = IPv6_TYPE) ws
    \<and> dip_ICMP p = sel (t = IPv4_TYPE \<and> ip_accepted my b \<and> ip_getProtocol b = ICMP_PROTO) out
    \<and> dip_UDP p = sel (t = IPv4_TYPE \<and> ip_accepted my b \<and> ip_getProtocol b = UDP_PROTO) out
    \<and> dip_TCP p = sel (t = IPv4_TYPE \<and> ip_accepted my b \<and> ip_getProtocol b = TCP_PROTO) out
    \<and> (t = IPv4_TYPE \<longrightarrow> packed 64 out (cut_octets b))"
proof -
  let ?ez = "parse_start [] ws he"
  let ?e = "?ez\<lparr> par_header := \<lparr> ph_ready = False, ph_idx = 0, ph_header = e \<rparr>, par_metaWritten := False, par_in := [],
      par_out := ws, par_meta := [t] \<rparr>"
  have e: "settles (detect_eth_protocol 64) ?ez ?e"
    using parse_pass_settles [OF assms(1,2) _ assms(3), of ?ez "\<lambda>h ts. ts @ [eth_getEthertype h]"] assms(4,6)
    by (simp add: detect_eth_protocol_def parse_start_def ETH_HEADER_OCTETS_def)
  let ?r = "(route_start [t] ws)\<lparr> rep_etherType := t, rep_etherTypeIn := [], rep_dataIn := [],
      rep_ARP := sel (t = ARP_TYPE) ws, rep_IP := sel (t = IPv4_TYPE) ws, rep_IPv6 := sel (t = IPv6_TYPE) ws \<rparr>"
  have r: "settles (route_by_eth_protocol 64) (route_start [t] ws) ?r"
    using route_settles [OF assms(1), of 64 "route_start [t] ws" t] by (simp add: route_start_def)
  have stages: "handler_stages my he hi pz ws ?r p" if "ip_stages my hi pz (sel (t = IPv4_TYPE) ws) p" for p
    unfolding handler_stages_def by (rule exI [of _ ?e]) (use e r that in simp)
  show ?thesis
  proof (cases "t = IPv4_TYPE")
    case True
    then obtain p out where p: "ip_stages my hi pz ws p" "packed 64 out (cut_octets b)"
      "dip_ICMP p = sel (ip_accepted my b \<and> ip_getProtocol b = ICMP_PROTO) out"
      "dip_UDP p = sel (ip_accepted my b \<and> ip_getProtocol b = UDP_PROTO) out"
      "dip_TCP p = sel (ip_accepted my b \<and> ip_getProtocol b = TCP_PROTO) out"
      using ip_stages_packet [OF assms(1,2) _ assms(7), of my pz] assms(5) by blast
    with stages [of p] True show ?thesis by (intro exI [of _ ?r] exI [of _ p] exI [of _ out]) simp
  next
    case False
    obtain p where "ip_stages my hi pz [] p" "dip_ICMP p = []" "dip_UDP p = []" "dip_TCP p = []"
      using ip_stages_idle by blast
    with stages [of p] False show ?thesis by (intro exI [of _ ?r] exI [of _ p] exI [of _ "[]"]) simp
  qed
qed



end
