(* ===== verification/Mac_Ip_Encode.thy ===== *)
theory Mac_Ip_Encode
  imports Ip_Handler
begin

text \<open>
  The encoder of frames, \<^verbatim>\<open>mac_ip_encode/mac_ip_encode.cpp\<close>: it asks for the address of the next hop, fills in the checksum
  of the IPv4 header and puts the Ethernet header in front of the packet, or drops the packet when the next
  hop is not known.  \<open>mac_ip_encode\<close> invokes the stages in the order of the code.

  The theorem joins it to the handler of the receiving host: a packet that is sent arrives at the
  output of its protocol, with the checksum filled in and otherwise unchanged.
\<close>

section \<open>The stages\<close>

record arpTableReply =
  atr_macAddress :: "48 word"
  atr_hit :: bool

text \<open>The address to ask for: the destination itself in the own subnet, else the gateway.\<close>

definition next_hop :: "u32 \<Rightarrow> u32 \<Rightarrow> u32 \<Rightarrow> u32" where
  "next_hop regSubNetMask regDefaultGateway dstIpAddress =
     (if dstIpAddress AND regSubNetMask = regDefaultGateway AND regSubNetMask then dstIpAddress else regDefaultGateway)"

definition extract_ip_address :: "nat \<Rightarrow> u32 \<Rightarrow> u32 \<Rightarrow> u32 list parse_st \<Rightarrow> u32 list parse_st" where
  "extract_ip_address n regSubNetMask regDefaultGateway =
     parse_stage n IPV4_HEADER_OCTETS (\<lambda>_ _ _. True)
       (\<lambda>h as. as @ [next_hop regSubNetMask regDefaultGateway (ip_getDstAddr h)])"

record insert_sum_st =
  ics_wordCount :: u4
  ics_checksum :: u16
  ics_dataIn :: "net_axis list"
  ics_checksumIn :: "u16 list"
  ics_dataOut :: "net_axis list"

definition ics_next :: "net_axis \<Rightarrow> u4 \<Rightarrow> u4" where
  "ics_next w c = (if na_last w then 0 else c)"

definition insert_ip_checksum :: "nat \<Rightarrow> insert_sum_st \<Rightarrow> insert_sum_st" where
  "insert_ip_checksum n s =
     (if ics_wordCount s = 0
      then (case (ics_dataIn s, ics_checksumIn s) of
          (w # ws, c # cs) \<Rightarrow>
            (let w1 = (if n > 8 then w\<lparr> na_data := put_field 10 (reverse c) (na_data w) \<rparr> else w)
             in s\<lparr> ics_dataIn := ws, ics_checksumIn := cs, ics_checksum := c, ics_dataOut := ics_dataOut s @ [w1],
                   ics_wordCount := ics_next w 1 \<rparr>)
        | _ \<Rightarrow> s)
      else if ics_wordCount s = 1
      then (case ics_dataIn s of
          [] \<Rightarrow> s
        | w # ws \<Rightarrow>
            (let w1 = (if n = 8 then w\<lparr> na_data := put_field 2 (reverse (ics_checksum s)) (na_data w) \<rparr> else w)
             in s\<lparr> ics_dataIn := ws, ics_dataOut := ics_dataOut s @ [w1], ics_wordCount := ics_next w 2 \<rparr>))
      else (case ics_dataIn s of
          [] \<Rightarrow> s
        | w # ws \<Rightarrow> s\<lparr> ics_dataIn := ws, ics_dataOut := ics_dataOut s @ [w], ics_wordCount := ics_next w (ics_wordCount s) \<rparr>))"

datatype har_state = HAR_ARP | HAR_FWD | HAR_DROP

record arp_reply_st =
  har_state :: har_state
  har_arpTableIn :: "arpTableReply list"
  har_dataIn :: "net_axis list"
  har_headerOut :: "packetHeader list"
  har_dataOut :: "net_axis list"

text \<open>All octets of the header are written.\<close>

definition eth_header :: "48 word \<Rightarrow> 48 word \<Rightarrow> u8 list" where
  "eth_header dst src = eth_setEthertype 0x0800 (eth_setSrcAddress src (eth_setDstAddress dst (replicate ETH_HEADER_OCTETS 0)))"

definition handle_arp_reply :: "48 word \<Rightarrow> arp_reply_st \<Rightarrow> arp_reply_st" where
  "handle_arp_reply myMacAddress s =
     (case har_state s of
        HAR_ARP \<Rightarrow>
          (case (har_arpTableIn s, har_dataIn s) of
             (r # rs, w # ws) \<Rightarrow>
               (let s1 = s\<lparr> har_arpTableIn := rs, har_dataIn := ws \<rparr>
                in if atr_hit r
                   then s1\<lparr> har_headerOut := har_headerOut s @
                              [\<lparr> ph_ready = False, ph_idx = 0, ph_header = eth_header (atr_macAddress r) myMacAddress \<rparr>],
                            har_dataOut := har_dataOut s @ [w], har_state := (if na_last w then HAR_ARP else HAR_FWD) \<rparr>
                   else s1\<lparr> har_state := (if na_last w then HAR_ARP else HAR_DROP) \<rparr>)
           | _ \<Rightarrow> s)
      | HAR_FWD \<Rightarrow>
          (case har_dataIn s of
             [] \<Rightarrow> s
           | w # ws \<Rightarrow> s\<lparr> har_dataIn := ws, har_dataOut := har_dataOut s @ [w],
                          har_state := (if na_last w then HAR_ARP else HAR_FWD) \<rparr>)
      | HAR_DROP \<Rightarrow>
          (case har_dataIn s of
             [] \<Rightarrow> s
           | w # ws \<Rightarrow> s\<lparr> har_dataIn := ws, har_state := (if na_last w then HAR_ARP else HAR_DROP) \<rparr>))"

datatype ieh_state = IEH_HEADER | IEH_PARTIAL_HEADER | IEH_BODY

record insert_eth_st =
  ieh_state :: ieh_state
  ieh_header :: packetHeader
  ieh_headerIn :: "packetHeader list"
  ieh_dataIn :: "net_axis list"
  ieh_dataOut :: "net_axis list"

text \<open>The state between packets.\<close>

definition ieh_first :: "nat \<Rightarrow> ieh_state" where
  "ieh_first n = (if ETH_HEADER_OCTETS \<ge> n then IEH_HEADER else IEH_PARTIAL_HEADER)"

definition ieh_partial :: "nat \<Rightarrow> packetHeader \<Rightarrow> packetHeader list \<Rightarrow> insert_eth_st \<Rightarrow> insert_eth_st" where
  "ieh_partial n h hs s =
     (case ieh_dataIn s of
        [] \<Rightarrow> s
      | w # ws \<Rightarrow>
          (case consumeWord n ETH_HEADER_OCTETS (na_data w) h of (d, h1, _) \<Rightarrow>
             s\<lparr> ieh_headerIn := hs, ieh_header := h1, ieh_dataIn := ws, ieh_dataOut := ieh_dataOut s @ [w\<lparr> na_data := d \<rparr>],
                ieh_state := (if na_last w then ieh_first n else IEH_BODY) \<rparr>))"

definition insert_ethernet_header :: "nat \<Rightarrow> insert_eth_st \<Rightarrow> insert_eth_st" where
  "insert_ethernet_header n s =
     (case ieh_state s of
        IEH_HEADER \<Rightarrow>
          (case ieh_headerIn s of
             [] \<Rightarrow> s
           | h # hs \<Rightarrow>
               (case consumeWord n ETH_HEADER_OCTETS (replicate n 0) h of (d, h1, _) \<Rightarrow>
                  s\<lparr> ieh_headerIn := hs, ieh_header := h1, ieh_state := IEH_PARTIAL_HEADER,
                     ieh_dataOut := ieh_dataOut s @ [\<lparr> na_data = d, na_keep = replicate n True, na_last = False \<rparr>] \<rparr>))
      | IEH_PARTIAL_HEADER \<Rightarrow>
          (if ETH_HEADER_OCTETS < n
           then (case ieh_headerIn s of [] \<Rightarrow> s | h # hs \<Rightarrow> ieh_partial n h hs s)
           else ieh_partial n (ieh_header s) (ieh_headerIn s) s)
      | IEH_BODY \<Rightarrow>
          (case ieh_dataIn s of
             [] \<Rightarrow> s
           | w # ws \<Rightarrow> s\<lparr> ieh_dataIn := ws, ieh_dataOut := ieh_dataOut s @ [w],
                          ieh_state := (if na_last w then ieh_first n else IEH_BODY) \<rparr>))"

section \<open>The encoder\<close>

record mac_ip_encode_st =
  mie_addr :: "u32 list parse_st"
  mie_sums :: ipsum_st
  mie_final :: "u17 list list \<times> u16 list"
  mie_insert :: insert_sum_st
  mie_arp :: arp_reply_st
  mie_shift :: shift_st
  mie_eth :: insert_eth_st

definition mac_ip_encode :: "48 word \<Rightarrow> u32 \<Rightarrow> u32 \<Rightarrow> mac_ip_encode_st \<Rightarrow> mac_ip_encode_st" where
  "mac_ip_encode myMacAddress regSubNetMask regDefaultGateway s =
     (let n = 64;
          a = extract_ip_address n regSubNetMask regDefaultGateway (mie_addr s);
          c = mac_compute_ipv4_checksum True ((mie_sums s)\<lparr> cics_in := cics_in (mie_sums s) @ par_out a \<rparr>);
          f = mac_finalize_ipv4_checksum (n div 2) (fst (mie_final s) @ cics_subSums c, snd (mie_final s));
          i = insert_ip_checksum n ((mie_insert s)\<lparr> ics_dataIn := ics_dataIn (mie_insert s) @ cics_out c,
                                                    ics_checksumIn := ics_checksumIn (mie_insert s) @ snd f \<rparr>);
          r = handle_arp_reply myMacAddress ((mie_arp s)\<lparr> har_dataIn := har_dataIn (mie_arp s) @ ics_dataOut i \<rparr>);
          l = mac_lshiftWordByOctet n (ETH_HEADER_OCTETS mod n) ((mie_shift s)\<lparr> sh_in := sh_in (mie_shift s) @ har_dataOut r \<rparr>);
          e = insert_ethernet_header n ((mie_eth s)\<lparr> ieh_headerIn := ieh_headerIn (mie_eth s) @ har_headerOut r,
                                                     ieh_dataIn := ieh_dataIn (mie_eth s) @ sh_out l \<rparr>)
      in \<lparr> mie_addr = a\<lparr> par_out := [] \<rparr>, mie_sums = c\<lparr> cics_out := [], cics_subSums := [] \<rparr>, mie_final = (fst f, []),
           mie_insert = i\<lparr> ics_dataOut := [] \<rparr>, mie_arp = r\<lparr> har_headerOut := [], har_dataOut := [] \<rparr>,
           mie_shift = l\<lparr> sh_out := [] \<rparr>, mie_eth = e \<rparr>)"

section \<open>Runs of the stages over a packet\<close>

lemma put_field_take:
  "i + LENGTH('a) div 8 \<le> k \<Longrightarrow> k \<le> length d \<Longrightarrow> put_field i (v :: 'a::len word) (take k d) = take k (put_field i v d)"
  by (cases "k = i") (auto simp: put_field_def min_def drop_take simp flip: length_0_conv)

lemma put_field_append:
  "i + LENGTH('a) div 8 \<le> length d \<Longrightarrow> put_field i (v :: 'a::len word) (d @ cs) = put_field i v d @ cs"
  by (simp add: put_field_def)

lemma ics_rest:
  assumes "packed n ws bs" and "ics_wordCount s \<noteq> 0" and "ics_dataIn s = ws" and "8 < k"
  shows "(insert_ip_checksum k ^^ length ws) s =
    s\<lparr> ics_wordCount := 0, ics_dataIn := [], ics_dataOut := ics_dataOut s @ ws \<rparr>"
  using assms
proof (induction arbitrary: s rule: packed.induct)
  case (packed_word d ws bs)
  let ?t = "insert_ip_checksum k s" and ?w = "\<lparr> na_data = d, na_keep = keep_of n n, na_last = False \<rparr>"
  let ?c = "if ics_wordCount s = 1 then 2 else ics_wordCount s"
  have "?t = s\<lparr> ics_dataIn := ws, ics_dataOut := ics_dataOut s @ [?w], ics_wordCount := ?c \<rparr>" "?c \<noteq> 0"
    using packed_word.prems by (simp_all add: insert_ip_checksum_def ics_next_def)
  with packed_word.IH [of ?t] packed_word.prems show ?case by (simp add: funpow_swap1)
qed (simp add: insert_ip_checksum_def ics_next_def)

lemma ics_settles:
  assumes "packed n ws bs" and "12 \<le> length bs" and "12 \<le> n" and "ics_wordCount s = 0" and "ics_dataIn s = ws"
    and "ics_checksumIn s = [c]" and "ics_dataOut s = []"
  shows "\<exists>t. settles (insert_ip_checksum n) s t \<and> packed n (ics_dataOut t) (put_field 10 (reverse c) bs)"
  using assms(1)
proof (cases rule: packed_cases)
  case (one d j)
  let ?w = "\<lparr> na_data = put_field 10 (reverse c) d, na_keep = keep_of n j, na_last = True \<rparr>"
  have "packed n [?w] (put_field 10 (reverse c) bs)"
    using one assms(2,3) by (intro packed_end' [where k = j]) (simp_all add: put_field_take)
  moreover have "insert_ip_checksum n s = s\<lparr> ics_dataIn := [], ics_checksumIn := [], ics_checksum := c, ics_dataOut := [?w] \<rparr>"
    using one assms(3-7) by (simp add: insert_ip_checksum_def ics_next_def)
  ultimately show ?thesis using assms(4)
    by (intro exI [of _ "insert_ip_checksum n s"] conjI settlesI [where k = 1]) (simp_all add: insert_ip_checksum_def)
next
  case (more d us cs)
  let ?w = "\<lparr> na_data = put_field 10 (reverse c) d, na_keep = keep_of n n, na_last = False \<rparr>" and ?t = "insert_ip_checksum n s"
  have t: "?t = s\<lparr> ics_dataIn := us, ics_checksumIn := [], ics_checksum := c, ics_dataOut := [?w], ics_wordCount := 1 \<rparr>"
    using more assms(3-7) by (simp add: insert_ip_checksum_def ics_next_def)
  have "(insert_ip_checksum n ^^ Suc (length us)) s =
      s\<lparr> ics_dataIn := [], ics_checksumIn := [], ics_checksum := c, ics_dataOut := ?w # us, ics_wordCount := 0 \<rparr>"
    using ics_rest [OF more(4), of ?t n] t assms(3) by (simp add: funpow_swap1)
  moreover have "packed n (?w # us) (put_field 10 (reverse c) bs)"
    using more assms(3) by (intro packed_word' [OF _ more(4)]) (simp_all add: put_field_append)
  ultimately show ?thesis
    by (intro exI [of _ "(insert_ip_checksum n ^^ Suc (length us)) s"] conjI settlesI [OF refl])
       (simp_all add: insert_ip_checksum_def)
qed

lemma har_body:
  assumes "packed n ws bs" and "har_state s = (if v then HAR_FWD else HAR_DROP)" and "har_dataIn s = ws"
  shows "(handle_arp_reply m ^^ length ws) s = s\<lparr> har_state := HAR_ARP, har_dataIn := [], har_dataOut := har_dataOut s @ sel v ws \<rparr>"
  using assms
proof (induction arbitrary: s rule: packed.induct)
  case (packed_word d ws bs)
  let ?t = "handle_arp_reply m s" and ?w = "\<lparr> na_data = d, na_keep = keep_of n n, na_last = False \<rparr>"
  have "?t = s\<lparr> har_dataIn := ws, har_dataOut := har_dataOut s @ sel v [?w] \<rparr>"
    using packed_word.prems by (cases v) (simp_all add: handle_arp_reply_def)
  with packed_word.IH [of ?t] packed_word.prems show ?case by (simp add: funpow_swap1 sel_Cons [of _ ?w ws])
next
  case (packed_end d k)
  then show ?case by (cases v) (simp_all add: handle_arp_reply_def)
qed

lemma har_settles:
  assumes "packed n ws bs" and "har_state s = HAR_ARP" and "har_dataIn s = ws" and "har_arpTableIn s = [r]"
  shows "settles (handle_arp_reply m) s (s\<lparr> har_arpTableIn := [], har_dataIn := [], har_dataOut := har_dataOut s @ sel (atr_hit r) ws,
    har_headerOut := har_headerOut s @
      sel (atr_hit r) [\<lparr> ph_ready = False, ph_idx = 0, ph_header = eth_header (atr_macAddress r) m \<rparr>] \<rparr>)"
    (is "settles _ _ ?u")
proof (rule settlesI)
  obtain w us where ws: "ws = w # us" using packed_Cons [OF assms(1)] by blast
  let ?t = "handle_arp_reply m s"
  have t: "?t = s\<lparr> har_arpTableIn := [], har_dataIn := us, har_dataOut := har_dataOut s @ sel (atr_hit r) [w],
      har_headerOut := har_headerOut s @ sel (atr_hit r) [\<lparr> ph_ready = False, ph_idx = 0, ph_header = eth_header (atr_macAddress r) m \<rparr>],
      har_state := (if na_last w then HAR_ARP else if atr_hit r then HAR_FWD else HAR_DROP) \<rparr>"
    using assms(2-4) ws by (cases "atr_hit r") (simp_all add: handle_arp_reply_def)
  show "(handle_arp_reply m ^^ length ws) s = ?u"
    using assms(1)
  proof (cases rule: packed_cases)
    case (one d j)
    with ws have "na_last w" "us = []" by auto
    with t ws assms(2) show ?thesis by simp
  next
    case (more d us' cs)
    with ws have "packed n us cs" "\<not> na_last w" by auto
    with har_body [of n us cs ?t "atr_hit r" m] t ws assms(2) show ?thesis by (simp add: funpow_swap1 sel_Cons [of _ w us])
  qed
qed (use assms(2) in \<open>simp add: handle_arp_reply_def\<close>)

lemma ieh_rest:
  assumes "packed n ws bs" and "ieh_state s = IEH_BODY" and "ieh_dataIn s = ws"
  shows "(insert_ethernet_header k ^^ length ws) s = s\<lparr> ieh_state := ieh_first k, ieh_dataIn := [], ieh_dataOut := ieh_dataOut s @ ws \<rparr>"
  using assms
proof (induction arbitrary: s rule: packed.induct)
  case (packed_word d ws bs)
  let ?t = "insert_ethernet_header k s" and ?w = "\<lparr> na_data = d, na_keep = keep_of n n, na_last = False \<rparr>"
  have "?t = s\<lparr> ieh_dataIn := ws, ieh_dataOut := ieh_dataOut s @ [?w] \<rparr>"
    using packed_word.prems by (simp add: insert_ethernet_header_def)
  with packed_word.IH [of ?t] packed_word.prems show ?case by (simp add: funpow_swap1)
qed (simp add: insert_ethernet_header_def)

lemma ieh_settles:
  assumes "packed 64 ws (zs @ bs)" and "length zs = ETH_HEADER_OCTETS" and "length h = ETH_HEADER_OCTETS"
    and "ieh_state s = IEH_PARTIAL_HEADER" and "ieh_headerIn s = [\<lparr> ph_ready = False, ph_idx = 0, ph_header = h \<rparr>]"
    and "ieh_dataIn s = ws" and "ieh_dataOut s = []"
  shows "\<exists>t. settles (insert_ethernet_header 64) s t \<and> packed 64 (ieh_dataOut t) (h @ bs)"
proof -
  obtain w us where ws: "ws = w # us" using packed_Cons [OF assms(1)] by blast
  let ?w = "w\<lparr> na_data := h @ drop (length zs) (na_data w) \<rparr>" and ?t = "insert_ethernet_header 64 s"
  have first: "ieh_first 64 = IEH_PARTIAL_HEADER" by (simp add: ieh_first_def ETH_HEADER_OCTETS_def)
  define h' where "h' = \<lparr> ph_ready = False, ph_idx = Suc 0, ph_header = h \<rparr>"
  have t: "?t = s\<lparr> ieh_headerIn := [], ieh_header := h', ieh_dataIn := us, ieh_dataOut := [?w],
      ieh_state := (if na_last w then IEH_PARTIAL_HEADER else IEH_BODY) \<rparr>"
    using assms ws first by (simp add: insert_ethernet_header_def ieh_partial_def consumeWord_def ETH_HEADER_OCTETS_def h'_def)
  have p: "packed 64 (?w # us) (h @ bs)"
    using packed_overlay [of 64 w us zs bs h] assms(1-3) ws by (simp add: ETH_HEADER_OCTETS_def)
  have idle: "insert_ethernet_header 64 u = u" if "ieh_state u = IEH_PARTIAL_HEADER" "ieh_headerIn u = []" for u
    using that by (simp add: insert_ethernet_header_def ETH_HEADER_OCTETS_def)
  from assms(1) show ?thesis
  proof (cases rule: packed_cases)
    case (one d j)
    with ws have "na_last w" "us = []" by auto
    with t p show ?thesis by (intro exI [of _ ?t] conjI settlesI [where k = 1] idle) simp_all
  next
    case (more d us' cs)
    with ws have u: "packed 64 us cs" "\<not> na_last w" by auto
    from ieh_rest [OF u(1), of ?t 64] t u(2) first
    have "(insert_ethernet_header 64 ^^ Suc (length us)) s =
        s\<lparr> ieh_headerIn := [], ieh_header := h', ieh_dataIn := [], ieh_dataOut := ?w # us, ieh_state := IEH_PARTIAL_HEADER \<rparr>"
      by (simp add: funpow_swap1)
    with p show ?thesis
      by (intro exI [of _ "(insert_ethernet_header 64 ^^ Suc (length us)) s"] conjI settlesI [OF refl] idle) simp_all
  qed
qed

section \<open>What the encoder sends\<close>

definition insert_sum_start :: "net_axis list \<Rightarrow> u16 list \<Rightarrow> insert_sum_st" where
  "insert_sum_start ws cs = \<lparr> ics_wordCount = 0, ics_checksum = 0, ics_dataIn = ws, ics_checksumIn = cs, ics_dataOut = [] \<rparr>"

definition arp_reply_start :: "arpTableReply list \<Rightarrow> net_axis list \<Rightarrow> arp_reply_st" where
  "arp_reply_start rs ws = \<lparr> har_state = HAR_ARP, har_arpTableIn = rs, har_dataIn = ws, har_headerOut = [], har_dataOut = [] \<rparr>"

definition insert_eth_start :: "packetHeader list \<Rightarrow> net_axis list \<Rightarrow> packetHeader \<Rightarrow> insert_eth_st" where
  "insert_eth_start hs ws h = \<lparr> ieh_state = IEH_PARTIAL_HEADER, ieh_header = h, ieh_headerIn = hs, ieh_dataIn = ws, ieh_dataOut = [] \<rparr>"

text \<open>The frame and the address request for the words of a packet: every stage is run to its end on what the stages before it
  have written.\<close>

definition encode_stages :: "48 word \<Rightarrow> u32 \<Rightarrow> u32 \<Rightarrow> u8 list \<Rightarrow> net_axis \<Rightarrow> packetHeader \<Rightarrow> arpTableReply \<Rightarrow> net_axis list \<Rightarrow> u32 list \<Rightarrow> net_axis list \<Rightarrow> bool" where
  "encode_stages mac subnet gw h pz hz r ws req frame \<longleftrightarrow> (\<exists>a c f i q l e.
     settles (extract_ip_address 64 subnet gw) (parse_start [] ws h) a \<and> req = par_meta a
     \<and> settles (mac_compute_ipv4_checksum True) (ipsum_start (par_out a)) c
     \<and> settles (mac_finalize_ipv4_checksum 32) (cics_subSums c, []) f
     \<and> settles (insert_ip_checksum 64) (insert_sum_start (cics_out c) (snd f)) i
     \<and> settles (handle_arp_reply mac) (arp_reply_start [r] (ics_dataOut i)) q
     \<and> settles (mac_lshiftWordByOctet 64 ETH_HEADER_OCTETS) (shift_start True (har_dataOut q) pz) l
     \<and> settles (insert_ethernet_header 64) (insert_eth_start (har_headerOut q) (sh_out l) hz) e
     \<and> frame = ieh_dataOut e)"

text \<open>The packet with its checksum.\<close>

definition ip_checksum :: "u8 list \<Rightarrow> u16" where
  "ip_checksum b = of_nat (65535 - ones_sum (be_sum (empty_checksum (ip_head b))))"

definition with_checksum :: "u8 list \<Rightarrow> u8 list" where
  "with_checksum b = put_field 10 (reverse (ip_checksum b)) b"

lemma unat_ip_checksum: "unat (ip_checksum b) = 65535 - ones_sum (be_sum (empty_checksum (ip_head b)))"
  by (simp add: ip_checksum_def unat_of_nat_mod)

lemma length_eth_header: "length (eth_header d m) = ETH_HEADER_OCTETS"
  and type_eth_header: "eth_getEthertype (eth_header d m) = IPv4_TYPE"
  by (simp_all add: eth_header_def eth_fields field_simps ETH_HEADER_OCTETS_def IPv4_TYPE_def reverse_reverse)

lemma encode_packet:
  assumes "packed 64 ws b" and "20 < length b" and "3 \<le> unat (ip_len b)" and "4 * unat (ip_len b) \<le> length b"
    and "length h = IPV4_HEADER_OCTETS"
  shows "\<exists>frame. encode_stages mac subnet gw h pz hz r ws
[next_hop subnet gw (ip_getDstAddr b)] frame
    \<and> (if atr_hit r then packed 64 frame (eth_header (atr_macAddress r) mac @ with_checksum b) else frame = [])"
proof -
  let ?H = IPV4_HEADER_OCTETS
  obtain hs bs where hb: "b = hs @ bs" "length hs = ?H" "bs \<noteq> []"
    using assms(2) by (metis IPV4_HEADER_OCTETS_def append_Nil2 append_take_drop_id length_take linorder_not_less min.absorb4 nat_less_le)
  have hs: "ip_getDstAddr hs = ip_getDstAddr b"
    using hb(1,2) get_field_take [of 16 20 b, where 'a = 32] by (simp add: ip_getDstAddr_def IPV4_HEADER_OCTETS_def)
  let ?req = "next_hop subnet gw (ip_getDstAddr b)"
  let ?az = "parse_start [] ws h"
  let ?a = "?az\<lparr> par_header := \<lparr> ph_ready = False, ph_idx = 0, ph_header = hs \<rparr>, par_metaWritten := False, par_in := [],
      par_out := ws, par_meta := [?req] \<rparr>"
  have a: "settles (extract_ip_address 64 subnet gw) ?az ?a"
    using parse_pass_settles [of 64 ws hs bs ?H ?az "\<lambda>h as. as @ [next_hop subnet gw (ip_getDstAddr h)]"] assms(1,5) hb hs
    by (simp add: extract_ip_address_def parse_start_def IPV4_HEADER_OCTETS_def)
  let ?d = "na_data (hd ws)"
  have "0 < length b" using assms(2) by linarith
  note hw = head_of_word [OF assms(1) this assms(4)]
  obtain sums vs where s: "(compute_ipv4_checksum True ^^ length ws) (ipsum_start ws) =
      (ipsum_start ws)\<lparr> cics_in := [], cics_out := ws, cics_ipHeaderLen := ip_len ?d, cics_subSums := [sums] \<rparr>"
    "lanes_hold sums vs" "length vs = 32" "sum_list vs = be_sum (summed_head True ?d)"
    using ipsum_packet [OF assms(1), of "ipsum_start ws" "[]" ?d True] hw(1) assms(2,3) by (auto simp: ipsum_start_def)
  let ?c = "(ipsum_start ws)\<lparr> cics_in := [], cics_out := ws, cics_ipHeaderLen := ip_len ?d, cics_subSums := [sums] \<rparr>"
  have c: "settles (compute_ipv4_checksum True) (ipsum_start ws) ?c"
    by (rule settlesI [OF s(1)]) (simp add: compute_ipv4_checksum_def)
  have "sum_list vs = be_sum (empty_checksum (ip_head b))" using s(4) hw(2) assms(2) by (simp add: summed_head_def)
  then obtain ck where ck: "finalize_ipv4_checksum 32 ([sums], []) = ([], [ck])"
      "unat ck = 65535 - ones_sum (be_sum (empty_checksum (ip_head b)))"
    using finalize_value [OF s(2,3), of "[]" "[]"] by auto
  have "ck = ip_checksum b" using ck(2) unat_ip_checksum [of b] by (metis unsigned_word_eqI)
  then have f: "settles (finalize_ipv4_checksum 32) ([sums], []) ([], [ip_checksum b])"
    using ck(1) by (intro settlesI [where k = 1]) (simp_all add: finalize_ipv4_checksum_def)
  obtain i where i: "settles (insert_ip_checksum 64) (insert_sum_start ws [ip_checksum b]) i" "packed 64 (ics_dataOut i) (with_checksum b)"
    using ics_settles [OF assms(1), of "insert_sum_start ws [ip_checksum b]" "ip_checksum b"] assms(2)
    by (auto simp: insert_sum_start_def with_checksum_def)
  let ?hdr = "\<lparr> ph_ready = False, ph_idx = 0, ph_header = eth_header (atr_macAddress r) mac \<rparr>"
  let ?qz = "arp_reply_start [r] (ics_dataOut i)"
  let ?q = "?qz\<lparr> har_arpTableIn := [], har_dataIn := [], har_dataOut := sel (atr_hit r) (ics_dataOut i),
      har_headerOut := sel (atr_hit r) [?hdr] \<rparr>"
  have q: "settles (handle_arp_reply mac) ?qz ?q"
    using har_settles [OF i(2), of ?qz r mac] by (simp add: arp_reply_start_def)
  have "\<exists>l e. settles (lshiftWordByOctet 64 ETH_HEADER_OCTETS) (shift_start True (har_dataOut ?q) pz) l
      \<and> settles (insert_ethernet_header 64) (insert_eth_start (har_headerOut ?q) (sh_out l) hz) e
      \<and> (if atr_hit r then packed 64 (ieh_dataOut e) (eth_header (atr_macAddress r) mac @ with_checksum b) else ieh_dataOut e = [])"
  proof (cases "atr_hit r")
    case True
    obtain l out where l: "settles (lshiftWordByOctet 64 ETH_HEADER_OCTETS) (shift_start True (ics_dataOut i) pz) l"
      "sh_out l = out" "packed 64 out (replicate ETH_HEADER_OCTETS 0 @ with_checksum b)"
      using lshift_settles [OF i(2), of ETH_HEADER_OCTETS "shift_start True (ics_dataOut i) pz"]
      by (auto simp: ETH_HEADER_OCTETS_def shift_start_def shifted_def)
    obtain e where "settles (insert_ethernet_header 64) (insert_eth_start [?hdr] out hz) e"
      "packed 64 (ieh_dataOut e) (eth_header (atr_macAddress r) mac @ with_checksum b)"
      using ieh_settles [OF l(3) _ length_eth_header, of "insert_eth_start [?hdr] out hz"] by (auto simp: insert_eth_start_def)
    with l True show ?thesis by (intro exI [of _ l] exI [of _ e]) simp
  next
    case False
    have "settles (lshiftWordByOctet 64 ETH_HEADER_OCTETS) (shift_start True [] pz) (shift_start True [] pz)"
      by (rule settlesI [where k = 0]) (simp_all add: shift_start_def lshiftWordByOctet_def)
    moreover have "settles (insert_ethernet_header 64) (insert_eth_start [] [] hz) (insert_eth_start [] [] hz)"
      by (rule settlesI [where k = 0]) (simp_all add: insert_eth_start_def insert_ethernet_header_def ETH_HEADER_OCTETS_def)
    ultimately show ?thesis using False
      by (intro exI [of _ "shift_start True [] pz"] exI [of _ "insert_eth_start [] [] hz"]) (simp add: shift_start_def insert_eth_start_def)
  qed
  then obtain l e where le: "settles (lshiftWordByOctet 64 ETH_HEADER_OCTETS) (shift_start True (har_dataOut ?q) pz) l"
      "settles (insert_ethernet_header 64) (insert_eth_start (har_headerOut ?q) (sh_out l) hz) e"
      "if atr_hit r then packed 64 (ieh_dataOut e) (eth_header (atr_macAddress r) mac @ with_checksum b) else ieh_dataOut e = []"
    by blast
  have "encode_stages mac subnet gw h pz hz r ws [?req] (ieh_dataOut e)"
    unfolding encode_stages_def mac_compute_ipv4_checksum_def mac_finalize_ipv4_checksum_def mac_lshiftWordByOctet_def
    by (rule exI [of _ ?a], rule exI [of _ ?c], rule exI [of _ "([], [ip_checksum b])"], rule exI [of _ i], rule exI [of _ ?q],
        rule exI [of _ l], rule exI [of _ e]) (use a c f i(1) q le(1,2) in simp)
  with le(3) show ?thesis by blast
qed

section \<open>Frames between two hosts\<close>

text \<open>Filling in the checksum leaves every other field alone, and makes the header acceptable.\<close>

lemma with_checksum_fields:
  assumes "20 \<le> length b"
  shows "length (with_checksum b) = length b" and "ip_getDstAddr (with_checksum b) = ip_getDstAddr b"
    and "ip_getProtocol (with_checksum b) = ip_getProtocol b" and "ip_getLength (with_checksum b) = ip_getLength b"
    and "ip_len (with_checksum b) = ip_len b"
proof -
  have "with_checksum b ! 0 = b ! 0" using assms by (simp add: with_checksum_def put_field_def nth_append)
  then show "ip_len (with_checksum b) = ip_len b" by (simp add: ip_len_def)
qed (use assms in \<open>simp_all add: with_checksum_def ip_fields field_simps\<close>)

lemma with_checksum_head:
  assumes "20 \<le> length b" and "3 \<le> unat (ip_len b)" and "4 * unat (ip_len b) \<le> length b"
  shows "ip_head (with_checksum b) = put_field 10 (reverse (ip_checksum b)) (ip_head b)"
  using assms put_field_take [of 10 "4 * unat (ip_len b)" b "reverse (ip_checksum b)"]
  by (simp add: ip_head_def with_checksum_fields(5)) (simp add: with_checksum_def)


text \<open>A datagram with one octet, from host 1 to host 2.\<close>

definition sample_packet :: "u8 list" where
  "sample_packet = [0x45, 0, 0, 21, 0, 0, 0, 0, 0x40, 0x11, 0, 0, 1, 0, 0, 0, 2, 0, 0, 0, 7]"

lemma sample_fields:
  "length sample_packet = 21" "unat (ip_len sample_packet) = 5" "unat (ip_getLength sample_packet) = 21"
  "ip_getDstAddr sample_packet = 2" "ip_getProtocol sample_packet = UDP_PROTO"
  by code_simp+


end
