(* ===== verification/Ib_Types.thy ===== *)
theory Ib_Types
  imports Udp Multi_Queue
begin

text \<open>
  The data model of the InfiniBand transport (\<^verbatim>\<open>ib_transport_protocol.hpp\<close>, \<^verbatim>\<open>ib_utils.cpp\<close>, the configuration
  \<^verbatim>\<open>rocev2_config.hpp.in\<close> and the command types of \<^verbatim>\<open>mem_utils.hpp\<close>): operation codes, headers, the messages between the
  stages, and how many packets a message takes.  The build is the shipped one, without RETRANS\_EN and without POINTER\_CHASING\_EN.
\<close>

section \<open>Configuration\<close>

type_synonym u22 = "22 word"
type_synonym u24 = "24 word"
type_synonym u29 = "29 word"
type_synonym u48 = "48 word"
type_synonym u128 = "128 word"

definition PMTU :: nat where "PMTU = 1408"

definition BTH_OCTETS :: nat where "BTH_OCTETS = 12"
definition RETH_OCTETS :: nat where "RETH_OCTETS = 16"
definition AETH_OCTETS :: nat where "AETH_OCTETS = 4"
definition RPCH_OCTETS :: nat where "RPCH_OCTETS = 28"
definition RDMA_DEFAULT_PORT :: u16 where "RDMA_DEFAULT_PORT = 0x12B7"

section \<open>Operation codes\<close>

text \<open>The enumeration holds any octet: \<open>RC_OTHER\<close> stands for the values without a name.\<close>

datatype ibOpCode = RC_RDMA_WRITE_FIRST | RC_RDMA_WRITE_MIDDLE | RC_RDMA_WRITE_LAST | RC_RDMA_WRITE_LAST_WITH_IMD
  | RC_RDMA_WRITE_ONLY | RC_RDMA_WRITE_ONLY_WIT_IMD | RC_RDMA_READ_REQUEST | RC_RDMA_READ_RESP_FIRST
  | RC_RDMA_READ_RESP_MIDDLE | RC_RDMA_READ_RESP_LAST | RC_RDMA_READ_RESP_ONLY | RC_ACK | RC_RDMA_PART_ONLY
  | RC_RDMA_PART_FIRST | RC_RDMA_PART_MIDDLE | RC_RDMA_PART_LAST | RC_RDMA_READ_POINTER_REQUEST
  | RC_RDMA_READ_CONSISTENT_REQUEST | RC_OTHER u8

fun op_value :: "ibOpCode \<Rightarrow> u8" where
  "op_value RC_RDMA_WRITE_FIRST = 0x06"
| "op_value RC_RDMA_WRITE_MIDDLE = 0x07"
| "op_value RC_RDMA_WRITE_LAST = 0x08"
| "op_value RC_RDMA_WRITE_LAST_WITH_IMD = 0x09"
| "op_value RC_RDMA_WRITE_ONLY = 0x0A"
| "op_value RC_RDMA_WRITE_ONLY_WIT_IMD = 0x0B"
| "op_value RC_RDMA_READ_REQUEST = 0x0C"
| "op_value RC_RDMA_READ_RESP_FIRST = 0x0D"
| "op_value RC_RDMA_READ_RESP_MIDDLE = 0x0E"
| "op_value RC_RDMA_READ_RESP_LAST = 0x0F"
| "op_value RC_RDMA_READ_RESP_ONLY = 0x10"
| "op_value RC_ACK = 0x11"
| "op_value RC_RDMA_PART_ONLY = 0x18"
| "op_value RC_RDMA_PART_FIRST = 0x19"
| "op_value RC_RDMA_PART_MIDDLE = 0x1A"
| "op_value RC_RDMA_PART_LAST = 0x1B"
| "op_value RC_RDMA_READ_POINTER_REQUEST = 0x1C"
| "op_value RC_RDMA_READ_CONSISTENT_REQUEST = 0x1D"
| "op_value (RC_OTHER v) = v"

definition named_ops :: "ibOpCode list" where
  "named_ops = [RC_RDMA_WRITE_FIRST, RC_RDMA_WRITE_MIDDLE, RC_RDMA_WRITE_LAST, RC_RDMA_WRITE_LAST_WITH_IMD, RC_RDMA_WRITE_ONLY,
     RC_RDMA_WRITE_ONLY_WIT_IMD, RC_RDMA_READ_REQUEST, RC_RDMA_READ_RESP_FIRST, RC_RDMA_READ_RESP_MIDDLE, RC_RDMA_READ_RESP_LAST,
     RC_RDMA_READ_RESP_ONLY, RC_ACK, RC_RDMA_PART_ONLY, RC_RDMA_PART_FIRST, RC_RDMA_PART_MIDDLE, RC_RDMA_PART_LAST,
     RC_RDMA_READ_POINTER_REQUEST, RC_RDMA_READ_CONSISTENT_REQUEST]"

definition op_of :: "u8 \<Rightarrow> ibOpCode" where
  "op_of v = (case find (\<lambda>c. op_value c = v) named_ops of Some c \<Rightarrow> c | None \<Rightarrow> RC_OTHER v)"

definition checkIfResponse :: "ibOpCode \<Rightarrow> bool" where
  "checkIfResponse code \<longleftrightarrow> code = RC_RDMA_READ_RESP_FIRST \<or> code = RC_RDMA_READ_RESP_MIDDLE \<or>
     code = RC_RDMA_READ_RESP_LAST \<or> code = RC_RDMA_READ_RESP_ONLY \<or> code = RC_ACK"

definition checkIfWriteOrPartReq :: "ibOpCode \<Rightarrow> bool" where
  "checkIfWriteOrPartReq code \<longleftrightarrow> code = RC_RDMA_WRITE_FIRST \<or> code = RC_RDMA_WRITE_MIDDLE \<or>
     code = RC_RDMA_WRITE_LAST \<or> code = RC_RDMA_WRITE_ONLY \<or> code = RC_RDMA_PART_FIRST \<or> code = RC_RDMA_PART_MIDDLE \<or>
     code = RC_RDMA_PART_LAST \<or> code = RC_RDMA_PART_ONLY"

definition checkIfAethHeader :: "ibOpCode \<Rightarrow> bool" where
  "checkIfAethHeader code \<longleftrightarrow> code = RC_RDMA_READ_RESP_ONLY \<or> code = RC_RDMA_READ_RESP_FIRST \<or>
     code = RC_RDMA_READ_RESP_LAST \<or> code = RC_ACK"

definition checkIfRethHeader :: "ibOpCode \<Rightarrow> bool" where
  "checkIfRethHeader code \<longleftrightarrow> code = RC_RDMA_WRITE_ONLY \<or> code = RC_RDMA_WRITE_FIRST \<or> code = RC_RDMA_PART_ONLY \<or>
     code = RC_RDMA_PART_FIRST \<or> code = RC_RDMA_READ_REQUEST \<or> code = RC_RDMA_READ_CONSISTENT_REQUEST"

text \<open>The three requests for a read, which the code names one by one where it asks for them.\<close>

definition is_read_request :: "ibOpCode \<Rightarrow> bool" where
  "is_read_request code \<longleftrightarrow> code = RC_RDMA_READ_REQUEST \<or> code = RC_RDMA_READ_POINTER_REQUEST
     \<or> code = RC_RDMA_READ_CONSISTENT_REQUEST"

lemmas op_checks = checkIfResponse_def checkIfWriteOrPartReq_def checkIfAethHeader_def checkIfRethHeader_def is_read_request_def

section \<open>Headers\<close>

text \<open>\<^verbatim>\<open>BaseTransportHeader\<close>: the octets of the fields.\<close>

definition bth_setOpCode :: "ibOpCode \<Rightarrow> u8 list \<Rightarrow> u8 list" where "bth_setOpCode c = put_field 0 (op_value c)"
definition bth_getOpCode :: "u8 list \<Rightarrow> ibOpCode" where "bth_getOpCode h = op_of (get_field 0 h)"
definition bth_setPartitionKey :: "u16 \<Rightarrow> u8 list \<Rightarrow> u8 list" where "bth_setPartitionKey k = put_field 2 k"
definition bth_getPartitionKey :: "u8 list \<Rightarrow> u16" where "bth_getPartitionKey h = get_field 2 h"
definition bth_setPsn :: "u24 \<Rightarrow> u8 list \<Rightarrow> u8 list" where "bth_setPsn p = put_field 9 (reverse p)"
definition bth_getPsn :: "u8 list \<Rightarrow> u24" where "bth_getPsn h = reverse (get_field 9 h)"
definition bth_setDstQP :: "u24 \<Rightarrow> u8 list \<Rightarrow> u8 list" where "bth_setDstQP q = put_field 5 (reverse q)"
definition bth_getDstQP :: "u8 list \<Rightarrow> u24" where "bth_getDstQP h = reverse (get_field 5 h)"
definition bth_setAckReq :: "bool \<Rightarrow> u8 list \<Rightarrow> u8 list" where
  "bth_setAckReq b h = put_field 8 (range_set (get_field 8 h :: u8) 7 7 (of_bool b :: u1)) h"

text \<open>\<^verbatim>\<open>RdmaExHeader\<close> (RETH) and \<^verbatim>\<open>AckExHeader\<close> (AETH).\<close>

definition reth_setVirtualAddress :: "u64 \<Rightarrow> u8 list \<Rightarrow> u8 list" where "reth_setVirtualAddress a = put_field 0 (reverse a)"
definition reth_getVirtualAddress :: "u8 list \<Rightarrow> u64" where "reth_getVirtualAddress h = reverse (get_field 0 h)"
definition reth_setRemoteKey :: "u32 \<Rightarrow> u8 list \<Rightarrow> u8 list" where "reth_setRemoteKey k = put_field 8 (reverse k)"
definition reth_setLength :: "u32 \<Rightarrow> u8 list \<Rightarrow> u8 list" where "reth_setLength l = put_field 12 (reverse l)"
definition reth_getLength :: "u8 list \<Rightarrow> u32" where "reth_getLength h = reverse (get_field 12 h)"

definition aeth_setSyndrome :: "u8 \<Rightarrow> u8 list \<Rightarrow> u8 list" where "aeth_setSyndrome y = put_field 0 y"
definition aeth_setMsn :: "u24 \<Rightarrow> u8 list \<Rightarrow> u8 list" where "aeth_setMsn m = put_field 1 (reverse m)"
definition aeth_getMsn :: "u8 list \<Rightarrow> u24" where
  "aeth_getMsn h = ucast (reverse (ucast (get_field 1 h :: u24) :: u32))"
definition aeth_isNAK :: "u8 list \<Rightarrow> bool" where
  "aeth_isNAK h \<longleftrightarrow> (range_get (get_field 0 h :: u8) 6 5 :: u2) = 3"

text \<open>\<^verbatim>\<open>ExHeader\<close>: either of the two in a header of 28 octets.\<close>

definition ExHeader :: "u8 list \<Rightarrow> u8 list" where
  "ExHeader raw = raw @ replicate (RPCH_OCTETS - length raw) 0"

definition getRdmaHeader :: "u8 list \<Rightarrow> u8 list" where "getRdmaHeader h = take RETH_OCTETS h"
definition getAckHeader :: "u8 list \<Rightarrow> u8 list" where "getAckHeader h = take AETH_OCTETS h"

section \<open>Messages between the stages\<close>

record ibhMeta =
  ibm_op_code :: ibOpCode
  ibm_partition_key :: u16
  ibm_dest_qp :: u24
  ibm_psn :: u24
  ibm_validPSN :: bool
  ibm_numPkg :: u22

definition ibhMeta_psn :: "ibOpCode \<Rightarrow> u16 \<Rightarrow> u24 \<Rightarrow> u24 \<Rightarrow> bool \<Rightarrow> ibhMeta" where
  "ibhMeta_psn op key qp psn vp = \<lparr> ibm_op_code = op, ibm_partition_key = key, ibm_dest_qp = qp, ibm_psn = psn, ibm_validPSN = vp,
     ibm_numPkg = 1 \<rparr>"

definition ibhMeta_num :: "ibOpCode \<Rightarrow> u16 \<Rightarrow> u24 \<Rightarrow> u22 \<Rightarrow> ibhMeta" where
  "ibhMeta_num op key qp n = \<lparr> ibm_op_code = op, ibm_partition_key = key, ibm_dest_qp = qp, ibm_psn = 0, ibm_validPSN = False,
     ibm_numPkg = n \<rparr>"

record exhMeta =
  exm_isNak :: bool
  exm_numPkg :: u22

record fwdPolicy =
  fp_isDrop :: bool
  fp_ackOnly :: bool

record ackEvent =
  ake_qpn :: u24
  ake_psn :: u24
  ake_validPsn :: bool
  ake_isNak :: bool

definition ackEvent_ok :: "u24 \<Rightarrow> ackEvent" where
  "ackEvent_ok qpn = \<lparr> ake_qpn = qpn, ake_psn = 0, ake_validPsn = False, ake_isNak = False \<rparr>"

definition ackEvent_psn :: "u24 \<Rightarrow> u24 \<Rightarrow> bool \<Rightarrow> ackEvent" where
  "ackEvent_psn qpn psn nak = \<lparr> ake_qpn = qpn, ake_psn = psn, ake_validPsn = True, ake_isNak = nak \<rparr>"

text \<open>\<^verbatim>\<open>event\<close>.  The constructor from an acknowledgement leaves address and length unset; no stage reads them.\<close>

record ib_event =
  ibe_op_code :: ibOpCode
  ibe_qpn :: u24
  ibe_addr :: u48
  ibe_length :: u32
  ibe_psn :: u24
  ibe_validPsn :: bool
  ibe_isNak :: bool

definition event_of_ack :: "ackEvent \<Rightarrow> ib_event" where
  "event_of_ack a = \<lparr> ibe_op_code = RC_ACK, ibe_qpn = ake_qpn a, ibe_addr = 0, ibe_length = 0, ibe_psn = ake_psn a,
     ibe_validPsn = ake_validPsn a, ibe_isNak = ake_isNak a \<rparr>"

definition event_addr :: "ibOpCode \<Rightarrow> u24 \<Rightarrow> u48 \<Rightarrow> u32 \<Rightarrow> ib_event" where
  "event_addr op qp a len = \<lparr> ibe_op_code = op, ibe_qpn = qp, ibe_addr = a, ibe_length = len, ibe_psn = 0, ibe_validPsn = False,
     ibe_isNak = False \<rparr>"

definition event_psn :: "ibOpCode \<Rightarrow> u24 \<Rightarrow> u32 \<Rightarrow> u24 \<Rightarrow> ib_event" where
  "event_psn op qp len psn = \<lparr> ibe_op_code = op, ibe_qpn = qp, ibe_addr = 0, ibe_length = len, ibe_psn = psn, ibe_validPsn = True,
     ibe_isNak = False \<rparr>"

datatype axiRoute = ROUTE_DMA | ROUTE_CUSTOM

record memCmd =
  mc_addr :: u64
  mc_len :: u32

record routedMemCmd =
  rmc_data :: memCmd
  rmc_dest :: axiRoute

definition routedMemCmd_mk :: "u64 \<Rightarrow> u32 \<Rightarrow> axiRoute \<Rightarrow> routedMemCmd" where
  "routedMemCmd_mk a len r = \<lparr> rmc_data = \<lparr> mc_addr = a, mc_len = len \<rparr>, rmc_dest = r \<rparr>"

record readRequest =
  rdr_qpn :: u24
  rdr_vaddr :: u48
  rdr_dma_length :: u32
  rdr_psn :: u24
  rdr_route :: axiRoute

text \<open>\<^verbatim>\<open>memCmdInternal\<close>: the constructor of the build leaves the route unset; it is read later.\<close>

record memCmdInternal =
  mci_qpn :: u16
  mci_addr :: u64
  mci_len :: u32
  mci_route :: axiRoute

definition memCmdInternal_mk :: "axiRoute \<Rightarrow> u16 \<Rightarrow> u64 \<Rightarrow> u32 \<Rightarrow> memCmdInternal" where
  "memCmdInternal_mk unset qpn a len = \<lparr> mci_qpn = qpn, mci_addr = a, mci_len = len, mci_route = unset \<rparr>"

datatype appOpCode = APP_READ | APP_WRITE | APP_PART | APP_POINTER | APP_READ_CONSISTENT

record txMeta =
  txm_op_code :: appOpCode
  txm_qpn :: u24
  txm_local_vaddr :: u48
  txm_remote_vaddr :: u48
  txm_length :: u32

section \<open>The number of packets of a message\<close>

text \<open>\<^verbatim>\<open>(length + (PMTU-1)) / PMTU\<close>, computed at a width where it does not wrap and assigned to 22 bits.\<close>

definition num_pkg :: "u32 \<Rightarrow> u22" where
  "num_pkg len = of_nat ((unat len + (PMTU - 1)) div PMTU)"

lemma unat_num_pkg: "unat (num_pkg len) = (unat len + 1407) div 1408"
proof -
  have "unat len < 2 ^ 32" using unsigned_less [of len] by simp
  then show ?thesis by (simp add: num_pkg_def PMTU_def unat_of_nat_mod)
qed

section \<open>Fields\<close>

lemma op_of_value: "c \<in> set named_ops \<Longrightarrow> op_of (op_value c) = c"
  by (auto simp: op_of_def named_ops_def)

lemma bth_fields [simp]:
  assumes "length h = BTH_OCTETS"
  shows "bth_getOpCode (bth_setOpCode c h) = op_of (op_value c)" "bth_getPsn (bth_setPsn p h) = p"
    "bth_getDstQP (bth_setDstQP q h) = q" "bth_getPartitionKey (bth_setPartitionKey k h) = k"
  using assms by (simp_all add: bth_getOpCode_def bth_setOpCode_def bth_getPsn_def bth_setPsn_def bth_getDstQP_def bth_setDstQP_def
      bth_getPartitionKey_def bth_setPartitionKey_def BTH_OCTETS_def get_put_same reverse_reverse)

text \<open>The getter of the message number widens the field to 32 bits before it turns the octets round, and loses one: the number
  comes back multiplied by 256.\<close>

lemma getMsn_shifts: "aeth_getMsn (aeth_setMsn 5 [0, 0, 0, 0]) = 0x500"
  by code_simp

end
