(* ===== verification/Ib_Tables.thy ===== *)
theory Ib_Tables
  imports Ib_Types
begin

text \<open>
  The tables of the InfiniBand transport, each indexed by the number of a queue pair: \<^verbatim>\<open>state_table.cpp\<close> (packet sequence
  numbers), \<^verbatim>\<open>msn_table.cpp\<close> (message numbers and the place where the next packet of a message goes), \<^verbatim>\<open>conn_table.cpp\<close>
  (the addresses of the other side) and \<^verbatim>\<open>read_req_table.cpp\<close>.  Every invocation of a table serves at most one
  request; a table is a function on the 16-bit numbers, of which the hardware holds the first MAX\_QPS.
\<close>

section \<open>The state table\<close>

record stateTableEntry =
  ste_resp_epsn :: u24
  ste_resp_old_outstanding :: u24
  ste_req_next_psn :: u24
  ste_req_old_unack :: u24
  ste_req_old_valid :: u24
  ste_retryCounter :: u3

text \<open>The requests of the two engines: \<^verbatim>\<open>rxStateReq\<close>, \<^verbatim>\<open>txStateReq\<close> and \<^verbatim>\<open>ifStateReq\<close> by their constructors.  A read
  has no other fields set than the number and, for the receive engine, the side it asks for.\<close>

datatype rxStateReq = RxStateRead u16 bool | RxStateWrite u16 u24 u3 bool
datatype txStateReq = TxStateRead u16 | TxStateWrite u16 u24
datatype qpState = QP_RESET | QP_INIT | QP_READY_RECV | QP_READY_SEND | QP_SQ_ERROR | QP_ERROR
datatype ifStateReq = IfStateRead u16 | IfStateWrite u16 qpState u24 u24

definition rxStateReq_read :: "u24 \<Rightarrow> bool \<Rightarrow> rxStateReq" where
  "rxStateReq_read qpn isRsp = RxStateRead (ucast qpn) isRsp"

definition rxStateReq_psn :: "u24 \<Rightarrow> u24 \<Rightarrow> bool \<Rightarrow> rxStateReq" where
  "rxStateReq_psn qpn psn isRsp = RxStateWrite (ucast qpn) psn 7 isRsp"

definition rxStateReq_retry :: "u24 \<Rightarrow> u24 \<Rightarrow> u3 \<Rightarrow> bool \<Rightarrow> rxStateReq" where
  "rxStateReq_retry qpn psn rc isRsp = RxStateWrite (ucast qpn) psn rc isRsp"

record rxStateRsp =
  rsr_epsn :: u24
  rsr_oldest_outstanding_psn :: u24
  rsr_max_forward :: u24
  rsr_retryCounter :: u3

record ib_state_table_st =
  ist_table :: "u16 \<Rightarrow> stateTableEntry"
  ist_rx_req :: "rxStateReq list"
  ist_tx_req :: "txStateReq list"
  ist_qpi_req :: "ifStateReq list"
  ist_rx_rsp :: "rxStateRsp list"
  ist_tx_rsp :: "stateTableEntry list"
  ist_qpi_rsp :: "stateTableEntry list"

definition rx_view :: "bool \<Rightarrow> stateTableEntry \<Rightarrow> rxStateRsp" where
  "rx_view isResponse e =
     (if isResponse
      then \<lparr> rsr_epsn = ste_req_old_unack e, rsr_oldest_outstanding_psn = ste_req_old_valid e,
             rsr_max_forward = ste_req_next_psn e - 1, rsr_retryCounter = 0 \<rparr>
      else \<lparr> rsr_epsn = ste_resp_epsn e, rsr_oldest_outstanding_psn = ste_resp_old_outstanding e,
             rsr_max_forward = ste_resp_epsn e, rsr_retryCounter = ste_retryCounter e \<rparr>)"

definition rx_store :: "u24 \<Rightarrow> u3 \<Rightarrow> bool \<Rightarrow> stateTableEntry \<Rightarrow> stateTableEntry" where
  "rx_store epsn rc isResponse e =
     (if isResponse then e\<lparr> ste_req_old_unack := epsn \<rparr> else e\<lparr> ste_resp_epsn := epsn, ste_retryCounter := rc \<rparr>)"

definition if_setup :: "u24 \<Rightarrow> u24 \<Rightarrow> stateTableEntry" where
  "if_setup remote_psn local_psn =
     \<lparr> ste_resp_epsn = local_psn, ste_resp_old_outstanding = local_psn, ste_req_next_psn = remote_psn,
       ste_req_old_unack = remote_psn, ste_req_old_valid = remote_psn, ste_retryCounter = 0xF \<rparr>"

definition ib_state_table :: "ib_state_table_st \<Rightarrow> ib_state_table_st" where
  "ib_state_table s =
     (case ist_rx_req s of
        q # qs \<Rightarrow>
          (case q of
             RxStateWrite i epsn rc isResponse \<Rightarrow>
               s\<lparr> ist_rx_req := qs, ist_table := (ist_table s)(i := rx_store epsn rc isResponse (ist_table s i)) \<rparr>
           | RxStateRead i isResponse \<Rightarrow>
               s\<lparr> ist_rx_req := qs, ist_rx_rsp := ist_rx_rsp s @ [rx_view isResponse (ist_table s i)] \<rparr>)
      | [] \<Rightarrow>
          (case ist_tx_req s of
             q # qs \<Rightarrow>
               (case q of
                  TxStateWrite i psn \<Rightarrow>
                    s\<lparr> ist_tx_req := qs, ist_table := (ist_table s)(i := (ist_table s i)\<lparr> ste_req_next_psn := psn \<rparr>) \<rparr>
                | TxStateRead i \<Rightarrow> s\<lparr> ist_tx_req := qs, ist_tx_rsp := ist_tx_rsp s @ [ist_table s i] \<rparr>)
           | [] \<Rightarrow>
               (case ist_qpi_req s of
                  q # qs \<Rightarrow>
                    (case q of
                       IfStateWrite i _ remote_psn local_psn \<Rightarrow>
                         s\<lparr> ist_qpi_req := qs, ist_table := (ist_table s)(i := if_setup remote_psn local_psn) \<rparr>
                     | IfStateRead i \<Rightarrow> s\<lparr> ist_qpi_req := qs, ist_qpi_rsp := ist_qpi_rsp s @ [ist_table s i] \<rparr>)
                | [] \<Rightarrow> s)))"

section \<open>The table of message numbers\<close>

record dmaState =
  dms_msn :: u24
  dms_vaddr :: u64
  dms_dma_length :: u32
  dms_r_key :: u32

datatype rxMsnReq = RxMsnRead u16 | RxMsnWrite u16 u24 u64 u32

record ifMsnReq =
  imr_qpn :: u16
  imr_r_key :: u32

record txMsnRsp =
  tmr_msn :: u24
  tmr_r_key :: u32

record msn_table_st =
  mst_table :: "u16 \<Rightarrow> dmaState"
  mst_rx_req :: "rxMsnReq list"
  mst_tx_req :: "u16 list"
  mst_init :: "ifMsnReq list"
  mst_rx_rsp :: "dmaState list"
  mst_tx_rsp :: "txMsnRsp list"

definition msn_table :: "msn_table_st \<Rightarrow> msn_table_st" where
  "msn_table s =
     (case mst_rx_req s of
        q # qs \<Rightarrow>
          (case q of
             RxMsnWrite i msn vaddr len \<Rightarrow>
               s\<lparr> mst_rx_req := qs,
                  mst_table := (mst_table s)(i := (mst_table s i)\<lparr> dms_msn := msn, dms_vaddr := vaddr, dms_dma_length := len \<rparr>) \<rparr>
           | RxMsnRead i \<Rightarrow> s\<lparr> mst_rx_req := qs, mst_rx_rsp := mst_rx_rsp s @ [mst_table s i] \<rparr>)
      | [] \<Rightarrow>
          (case mst_tx_req s of
             i # qs \<Rightarrow>
               s\<lparr> mst_tx_req := qs,
                  mst_tx_rsp := mst_tx_rsp s @ [\<lparr> tmr_msn = dms_msn (mst_table s i), tmr_r_key = dms_r_key (mst_table s i) \<rparr>] \<rparr>
           | [] \<Rightarrow>
               (case mst_init s of
                  q # qs \<Rightarrow>
                    s\<lparr> mst_init := qs,
                       mst_table := (mst_table s)(imr_qpn q := \<lparr> dms_msn = 0, dms_vaddr = 0, dms_dma_length = 0,
                                                               dms_r_key = imr_r_key q \<rparr>) \<rparr>
                | [] \<Rightarrow> s)))"

section \<open>The table of connections\<close>

record connTableEntry =
  cte_remote_qpn :: u24
  cte_remote_ip_address :: u128
  cte_remote_udp_port :: u16

record ifConnReq =
  icr_qpn :: u16
  icr_remote_qpn :: u24
  icr_remote_ip_address :: u128
  icr_remote_udp_port :: u16

record conn_table_st =
  cts_table :: "u16 \<Rightarrow> connTableEntry"
  cts_req :: "u16 list"
  cts_if_req :: "ifConnReq list"
  cts_rsp :: "connTableEntry list"

definition conn_table :: "conn_table_st \<Rightarrow> conn_table_st" where
  "conn_table s =
     (case cts_req s of
        i # qs \<Rightarrow> s\<lparr> cts_req := qs, cts_rsp := cts_rsp s @ [cts_table s i] \<rparr>
      | [] \<Rightarrow>
          (case cts_if_req s of
             q # qs \<Rightarrow>
               s\<lparr> cts_if_req := qs,
                  cts_table := (cts_table s)(icr_qpn q := \<lparr> cte_remote_qpn = icr_remote_qpn q,
                    cte_remote_ip_address = icr_remote_ip_address q, cte_remote_udp_port = icr_remote_udp_port q \<rparr>) \<rparr>
           | [] \<Rightarrow> s))"

section \<open>The table of read requests\<close>

record readReqTableEntry =
  rqe_oldest_outstanding_readreq :: u24
  rqe_max_fwd_readreq :: u24

record txReadReqUpdate =
  tru_qpn :: u16
  tru_max_fwd_readreq :: u24

datatype rxReadReqUpdate = RxReadReqRead u16 | RxReadReqWrite u16 u24

record read_req_table_st =
  rqt_table :: "u16 \<Rightarrow> readReqTableEntry"
  rqt_tx_upd :: "txReadReqUpdate list"
  rqt_rx_upd :: "rxReadReqUpdate list"

definition read_req_table :: "read_req_table_st \<Rightarrow> read_req_table_st" where
  "read_req_table s =
     (case rqt_tx_upd s of
        u # us \<Rightarrow>
          s\<lparr> rqt_tx_upd := us,
             rqt_table := (rqt_table s)(tru_qpn u := (rqt_table s (tru_qpn u))\<lparr> rqe_max_fwd_readreq := tru_max_fwd_readreq u \<rparr>) \<rparr>
      | [] \<Rightarrow>
          (case rqt_rx_upd s of
             u # us \<Rightarrow>
               (case u of
                  RxReadReqWrite i old \<Rightarrow>
                    s\<lparr> rqt_rx_upd := us,
                       rqt_table := (rqt_table s)(i := (rqt_table s i)\<lparr> rqe_oldest_outstanding_readreq := old \<rparr>) \<rparr>
                | RxReadReqRead i \<Rightarrow> s\<lparr> rqt_rx_upd := us \<rparr>)
           | [] \<Rightarrow> s))"

end
