(* ===== verification/Ib_Psn.thy ===== *)
theory Ib_Psn
  imports Ib_Tables
begin

text \<open>
  Packet sequence numbers: \<^verbatim>\<open>rx_ibh_fsm\<close>, which decides about every received packet, and \<^verbatim>\<open>generate_ibh\<close>, which numbers the
  packets that are sent, with the state table they share (\<^verbatim>\<open>ib_transport_protocol.cpp\<close>, \<^verbatim>\<open>state_table.cpp\<close>).  The rules
  are stated once, as a step function on one entry per queue pair; the two state machines and the table, running in
  any order, follow these rules.
\<close>

section \<open>The receiver\<close>

datatype ibf_state = IBF_LOAD | IBF_PROCESS

record ibh_fsm_st =
  ibf_fsmState :: ibf_state
  ibf_meta :: ibhMeta
  ibf_emeta :: exhMeta
  ibf_isResponse :: bool
  ibf_droppedPackets :: u32
  ibf_metaIn :: "ibhMeta list"
  ibf_exhMetaFifo :: "exhMeta list"
  ibf_stateTable_rsp :: "rxStateRsp list"
  ibf_stateTable_upd_req :: "rxStateReq list"
  ibf_metaOut :: "ibhMeta list"
  ibf_ibhEventFifo :: "ackEvent list"
  ibf_ibhDropFifo :: "bool list"
  ibf_ibhDropMetaFifo :: "fwdPolicy list"
  ibf_regInvalidPsnDropCount :: u32

text \<open>The test of the code for a packet that is taken, and for one that was taken before.\<close>

definition psn_expected :: "ibhMeta \<Rightarrow> rxStateRsp \<Rightarrow> bool" where
  "psn_expected m q \<longleftrightarrow>
     (let epsn = rsr_epsn q; psn = ibm_psn m; maxf = rsr_max_forward q
      in epsn = psn \<or> (ibm_op_code m = RC_ACK \<and> ((epsn \<le> psn \<and> psn \<le> maxf)
           \<or> ((epsn \<le> psn \<or> psn \<le> maxf) \<and> maxf < epsn))))"

definition psn_duplicate :: "ibhMeta \<Rightarrow> rxStateRsp \<Rightarrow> bool" where
  "psn_duplicate m q \<longleftrightarrow>
     (let epsn = rsr_epsn q; psn = ibm_psn m; old = rsr_oldest_outstanding_psn q
      in (old < epsn \<and> psn < epsn \<and> psn \<ge> old) \<or> (old > epsn \<and> (psn < epsn \<or> psn \<ge> old)))"

definition ibf_accept :: "ibh_fsm_st \<Rightarrow> ibh_fsm_st" where
  "ibf_accept s =
     (let m = ibf_meta s;
          s1 = (if ibm_op_code m \<noteq> RC_ACK \<and> \<not> is_read_request (ibm_op_code m)
                then s\<lparr> ibf_ibhDropFifo := ibf_ibhDropFifo s @ [False] \<rparr> else s);
          s2 = s1\<lparr> ibf_ibhDropMetaFifo := ibf_ibhDropMetaFifo s1 @ [\<lparr> fp_isDrop = False, fp_ackOnly = False \<rparr>],
                   ibf_metaOut := ibf_metaOut s1 @ [m] \<rparr>
      in if exm_isNak (ibf_emeta s) then s2
         else s2\<lparr> ibf_stateTable_upd_req := ibf_stateTable_upd_req s2 @
                  [rxStateReq_psn (ibm_dest_qp m) (ibm_psn m + ucast (exm_numPkg (ibf_emeta s))) (ibf_isResponse s)] \<rparr>)"

definition ibf_count_drop :: "ibh_fsm_st \<Rightarrow> ibh_fsm_st" where
  "ibf_count_drop s = s\<lparr> ibf_droppedPackets := ibf_droppedPackets s + 1, ibf_regInvalidPsnDropCount := ibf_droppedPackets s + 1 \<rparr>"

definition ibf_again :: "ibh_fsm_st \<Rightarrow> ibh_fsm_st" where
  "ibf_again s =
     (let m = ibf_meta s
      in if is_read_request (ibm_op_code m)
         then s\<lparr> ibf_ibhDropFifo := ibf_ibhDropFifo s @ [False],
                 ibf_ibhDropMetaFifo := ibf_ibhDropMetaFifo s @ [\<lparr> fp_isDrop = False, fp_ackOnly = False \<rparr>],
                 ibf_metaOut := ibf_metaOut s @ [m] \<rparr>
         else if checkIfWriteOrPartReq (ibm_op_code m)
         then (ibf_count_drop s)\<lparr> ibf_ibhEventFifo := ibf_ibhEventFifo s @ [ackEvent_ok (ibm_dest_qp m)],
                 ibf_ibhDropFifo := ibf_ibhDropFifo s @ [True],
                 ibf_ibhDropMetaFifo := ibf_ibhDropMetaFifo s @ [\<lparr> fp_isDrop = False, fp_ackOnly = True \<rparr>] \<rparr>
         else s\<lparr> ibf_ibhDropFifo := (if ibm_op_code m \<noteq> RC_ACK then ibf_ibhDropFifo s @ [True] else ibf_ibhDropFifo s),
                 ibf_ibhDropMetaFifo := ibf_ibhDropMetaFifo s @ [\<lparr> fp_isDrop = True, fp_ackOnly = False \<rparr>] \<rparr>)"

definition ibf_invalid :: "rxStateRsp \<Rightarrow> ibh_fsm_st \<Rightarrow> ibh_fsm_st" where
  "ibf_invalid q s =
     (let m = ibf_meta s;
          s1 = (ibf_count_drop s)\<lparr> ibf_ibhDropMetaFifo := ibf_ibhDropMetaFifo s @ [\<lparr> fp_isDrop = True, fp_ackOnly = False \<rparr>] \<rparr>
      in if ibm_op_code m = RC_ACK then s1
         else let s2 = s1\<lparr> ibf_ibhDropFifo := ibf_ibhDropFifo s1 @ [True] \<rparr>;
                  first = (rsr_retryCounter q = 7);
                  rc = (if first then rsr_retryCounter q - 1 else rsr_retryCounter q);
                  nak = ackEvent_psn (ibm_dest_qp m) (if ibf_isResponse s then ibm_psn m else rsr_epsn q) True
              in s2\<lparr> ibf_ibhEventFifo := (if first then ibf_ibhEventFifo s2 @ [nak] else ibf_ibhEventFifo s2),
                     ibf_stateTable_upd_req := ibf_stateTable_upd_req s2 @
                       [rxStateReq_retry (ibm_dest_qp m) (rsr_epsn q) rc (ibf_isResponse s)] \<rparr>)"

definition rx_ibh_fsm :: "ibh_fsm_st \<Rightarrow> ibh_fsm_st" where
  "rx_ibh_fsm s =
     (case ibf_fsmState s of
        IBF_LOAD \<Rightarrow>
          (case ibf_metaIn s of
             [] \<Rightarrow> s
           | m # ms \<Rightarrow>
               (case ibf_exhMetaFifo s of
                  [] \<Rightarrow> s
                | e # es \<Rightarrow>
                    s\<lparr> ibf_metaIn := ms, ibf_exhMetaFifo := es, ibf_meta := m, ibf_emeta := e,
                       ibf_isResponse := checkIfResponse (ibm_op_code m),
                       ibf_stateTable_upd_req := ibf_stateTable_upd_req s @
                         [rxStateReq_read (ibm_dest_qp m) (checkIfResponse (ibm_op_code m))],
                       ibf_fsmState := IBF_PROCESS \<rparr>))
      | IBF_PROCESS \<Rightarrow>
          (case ibf_stateTable_rsp s of
             [] \<Rightarrow> s
           | q # qs \<Rightarrow>
               (let s1 = s\<lparr> ibf_stateTable_rsp := qs \<rparr>;
                    s2 = (if psn_expected (ibf_meta s) q then ibf_accept s1
                          else if psn_duplicate (ibf_meta s) q then ibf_again s1
                          else ibf_invalid q s1)
                in s2\<lparr> ibf_fsmState := IBF_LOAD \<rparr>)))"

section \<open>The sender\<close>

datatype gib_state = GIB_META | GIB_GET_PSN

record gen_ibh_st =
  gib_state :: gib_state
  gib_header :: packetHeader
  gib_meta :: ibhMeta
  gib_metaIn :: "ibhMeta list"
  gib_dstQpIn :: "u24 list"
  gib_stateTable_rsp :: "stateTableEntry list"
  gib_stateTable_upd_req :: "txStateReq list"
  gib_headerOut :: "packetHeader list"

definition gib_fields :: "ibhMeta \<Rightarrow> u24 \<Rightarrow> u8 list \<Rightarrow> u8 list" where
  "gib_fields m dstQp h = bth_setDstQP dstQp (bth_setPsn (ibm_psn m) (bth_setPartitionKey (ibm_partition_key m)
     (bth_setOpCode (ibm_op_code m) h)))"

definition generate_ibh :: "gen_ibh_st \<Rightarrow> gen_ibh_st" where
  "generate_ibh s =
     (case gib_state s of
        GIB_META \<Rightarrow>
          (case gib_metaIn s of
             [] \<Rightarrow> s
           | m0 # ms \<Rightarrow>
               (case gib_dstQpIn s of
                  [] \<Rightarrow> s
                | d # ds \<Rightarrow>
                    (let m = m0\<lparr> ibm_partition_key := 0xFFFF \<rparr>;
                         h = (clear_header (gib_header s))\<lparr> ph_header := gib_fields m d (ph_header (gib_header s)) \<rparr>;
                         s1 = s\<lparr> gib_metaIn := ms, gib_dstQpIn := ds, gib_meta := m, gib_header := h \<rparr>
                     in if ibm_validPSN m then s1\<lparr> gib_headerOut := gib_headerOut s @ [h] \<rparr>
                        else s1\<lparr> gib_stateTable_upd_req := gib_stateTable_upd_req s @ [TxStateRead (ucast (ibm_dest_qp m))],
                                 gib_state := GIB_GET_PSN \<rparr>)))
      | GIB_GET_PSN \<Rightarrow>
          (case gib_stateTable_rsp s of
             [] \<Rightarrow> s
           | q # qs \<Rightarrow>
               (let m = gib_meta s; hd0 = ph_header (gib_header s);
                    h = (gib_header s)\<lparr> ph_header :=
                          (if ibm_op_code m = RC_ACK then bth_setPsn (ste_resp_epsn q - 1) hd0
                           else bth_setAckReq True (bth_setPsn (ste_req_next_psn q) hd0)) \<rparr>
                in s\<lparr> gib_stateTable_rsp := qs, gib_header := h, gib_headerOut := gib_headerOut s @ [h],
                      gib_stateTable_upd_req :=
                        (if ibm_op_code m = RC_ACK then gib_stateTable_upd_req s
                         else gib_stateTable_upd_req s @
                           [TxStateWrite (ucast (ibm_dest_qp m)) (ste_req_next_psn q + ucast (ibm_numPkg m))]),
                      gib_state := GIB_META \<rparr>)))"

section \<open>The rules for received packets\<close>

text \<open>Numbers lie on a circle of \<open>2\<^sup>2\<^sup>4\<close>.  A packet is taken when it has the expected number; an acknowledgement also when it lies between the
  oldest unacknowledged packet and the last one that was sent.  It is a repetition when it lies behind the oldest number that is
  still known.\<close>

datatype verdict = Taken | Repeated | Refused

definition verdict :: "ibOpCode \<Rightarrow> u24 \<Rightarrow> rxStateRsp \<Rightarrow> verdict" where
  "verdict op psn q =
     (if psn = rsr_epsn q \<or> op = RC_ACK \<and> psn - rsr_epsn q \<le> rsr_max_forward q - rsr_epsn q then Taken
      else if psn - rsr_oldest_outstanding_psn q < rsr_epsn q - rsr_oldest_outstanding_psn q then Repeated
      else Refused)"

text \<open>What the receiver writes for one packet: what it passes on, acknowledgements and negative ones, the decision about the payload,
  the decision about the header, and the new expected number with the retry counter.\<close>

record rx_effect =
  fx_meta :: "ibhMeta list"
  fx_event :: "ackEvent list"
  fx_drop :: "bool list"
  fx_policy :: "fwdPolicy list"
  fx_store :: "(u24 \<times> u3) option"

definition rx_rule :: "ibhMeta \<Rightarrow> exhMeta \<Rightarrow> rxStateRsp \<Rightarrow> rx_effect" where
  "rx_rule m e q =
     (let op = ibm_op_code m; rd = is_read_request op; ack = (op = RC_ACK)
      in case verdict op (ibm_psn m) q of
           Taken \<Rightarrow> \<lparr> fx_meta = [m], fx_event = [], fx_drop = (if ack \<or> rd then [] else [False]),
                      fx_policy = [\<lparr> fp_isDrop = False, fp_ackOnly = False \<rparr>],
                      fx_store = (if exm_isNak e then None else Some (ibm_psn m + ucast (exm_numPkg e), 7)) \<rparr>
         | Repeated \<Rightarrow>
             (if rd then \<lparr> fx_meta = [m], fx_event = [], fx_drop = [False],
                           fx_policy = [\<lparr> fp_isDrop = False, fp_ackOnly = False \<rparr>], fx_store = None \<rparr>
              else if checkIfWriteOrPartReq op
              then \<lparr> fx_meta = [], fx_event = [ackEvent_ok (ibm_dest_qp m)], fx_drop = [True],
                     fx_policy = [\<lparr> fp_isDrop = False, fp_ackOnly = True \<rparr>], fx_store = None \<rparr>
              else \<lparr> fx_meta = [], fx_event = [], fx_drop = (if ack then [] else [True]),
                     fx_policy = [\<lparr> fp_isDrop = True, fp_ackOnly = False \<rparr>], fx_store = None \<rparr>)
         | Refused \<Rightarrow>
             \<lparr> fx_meta = [],
               fx_event = (if \<not> ack \<and> rsr_retryCounter q = 7
                           then [ackEvent_psn (ibm_dest_qp m) (if checkIfResponse op then ibm_psn m else rsr_epsn q) True] else []),
               fx_drop = (if ack then [] else [True]), fx_policy = [\<lparr> fp_isDrop = True, fp_ackOnly = False \<rparr>],
               fx_store = (if ack then None
                           else Some (rsr_epsn q, if rsr_retryCounter q = 7 then 6 else rsr_retryCounter q)) \<rparr>)"

text \<open>The tests of the code are the positions on the circle.\<close>

lemma unat_u24: "unat (w :: u24) < 16777216"
  using unsigned_less [of w] by simp

lemma circle_le: "((e :: u24) \<le> p \<and> p \<le> m \<or> (e \<le> p \<or> p \<le> m) \<and> m < e) \<longleftrightarrow> p - e \<le> m - e"
  using unat_u24 [of e] unat_u24 [of p] unat_u24 [of m]
  by (auto simp: word_le_nat_alt word_less_nat_alt unat_sub_if')

lemma circle_less: "(old < e \<and> p < e \<and> p \<ge> old \<or> old > e \<and> (p < e \<or> p \<ge> old)) \<longleftrightarrow> p - old < e - (old :: u24)"
  using unat_u24 [of e] unat_u24 [of p] unat_u24 [of old]
  by (auto simp: word_le_nat_alt word_less_nat_alt unat_sub_if')

lemma psn_expected_Taken: "psn_expected m q \<longleftrightarrow> verdict (ibm_op_code m) (ibm_psn m) q = Taken"
  unfolding psn_expected_def Let_def circle_le by (auto simp: verdict_def)

lemma psn_duplicate_Repeated:
  "\<not> psn_expected m q \<Longrightarrow> psn_duplicate m q \<longleftrightarrow> verdict (ibm_op_code m) (ibm_psn m) q = Repeated"
  unfolding psn_expected_def psn_duplicate_def Let_def circle_le circle_less by (auto simp: verdict_def)

section \<open>The books of the two directions\<close>

text \<open>A received packet comes with the last number sent that the receiver has seen when it asked the table; it matters for
  responses only.\<close>

type_synonym rx_op = "ibhMeta \<times> exhMeta \<times> u24"

record rx_book =
  rb_entry :: "u16 \<Rightarrow> stateTableEntry"
  rb_meta :: "ibhMeta list"
  rb_event :: "ackEvent list"
  rb_drop :: "bool list"
  rb_policy :: "fwdPolicy list"

definition rx_seen :: "ibhMeta \<Rightarrow> u24 \<Rightarrow> stateTableEntry \<Rightarrow> rxStateRsp" where
  "rx_seen m maxf e = rx_view (checkIfResponse (ibm_op_code m)) (e\<lparr> ste_req_next_psn := maxf + 1 \<rparr>)"

fun rx_take :: "rx_op \<Rightarrow> rx_book \<Rightarrow> rx_book" where
  "rx_take (m, e, maxf) b =
     (let i = ucast (ibm_dest_qp m); x = rx_rule m e (rx_seen m maxf (rb_entry b i))
      in \<lparr> rb_entry = (case fx_store x of
                         None \<Rightarrow> rb_entry b
                       | Some (p, rc) \<Rightarrow> (rb_entry b)(i := rx_store p rc (checkIfResponse (ibm_op_code m)) (rb_entry b i))),
           rb_meta = rb_meta b @ fx_meta x, rb_event = rb_event b @ fx_event x,
           rb_drop = rb_drop b @ fx_drop x, rb_policy = rb_policy b @ fx_policy x \<rparr>)"

definition rx_books :: "(u16 \<Rightarrow> stateTableEntry) \<Rightarrow> rx_op list \<Rightarrow> rx_book" where
  "rx_books T h = fold rx_take h \<lparr> rb_entry = T, rb_meta = [], rb_event = [], rb_drop = [], rb_policy = [] \<rparr>"

text \<open>A packet that is sent: one with a number of its own keeps it, an acknowledgement gets the number before the one expected when
  the sender asked, any other the next number of its queue pair, which moves on by the number of packets of the answer.\<close>

type_synonym tx_op = "ibhMeta \<times> u24"

record tx_book =
  tb_next :: "u16 \<Rightarrow> u24"
  tb_psn :: "u24 list"

fun tx_take :: "tx_op \<Rightarrow> tx_book \<Rightarrow> tx_book" where
  "tx_take (m, epsn) b =
     (let i = ucast (ibm_dest_qp m)
      in if ibm_validPSN m then b\<lparr> tb_psn := tb_psn b @ [ibm_psn m] \<rparr>
         else if ibm_op_code m = RC_ACK then b\<lparr> tb_psn := tb_psn b @ [epsn - 1] \<rparr>
         else \<lparr> tb_next = (tb_next b)(i := tb_next b i + ucast (ibm_numPkg m)), tb_psn = tb_psn b @ [tb_next b i] \<rparr>)"

definition tx_books :: "(u16 \<Rightarrow> stateTableEntry) \<Rightarrow> tx_op list \<Rightarrow> tx_book" where
  "tx_books T h = fold tx_take h \<lparr> tb_next = (\<lambda>i. ste_req_next_psn (T i)), tb_psn = [] \<rparr>"

lemma books_snoc: "rx_books T (h @ [x]) = rx_take x (rx_books T h)" "tx_books T (k @ [y]) = tx_take y (tx_books T k)"
  by (simp_all add: rx_books_def tx_books_def)

section \<open>The two state machines and the table\<close>

record ib_psn_sys =
  ips_rx :: ibh_fsm_st
  ips_tx :: gen_ibh_st
  ips_tab :: ib_state_table_st

text \<open>The streams between a machine and the table are those of the table.\<close>

definition ips_rx_step :: "ib_psn_sys \<Rightarrow> ib_psn_sys" where
  "ips_rx_step y =
     (let t = ips_tab y;
          f = rx_ibh_fsm ((ips_rx y)\<lparr> ibf_stateTable_rsp := ist_rx_rsp t, ibf_stateTable_upd_req := ist_rx_req t \<rparr>)
      in y\<lparr> ips_rx := f, ips_tab := t\<lparr> ist_rx_rsp := ibf_stateTable_rsp f, ist_rx_req := ibf_stateTable_upd_req f \<rparr> \<rparr>)"

definition ips_tx_step :: "ib_psn_sys \<Rightarrow> ib_psn_sys" where
  "ips_tx_step y =
     (let t = ips_tab y;
          g = generate_ibh ((ips_tx y)\<lparr> gib_stateTable_rsp := ist_tx_rsp t, gib_stateTable_upd_req := ist_tx_req t \<rparr>)
      in y\<lparr> ips_tx := g, ips_tab := t\<lparr> ist_tx_rsp := gib_stateTable_rsp g, ist_tx_req := gib_stateTable_upd_req g \<rparr> \<rparr>)"

text \<open>What the next invocation of a machine brings to its end.\<close>

definition rx_finishes :: "ib_psn_sys \<Rightarrow> rx_op list" where
  "rx_finishes y = (case (ibf_fsmState (ips_rx y), ist_rx_rsp (ips_tab y)) of
     (IBF_PROCESS, q # _) \<Rightarrow> [(ibf_meta (ips_rx y), ibf_emeta (ips_rx y), rsr_max_forward q)] | _ \<Rightarrow> [])"

definition tx_finishes :: "ib_psn_sys \<Rightarrow> tx_op list" where
  "tx_finishes y = (case gib_state (ips_tx y) of
     GIB_GET_PSN \<Rightarrow> (case ist_tx_rsp (ips_tab y) of q # _ \<Rightarrow> [(gib_meta (ips_tx y), ste_resp_epsn q)] | [] \<Rightarrow> [])
   | GIB_META \<Rightarrow> (case (gib_metaIn (ips_tx y), gib_dstQpIn (ips_tx y)) of
       (m # _, _ # _) \<Rightarrow> (if ibm_validPSN m then [(m, 0)] else []) | _ \<Rightarrow> []))"

text \<open>The machines and the table move in any order, packets and requests come at any time; two histories record what
  the machines have finished.\<close>

type_synonym ips_run = "ib_psn_sys \<times> rx_op list \<times> tx_op list"

inductive ips_move :: "ips_run \<Rightarrow> ips_run \<Rightarrow> bool" where
  ips_receive: "ips_move (y, hr, ht) (ips_rx_step y, hr @ rx_finishes y, ht)"
| ips_send: "ips_move (y, hr, ht) (ips_tx_step y, hr, ht @ tx_finishes y)"
| ips_table: "ips_move (y, hr, ht) (y\<lparr> ips_tab := ib_state_table (ips_tab y) \<rparr>, hr, ht)"
| ips_arrive: "ips_move (y, hr, ht) (y\<lparr> ips_rx := (ips_rx y)\<lparr> ibf_metaIn := ms, ibf_exhMetaFifo := es \<rparr>,
    ips_tx := (ips_tx y)\<lparr> gib_metaIn := ns, gib_dstQpIn := ds \<rparr> \<rparr>, hr, ht)"

definition ips_start :: "(u16 \<Rightarrow> stateTableEntry) \<Rightarrow> ips_run \<Rightarrow> bool" where
  "ips_start T z \<longleftrightarrow> (\<exists>f g t. z = (\<lparr> ips_rx = f, ips_tx = g, ips_tab = t \<rparr>, [], [])
     \<and> ibf_fsmState f = IBF_LOAD \<and> ibf_metaOut f = [] \<and> ibf_ibhEventFifo f = [] \<and> ibf_ibhDropFifo f = [] \<and> ibf_ibhDropMetaFifo f = []
     \<and> gib_state g = GIB_META \<and> gib_headerOut g = [] \<and> length (ph_header (gib_header g)) = BTH_OCTETS
     \<and> ist_table t = T \<and> ist_rx_req t = [] \<and> ist_tx_req t = [] \<and> ist_qpi_req t = [] \<and> ist_rx_rsp t = [] \<and> ist_tx_rsp t = [])"

section \<open>The invariant\<close>

text \<open>A table with the writes applied that are still on their way; the receiver writes no next number, the sender nothing else.\<close>

fun rx_apply :: "rxStateReq \<Rightarrow> (u16 \<Rightarrow> stateTableEntry) \<Rightarrow> u16 \<Rightarrow> stateTableEntry" where
  "rx_apply (RxStateWrite i p rc r) T = T(i := rx_store p rc r (T i))"
| "rx_apply (RxStateRead i r) T = T"

fun tx_apply :: "txStateReq \<Rightarrow> (u16 \<Rightarrow> u24) \<Rightarrow> u16 \<Rightarrow> u24" where
  "tx_apply (TxStateWrite i p) N = N(i := p)"
| "tx_apply (TxStateRead i) N = N"

fun rx_writes :: "rxStateReq \<Rightarrow> bool" where
  "rx_writes (RxStateWrite i p rc r) = True"
| "rx_writes (RxStateRead i r) = False"

fun tx_writes :: "txStateReq \<Rightarrow> bool" where
  "tx_writes (TxStateWrite i p) = True"
| "tx_writes (TxStateRead i) = False"

definition no_next :: "stateTableEntry \<Rightarrow> stateTableEntry" where
  "no_next e = e\<lparr> ste_req_next_psn := 0 \<rparr>"

text \<open>The numbers that were once next, and those that were once expected.\<close>

definition was_next :: "(u16 \<Rightarrow> stateTableEntry) \<Rightarrow> tx_op list \<Rightarrow> u16 \<Rightarrow> u24 \<Rightarrow> bool" where
  "was_next T ht i p \<longleftrightarrow> (\<exists>k \<le> length ht. p = tb_next (tx_books T (take k ht)) i)"

definition was_expected :: "(u16 \<Rightarrow> stateTableEntry) \<Rightarrow> rx_op list \<Rightarrow> u16 \<Rightarrow> u24 \<Rightarrow> bool" where
  "was_expected T hr i p \<longleftrightarrow> (\<exists>k \<le> length hr. p = ste_resp_epsn (rb_entry (rx_books T (take k hr)) i))"

definition rx_waits :: "(u16 \<Rightarrow> stateTableEntry) \<Rightarrow> tx_op list \<Rightarrow> ibh_fsm_st \<Rightarrow> ib_state_table_st \<Rightarrow> bool" where
  "rx_waits T ht f t \<longleftrightarrow>
     (case ibf_fsmState f of
        IBF_LOAD \<Rightarrow> (\<forall>q \<in> set (ist_rx_req t). rx_writes q) \<and> ist_rx_rsp t = []
      | IBF_PROCESS \<Rightarrow>
          (let m = ibf_meta f; i = ucast (ibm_dest_qp m); r = checkIfResponse (ibm_op_code m)
           in ibf_isResponse f = r \<and>
              ((\<exists>ws. ist_rx_req t = ws @ [RxStateRead i r] \<and> (\<forall>q \<in> set ws. rx_writes q) \<and> ist_rx_rsp t = []) \<or>
               ist_rx_req t = [] \<and> (\<exists>p. was_next T ht i p \<and> ist_rx_rsp t = [rx_view r ((ist_table t i)\<lparr> ste_req_next_psn := p \<rparr>)]))))"

definition rx_inv :: "(u16 \<Rightarrow> stateTableEntry) \<Rightarrow> rx_op list \<Rightarrow> tx_op list \<Rightarrow> ibh_fsm_st \<Rightarrow> ib_state_table_st \<Rightarrow> bool" where
  "rx_inv T hr ht f t \<longleftrightarrow>
     (let b = rx_books T hr
      in (\<forall>i. no_next (fold rx_apply (ist_rx_req t) (ist_table t) i) = no_next (rb_entry b i))
       \<and> ibf_metaOut f = rb_meta b \<and> ibf_ibhEventFifo f = rb_event b \<and> ibf_ibhDropFifo f = rb_drop b
       \<and> ibf_ibhDropMetaFifo f = rb_policy b)
     \<and> rx_waits T ht f t
     \<and> (\<forall>(m, e, mf) \<in> set hr. checkIfResponse (ibm_op_code m) \<longrightarrow> was_next T ht (ucast (ibm_dest_qp m)) (mf + 1))"

definition tx_waits :: "(u16 \<Rightarrow> stateTableEntry) \<Rightarrow> rx_op list \<Rightarrow> gen_ibh_st \<Rightarrow> ib_state_table_st \<Rightarrow> bool" where
  "tx_waits T hr g t \<longleftrightarrow>
     (case gib_state g of
        GIB_META \<Rightarrow> (\<forall>q \<in> set (ist_tx_req t). tx_writes q) \<and> ist_tx_rsp t = []
      | GIB_GET_PSN \<Rightarrow>
          (let i = ucast (ibm_dest_qp (gib_meta g))
           in \<not> ibm_validPSN (gib_meta g) \<and>
              ((\<exists>ws. ist_tx_req t = ws @ [TxStateRead i] \<and> (\<forall>q \<in> set ws. tx_writes q) \<and> ist_tx_rsp t = []) \<or>
               ist_tx_req t = [] \<and> (\<exists>E. ist_tx_rsp t = [E] \<and> ste_req_next_psn E = ste_req_next_psn (ist_table t i)
                 \<and> was_expected T hr i (ste_resp_epsn E)))))"

definition tx_inv :: "(u16 \<Rightarrow> stateTableEntry) \<Rightarrow> rx_op list \<Rightarrow> tx_op list \<Rightarrow> gen_ibh_st \<Rightarrow> ib_state_table_st \<Rightarrow> bool" where
  "tx_inv T hr ht g t \<longleftrightarrow>
     (let b = tx_books T ht; N = (\<lambda>i. ste_req_next_psn (ist_table t i))
      in fold tx_apply (ist_tx_req t) N = tb_next b
       \<and> map (\<lambda>h. bth_getPsn (ph_header h)) (gib_headerOut g) = tb_psn b
       \<and> length (ph_header (gib_header g)) = BTH_OCTETS
       \<and> (\<forall>i. was_next T ht i (N i)) \<and> (\<forall>i p. TxStateWrite i p \<in> set (ist_tx_req t) \<longrightarrow> was_next T ht i p))
     \<and> tx_waits T hr g t
     \<and> (\<forall>(m, p) \<in> set ht. \<not> ibm_validPSN m \<longrightarrow> was_expected T hr (ucast (ibm_dest_qp m)) p)
     \<and> ist_qpi_req t = []"

definition ips_inv :: "(u16 \<Rightarrow> stateTableEntry) \<Rightarrow> ips_run \<Rightarrow> bool" where
  "ips_inv T z = (case z of (y, hr, ht) \<Rightarrow> rx_inv T hr ht (ips_rx y) (ips_tab y) \<and> tx_inv T hr ht (ips_tx y) (ips_tab y))"

lemma was_next_mono: "was_next T ht i p \<Longrightarrow> was_next T (ht @ x) i p"
proof -
  assume "was_next T ht i p"
  then obtain k where "k \<le> length ht" "p = tb_next (tx_books T (take k ht)) i" unfolding was_next_def by blast
  then show ?thesis unfolding was_next_def by (intro exI [of _ k]) simp
qed

lemma was_expected_mono: "was_expected T hr i p \<Longrightarrow> was_expected T (hr @ x) i p"
proof -
  assume "was_expected T hr i p"
  then obtain k where "k \<le> length hr" "p = ste_resp_epsn (rb_entry (rx_books T (take k hr)) i)" unfolding was_expected_def by blast
  then show ?thesis unfolding was_expected_def by (intro exI [of _ k]) simp
qed

lemma was_next_now: "was_next T ht i (tb_next (tx_books T ht) i)"
  unfolding was_next_def by (rule exI [of _ "length ht"]) simp

lemma was_expected_now: "was_expected T hr i (ste_resp_epsn (rb_entry (rx_books T hr) i))"
  unfolding was_expected_def by (rule exI [of _ "length hr"]) simp

lemma no_next_fields:
  assumes "no_next a = no_next b"
  shows "ste_resp_epsn a = ste_resp_epsn b" "a\<lparr> ste_req_next_psn := p \<rparr> = b\<lparr> ste_req_next_psn := p \<rparr>"
    "no_next (rx_store e rc r a) = no_next (rx_store e rc r b)"
  using assms by (cases a; cases b; simp add: no_next_def rx_store_def)+

lemma no_next_upd [simp]: "no_next (e\<lparr> ste_req_next_psn := p \<rparr>) = no_next e"
  by (simp add: no_next_def)

lemma no_next_fold:
  "(\<And>i. no_next (S i) = no_next (U i)) \<Longrightarrow> no_next (fold rx_apply qs S i) = no_next (fold rx_apply qs U i)"
proof (induction qs arbitrary: S U)
  case (Cons q qs)
  have "no_next (rx_apply q S j) = no_next (rx_apply q U j)" for j
    using Cons.prems by (cases q) (auto intro: no_next_fields(3))
  from Cons.IH [OF this] show ?case by simp
qed simp

text \<open>A finished packet, in the books and in the machine.\<close>

lemma rx_process_effect:
  assumes "ibf_isResponse s = checkIfResponse (ibm_op_code (ibf_meta s))" and "ibf_fsmState s = IBF_PROCESS"
    and "ibf_stateTable_rsp s = q # qs" and "x = rx_rule (ibf_meta s) (ibf_emeta s) q" and "t = rx_ibh_fsm s"
  shows "ibf_metaOut t = ibf_metaOut s @ fx_meta x \<and> ibf_ibhEventFifo t = ibf_ibhEventFifo s @ fx_event x
    \<and> ibf_ibhDropFifo t = ibf_ibhDropFifo s @ fx_drop x \<and> ibf_ibhDropMetaFifo t = ibf_ibhDropMetaFifo s @ fx_policy x
    \<and> ibf_fsmState t = IBF_LOAD \<and> ibf_stateTable_rsp t = qs
    \<and> ibf_stateTable_upd_req t = ibf_stateTable_upd_req s @
        (case fx_store x of None \<Rightarrow> [] | Some (p, rc) \<Rightarrow>
           [RxStateWrite (ucast (ibm_dest_qp (ibf_meta s))) p rc (checkIfResponse (ibm_op_code (ibf_meta s)))])"
proof (cases "verdict (ibm_op_code (ibf_meta s)) (ibm_psn (ibf_meta s)) q")
  case Taken
  then have "psn_expected (ibf_meta s) q" by (simp add: psn_expected_Taken)
  with Taken show ?thesis using assms
    by (simp add: rx_ibh_fsm_def ibf_accept_def rx_rule_def rxStateReq_psn_def Let_def)
next
  case Repeated
  then have "\<not> psn_expected (ibf_meta s) q" "psn_duplicate (ibf_meta s) q"
    by (simp_all add: psn_expected_Taken psn_duplicate_Repeated)
  with Repeated show ?thesis using assms
    by (simp add: rx_ibh_fsm_def ibf_again_def ibf_count_drop_def rx_rule_def Let_def)
next
  case Refused
  then have "\<not> psn_expected (ibf_meta s) q" "\<not> psn_duplicate (ibf_meta s) q"
    by (simp_all add: psn_expected_Taken psn_duplicate_Repeated)
  with Refused show ?thesis using assms
    by (simp add: rx_ibh_fsm_def ibf_invalid_def ibf_count_drop_def rx_rule_def rxStateReq_retry_def Let_def)
qed

text \<open>Histories only grow.\<close>

lemma rx_waits_mono: "rx_waits T ht f t \<Longrightarrow> rx_waits T (ht @ x) f t"
  by (auto simp: rx_waits_def Let_def intro: was_next_mono split: ibf_state.splits)

lemma tx_waits_mono: "tx_waits T hr g t \<Longrightarrow> tx_waits T (hr @ x) g t"
  by (auto simp: tx_waits_def Let_def intro: was_expected_mono split: gib_state.splits)

lemma rx_inv_mono: "rx_inv T hr ht f t \<Longrightarrow> rx_inv T hr (ht @ x) f t"
  by (auto simp: rx_inv_def intro: rx_waits_mono was_next_mono)

lemma tx_inv_mono: "tx_inv T hr ht g t \<Longrightarrow> tx_inv T (hr @ x) ht g t"
  by (auto simp: tx_inv_def intro: tx_waits_mono was_expected_mono)

text \<open>Each part only looks at its own streams of the table.\<close>

lemma rx_inv_cong:
  assumes "ist_rx_req t' = ist_rx_req t" "ist_rx_rsp t' = ist_rx_rsp t" "\<And>i. no_next (ist_table t' i) = no_next (ist_table t i)"
    "rx_inv T hr ht f t"
  shows "rx_inv T hr ht f t'"
proof -
  have "no_next (fold rx_apply (ist_rx_req t') (ist_table t') i) = no_next (fold rx_apply (ist_rx_req t) (ist_table t) i)" for i
    using no_next_fold [of "ist_table t'" "ist_table t"] assms(1,3) by simp
  moreover have "rx_waits T ht f t'"
    using assms(1,2,4) no_next_fields(2) [OF assms(3)]
    by (auto simp: rx_inv_def rx_waits_def Let_def split: ibf_state.splits)
  ultimately show ?thesis using assms(4) by (simp add: rx_inv_def Let_def)
qed

lemma tx_inv_cong:
  assumes "ist_tx_req t' = ist_tx_req t" "ist_tx_rsp t' = ist_tx_rsp t" "ist_qpi_req t' = ist_qpi_req t"
    "\<And>i. ste_req_next_psn (ist_table t' i) = ste_req_next_psn (ist_table t i)" "tx_inv T hr ht g t"
  shows "tx_inv T hr ht g t'"
proof -
  have "tx_waits T hr g t'" using assms by (simp add: tx_inv_def tx_waits_def Let_def split: gib_state.splits)
  with assms show ?thesis by (simp add: tx_inv_def Let_def)
qed

lemma rx_store_next [simp]: "ste_req_next_psn (rx_store p rc r e) = ste_req_next_psn e"
  by (simp add: rx_store_def)

subsection \<open>The table\<close>

lemma table_rx_read:
  assumes "rx_inv T hr ht f t" and "tx_inv T hr ht g t" and "ist_rx_req t = RxStateRead i r # qs"
  shows "rx_inv T hr ht f (ib_state_table t)"
proof -
  have f: "ibf_fsmState f = IBF_PROCESS" "qs = []" "ist_rx_rsp t = []" "i = ucast (ibm_dest_qp (ibf_meta f))"
    "r = checkIfResponse (ibm_op_code (ibf_meta f))" "ibf_isResponse f = r"
    using assms(1,3) by (auto simp: rx_inv_def rx_waits_def Let_def Cons_eq_append_conv split: ibf_state.splits)
  have "was_next T ht i (ste_req_next_psn (ist_table t i))" using assms(2) by (auto simp: tx_inv_def Let_def)
  then have "\<exists>p. was_next T ht i p \<and> rx_view r (ist_table t i) = rx_view r ((ist_table t i)\<lparr> ste_req_next_psn := p \<rparr>)"
    by (intro exI [of _ "ste_req_next_psn (ist_table t i)"]) simp
  with assms(1,3) f show ?thesis
    by (simp add: rx_inv_def rx_waits_def ib_state_table_def Let_def)
qed

lemma table_rx_write:
  assumes "rx_inv T hr ht f t" and "ist_rx_req t = RxStateWrite i p rc r # qs"
  shows "rx_inv T hr ht f (ib_state_table t)"
  using assms by (auto simp: rx_inv_def rx_waits_def ib_state_table_def Let_def Cons_eq_append_conv split: ibf_state.splits)

lemma table_tx_read:
  assumes "rx_inv T hr ht f t" and "tx_inv T hr ht g t" and "ist_rx_req t = []" and "ist_tx_req t = TxStateRead i # qs"
  shows "tx_inv T hr ht g (ib_state_table t)"
proof -
  have g: "gib_state g = GIB_GET_PSN" "qs = []" "ist_tx_rsp t = []" "i = ucast (ibm_dest_qp (gib_meta g))"
    using assms(2,4) by (auto simp: tx_inv_def tx_waits_def Let_def Cons_eq_append_conv split: gib_state.splits)
  have "no_next (ist_table t i) = no_next (rb_entry (rx_books T hr) i)" using assms(1,3) by (simp add: rx_inv_def Let_def)
  then have "was_expected T hr i (ste_resp_epsn (ist_table t i))"
    using no_next_fields(1) was_expected_now by metis
  with assms(2,3,4) g show ?thesis
    by (simp add: tx_inv_def tx_waits_def ib_state_table_def was_next_now Let_def)
qed

lemma table_tx_write:
  assumes "tx_inv T hr ht g t" and "ist_rx_req t = []" and "ist_tx_req t = TxStateWrite i p # qs"
  shows "tx_inv T hr ht g (ib_state_table t)"
proof -
  have "(\<lambda>j. ste_req_next_psn (((ist_table t)(i := (ist_table t i)\<lparr> ste_req_next_psn := p \<rparr>)) j))
      = (\<lambda>j. ste_req_next_psn (ist_table t j))(i := p)" by auto
  with assms show ?thesis
    by (auto simp: tx_inv_def tx_waits_def ib_state_table_def Let_def Cons_eq_append_conv split: gib_state.splits)
qed

lemma table_keeps:
  assumes "rx_inv T hr ht f t" and "tx_inv T hr ht g t"
  shows "rx_inv T hr ht f (ib_state_table t) \<and> tx_inv T hr ht g (ib_state_table t)"
proof (cases "ist_rx_req t")
  case (Cons q qs)
  have "tx_inv T hr ht g (ib_state_table t)"
    by (rule tx_inv_cong [OF _ _ _ _ assms(2)]) (cases q; auto simp: ib_state_table_def Cons)+
  with Cons show ?thesis using table_rx_read [OF assms] table_rx_write [OF assms(1)] by (cases q) auto
next
  case Nil
  have "ist_qpi_req t = []" using assms(2) by (simp add: tx_inv_def)
  then have "rx_inv T hr ht f (ib_state_table t)"
    by (intro rx_inv_cong [OF _ _ _ assms(1)])
       (auto simp: ib_state_table_def Nil split: list.split txStateReq.split ifStateReq.split)+
  moreover have "tx_inv T hr ht g (ib_state_table t)"
  proof (cases "ist_tx_req t")
    case Nil2: Nil
    have "ist_qpi_req t = []" using assms(2) by (simp add: tx_inv_def)
    with Nil Nil2 assms(2) show ?thesis by (simp add: ib_state_table_def)
  next
    case (Cons q qs)
    with Nil show ?thesis using table_tx_read [OF assms] table_tx_write [OF assms(2)] by (cases q) auto
  qed
  ultimately show ?thesis by blast
qed

subsection \<open>The machines\<close>

lemma rx_step_idle:
  assumes "ibf_fsmState f = IBF_LOAD" and "rx_inv T hr ht f t"
    and "f' = rx_ibh_fsm (f\<lparr> ibf_stateTable_rsp := ist_rx_rsp t, ibf_stateTable_upd_req := ist_rx_req t \<rparr>)"
  shows "rx_inv T hr ht f' (t\<lparr> ist_rx_rsp := ibf_stateTable_rsp f', ist_rx_req := ibf_stateTable_upd_req f' \<rparr>)"
  using assms by (auto simp: rx_inv_def rx_waits_def rx_ibh_fsm_def rxStateReq_read_def Let_def split: list.split)

lemma rx_step_waits:
  assumes "ibf_fsmState f = IBF_PROCESS" and "ist_rx_rsp t = []" and "rx_inv T hr ht f t"
    and "f' = rx_ibh_fsm (f\<lparr> ibf_stateTable_rsp := ist_rx_rsp t, ibf_stateTable_upd_req := ist_rx_req t \<rparr>)"
  shows "rx_inv T hr ht f' (t\<lparr> ist_rx_rsp := ibf_stateTable_rsp f', ist_rx_req := ibf_stateTable_upd_req f' \<rparr>)"
  using assms by (simp add: rx_inv_def rx_waits_def rx_ibh_fsm_def Let_def)

lemma rx_view_seen:
  assumes "no_next a = no_next b" and "r = checkIfResponse (ibm_op_code m)" and "q = rx_view r (a\<lparr> ste_req_next_psn := p \<rparr>)"
  shows "rx_seen m (rsr_max_forward q) b = q" and "r \<Longrightarrow> rsr_max_forward q + 1 = p"
  using assms(2,3) no_next_fields(2) [OF assms(1), of p]
  by (simp_all add: rx_seen_def rx_view_def)

lemma rx_step_done:
  assumes "ibf_fsmState f = IBF_PROCESS" and "ist_rx_rsp t = q # qs" and "rx_inv T hr ht f t"
    and "f' = rx_ibh_fsm (f\<lparr> ibf_stateTable_rsp := ist_rx_rsp t, ibf_stateTable_upd_req := ist_rx_req t \<rparr>)"
  shows "rx_inv T (hr @ [(ibf_meta f, ibf_emeta f, rsr_max_forward q)]) ht f'
    (t\<lparr> ist_rx_rsp := ibf_stateTable_rsp f', ist_rx_req := ibf_stateTable_upd_req f' \<rparr>)"
proof -
  let ?m = "ibf_meta f" and ?b = "rx_books T hr"
  let ?i = "ucast (ibm_dest_qp ?m) :: u16" and ?r = "checkIfResponse (ibm_op_code ?m)"
  from assms(1-3) obtain p where p: "was_next T ht ?i p" "qs = []" "ist_rx_req t = []" "ibf_isResponse f = ?r"
    "q = rx_view ?r ((ist_table t ?i)\<lparr> ste_req_next_psn := p \<rparr>)"
    by (auto simp: rx_inv_def rx_waits_def Let_def)
  have tab: "no_next (ist_table t j) = no_next (rb_entry ?b j)" for j
    using assms(3) p(3) by (simp add: rx_inv_def Let_def)
  note seen = rx_view_seen [OF tab refl p(5)]
  define x where "x = rx_rule ?m (ibf_emeta f) q"
  have eff: "ibf_metaOut f' = ibf_metaOut f @ fx_meta x \<and> ibf_ibhEventFifo f' = ibf_ibhEventFifo f @ fx_event x
    \<and> ibf_ibhDropFifo f' = ibf_ibhDropFifo f @ fx_drop x \<and> ibf_ibhDropMetaFifo f' = ibf_ibhDropMetaFifo f @ fx_policy x
    \<and> ibf_fsmState f' = IBF_LOAD \<and> ibf_stateTable_rsp f' = qs
    \<and> ibf_stateTable_upd_req f' = (case fx_store x of None \<Rightarrow> [] | Some (p, rc) \<Rightarrow> [RxStateWrite ?i p rc ?r])"
    using rx_process_effect [of "f\<lparr> ibf_stateTable_rsp := ist_rx_rsp t, ibf_stateTable_upd_req := ist_rx_req t \<rparr>" q qs x f']
      assms(1,2,4) p(3,4) by (simp add: x_def split: option.split prod.split)
  have b: "rx_books T (hr @ [(?m, ibf_emeta f, rsr_max_forward q)]) =
      \<lparr> rb_entry = (case fx_store x of None \<Rightarrow> rb_entry ?b | Some (p, rc) \<Rightarrow> (rb_entry ?b)(?i := rx_store p rc ?r (rb_entry ?b ?i))),
        rb_meta = rb_meta ?b @ fx_meta x, rb_event = rb_event ?b @ fx_event x,
        rb_drop = rb_drop ?b @ fx_drop x, rb_policy = rb_policy ?b @ fx_policy x \<rparr>"
    by (simp add: books_snoc seen(1) x_def Let_def)
  have "no_next (fold rx_apply (ibf_stateTable_upd_req f') (ist_table t) j) =
      no_next (rb_entry (rx_books T (hr @ [(?m, ibf_emeta f, rsr_max_forward q)])) j)" for j
    using eff b tab no_next_fields(3) [OF tab] by (auto split: option.split)
  moreover have "rx_waits T ht f' (t\<lparr> ist_rx_rsp := ibf_stateTable_rsp f', ist_rx_req := ibf_stateTable_upd_req f' \<rparr>)"
    using eff p(2) by (auto simp: rx_waits_def split: option.split)
  ultimately show ?thesis using assms(3) eff b seen(2) p(1) by (simp add: rx_inv_def Let_def)
qed

lemma rx_step_keeps:
  assumes "rx_inv T hr ht (ips_rx y) (ips_tab y)" and "tx_inv T hr ht (ips_tx y) (ips_tab y)"
  shows "ips_inv T (ips_rx_step y, hr @ rx_finishes y, ht)"
proof -
  have "tx_inv T (hr @ rx_finishes y) ht (ips_tx y) (ips_tab (ips_rx_step y))"
    by (rule tx_inv_cong [OF _ _ _ _ tx_inv_mono [OF assms(2)]]) (simp_all add: ips_rx_step_def Let_def)
  moreover have "rx_inv T (hr @ rx_finishes y) ht (ips_rx (ips_rx_step y)) (ips_tab (ips_rx_step y))"
  proof (cases "ibf_fsmState (ips_rx y)")
    case IBF_LOAD
    with rx_step_idle [OF _ assms(1) refl] show ?thesis by (simp add: ips_rx_step_def rx_finishes_def Let_def)
  next
    case IBF_PROCESS
    then show ?thesis
      using rx_step_waits [OF IBF_PROCESS _ assms(1) refl] rx_step_done [OF IBF_PROCESS _ assms(1) refl]
      by (cases "ist_rx_rsp (ips_tab y)") (simp_all add: ips_rx_step_def rx_finishes_def Let_def)
  qed
  ultimately show ?thesis by (simp add: ips_inv_def) (simp add: ips_rx_step_def Let_def)
qed

lemma bth_psn_fields:
  assumes "length h = BTH_OCTETS"
  shows "length (gib_fields m d h) = BTH_OCTETS" "bth_getPsn (gib_fields m d h) = ibm_psn m"
    "length (bth_setPsn p h) = BTH_OCTETS" "bth_getPsn (bth_setPsn p h) = p"
    "length (bth_setAckReq b h) = BTH_OCTETS" "bth_getPsn (bth_setAckReq b h) = bth_getPsn h"
  using assms
  by (simp_all add: gib_fields_def bth_setDstQP_def bth_setPsn_def bth_getPsn_def bth_setPartitionKey_def bth_setOpCode_def
      bth_setAckReq_def BTH_OCTETS_def field_simps reverse_reverse)

lemma tx_step_idle:
  assumes "gib_state g = GIB_META" and "tx_inv T hr ht g t"
    and "g' = generate_ibh (g\<lparr> gib_stateTable_rsp := ist_tx_rsp t, gib_stateTable_upd_req := ist_tx_req t \<rparr>)"
    and "x = (case (gib_metaIn g, gib_dstQpIn g) of (m # _, _ # _) \<Rightarrow> (if ibm_validPSN m then [(m, 0)] else []) | _ \<Rightarrow> [])"
  shows "tx_inv T hr (ht @ x) g' (t\<lparr> ist_tx_rsp := gib_stateTable_rsp g', ist_tx_req := gib_stateTable_upd_req g' \<rparr>)"
proof (cases "gib_metaIn g = [] \<or> gib_dstQpIn g = []")
  case True
  then have "x = []" "gib_stateTable_rsp g' = ist_tx_rsp t" "gib_stateTable_upd_req g' = ist_tx_req t"
    "gib_headerOut g' = gib_headerOut g" "gib_header g' = gib_header g" "gib_state g' = GIB_META"
    using assms(1,3,4) by (auto simp: generate_ibh_def split: list.split)
  with assms(1,2) show ?thesis by (simp add: tx_inv_def tx_waits_def Let_def)
next
  case False
  then obtain m ms d ds where md: "gib_metaIn g = m # ms" "gib_dstQpIn g = d # ds" by (meson neq_Nil_conv)
  let ?b = "tx_books T ht"
  have b: "tb_next (tx_books T (ht @ x)) = tb_next ?b"
    "tb_psn (tx_books T (ht @ x)) = tb_psn ?b @ (if ibm_validPSN m then [ibm_psn m] else [])"
    using assms(4) md by (simp_all add: books_snoc Let_def)
  have h: "length (ph_header (gib_header g)) = BTH_OCTETS" using assms(2) by (simp add: tx_inv_def Let_def)
  show ?thesis
    using assms(1-3) b md bth_psn_fields(1,2) [OF h] was_next_mono [of T ht _ _ x] assms(4)
    by (auto simp: tx_inv_def tx_waits_def generate_ibh_def clear_header_def Let_def)
qed

lemma tx_step_done:
  assumes "gib_state g = GIB_GET_PSN" and "ist_tx_rsp t = E # Es" and "tx_inv T hr ht g t"
    and "g' = generate_ibh (g\<lparr> gib_stateTable_rsp := ist_tx_rsp t, gib_stateTable_upd_req := ist_tx_req t \<rparr>)"
  shows "tx_inv T hr (ht @ [(gib_meta g, ste_resp_epsn E)]) g'
    (t\<lparr> ist_tx_rsp := gib_stateTable_rsp g', ist_tx_req := gib_stateTable_upd_req g' \<rparr>)"
proof -
  let ?m = "gib_meta g" and ?b = "tx_books T ht" and ?x = "[(gib_meta g, ste_resp_epsn E)]"
  let ?i = "ucast (ibm_dest_qp ?m) :: u16"
  from assms(1-3) have s: "\<not> ibm_validPSN ?m" "Es = []" "ist_tx_req t = []"
    "ste_req_next_psn E = ste_req_next_psn (ist_table t ?i)" "was_expected T hr ?i (ste_resp_epsn E)"
    by (auto simp: tx_inv_def tx_waits_def Let_def)
  have N: "(\<lambda>i. ste_req_next_psn (ist_table t i)) = tb_next ?b" using assms(3) s(3) by (simp add: tx_inv_def Let_def)
  then have nx: "ste_req_next_psn (ist_table t j) = tb_next ?b j" for j by metis
  have h: "length (ph_header (gib_header g)) = BTH_OCTETS" using assms(3) by (simp add: tx_inv_def Let_def)
  note f = bth_psn_fields [OF h] bth_psn_fields(5,6) [OF bth_psn_fields(3) [OF h]]
  have now: "was_next T (ht @ ?x) j (tb_next (tx_books T (ht @ ?x)) j)" and old: "was_next T (ht @ ?x) j (tb_next ?b j)" for j
    by (rule was_next_now, rule was_next_mono [OF was_next_now])
  show ?thesis
  proof (cases "ibm_op_code ?m = RC_ACK")
    case True
    then have "tx_books T (ht @ ?x) = ?b\<lparr> tb_psn := tb_psn ?b @ [ste_resp_epsn E - 1] \<rparr>" using s(1) by (simp add: books_snoc Let_def)
    with True assms s N nx f old show ?thesis
      by (simp add: tx_inv_def tx_waits_def generate_ibh_def Let_def)
  next
    case False
    then have bk: "tx_books T (ht @ ?x) = \<lparr> tb_next = (tb_next ?b)(?i := tb_next ?b ?i + ucast (ibm_numPkg ?m)),
        tb_psn = tb_psn ?b @ [tb_next ?b ?i] \<rparr>" using s(1) by (simp add: books_snoc Let_def)
    have "was_next T (ht @ ?x) ?i (tb_next ?b ?i + ucast (ibm_numPkg ?m))" using now [of ?i] by (simp add: bk)
    with False assms s N nx f old bk show ?thesis
      by (simp add: tx_inv_def tx_waits_def generate_ibh_def Let_def)
  qed
qed

lemma tx_step_waits:
  assumes "gib_state g = GIB_GET_PSN" and "ist_tx_rsp t = []" and "tx_inv T hr ht g t"
    and "g' = generate_ibh (g\<lparr> gib_stateTable_rsp := ist_tx_rsp t, gib_stateTable_upd_req := ist_tx_req t \<rparr>)"
  shows "tx_inv T hr ht g' (t\<lparr> ist_tx_rsp := gib_stateTable_rsp g', ist_tx_req := gib_stateTable_upd_req g' \<rparr>)"
  using assms by (simp add: tx_inv_def tx_waits_def generate_ibh_def Let_def)

lemma tx_step_keeps:
  assumes "rx_inv T hr ht (ips_rx y) (ips_tab y)" and "tx_inv T hr ht (ips_tx y) (ips_tab y)"
  shows "ips_inv T (ips_tx_step y, hr, ht @ tx_finishes y)"
proof -
  have "rx_inv T hr (ht @ tx_finishes y) (ips_rx y) (ips_tab (ips_tx_step y))"
    by (rule rx_inv_cong [OF _ _ _ rx_inv_mono [OF assms(1)]]) (simp_all add: ips_tx_step_def Let_def)
  moreover have "tx_inv T hr (ht @ tx_finishes y) (ips_tx (ips_tx_step y)) (ips_tab (ips_tx_step y))"
  proof (cases "gib_state (ips_tx y)")
    case GIB_META
    with tx_step_idle [OF _ assms(2) refl refl] show ?thesis by (simp add: ips_tx_step_def tx_finishes_def Let_def)
  next
    case GIB_GET_PSN
    then show ?thesis
      using tx_step_waits [OF GIB_GET_PSN _ assms(2) refl] tx_step_done [OF GIB_GET_PSN _ assms(2) refl]
      by (cases "ist_tx_rsp (ips_tab y)") (simp_all add: ips_tx_step_def tx_finishes_def Let_def)
  qed
  ultimately show ?thesis by (simp add: ips_inv_def) (simp add: ips_tx_step_def Let_def)
qed

lemma ips_inv_start: "ips_start T z \<Longrightarrow> ips_inv T z"
  by (auto simp: ips_start_def ips_inv_def rx_inv_def tx_inv_def rx_waits_def tx_waits_def rx_books_def tx_books_def
      was_next_def Let_def)

lemma ips_inv_move: "ips_inv T z \<Longrightarrow> ips_move z z' \<Longrightarrow> ips_inv T z'"
proof -
  assume z: "ips_inv T z" and "ips_move z z'"
  from this(2) show "ips_inv T z'"
  proof cases
    case (ips_receive y hr ht)
    with z show ?thesis using rx_step_keeps by (simp add: ips_inv_def)
  next
    case (ips_send y hr ht)
    with z show ?thesis using tx_step_keeps by (simp add: ips_inv_def)
  next
    case (ips_table y hr ht)
    with z show ?thesis using table_keeps [of T hr ht "ips_rx y" "ips_tab y" "ips_tx y"] by (simp add: ips_inv_def)
  next
    case (ips_arrive y hr ht ms es ns ds)
    with z show ?thesis
      by (simp add: ips_inv_def rx_inv_def tx_inv_def rx_waits_def tx_waits_def Let_def split: ibf_state.splits gib_state.splits)
  qed
qed

interpretation psn: invariant_system "ips_start T" ips_move "ips_inv T" for T
  by unfold_locales (blast intro: ips_inv_start ips_inv_move)+

section \<open>The machines keep the rules\<close>

text \<open>
  (C14) The two state machines and the table they share refine the rules for sequence numbers, however they are interleaved: at
  every moment the receiver has passed on, acknowledged, refused and discarded exactly what the rules say for the packets it
  has finished, in order, although the sender changes the entries in between; and the headers sent carry the numbers of
  the rules for the requests in order.  The last number sent, against which a response is checked, is one the sender really had,
  and the number in an acknowledgement is the one before a number the receiver really expected.
\<close>

theorem psn_rules_followed:
  assumes "reachable (ips_start T) ips_move (y, hr, ht)"
  shows "ibf_metaOut (ips_rx y) = rb_meta (rx_books T hr) \<and> ibf_ibhEventFifo (ips_rx y) = rb_event (rx_books T hr)
    \<and> ibf_ibhDropFifo (ips_rx y) = rb_drop (rx_books T hr) \<and> ibf_ibhDropMetaFifo (ips_rx y) = rb_policy (rx_books T hr)
    \<and> map (\<lambda>h. bth_getPsn (ph_header h)) (gib_headerOut (ips_tx y)) = tb_psn (tx_books T ht)
    \<and> (\<forall>(m, e, maxf) \<in> set hr. checkIfResponse (ibm_op_code m) \<longrightarrow> was_next T ht (ucast (ibm_dest_qp m)) (maxf + 1))
    \<and> (\<forall>(m, epsn) \<in> set ht. \<not> ibm_validPSN m \<longrightarrow> was_expected T hr (ucast (ibm_dest_qp m)) epsn)"
  using psn.invar_reachable [OF assms] by (simp add: ips_inv_def rx_inv_def tx_inv_def Let_def)

text \<open>Negative acknowledgements.\<close>

definition naks_for :: "u16 \<Rightarrow> ackEvent list \<Rightarrow> ackEvent list" where
  "naks_for i = filter (\<lambda>a. ake_isNak a \<and> ucast (ake_qpn a) = i)"

definition requests_for :: "u16 \<Rightarrow> ibhMeta list \<Rightarrow> ibhMeta list" where
  "requests_for i = filter (\<lambda>m. ucast (ibm_dest_qp m) = i \<and> \<not> checkIfResponse (ibm_op_code m))"

lemma rx_rule_effect:
  assumes "x = rx_rule m e q"
  shows "fx_store x = Some (p, rc) \<Longrightarrow> rc = 7 \<Longrightarrow> fx_meta x = [m]"
    "fx_event x = [] \<or> (\<exists>a. fx_event x = [a] \<and> ake_qpn a = ibm_dest_qp m
       \<and> (ake_isNak a \<longrightarrow> rsr_retryCounter q = 7 \<and> fx_store x = Some (rsr_epsn q, 6)))"
    "fx_meta x = [] \<or> fx_meta x = [m]"
  using assms
  by (auto simp: rx_rule_def Let_def ackEvent_ok_def ackEvent_psn_def split: verdict.splits if_splits)

lemma nak_step:
  assumes "b' = rx_take (m, e, maxf) b" and "i = ucast (ibm_dest_qp m)"
    and "length (naks_for i (rb_event b)) + of_bool (ste_retryCounter (rb_entry b i) = 7) \<le> 1 + length (requests_for i (rb_meta b))"
  shows "length (naks_for i (rb_event b')) + of_bool (ste_retryCounter (rb_entry b' i) = 7) \<le> 1 + length (requests_for i (rb_meta b'))"
proof -
  let ?q = "rx_seen m maxf (rb_entry b i)" and ?r = "checkIfResponse (ibm_op_code m)"
  define x where "x = rx_rule m e ?q"
  note fx = rx_rule_effect [OF x_def]
  have b': "rb_event b' = rb_event b @ fx_event x" "rb_meta b' = rb_meta b @ fx_meta x"
    "rb_entry b' i = (case fx_store x of None \<Rightarrow> rb_entry b i | Some (p, rc) \<Rightarrow> rx_store p rc ?r (rb_entry b i))"
    using assms(1,2) by (simp_all add: x_def Let_def split: option.split)
  have rc: "rsr_retryCounter ?q = (if ?r then 0 else ste_retryCounter (rb_entry b i))"
    by (simp add: rx_seen_def rx_view_def)
  show ?thesis
  proof (cases ?r)
    case True
    then have "ste_retryCounter (rb_entry b' i) = ste_retryCounter (rb_entry b i)"
      using b'(3) by (auto simp: rx_store_def split: option.split)
    moreover have "naks_for i (fx_event x) = []" using fx(2) rc True by (auto simp: naks_for_def)
    ultimately show ?thesis using assms(3) b' by (simp add: naks_for_def requests_for_def)
  next
    case False
    have n: "length (naks_for i (fx_event x)) \<le> 1" using fx(2) by (auto simp: naks_for_def)
    show ?thesis
    proof (cases "naks_for i (fx_event x) = []")
      case True
      have "of_bool (ste_retryCounter (rb_entry b' i) = 7)
          \<le> of_bool (ste_retryCounter (rb_entry b i) = 7) + length (requests_for i (fx_meta x))"
        using b'(3) fx(1) False assms(2) by (auto simp: rx_store_def requests_for_def split: option.split)
      with True assms(3) b' show ?thesis by (simp add: naks_for_def requests_for_def)
    next
      case nak: False
      then have "ste_retryCounter (rb_entry b i) = 7" "fx_store x = Some (rsr_epsn ?q, 6)"
        using fx(2) rc False by (auto simp: naks_for_def split: if_splits)
      then have "ste_retryCounter (rb_entry b' i) = 6" using b'(3) False by (simp add: rx_store_def)
      with \<open>ste_retryCounter (rb_entry b i) = 7\<close> n assms(3) b' show ?thesis by (simp add: naks_for_def requests_for_def)
    qed
  qed
qed

lemma nak_step_other:
  assumes "b' = rx_take (m, e, maxf) b" and "i \<noteq> ucast (ibm_dest_qp m)"
  shows "naks_for i (rb_event b') = naks_for i (rb_event b)" "requests_for i (rb_meta b') = requests_for i (rb_meta b)"
    "rb_entry b' i = rb_entry b i"
proof -
  define x where "x = rx_rule m e (rx_seen m maxf (rb_entry b (ucast (ibm_dest_qp m))))"
  note fx = rx_rule_effect(2,3) [OF x_def]
  show "naks_for i (rb_event b') = naks_for i (rb_event b)" "requests_for i (rb_meta b') = requests_for i (rb_meta b)"
    "rb_entry b' i = rb_entry b i"
    using assms fx by (auto simp: x_def [symmetric] naks_for_def requests_for_def Let_def split: option.split)
qed

lemma nak_bound:
  "length (naks_for i (rb_event (rx_books T hr))) + of_bool (ste_retryCounter (rb_entry (rx_books T hr) i) = 7)
     \<le> 1 + length (requests_for i (rb_meta (rx_books T hr)))"
proof (induction hr rule: rev_induct)
  case Nil
  show ?case by (simp add: rx_books_def naks_for_def requests_for_def)
next
  case (snoc x hr)
  obtain m e maxf where x: "x = (m, e, maxf)" by (cases x)
  show ?case
    using nak_step [OF refl, of i m "rx_books T hr" e maxf] nak_step_other [OF refl, of i m e maxf "rx_books T hr"] snoc.IH
    by (cases "i = ucast (ibm_dest_qp m)") (simp_all add: books_snoc x del: rx_take.simps)
qed


section \<open>Delivery in order\<close>

text \<open>The requests of a history for one queue pair, with the packets they count for, and how they are numbered.\<close>

definition own_number :: "u16 \<Rightarrow> ibhMeta \<Rightarrow> bool" where
  "own_number j m \<longleftrightarrow> ucast (ibm_dest_qp m) = j \<and> \<not> ibm_validPSN m \<and> ibm_op_code m \<noteq> RC_ACK"

definition requests_of :: "u16 \<Rightarrow> tx_op list \<Rightarrow> (ibOpCode \<times> u22) list" where
  "requests_of j ht = map (\<lambda>(m, _). (ibm_op_code m, ibm_numPkg m)) (filter (\<lambda>(m, _). own_number j m) ht)"

definition on_wire :: "u16 \<Rightarrow> tx_op list \<Rightarrow> u24 list \<Rightarrow> (ibOpCode \<times> u24 \<times> u22) list" where
  "on_wire j ht ps = map (\<lambda>((m, _), p). (ibm_op_code m, p, ibm_numPkg m)) (filter (\<lambda>((m, _), p). own_number j m) (zip ht ps))"

definition pkgs :: "(ibOpCode \<times> u22) list \<Rightarrow> nat" where
  "pkgs rs = sum_list (map (\<lambda>r. unat (snd r)) rs)"

fun numbered :: "u24 \<Rightarrow> (ibOpCode \<times> u22) list \<Rightarrow> (ibOpCode \<times> u24 \<times> u22) list" where
  "numbered p [] = []"
| "numbered p ((op, n) # rs) = (op, p, n) # numbered (p + ucast n) rs"

lemma numbered_snoc: "numbered p (rs @ [(op, n)]) = numbered p rs @ [(op, p + of_nat (pkgs rs), n)]"
proof (induction rs arbitrary: p)
  case (Cons r rs)
  have "(ucast k :: u24) + of_nat l = of_nat (unat k + l)" for k :: u22 and l by (simp add: unsigned_ucast_eq)
  with Cons show ?case by (cases r) (simp add: pkgs_def add.assoc)
qed (simp add: pkgs_def)

lemma tx_books_numbers:
  "length (tb_psn (tx_books T ht)) = length ht
   \<and> tb_next (tx_books T ht) j = ste_req_next_psn (T j) + of_nat (pkgs (requests_of j ht))
   \<and> on_wire j ht (tb_psn (tx_books T ht)) = numbered (ste_req_next_psn (T j)) (requests_of j ht)"
proof (induction ht rule: rev_induct)
  case Nil
  show ?case by (simp add: tx_books_def on_wire_def requests_of_def pkgs_def)
next
  case (snoc x ht)
  obtain m e where x: "x = (m, e)" by (cases x)
  have u: "(of_nat (unat k) :: u24) = ucast k" for k :: u22 by (simp add: unsigned_ucast_eq)
  show ?case
  proof (cases "own_number j m")
    case True
    with snoc.IH x show ?thesis
      by (simp add: books_snoc on_wire_def requests_of_def own_number_def numbered_snoc pkgs_def u add.assoc)
  next
    case False
    with snoc.IH x show ?thesis
      by (auto simp: books_snoc on_wire_def requests_of_def own_number_def Let_def)
  qed
qed

lemma length_numbered [simp]: "length (numbered p rs) = length rs"
  by (induction p rs rule: numbered.induct) simp_all

lemma nth_numbered:
  "k < length rs \<Longrightarrow> numbered p rs ! k = (fst (rs ! k), p + of_nat (pkgs (take k rs)), snd (rs ! k))"
proof (induction rs rule: rev_induct)
  case (snoc r rs)
  then show ?case by (cases r) (auto simp: numbered_snoc nth_append)
qed simp

lemma pkgs_take_mono:
  assumes "\<forall>r \<in> set rs. snd r \<noteq> 0" and "k < l" and "l \<le> length rs"
  shows "pkgs (take k rs) < pkgs (take l rs)"
proof -
  define ys where "ys = drop k (take l rs)"
  have ys: "take l rs = take k rs @ ys" "ys \<noteq> []"
    using assms(2,3) append_take_drop_id [of k "take l rs"] by (simp_all add: ys_def min_def)
  then obtain y zs where y: "ys = y # zs" by (cases ys) auto
  then have "y \<in> set rs" using ys by (metis in_set_conv_decomp in_set_takeD)
  then have "0 < unat (snd y)" using assms(1) by (simp add: unat_gt_0)
  then show ?thesis using ys y by (simp add: pkgs_def)
qed

text \<open>Numbers of different packets are different.\<close>

lemma numbered_inj:
  assumes "\<forall>r \<in> set rs. snd r \<noteq> 0" and "pkgs rs < 2 ^ 24" and "k \<le> length rs" and "l \<le> length rs"
    and "p + of_nat (pkgs (take k rs)) = p + (of_nat (pkgs (take l rs)) :: u24)"
  shows "k = l"
proof (rule ccontr)
  have le: "pkgs (take j rs) < 2 ^ 24" if "j \<le> length rs" for j
    using pkgs_take_mono [OF assms(1), of j "length rs"] assms(2) that by (cases "j = length rs") auto
  from assms(5) have "(of_nat (pkgs (take k rs)) :: u24) = of_nat (pkgs (take l rs))" by simp
  then have "pkgs (take k rs) = pkgs (take l rs)"
    using le [OF assms(3)] le [OF assms(4)] by (simp add: word_of_nat_eq_iff take_bit_nat_eq_self)
  moreover assume "k \<noteq> l"
  ultimately show False
    using pkgs_take_mono [OF assms(1), of k l] pkgs_take_mono [OF assms(1), of l k] assms(3,4) by linarith
qed

text \<open>The packets with payload that the receiver passes on, and those among the packets of a message.\<close>

definition passed_on :: "u16 \<Rightarrow> ibhMeta list \<Rightarrow> (ibOpCode \<times> u24) list" where
  "passed_on i ms = map (\<lambda>m. (ibm_op_code m, ibm_psn m)) (filter (\<lambda>m. \<not> is_read_request (ibm_op_code m)) (requests_for i ms))"

definition payloads :: "(ibOpCode \<times> u24 \<times> u22) list \<Rightarrow> (ibOpCode \<times> u24) list" where
  "payloads w = map (\<lambda>(op, p, n). (op, p)) (filter (\<lambda>(op, p, n). \<not> is_read_request op) w)"

lemma passed_on_append: "passed_on i (xs @ ys) = passed_on i xs @ passed_on i ys"
  by (simp add: passed_on_def requests_for_def)

lemma rx_request_cases:
  assumes "b' = rx_take (m, e, maxf) b" and "i = ucast (ibm_dest_qp m)" and "\<not> checkIfResponse (ibm_op_code m)" and "\<not> exm_isNak e"
  shows "ibm_psn m = ste_resp_epsn (rb_entry b i) \<Longrightarrow> ste_resp_epsn (rb_entry b' i) = ibm_psn m + ucast (exm_numPkg e)
      \<and> passed_on i (rb_meta b') = passed_on i (rb_meta b) @ payloads [(ibm_op_code m, ibm_psn m, exm_numPkg e)]"
    "ibm_psn m \<noteq> ste_resp_epsn (rb_entry b i) \<Longrightarrow> ste_resp_epsn (rb_entry b' i) = ste_resp_epsn (rb_entry b i)
      \<and> passed_on i (rb_meta b') = passed_on i (rb_meta b)"
proof -
  let ?q = "rx_seen m maxf (rb_entry b i)"
  have q: "rsr_epsn ?q = ste_resp_epsn (rb_entry b i)" "ibm_op_code m \<noteq> RC_ACK"
    using assms(3) by (auto simp: rx_seen_def rx_view_def checkIfResponse_def)
  show "ibm_psn m = ste_resp_epsn (rb_entry b i) \<Longrightarrow> ste_resp_epsn (rb_entry b' i) = ibm_psn m + ucast (exm_numPkg e)
      \<and> passed_on i (rb_meta b') = passed_on i (rb_meta b) @ payloads [(ibm_op_code m, ibm_psn m, exm_numPkg e)]"
    using assms q by (simp add: rx_rule_def verdict_def rx_store_def passed_on_def requests_for_def payloads_def Let_def)
  assume "ibm_psn m \<noteq> ste_resp_epsn (rb_entry b i)"
  then have "verdict (ibm_op_code m) (ibm_psn m) ?q \<noteq> Taken" using q by (simp add: verdict_def)
  then show "ste_resp_epsn (rb_entry b' i) = ste_resp_epsn (rb_entry b i) \<and> passed_on i (rb_meta b') = passed_on i (rb_meta b)"
    using assms q
    by (cases "verdict (ibm_op_code m) (ibm_psn m) ?q")
       (simp_all add: rx_rule_def rx_store_def passed_on_def requests_for_def Let_def)
qed

lemma rx_response_keeps:
  assumes "b' = rx_take (m, e, maxf) b" and "checkIfResponse (ibm_op_code m) \<or> ucast (ibm_dest_qp m) \<noteq> i"
  shows "ste_resp_epsn (rb_entry b' i) = ste_resp_epsn (rb_entry b i)" "passed_on i (rb_meta b') = passed_on i (rb_meta b)"
proof -
  define x where "x = rx_rule m e (rx_seen m maxf (rb_entry b (ucast (ibm_dest_qp m))))"
  show "ste_resp_epsn (rb_entry b' i) = ste_resp_epsn (rb_entry b i)" "passed_on i (rb_meta b') = passed_on i (rb_meta b)"
    using assms rx_rule_effect(3) [OF x_def]
    by (auto simp: x_def [symmetric] rx_store_def passed_on_def requests_for_def Let_def split: option.split)
qed

lemma requests_in_order:
  assumes "\<forall>r \<in> set rs. snd r \<noteq> 0" and "pkgs rs < 2 ^ 24" and "ste_resp_epsn (T i) = p"
    and "\<forall>(m, e, maxf) \<in> set hr. ucast (ibm_dest_qp m) = i \<and> \<not> checkIfResponse (ibm_op_code m) \<longrightarrow>
           (ibm_op_code m, ibm_psn m, exm_numPkg e) \<in> set (numbered p rs) \<and> \<not> exm_isNak e"
  shows "\<exists>K \<le> length rs. ste_resp_epsn (rb_entry (rx_books T hr) i) = p + of_nat (pkgs (take K rs))
    \<and> passed_on i (rb_meta (rx_books T hr)) = payloads (take K (numbered p rs))"
  using assms(4)
proof (induction hr rule: rev_induct)
  case Nil
  show ?case using assms(3) by (intro exI [of _ 0]) (simp add: rx_books_def pkgs_def passed_on_def requests_for_def payloads_def)
next
  case (snoc x hr)
  obtain m e maxf where x: "x = (m, e, maxf)" by (cases x)
  from snoc obtain K where K: "K \<le> length rs" "ste_resp_epsn (rb_entry (rx_books T hr) i) = p + of_nat (pkgs (take K rs))"
    "passed_on i (rb_meta (rx_books T hr)) = payloads (take K (numbered p rs))" by auto
  show ?case
  proof (cases "checkIfResponse (ibm_op_code m) \<or> ucast (ibm_dest_qp m) \<noteq> i")
    case True
    note k = rx_response_keeps [where b = "rx_books T hr" and e = e and maxf = maxf, OF refl True]
    show ?thesis using K by (intro exI [of _ K]) (simp add: books_snoc x k del: rx_take.simps)
  next
    case False
    then have r: "i = ucast (ibm_dest_qp m)" "\<not> checkIfResponse (ibm_op_code m)" by simp_all
    with snoc.prems x have w: "(ibm_op_code m, ibm_psn m, exm_numPkg e) \<in> set (numbered p rs)" "\<not> exm_isNak e" by auto
    note cs = rx_request_cases [where b = "rx_books T hr" and maxf = maxf, OF refl r w(2)]
    from w(1) obtain k where k: "k < length rs" "fst (rs ! k) = ibm_op_code m" "ibm_psn m = p + of_nat (pkgs (take k rs))"
      "snd (rs ! k) = exm_numPkg e" by (auto simp: in_set_conv_nth nth_numbered)
    show ?thesis
    proof (cases "ibm_psn m = ste_resp_epsn (rb_entry (rx_books T hr) i)")
      case True
      note k(3) [symmetric]
      also note True
      also note K(2)
      finally have "k = K" using numbered_inj [OF assms(1,2) _ K(1), of k p] k(1) by simp
      with k have r': "take (Suc K) rs = take K rs @ [rs ! K]" "snd (rs ! K) = exm_numPkg e"
        and w': "take (Suc K) (numbered p rs) = take K (numbered p rs) @ [(ibm_op_code m, ibm_psn m, exm_numPkg e)]"
        by (simp_all add: take_Suc_conv_app_nth nth_numbered)
      have u: "(of_nat (unat (exm_numPkg e)) :: u24) = ucast (exm_numPkg e)" by (simp add: unsigned_ucast_eq)
      have "ste_resp_epsn (rb_entry (rx_books T (hr @ [x])) i) = p + of_nat (pkgs (take (Suc K) rs))"
        using cs(1) [OF True] k(3) \<open>k = K\<close> r' u by (simp only: books_snoc x) (simp add: pkgs_def add.assoc del: rx_take.simps)
      moreover have "passed_on i (rb_meta (rx_books T (hr @ [x]))) = payloads (take (Suc K) (numbered p rs))"
        using cs(1) [OF True] K(3) w' by (simp only: books_snoc x) (simp add: payloads_def del: rx_take.simps)
      ultimately show ?thesis using k(1) \<open>k = K\<close> by (intro exI [of _ "Suc K"]) simp
    next
      case False
      show ?thesis using cs(2) [OF False] K by (intro exI [of _ K]) (simp add: books_snoc x del: rx_take.simps)
    qed
  qed
qed

text \<open>
  (C13) Requests are delivered in order and once.  Let the sender of one host have sent, by any interleaving, its requests for a queue pair,
  fewer than \<open>2\<^sup>2\<^sup>4\<close> packets counting the answers of reads.  Let the network lose, repeat and reorder these packets as it
  likes, so that every request the receiver of the other host gets for its queue pair, initialised with the same number, is one of them.  Then the
  packets with payload that the receiver passes on are, in order and without repetition, those of an initial part of
  what was sent.
\<close>

theorem requests_delivered_in_order:
  assumes "reachable (ips_start T) ips_move (x, kr, ht)" and "reachable (ips_start U) ips_move (y, hr, kt)"
    and "wire = on_wire j ht (map (\<lambda>h. bth_getPsn (ph_header h)) (gib_headerOut (ips_tx x)))"
    and "\<forall>r \<in> set (requests_of j ht). snd r \<noteq> 0" and "pkgs (requests_of j ht) < 2 ^ 24"
    and "ste_resp_epsn (U i) = ste_req_next_psn (T j)"
    and "\<forall>(m, e, maxf) \<in> set hr. ucast (ibm_dest_qp m) = i \<and> \<not> checkIfResponse (ibm_op_code m) \<longrightarrow>
           (ibm_op_code m, ibm_psn m, exm_numPkg e) \<in> set wire \<and> \<not> exm_isNak e"
  shows "\<exists>K \<le> length wire. passed_on i (ibf_metaOut (ips_rx y)) = payloads (take K wire)"
proof -
  have "map (\<lambda>h. bth_getPsn (ph_header h)) (gib_headerOut (ips_tx x)) = tb_psn (tx_books T ht)"
    using psn.invar_reachable [OF assms(1)] by (simp add: ips_inv_def tx_inv_def Let_def)
  then have w: "wire = numbered (ste_req_next_psn (T j)) (requests_of j ht)" using assms(3) tx_books_numbers by simp
  have "ibf_metaOut (ips_rx y) = rb_meta (rx_books U hr)"
    using psn.invar_reachable [OF assms(2)] by (simp add: ips_inv_def rx_inv_def Let_def)
  with requests_in_order [where T = U and i = i and hr = hr, OF assms(4,5,6)] assms(7) w show ?thesis by auto
qed

section \<open>A concrete run\<close>

definition ips_round :: "ips_run \<Rightarrow> ips_run" where
  "ips_round z = (case z of (y, hr, ht) \<Rightarrow>
     let y1 = ips_rx_step y; y2 = ips_tx_step y1
     in (y2\<lparr> ips_tab := ib_state_table (ips_tab y2) \<rparr>, hr @ rx_finishes y, ht @ tx_finishes y1))"

lemma ips_round_reachable: "reachable (ips_start T) ips_move z \<Longrightarrow> reachable (ips_start T) ips_move ((ips_round ^^ n) z)"
proof (induction n)
  case (Suc n)
  obtain y hr ht where z: "(ips_round ^^ n) z = (y, hr, ht)" by (cases "(ips_round ^^ n) z")
  with Suc have r: "reachable (ips_start T) ips_move (y, hr, ht)" by simp
  note r1 = reachable_step [OF r ips_receive]
  note r2 = reachable_step [OF r1 ips_send]
  have "ips_round (y, hr, ht) = (ips_tx_step (ips_rx_step y)
      \<lparr> ips_tab := ib_state_table (ips_tab (ips_tx_step (ips_rx_step y))) \<rparr>, hr @ rx_finishes y, ht @ tx_finishes (ips_rx_step y))"
    by (simp add: ips_round_def Let_def)
  with reachable_step [OF r2 ips_table] z show ?case by simp
qed simp

definition write_packet :: "u24 \<Rightarrow> ibhMeta" where
  "write_packet psn = ibhMeta_psn RC_RDMA_WRITE_ONLY 0xFFFF 1 psn True"

definition ips_ex :: "(u16 \<Rightarrow> stateTableEntry) \<Rightarrow> u24 list \<Rightarrow> u22 list \<Rightarrow> ib_psn_sys" where
  "ips_ex T psns nums =
     \<lparr> ips_rx = \<lparr> ibf_fsmState = IBF_LOAD, ibf_meta = write_packet 0, ibf_emeta = \<lparr> exm_isNak = False, exm_numPkg = 1 \<rparr>,
         ibf_isResponse = False, ibf_droppedPackets = 0, ibf_metaIn = map write_packet psns,
         ibf_exhMetaFifo = map (\<lambda>_. \<lparr> exm_isNak = False, exm_numPkg = 1 \<rparr>) psns, ibf_stateTable_rsp = [],
         ibf_stateTable_upd_req = [], ibf_metaOut = [], ibf_ibhEventFifo = [], ibf_ibhDropFifo = [], ibf_ibhDropMetaFifo = [],
         ibf_regInvalidPsnDropCount = 0 \<rparr>,
       ips_tx = \<lparr> gib_state = GIB_META, gib_header = \<lparr> ph_ready = False, ph_idx = 0, ph_header = replicate 12 0 \<rparr>,
         gib_meta = write_packet 0, gib_metaIn = map (ibhMeta_num RC_RDMA_WRITE_ONLY 0 1) nums, gib_dstQpIn = map (\<lambda>_. 1) nums,
         gib_stateTable_rsp = [], gib_stateTable_upd_req = [], gib_headerOut = [] \<rparr>,
       ips_tab = \<lparr> ist_table = T, ist_rx_req = [], ist_tx_req = [], ist_qpi_req = [], ist_rx_rsp = [], ist_tx_rsp = [],
         ist_qpi_rsp = [] \<rparr> \<rparr>"

lemma ips_ex_reachable: "reachable (ips_start T) ips_move ((ips_round ^^ n) (ips_ex T psns nums, [], []))"
  by (rule ips_round_reachable [OF reachable_init]) (simp add: ips_start_def ips_ex_def BTH_OCTETS_def)

text \<open>The first host sends two packets, numbered 10 and 11; they arrive at the second as 11, 10, 10, 11.\<close>

definition ex_sender :: ips_run where
  "ex_sender = (ips_round ^^ 8) (ips_ex (\<lambda>_. if_setup 10 0) [] [1, 1], [], [])"

definition ex_receiver :: ips_run where
  "ex_receiver = (ips_round ^^ 10) (ips_ex (\<lambda>_. if_setup 5 10) [11, 10, 10, 11] [], [], [])"

lemma ex_sender_run:
  "map (\<lambda>h. bth_getPsn (ph_header h)) (gib_headerOut (ips_tx (fst ex_sender))) = [10, 11]"
  "map (\<lambda>(m, e). (own_number 1 m, ibm_op_code m, ibm_numPkg m)) (snd (snd ex_sender)) =
     [(True, RC_RDMA_WRITE_ONLY, 1), (True, RC_RDMA_WRITE_ONLY, 1)]"
  by code_simp+

lemma ex_receiver_run:
  "passed_on 1 (ibf_metaOut (ips_rx (fst ex_receiver))) = [(RC_RDMA_WRITE_ONLY, 10), (RC_RDMA_WRITE_ONLY, 11)]"
  "length (naks_for 1 (ibf_ibhEventFifo (ips_rx (fst ex_receiver)))) = 1"
  "map (\<lambda>(m, e, maxf). (m, e)) (fst (snd ex_receiver)) =
     map (\<lambda>p. (write_packet p, \<lparr> exm_isNak = False, exm_numPkg = 1 \<rparr>)) [11, 10, 10, 11]"
  by code_simp+

theorem psn_rules_followed_witness:
  "tb_psn (tx_books (\<lambda>_. if_setup 10 0) (snd (snd ex_sender))) = [10, 11]
   \<and> length (rb_policy (rx_books (\<lambda>_. if_setup 5 10) (fst (snd ex_receiver)))) = 4"
proof -
  have l: "length (ibf_ibhDropMetaFifo (ips_rx (fst ex_receiver))) = 4" by code_simp
  have s: "reachable (ips_start (\<lambda>_. if_setup 10 0)) ips_move (fst ex_sender, fst (snd ex_sender), snd (snd ex_sender))"
    and r: "reachable (ips_start (\<lambda>_. if_setup 5 10)) ips_move (fst ex_receiver, fst (snd ex_receiver), snd (snd ex_receiver))"
    by (simp_all add: ex_sender_def ex_receiver_def ips_ex_reachable)
  show ?thesis using psn_rules_followed [OF s] psn_rules_followed [OF r] ex_sender_run(1) l by simp
qed


lemma ex_wire:
  "on_wire 1 (snd (snd ex_sender)) (map (\<lambda>h. bth_getPsn (ph_header h)) (gib_headerOut (ips_tx (fst ex_sender)))) =
     [(RC_RDMA_WRITE_ONLY, 10, 1), (RC_RDMA_WRITE_ONLY, 11, 1)]"
  "requests_of 1 (snd (snd ex_sender)) = [(RC_RDMA_WRITE_ONLY, 1), (RC_RDMA_WRITE_ONLY, 1)]"
  by code_simp+

theorem requests_delivered_in_order_witness:
  "\<exists>K \<le> Suc (Suc 0). passed_on 1 (ibf_metaOut (ips_rx (fst ex_receiver))) =
     payloads (take K [(RC_RDMA_WRITE_ONLY, 10, 1), (RC_RDMA_WRITE_ONLY, 11, 1)])"
proof -
  have s: "reachable (ips_start (\<lambda>_. if_setup 10 0)) ips_move (fst ex_sender, fst (snd ex_sender), snd (snd ex_sender))"
    and r: "reachable (ips_start (\<lambda>_. if_setup 5 10)) ips_move (fst ex_receiver, fst (snd ex_receiver), snd (snd ex_receiver))"
    by (simp_all add: ex_sender_def ex_receiver_def ips_ex_reachable)
  have "(m, e) \<in> set (map (\<lambda>(m, e, maxf). (m, e)) (fst (snd ex_receiver)))" if "(m, e, k) \<in> set (fst (snd ex_receiver))" for m e k
    using that by force
  then have h: "\<forall>(m, e, maxf) \<in> set (fst (snd ex_receiver)). ucast (ibm_dest_qp m) = (1 :: u16) \<and> \<not> checkIfResponse (ibm_op_code m) \<longrightarrow>
      (ibm_op_code m, ibm_psn m, exm_numPkg e) \<in> set [(RC_RDMA_WRITE_ONLY, 10, 1), (RC_RDMA_WRITE_ONLY, 11, 1)] \<and> \<not> exm_isNak e"
    by (fastforce simp: ex_receiver_run(3) write_packet_def ibhMeta_psn_def)
  show ?thesis
    using requests_delivered_in_order [OF s r ex_wire(1) [symmetric], where i = 1] h by (simp add: ex_wire(2) pkgs_def if_setup_def)
qed

section \<open>Where the code departs from its intent\<close>

text \<open>When nothing is outstanding, the last number sent is the one before the expected number, and the interval that is tested is the whole
  circle: an acknowledgement with any number is taken and moves the oldest unacknowledged number behind it.\<close>

lemma stray_ack_taken:
  assumes "ste_req_old_unack e = ste_req_next_psn e" and "ibm_op_code m = RC_ACK" and "\<not> exm_isNak x"
  shows "fx_meta (rx_rule m x (rx_view True e)) = [m] \<and> fx_store (rx_rule m x (rx_view True e)) = Some (ibm_psn m + ucast (exm_numPkg x), 7)"
proof -
  have "p - k \<le> k - 1 - (k :: u24)" for p k by simp
  with assms show ?thesis by (simp add: rx_rule_def verdict_def rx_view_def)
qed

text \<open>A read request has no payload, and no decision about one is written when it is taken; but one is written when it is repeated
  or refused, and applies to the payload of another packet.\<close>

lemma decision_without_payload:
  assumes "is_read_request (ibm_op_code m)"
  shows "length (fx_drop (rx_rule m e q)) = of_bool (ibm_psn m \<noteq> rsr_epsn q)"
  using assms by (auto simp: rx_rule_def verdict_def is_read_request_def Let_def)

end
