(* ===== verification/Ib_Requests.thy ===== *)
theory Ib_Requests
  imports Ib_Tables
begin

text \<open>
  Messages and packets in the InfiniBand transport (\<^verbatim>\<open>ib_transport_protocol.cpp\<close>): \<^verbatim>\<open>local_req_handler\<close> cuts the requests of the
  application into packets, \<^verbatim>\<open>handle_read_requests\<close> the answers to a read of the other side, \<^verbatim>\<open>meta_merger\<close> and
  \<^verbatim>\<open>generate_exh\<close> describe the packets to the stages that build them, and \<^verbatim>\<open>rx_exh_fsm\<close> turns received packets into commands to
  the memory.  The lemmas follow a message from the application of one host to the memory of the other.
\<close>

section \<open>Requests of the application\<close>

datatype lrh_state = LRH_META | LRH_GENERATE

record local_req_st =
  lrh_state :: lrh_state
  lrh_meta :: txMeta
  lrh_tx_meta :: "txMeta list"
  lrh_memCmd :: "memCmdInternal list"
  lrh_readAddr :: "u64 mqInsertReq list"
  lrh_event :: "ib_event list"

definition pmtu :: "'a::len word" where "pmtu = of_nat PMTU"

definition txMeta_next :: "txMeta \<Rightarrow> txMeta" where
  "txMeta_next m = m\<lparr> txm_local_vaddr := txm_local_vaddr m + pmtu, txm_remote_vaddr := txm_remote_vaddr m + pmtu,
     txm_length := txm_length m - pmtu \<rparr>"

definition lrh_read :: "txMeta \<Rightarrow> local_req_st \<Rightarrow> local_req_st" where
  "lrh_read m s =
     s\<lparr> lrh_event :=
          (case txm_op_code m of
             APP_READ \<Rightarrow> lrh_event s @ [event_addr RC_RDMA_READ_REQUEST (txm_qpn m) (txm_remote_vaddr m) (txm_length m)]
           | APP_READ_CONSISTENT \<Rightarrow>
               lrh_event s @ [event_addr RC_RDMA_READ_CONSISTENT_REQUEST (txm_qpn m) (txm_remote_vaddr m) (txm_length m)]
           | _ \<Rightarrow> lrh_event s),
        lrh_readAddr := lrh_readAddr s @ [\<lparr> mqi_key = ucast (txm_qpn m), mqi_value = ucast (txm_local_vaddr m) \<rparr>] \<rparr>"

definition lrh_write :: "axiRoute \<Rightarrow> txMeta \<Rightarrow> local_req_st \<Rightarrow> local_req_st" where
  "lrh_write unset m s =
     (let part = (txm_op_code m = APP_PART); long = (txm_length m > pmtu);
          op = (if long then (if part then RC_RDMA_PART_FIRST else RC_RDMA_WRITE_FIRST)
                else (if part then RC_RDMA_PART_ONLY else RC_RDMA_WRITE_ONLY))
      in s\<lparr> lrh_meta := (if long then txMeta_next m else m), lrh_state := (if long then LRH_GENERATE else LRH_META),
            lrh_memCmd := lrh_memCmd s @ [memCmdInternal_mk unset (ucast (txm_qpn m)) (ucast (txm_local_vaddr m)) (txm_length m)],
            lrh_event := lrh_event s @ [event_addr op (txm_qpn m) (txm_remote_vaddr m) (txm_length m)] \<rparr>)"

definition lrh_generate :: "local_req_st \<Rightarrow> local_req_st" where
  "lrh_generate s =
     (let m = lrh_meta s; part = (txm_op_code m = APP_PART); long = (txm_length m > pmtu);
          op = (if long then (if part then RC_RDMA_PART_MIDDLE else RC_RDMA_WRITE_MIDDLE)
                else (if part then RC_RDMA_PART_LAST else RC_RDMA_WRITE_LAST))
      in s\<lparr> lrh_meta := (if long then txMeta_next m else m), lrh_state := (if long then LRH_GENERATE else LRH_META),
            lrh_event := lrh_event s @ [event_addr op (txm_qpn m) (txm_remote_vaddr m) (if long then pmtu else txm_length m)] \<rparr>)"

definition local_req_handler :: "axiRoute \<Rightarrow> local_req_st \<Rightarrow> local_req_st" where
  "local_req_handler unset s =
     (case lrh_state s of
        LRH_META \<Rightarrow>
          (case lrh_tx_meta s of
             [] \<Rightarrow> s
           | m # ms \<Rightarrow>
               (let s1 = s\<lparr> lrh_tx_meta := ms, lrh_meta := m \<rparr>
                in if txm_op_code m \<in> {APP_READ, APP_POINTER, APP_READ_CONSISTENT} then lrh_read m s1 else lrh_write unset m s1))
      | LRH_GENERATE \<Rightarrow> lrh_generate s)"

section \<open>Reads of the other side\<close>

datatype hrr_state = HRR_META | HRR_GENERATE

record read_handler_st =
  hrr_state :: hrr_state
  hrr_request :: readRequest
  hrr_requestIn :: "readRequest list"
  hrr_memCmd :: "memCmdInternal list"
  hrr_event :: "ib_event list"

definition rdr_next :: "readRequest \<Rightarrow> readRequest" where
  "rdr_next r = r\<lparr> rdr_vaddr := rdr_vaddr r + pmtu, rdr_dma_length := rdr_dma_length r - pmtu \<rparr>"

definition handle_read_requests :: "axiRoute \<Rightarrow> read_handler_st \<Rightarrow> read_handler_st" where
  "handle_read_requests unset s =
     (case hrr_state s of
        HRR_META \<Rightarrow>
          (case hrr_requestIn s of
             [] \<Rightarrow> s
           | r # rs \<Rightarrow>
               (let long = (rdr_dma_length r > pmtu)
                in s\<lparr> hrr_requestIn := rs, hrr_request := (if long then rdr_next r else r),
                      hrr_state := (if long then HRR_GENERATE else HRR_META),
                      hrr_memCmd := hrr_memCmd s @
                        [memCmdInternal_mk unset (ucast (rdr_qpn r)) (ucast (rdr_vaddr r)) (rdr_dma_length r)],
                      hrr_event := hrr_event s @
                        [event_psn (if long then RC_RDMA_READ_RESP_FIRST else RC_RDMA_READ_RESP_ONLY) (rdr_qpn r)
                           (if long then pmtu else rdr_dma_length r) (rdr_psn r)] \<rparr>))
      | HRR_GENERATE \<Rightarrow>
          (let r = hrr_request s; long = (rdr_dma_length r > pmtu); r1 = (if long then rdr_next r else r);
               r2 = r1\<lparr> rdr_psn := rdr_psn r1 + 1 \<rparr>
           in s\<lparr> hrr_request := r2, hrr_state := (if long then HRR_GENERATE else HRR_META),
                 hrr_event := hrr_event s @
                   [event_psn (if long then RC_RDMA_READ_RESP_MIDDLE else RC_RDMA_READ_RESP_LAST) (rdr_qpn r)
                      (if long then pmtu else rdr_dma_length r) (rdr_psn r2)] \<rparr>))"

section \<open>The order of events\<close>

record meta_merger_st =
  mmg_ack :: "ackEvent list"
  mmg_read :: "ib_event list"
  mmg_app :: "ib_event list"
  mmg_connTable_req :: "u16 list"
  mmg_ibhMeta :: "ibhMeta list"
  mmg_exhMeta :: "ib_event list"

definition mmg_send :: "u24 \<Rightarrow> ibhMeta \<Rightarrow> ib_event \<Rightarrow> meta_merger_st \<Rightarrow> meta_merger_st" where
  "mmg_send qpn im ev s = s\<lparr> mmg_connTable_req := mmg_connTable_req s @ [ucast qpn], mmg_ibhMeta := mmg_ibhMeta s @ [im],
     mmg_exhMeta := mmg_exhMeta s @ [ev] \<rparr>"

definition meta_merger :: "meta_merger_st \<Rightarrow> meta_merger_st" where
  "meta_merger s =
     (case mmg_ack s of
        a # as \<Rightarrow> mmg_send (ake_qpn a) (ibhMeta_psn RC_ACK 0 (ake_qpn a) (ake_psn a) (ake_validPsn a)) (event_of_ack a) (s\<lparr> mmg_ack := as \<rparr>)
      | [] \<Rightarrow>
          (case mmg_read s of
             ev # evs \<Rightarrow>
               mmg_send (ibe_qpn ev) (ibhMeta_psn (ibe_op_code ev) 0 (ibe_qpn ev) (ibe_psn ev) (ibe_validPsn ev)) ev (s\<lparr> mmg_read := evs \<rparr>)
           | [] \<Rightarrow>
               (case mmg_app s of
                  ev # evs \<Rightarrow>
                    (let numPkg = (if is_read_request (ibe_op_code ev) then num_pkg (ibe_length ev) else 1)
                     in mmg_send (ibe_qpn ev)
                          (if ibe_validPsn ev then ibhMeta_psn (ibe_op_code ev) 0 (ibe_qpn ev) (ibe_psn ev) (ibe_validPsn ev)
                           else ibhMeta_num (ibe_op_code ev) 0 (ibe_qpn ev) numPkg) ev (s\<lparr> mmg_app := evs \<rparr>))
                | [] \<Rightarrow> s)))"

section \<open>The other side of a connection\<close>

record meta_udp_st =
  mum_connTable_rsp :: "connTableEntry list"
  mum_length :: "u16 list"
  mum_meta :: "ipUdpMeta list"
  mum_dstQp :: "u24 list"

definition tx_ipUdpMetaMerger :: "meta_udp_st \<Rightarrow> meta_udp_st" where
  "tx_ipUdpMetaMerger s =
     (case (mum_connTable_rsp s, mum_length s) of
        (c # cs, l # ls) \<Rightarrow>
          s\<lparr> mum_connTable_rsp := cs, mum_length := ls,
             mum_meta := mum_meta s @ [\<lparr> ium_their_address = cte_remote_ip_address c, ium_their_port = RDMA_DEFAULT_PORT,
                                         ium_my_port = cte_remote_udp_port c, ium_length = l \<rparr>],
             mum_dstQp := mum_dstQp s @ [cte_remote_qpn c] \<rparr>
      | _ \<Rightarrow> s)"

datatype qpi_state = QPI_GET_STATE | QPI_UPD_STATE

record qpContext =
  qpc_newState :: qpState
  qpc_qp_num :: u24
  qpc_remote_psn :: u24
  qpc_local_psn :: u24
  qpc_r_key :: u16
  qpc_virtual_address :: u48

record qp_interface_st =
  qpi_fsmState :: qpi_state
  qpi_context :: qpContext
  qpi_contextIn :: "qpContext list"
  qpi_stateTable_rsp :: "stateTableEntry list"
  qpi_stateTable_upd_req :: "ifStateReq list"
  qpi_msnTable_init :: "ifMsnReq list"

definition qp_interface :: "qp_interface_st \<Rightarrow> qp_interface_st" where
  "qp_interface s =
     (case qpi_fsmState s of
        QPI_GET_STATE \<Rightarrow>
          (case qpi_contextIn s of
             [] \<Rightarrow> s
           | c # cs \<Rightarrow>
               s\<lparr> qpi_contextIn := cs, qpi_context := c, qpi_fsmState := QPI_UPD_STATE,
                  qpi_stateTable_upd_req := qpi_stateTable_upd_req s @ [IfStateRead (ucast (qpc_qp_num c))] \<rparr>)
      | QPI_UPD_STATE \<Rightarrow>
          (case qpi_stateTable_rsp s of
             [] \<Rightarrow> s
           | _ # es \<Rightarrow>
               (let c = qpi_context s
                in s\<lparr> qpi_stateTable_rsp := es, qpi_fsmState := QPI_GET_STATE,
                      qpi_stateTable_upd_req := qpi_stateTable_upd_req s @
                        [IfStateWrite (ucast (qpc_qp_num c)) (qpc_newState c) (qpc_remote_psn c) (qpc_local_psn c)],
                      qpi_msnTable_init := qpi_msnTable_init s @
                        [\<lparr> imr_qpn = ucast (qpc_qp_num c), imr_r_key = ucast (qpc_r_key c) \<rparr>] \<rparr>)))"

section \<open>The description of a packet\<close>

record txPacketInfo =
  tpi_isAETH :: bool
  tpi_hasHeader :: bool
  tpi_hasPayload :: bool

datatype gex_state = GEX_META | GEX_GET_MSN | GEX_PROCESS

record gen_exh_st =
  gex_state :: gex_state
  gex_meta :: ib_event
  gex_rdmaHeader :: packetHeader
  gex_ackHeader :: packetHeader
  gex_metaWritten :: bool
  gex_msnMeta :: txMsnRsp
  gex_metaIn :: "ib_event list"
  gex_msn_rsp :: "txMsnRsp list"
  gex_msn_req :: "u16 list"
  gex_readReq_upd :: "txReadReqUpdate list"
  gex_length :: "u16 list"
  gex_packetInfo :: "txPacketInfo list"
  gex_output :: "net_axis list"

text \<open>The lanes of a word that the code does not set are an argument.\<close>

definition gex_info :: "bool \<Rightarrow> bool \<Rightarrow> bool \<Rightarrow> u16 \<Rightarrow> gen_exh_st \<Rightarrow> gen_exh_st" where
  "gex_info aeth header payload len s = s\<lparr> gex_packetInfo := gex_packetInfo s @
     [\<lparr> tpi_isAETH = aeth, tpi_hasHeader = header, tpi_hasPayload = payload \<rparr>], gex_length := gex_length s @ [len] \<rparr>"

definition gex_reth :: "nat \<Rightarrow> u8 list \<Rightarrow> bool \<Rightarrow> u16 \<Rightarrow> gen_exh_st \<Rightarrow> gen_exh_st" where
  "gex_reth n z payload len s =
     (let m = gex_meta s; h0 = gex_rdmaHeader s;
          h1 = h0\<lparr> ph_header := reth_setRemoteKey (tmr_r_key (gex_msnMeta s)) (reth_setLength (ibe_length m)
                    (reth_setVirtualAddress (ucast (ibe_addr m)) (ph_header h0))) \<rparr>
      in case consumeWord n RETH_OCTETS z h1 of (d, h2, left) \<Rightarrow>
           let s1 = s\<lparr> gex_rdmaHeader := h2,
                       gex_output := gex_output s @ [\<lparr> na_data = d, na_keep = replicate n True, na_last = (left = 0) \<rparr>] \<rparr>;
               s2 = (if gex_metaWritten s then s1 else (gex_info False True payload len s1)\<lparr> gex_metaWritten := True \<rparr>)
           in if left = 0 then s2\<lparr> gex_state := GEX_META \<rparr> else s2)"

definition gex_aeth :: "nat \<Rightarrow> u8 list \<Rightarrow> u8 \<Rightarrow> bool \<Rightarrow> u16 \<Rightarrow> gen_exh_st \<Rightarrow> gen_exh_st" where
  "gex_aeth n z syndrome payload len s =
     (let h0 = gex_ackHeader s;
          h1 = h0\<lparr> ph_header := aeth_setMsn (tmr_msn (gex_msnMeta s)) (aeth_setSyndrome syndrome (ph_header h0)) \<rparr>
      in case consumeWord n AETH_OCTETS z h1 of (d, h2, _) \<Rightarrow>
           (gex_info True True payload len s)\<lparr> gex_ackHeader := h2,
              gex_output := gex_output s @ [\<lparr> na_data = d, na_keep = keep_of n AETH_OCTETS, na_last = True \<rparr>],
              gex_state := GEX_META \<rparr>)"

definition gex_process :: "nat \<Rightarrow> u8 list \<Rightarrow> gen_exh_st \<Rightarrow> gen_exh_st" where
  "gex_process n z s =
     (let m = gex_meta s; op = ibe_op_code m; payload = (ibe_length m \<noteq> 0); len = (ucast (ibe_length m) :: u16)
      in if op \<in> {RC_RDMA_WRITE_ONLY, RC_RDMA_WRITE_FIRST, RC_RDMA_PART_ONLY, RC_RDMA_PART_FIRST}
         then gex_reth n z payload (12 + 16 + (if op = RC_RDMA_WRITE_FIRST \<or> op = RC_RDMA_PART_FIRST then pmtu else len) + 4) s
         else if op \<in> {RC_RDMA_WRITE_MIDDLE, RC_RDMA_WRITE_LAST, RC_RDMA_PART_MIDDLE, RC_RDMA_PART_LAST}
         then (gex_info False False payload (12 + len + 4) s)\<lparr> gex_state := GEX_META \<rparr>
         else if op \<in> {RC_RDMA_READ_REQUEST, RC_RDMA_READ_CONSISTENT_REQUEST}
         then (let s1 = (if gex_metaWritten s then s
                         else s\<lparr> gex_readReq_upd := gex_readReq_upd s @
                                [\<lparr> tru_qpn = ucast (ibe_qpn m), tru_max_fwd_readreq = ibe_psn m \<rparr>] \<rparr>)
               in gex_reth n z False (12 + 16 + 0 + 4) s1)
         else if op \<in> {RC_RDMA_READ_RESP_ONLY, RC_RDMA_READ_RESP_FIRST, RC_RDMA_READ_RESP_LAST}
         then gex_aeth n z 0x1f payload (12 + 4 + len + 4) s
         else if op = RC_RDMA_READ_RESP_MIDDLE
         then (gex_info True False payload (12 + len + 4) s)\<lparr> gex_state := GEX_META \<rparr>
         else if op = RC_ACK
         then gex_aeth n z (if ibe_isNak m then 0x60 else 0x1f) False (12 + 4 + 4) s
         else s)"

definition generate_exh :: "nat \<Rightarrow> u8 list \<Rightarrow> gen_exh_st \<Rightarrow> gen_exh_st" where
  "generate_exh n z s =
     (case gex_state s of
        GEX_META \<Rightarrow>
          (case gex_metaIn s of
             [] \<Rightarrow> s
           | m # ms \<Rightarrow>
               s\<lparr> gex_metaIn := ms, gex_meta := m, gex_rdmaHeader := clear_header (gex_rdmaHeader s),
                  gex_ackHeader := clear_header (gex_ackHeader s), gex_metaWritten := False,
                  gex_msn_req := gex_msn_req s @ [ucast (ibe_qpn m)], gex_state := GEX_GET_MSN \<rparr>)
      | GEX_GET_MSN \<Rightarrow>
          (case gex_msn_rsp s of
             [] \<Rightarrow> s
           | r # rs \<Rightarrow> s\<lparr> gex_msn_rsp := rs, gex_msnMeta := r, gex_state := GEX_PROCESS \<rparr>)
      | GEX_PROCESS \<Rightarrow> gex_process n z s)"

section \<open>Received packets\<close>

datatype pkgShiftType = SHIFT_AETH | SHIFT_RETH | SHIFT_NONE

record pkgSplitType =
  pst_op_code :: ibOpCode
  pst_route :: axiRoute

datatype pex_state = PEX_META | PEX_DMA_META | PEX_DATA

record exh_fsm_st =
  pex_fsmState :: pex_state
  pex_meta :: ibhMeta
  pex_exHeader :: "u8 list"
  pex_dmaMeta :: dmaState
  pex_udpLength :: u16
  pex_consumeReadAddr :: bool
  pex_readReqAddr :: u64
  pex_metaIn :: "ibhMeta list"
  pex_udpLengthFifo :: "u16 list"
  pex_msn_rsp :: "dmaState list"
  pex_pop_rsp :: "u64 list"
  pex_headerInput :: "u8 list list"
  pex_memoryWriteCmd :: "routedMemCmd list"
  pex_readRequest :: "readRequest list"
  pex_msn_req :: "rxMsnReq list"
  pex_readReq_upd :: "rxReadReqUpdate list"
  pex_pop_req :: "mqPopReq list"
  pex_event :: "ackEvent list"
  pex_splitType :: "pkgSplitType list"
  pex_shiftType :: "pkgShiftType list"

definition pex_cmd :: "u64 \<Rightarrow> u32 \<Rightarrow> axiRoute \<Rightarrow> exh_fsm_st \<Rightarrow> exh_fsm_st" where
  "pex_cmd a len r s = s\<lparr> pex_memoryWriteCmd := pex_memoryWriteCmd s @ [routedMemCmd_mk a len r] \<rparr>"

definition pex_msn :: "u24 \<Rightarrow> u64 \<Rightarrow> u32 \<Rightarrow> exh_fsm_st \<Rightarrow> exh_fsm_st" where
  "pex_msn msn a len s = s\<lparr> pex_msn_req := pex_msn_req s @ [RxMsnWrite (ucast (ibm_dest_qp (pex_meta s))) msn a len] \<rparr>"

definition pex_types :: "axiRoute \<Rightarrow> pkgShiftType \<Rightarrow> exh_fsm_st \<Rightarrow> exh_fsm_st" where
  "pex_types r t s = s\<lparr> pex_splitType := pex_splitType s @ [\<lparr> pst_op_code = ibm_op_code (pex_meta s), pst_route = r \<rparr>],
     pex_shiftType := pex_shiftType s @ [t], pex_fsmState := PEX_META \<rparr>"

definition pex_ack :: "exh_fsm_st \<Rightarrow> exh_fsm_st" where
  "pex_ack s = s\<lparr> pex_event := pex_event s @ [ackEvent_ok (ibm_dest_qp (pex_meta s))] \<rparr>"

text \<open>A packet that begins a write, one that continues it, a request for a read and the packets of an answer.\<close>

definition pex_write :: "exh_fsm_st \<Rightarrow> exh_fsm_st" where
  "pex_write s =
     (let op = ibm_op_code (pex_meta s); h = getRdmaHeader (pex_exHeader s); len = reth_getLength h;
          dma = (op = RC_RDMA_WRITE_ONLY \<or> op = RC_RDMA_WRITE_FIRST); r = (if dma then ROUTE_DMA else ROUTE_CUSTOM);
          pay = (ucast (pex_udpLength s) - (8 + 12 + 16 + 4) :: u32); a = reth_getVirtualAddress h
      in if len = 0 then s
         else pex_types r SHIFT_RETH (pex_ack (pex_msn (dms_msn (pex_dmaMeta s) + 1) (a + ucast pay) (len - pay)
                (pex_cmd a (if dma then pay else len) r s))))"

definition pex_continue :: "exh_fsm_st \<Rightarrow> exh_fsm_st" where
  "pex_continue s =
     (let op = ibm_op_code (pex_meta s); d = pex_dmaMeta s;
          dma = (op = RC_RDMA_WRITE_MIDDLE \<or> op = RC_RDMA_WRITE_LAST); r = (if dma then ROUTE_DMA else ROUTE_CUSTOM);
          pay = (ucast (pex_udpLength s) - (8 + 12 + 4) :: u32)
      in pex_types r SHIFT_NONE (pex_ack (pex_msn (dms_msn d + 1) (dms_vaddr d + ucast pay) (dms_dma_length d - pay)
           (if dma then pex_cmd (dms_vaddr d) pay r s else s))))"

definition pex_read :: "exh_fsm_st \<Rightarrow> exh_fsm_st" where
  "pex_read s =
     (let m = pex_meta s; h = getRdmaHeader (pex_exHeader s); len = reth_getLength h;
          r = (if ibm_op_code m = RC_RDMA_READ_CONSISTENT_REQUEST then ROUTE_CUSTOM else ROUTE_DMA);
          s1 = (if len = 0 then s
                else (pex_msn (dms_msn (pex_dmaMeta s) + 1) 0 0 s)\<lparr> pex_readRequest := pex_readRequest s @
                       [\<lparr> rdr_qpn = ibm_dest_qp m, rdr_vaddr = ucast (reth_getVirtualAddress h), rdr_dma_length = len,
                          rdr_psn = ibm_psn m, rdr_route = r \<rparr>] \<rparr>)
      in s1\<lparr> pex_fsmState := PEX_META \<rparr>)"

definition pex_answer :: "exh_fsm_st \<Rightarrow> exh_fsm_st" where
  "pex_answer s =
     (let m = pex_meta s; d = pex_dmaMeta s;
          s1 = (if aeth_isNAK (getAckHeader (pex_exHeader s)) then s
                else s\<lparr> pex_readReq_upd := pex_readReq_upd s @ [RxReadReqWrite (ucast (ibm_dest_qp m)) (ibm_psn m)] \<rparr>);
          pay = (ucast (pex_udpLength s) - (8 + 12 + 4 + 4) :: u32);
          s2 = (if ibm_op_code m \<noteq> RC_RDMA_READ_RESP_LAST
                then pex_msn (dms_msn d) (pex_readReqAddr s + ucast pay) 0 (pex_cmd (pex_readReqAddr s) pay ROUTE_DMA s1)
                else pex_cmd (dms_vaddr d) pay ROUTE_DMA s1)
      in pex_types ROUTE_DMA SHIFT_AETH s2)"

definition pex_answer_middle :: "exh_fsm_st \<Rightarrow> exh_fsm_st" where
  "pex_answer_middle s =
     (let d = pex_dmaMeta s; pay = (ucast (pex_udpLength s) - (8 + 12 + 4) :: u32)
      in pex_types ROUTE_DMA SHIFT_NONE (pex_msn (dms_msn d + 1) (dms_vaddr d + ucast pay) 0 (pex_cmd (dms_vaddr d) pay ROUTE_DMA s)))"

definition pex_data :: "exh_fsm_st \<Rightarrow> exh_fsm_st" where
  "pex_data s =
     (let op = ibm_op_code (pex_meta s)
      in if op \<in> {RC_RDMA_WRITE_ONLY, RC_RDMA_WRITE_FIRST, RC_RDMA_PART_ONLY, RC_RDMA_PART_FIRST} then pex_write s
         else if op \<in> {RC_RDMA_WRITE_MIDDLE, RC_RDMA_WRITE_LAST, RC_RDMA_PART_MIDDLE, RC_RDMA_PART_LAST} then pex_continue s
         else if op \<in> {RC_RDMA_READ_REQUEST, RC_RDMA_READ_CONSISTENT_REQUEST} then pex_read s
         else if op \<in> {RC_RDMA_READ_RESP_ONLY, RC_RDMA_READ_RESP_FIRST, RC_RDMA_READ_RESP_LAST} then pex_answer s
         else if op = RC_RDMA_READ_RESP_MIDDLE then pex_answer_middle s
         else if op = RC_ACK then s\<lparr> pex_fsmState := PEX_META \<rparr>
         else s)"

definition rx_exh_fsm :: "exh_fsm_st \<Rightarrow> exh_fsm_st" where
  "rx_exh_fsm s =
     (case pex_fsmState s of
        PEX_META \<Rightarrow>
          (case (pex_metaIn s, pex_headerInput s) of
             (m # ms, h # hs) \<Rightarrow>
               (let pop = (ibm_op_code m = RC_RDMA_READ_RESP_ONLY \<or> ibm_op_code m = RC_RDMA_READ_RESP_FIRST)
                in s\<lparr> pex_metaIn := ms, pex_headerInput := hs, pex_meta := m, pex_exHeader := h,
                      pex_msn_req := pex_msn_req s @ [RxMsnRead (ucast (ibm_dest_qp m))], pex_consumeReadAddr := pop,
                      pex_pop_req := (if pop then pex_pop_req s @ [\<lparr> mqp_op = POP, mqp_key = ucast (ibm_dest_qp m) \<rparr>] else pex_pop_req s),
                      pex_fsmState := PEX_DMA_META \<rparr>)
           | _ \<Rightarrow> s)
      | PEX_DMA_META \<Rightarrow>
          (case (pex_msn_rsp s, pex_udpLengthFifo s) of
             (d # ds, l # ls) \<Rightarrow>
               (let s1 = s\<lparr> pex_msn_rsp := ds, pex_udpLengthFifo := ls, pex_dmaMeta := d, pex_udpLength := l, pex_fsmState := PEX_DATA \<rparr>
                in if pex_consumeReadAddr s
                   then (case pex_pop_rsp s of [] \<Rightarrow> s | a # as \<Rightarrow> s1\<lparr> pex_pop_rsp := as, pex_readReqAddr := a \<rparr>)
                   else s1)
           | _ \<Rightarrow> s)
      | PEX_DATA \<Rightarrow> pex_data s)"

section \<open>Cutting a message\<close>

text \<open>The lengths of the packets of a message.\<close>

function cut_message :: "nat \<Rightarrow> nat list" where
  "cut_message L = (if L \<le> PMTU then [L] else PMTU # cut_message (L - PMTU))"
  by auto
termination by (relation "measure id") (auto simp: PMTU_def)

declare cut_message.simps [simp del]

lemma cut_short: "L \<le> PMTU \<Longrightarrow> cut_message L = [L]"
  by (simp add: cut_message.simps)

lemma cut_long: "PMTU < L \<Longrightarrow> cut_message L = PMTU # cut_message (L - PMTU)"
  by (simp add: cut_message.simps)

lemma cut_ne [simp]: "cut_message L \<noteq> []"
  by (subst cut_message.simps) simp

lemma sum_cut: "sum_list (cut_message L) = L"
proof (induction L rule: cut_message.induct)
  case (1 L)
  then show ?case by (cases "L \<le> PMTU") (simp_all add: cut_short cut_long)
qed

lemma cut_le: "l \<in> set (cut_message L) \<Longrightarrow> l \<le> PMTU"
proof (induction L rule: cut_message.induct)
  case (1 L)
  then show ?case by (cases "L \<le> PMTU") (auto simp: cut_short cut_long)
qed

lemma cut_pos: "0 < L \<Longrightarrow> l \<in> set (cut_message L) \<Longrightarrow> 0 < l"
proof (induction L rule: cut_message.induct)
  case (1 L)
  then show ?case by (cases "L \<le> PMTU") (auto simp: cut_short cut_long PMTU_def)
qed

lemma length_cut: "0 < L \<Longrightarrow> length (cut_message L) = (L + (PMTU - 1)) div PMTU"
proof (induction L rule: cut_message.induct)
  case (1 L)
  show ?case
  proof (cases "L \<le> PMTU")
    case True
    with 1(2) show ?thesis by (simp add: cut_short PMTU_def)
  next
    case False
    then have "L + (PMTU - 1) = (L - PMTU + (PMTU - 1)) + PMTU" by (simp add: PMTU_def)
    with False 1(1) show ?thesis by (simp add: cut_long PMTU_def)
  qed
qed

lemma cut_tail_full: "l # ls = cut_message L \<Longrightarrow> ls \<noteq> [] \<Longrightarrow> l = PMTU \<and> ls = cut_message (L - PMTU)"
  by (cases "L \<le> PMTU") (simp_all add: cut_short cut_long)

lemma pmtu_u32: "unat (pmtu :: u32) = 1408" "(w > pmtu) \<longleftrightarrow> PMTU < unat (w :: u32)"
  "(w > pmtu) \<Longrightarrow> unat (w - pmtu) = unat w - PMTU"
proof -
  show p: "unat (pmtu :: u32) = 1408" by (simp add: pmtu_def PMTU_def)
  then show "(w > pmtu) \<longleftrightarrow> PMTU < unat (w :: u32)" by (simp add: word_less_nat_alt PMTU_def)
  show "(w > pmtu) \<Longrightarrow> unat (w - pmtu) = unat w - PMTU"
    using p by (simp add: unat_sub_if' PMTU_def word_less_nat_alt)
qed

text \<open>The events of a write: the first packet announces the length of the whole message, the others their own.\<close>

fun write_tail :: "bool \<Rightarrow> u24 \<Rightarrow> u48 \<Rightarrow> nat list \<Rightarrow> ib_event list" where
  "write_tail part qp a [] = []"
| "write_tail part qp a (l # ls) =
     event_addr (if ls = [] then (if part then RC_RDMA_PART_LAST else RC_RDMA_WRITE_LAST)
                 else (if part then RC_RDMA_PART_MIDDLE else RC_RDMA_WRITE_MIDDLE)) qp a (of_nat l)
     # write_tail part qp (a + of_nat l) ls"

definition write_events :: "txMeta \<Rightarrow> ib_event list" where
  "write_events m =
     (let part = (txm_op_code m = APP_PART); ls = cut_message (unat (txm_length m)); long = (tl ls \<noteq> [])
      in event_addr (if long then (if part then RC_RDMA_PART_FIRST else RC_RDMA_WRITE_FIRST)
                     else (if part then RC_RDMA_PART_ONLY else RC_RDMA_WRITE_ONLY)) (txm_qpn m) (txm_remote_vaddr m) (txm_length m)
         # write_tail part (txm_qpn m) (txm_remote_vaddr m + of_nat (hd ls)) (tl ls))"

lemma lrh_generate_run:
  assumes "lrh_state s = LRH_GENERATE" and "lrh_meta s = m" and "ls = cut_message (unat (txm_length m))"
  shows "\<exists>m'. (local_req_handler unset ^^ length ls) s = s\<lparr> lrh_state := LRH_META, lrh_meta := m',
    lrh_event := lrh_event s @ write_tail (txm_op_code m = APP_PART) (txm_qpn m) (txm_remote_vaddr m) ls \<rparr>"
  using assms
proof (induction ls arbitrary: s m)
  case (Cons l ls)
  show ?case
  proof (cases "txm_length m > pmtu")
    case True
    then have c: "l = PMTU" "ls = cut_message (unat (txm_length (txMeta_next m)))"
      using Cons.prems(3) cut_long [of "unat (txm_length m)"] by (simp_all add: pmtu_u32 txMeta_next_def)
    let ?t = "local_req_handler unset s"
    have t: "?t = s\<lparr> lrh_meta := txMeta_next m, lrh_event := lrh_event s @
        [event_addr (if txm_op_code m = APP_PART then RC_RDMA_PART_MIDDLE else RC_RDMA_WRITE_MIDDLE) (txm_qpn m) (txm_remote_vaddr m) pmtu] \<rparr>"
      using True Cons.prems(1,2) by (simp add: local_req_handler_def lrh_generate_def Let_def)
    from Cons.IH [of ?t "txMeta_next m"] c(2) Cons.prems(1) obtain m' where
      "(local_req_handler unset ^^ length ls) ?t = ?t\<lparr> lrh_state := LRH_META, lrh_meta := m', lrh_event := lrh_event ?t @
        write_tail (txm_op_code m = APP_PART) (txm_qpn m) (txm_remote_vaddr m + pmtu) ls \<rparr>"
      by (auto simp: t txMeta_next_def)
    moreover have "ls \<noteq> []" using c(2) by simp
    ultimately show ?thesis using c(1) by (intro exI [of _ m']) (simp add: funpow_swap1 t pmtu_def)
  next
    case False
    then have "ls = []" "l = unat (txm_length m)"
      using Cons.prems(3) cut_short [of "unat (txm_length m)"] by (simp_all add: pmtu_u32)
    with False Cons.prems(1,2) show ?thesis
      by (intro exI [of _ m]) (simp add: local_req_handler_def lrh_generate_def Let_def)
  qed
qed (metis cut_ne)

lemma local_write_run:
  assumes "lrh_state s = LRH_META" and "lrh_tx_meta s = m # ms" and "txm_op_code m \<in> {APP_WRITE, APP_PART}"
    and "ls = cut_message (unat (txm_length m))"
  shows "\<exists>m'. (local_req_handler unset ^^ length ls) s = s\<lparr> lrh_state := LRH_META, lrh_tx_meta := ms, lrh_meta := m',
    lrh_memCmd := lrh_memCmd s @ [memCmdInternal_mk unset (ucast (txm_qpn m)) (ucast (txm_local_vaddr m)) (txm_length m)],
    lrh_event := lrh_event s @ write_events m \<rparr>"
proof (cases "txm_length m > pmtu")
  case True
  then have c: "ls = PMTU # cut_message (unat (txm_length (txMeta_next m)))"
    using assms(4) cut_long [of "unat (txm_length m)"] by (simp add: pmtu_u32 txMeta_next_def)
  let ?t = "local_req_handler unset s"
  have t: "?t = lrh_write unset m (s\<lparr> lrh_tx_meta := ms, lrh_meta := m \<rparr>)"
    using assms(1-3) by (auto simp: local_req_handler_def Let_def)
  let ?op = "if txm_op_code m = APP_PART then RC_RDMA_PART_FIRST else RC_RDMA_WRITE_FIRST"
  have u: "?t = s\<lparr> lrh_state := LRH_GENERATE, lrh_tx_meta := ms, lrh_meta := txMeta_next m,
      lrh_memCmd := lrh_memCmd s @ [memCmdInternal_mk unset (ucast (txm_qpn m)) (ucast (txm_local_vaddr m)) (txm_length m)],
      lrh_event := lrh_event s @ [event_addr ?op (txm_qpn m) (txm_remote_vaddr m) (txm_length m)] \<rparr>"
    using True by (simp add: t lrh_write_def Let_def)
  from lrh_generate_run [of ?t "txMeta_next m" "tl ls" unset] c obtain m' where
    "(local_req_handler unset ^^ length (tl ls)) ?t = ?t\<lparr> lrh_state := LRH_META, lrh_meta := m', lrh_event := lrh_event ?t @
      write_tail (txm_op_code m = APP_PART) (txm_qpn m) (txm_remote_vaddr m + pmtu) (tl ls) \<rparr>"
    by (auto simp: u txMeta_next_def)
  with c assms(4) show ?thesis by (intro exI [of _ m']) (simp add: u funpow_swap1 write_events_def pmtu_def)
next
  case False
  then have c: "cut_message (unat (txm_length m)) = [unat (txm_length m)]"
    using cut_short [of "unat (txm_length m)"] by (simp add: pmtu_u32)
  show ?thesis using False assms
    by (intro exI [of _ m]) (auto simp: c local_req_handler_def lrh_write_def write_events_def Let_def)
qed

text \<open>The events of an answer to a read.\<close>

fun answer_tail :: "u24 \<Rightarrow> u24 \<Rightarrow> nat list \<Rightarrow> ib_event list" where
  "answer_tail qp psn [] = []"
| "answer_tail qp psn (l # ls) =
     event_psn (if ls = [] then RC_RDMA_READ_RESP_LAST else RC_RDMA_READ_RESP_MIDDLE) qp (of_nat l) (psn + 1) # answer_tail qp (psn + 1) ls"

definition answer_events :: "readRequest \<Rightarrow> ib_event list" where
  "answer_events r =
     (let ls = cut_message (unat (rdr_dma_length r))
      in event_psn (if tl ls \<noteq> [] then RC_RDMA_READ_RESP_FIRST else RC_RDMA_READ_RESP_ONLY) (rdr_qpn r) (of_nat (hd ls)) (rdr_psn r)
         # answer_tail (rdr_qpn r) (rdr_psn r) (tl ls))"

lemma hrr_generate_run:
  assumes "hrr_state s = HRR_GENERATE" and "hrr_request s = r" and "ls = cut_message (unat (rdr_dma_length r))"
  shows "\<exists>r'. (handle_read_requests unset ^^ length ls) s = s\<lparr> hrr_state := HRR_META, hrr_request := r',
    hrr_event := hrr_event s @ answer_tail (rdr_qpn r) (rdr_psn r) ls \<rparr>"
  using assms
proof (induction ls arbitrary: s r)
  case (Cons l ls)
  show ?case
  proof (cases "rdr_dma_length r > pmtu")
    case True
    let ?r = "(rdr_next r)\<lparr> rdr_psn := rdr_psn r + 1 \<rparr>"
    have c: "l = PMTU" "ls = cut_message (unat (rdr_dma_length ?r))"
      using True Cons.prems(3) cut_long [of "unat (rdr_dma_length r)"] by (simp_all add: pmtu_u32 rdr_next_def)
    let ?t = "handle_read_requests unset s"
    have t: "?t = s\<lparr> hrr_request := ?r, hrr_event := hrr_event s @
        [event_psn RC_RDMA_READ_RESP_MIDDLE (rdr_qpn r) pmtu (rdr_psn r + 1)] \<rparr>"
      using True Cons.prems(1,2) by (simp add: handle_read_requests_def rdr_next_def Let_def)
    from Cons.IH [of ?t ?r] c(2) Cons.prems(1) obtain r' where
      "(handle_read_requests unset ^^ length ls) ?t = ?t\<lparr> hrr_state := HRR_META, hrr_request := r',
        hrr_event := hrr_event ?t @ answer_tail (rdr_qpn r) (rdr_psn r + 1) ls \<rparr>"
      by (auto simp: t rdr_next_def)
    moreover have "ls \<noteq> []" using c(2) by simp
    ultimately show ?thesis using c(1) by (intro exI [of _ r']) (simp add: funpow_swap1 t pmtu_def)
  next
    case False
    then have "ls = []" "l = unat (rdr_dma_length r)"
      using Cons.prems(3) cut_short [of "unat (rdr_dma_length r)"] by (simp_all add: pmtu_u32)
    with False Cons.prems(1,2) show ?thesis
      by (intro exI [of _ "r\<lparr> rdr_psn := rdr_psn r + 1 \<rparr>"]) (simp add: handle_read_requests_def Let_def)
  qed
qed (metis cut_ne)

lemma read_answer_run:
  assumes "hrr_state s = HRR_META" and "hrr_requestIn s = r # rs" and "ls = cut_message (unat (rdr_dma_length r))"
  shows "\<exists>r'. (handle_read_requests unset ^^ length ls) s = s\<lparr> hrr_state := HRR_META, hrr_requestIn := rs, hrr_request := r',
    hrr_memCmd := hrr_memCmd s @ [memCmdInternal_mk unset (ucast (rdr_qpn r)) (ucast (rdr_vaddr r)) (rdr_dma_length r)],
    hrr_event := hrr_event s @ answer_events r \<rparr>"
proof (cases "rdr_dma_length r > pmtu")
  case True
  have c: "ls = PMTU # cut_message (unat (rdr_dma_length (rdr_next r)))"
    using True assms(3) cut_long [of "unat (rdr_dma_length r)"] by (simp add: pmtu_u32 rdr_next_def)
  let ?t = "handle_read_requests unset s"
  have t: "?t = s\<lparr> hrr_state := HRR_GENERATE, hrr_requestIn := rs, hrr_request := rdr_next r,
      hrr_memCmd := hrr_memCmd s @ [memCmdInternal_mk unset (ucast (rdr_qpn r)) (ucast (rdr_vaddr r)) (rdr_dma_length r)],
      hrr_event := hrr_event s @ [event_psn RC_RDMA_READ_RESP_FIRST (rdr_qpn r) pmtu (rdr_psn r)] \<rparr>"
    using assms(1,2) True by (simp add: handle_read_requests_def Let_def)
  from hrr_generate_run [of ?t "rdr_next r" "tl ls" unset] c obtain r' where
    "(handle_read_requests unset ^^ length (tl ls)) ?t = ?t\<lparr> hrr_state := HRR_META, hrr_request := r',
      hrr_event := hrr_event ?t @ answer_tail (rdr_qpn r) (rdr_psn r) (tl ls) \<rparr>"
    by (auto simp: t rdr_next_def)
  with c assms(3) show ?thesis by (intro exI [of _ r']) (simp add: t funpow_swap1 answer_events_def pmtu_def)
next
  case False
  then have c: "cut_message (unat (rdr_dma_length r)) = [unat (rdr_dma_length r)]"
    using cut_short [of "unat (rdr_dma_length r)"] by (simp add: pmtu_u32)
  show ?thesis using False assms
    by (intro exI [of _ r]) (simp add: c handle_read_requests_def answer_events_def Let_def)
qed

section \<open>The receiver with its table\<close>

record exh_sys =
  exs_fsm :: exh_fsm_st
  exs_msn :: msn_table_st

text \<open>One invocation of the receiver and one of the table, in the order of the calls.\<close>

definition exh_round :: "exh_sys \<Rightarrow> exh_sys" where
  "exh_round y =
     (let t = exs_msn y; f = rx_exh_fsm ((exs_fsm y)\<lparr> pex_msn_rsp := mst_rx_rsp t, pex_msn_req := mst_rx_req t \<rparr>)
      in \<lparr> exs_fsm = f, exs_msn = msn_table (t\<lparr> mst_rx_rsp := pex_msn_rsp f, mst_rx_req := pex_msn_req f \<rparr>) \<rparr>)"

definition exh_idle :: "exh_sys \<Rightarrow> bool" where
  "exh_idle y \<longleftrightarrow> pex_fsmState (exs_fsm y) = PEX_META \<and> mst_rx_req (exs_msn y) = [] \<and> mst_rx_rsp (exs_msn y) = [] \<and> mst_init (exs_msn y) = []"

text \<open>The effect of one packet of a write or of an answer: the command to the memory and the new entry of the queue pair.\<close>

definition pops :: "ibOpCode \<Rightarrow> bool" where
  "pops op \<longleftrightarrow> op = RC_RDMA_READ_RESP_ONLY \<or> op = RC_RDMA_READ_RESP_FIRST"

definition pkt_pay :: "ibOpCode \<Rightarrow> u16 \<Rightarrow> u32" where
  "pkt_pay op l = ucast l - (if op = RC_RDMA_WRITE_ONLY \<or> op = RC_RDMA_WRITE_FIRST then 40
     else if op \<in> {RC_RDMA_READ_RESP_ONLY, RC_RDMA_READ_RESP_FIRST, RC_RDMA_READ_RESP_LAST} then 28 else 24)"

definition pkt_addr :: "ibOpCode \<Rightarrow> u8 list \<Rightarrow> u64 \<Rightarrow> dmaState \<Rightarrow> u64" where
  "pkt_addr op h a d = (if op = RC_RDMA_WRITE_ONLY \<or> op = RC_RDMA_WRITE_FIRST then reth_getVirtualAddress (getRdmaHeader h)
     else if pops op then a else dms_vaddr d)"

definition data_ops :: "ibOpCode set" where
  "data_ops = {RC_RDMA_WRITE_ONLY, RC_RDMA_WRITE_FIRST, RC_RDMA_WRITE_MIDDLE, RC_RDMA_WRITE_LAST, RC_RDMA_READ_RESP_ONLY,
     RC_RDMA_READ_RESP_FIRST, RC_RDMA_READ_RESP_MIDDLE, RC_RDMA_READ_RESP_LAST}"

lemma exh_packet:
  assumes "exh_idle y" and "pex_metaIn (exs_fsm y) = m # ms" and "pex_headerInput (exs_fsm y) = h # hs"
    and "pex_udpLengthFifo (exs_fsm y) = l # ls" and "pops (ibm_op_code m) \<Longrightarrow> pex_pop_rsp (exs_fsm y) = a # as"
    and "ibm_op_code m \<in> data_ops"
    and "ibm_op_code m \<in> {RC_RDMA_WRITE_ONLY, RC_RDMA_WRITE_FIRST} \<Longrightarrow> reth_getLength (getRdmaHeader h) \<noteq> 0"
    and "i = ucast (ibm_dest_qp m)" and "d = mst_table (exs_msn y) i" and "t = (exh_round ^^ 3) y"
  shows "exh_idle t \<and> pex_metaIn (exs_fsm t) = ms \<and> pex_headerInput (exs_fsm t) = hs \<and> pex_udpLengthFifo (exs_fsm t) = ls
    \<and> pex_pop_rsp (exs_fsm t) = (if pops (ibm_op_code m) then as else pex_pop_rsp (exs_fsm y))
    \<and> pex_memoryWriteCmd (exs_fsm t) = pex_memoryWriteCmd (exs_fsm y) @
        [routedMemCmd_mk (pkt_addr (ibm_op_code m) h a d) (pkt_pay (ibm_op_code m) l) ROUTE_DMA]
    \<and> (ibm_op_code m \<noteq> RC_RDMA_READ_RESP_LAST \<longrightarrow>
        dms_vaddr (mst_table (exs_msn t) i) = pkt_addr (ibm_op_code m) h a d + ucast (pkt_pay (ibm_op_code m) l))"
proof -
  have r: "(exh_round ^^ 3) y = exh_round (exh_round (exh_round y))" by (simp add: numeral_3_eq_3)
  have cases: "ibm_op_code m = RC_RDMA_WRITE_ONLY \<or> ibm_op_code m = RC_RDMA_WRITE_FIRST \<or> ibm_op_code m = RC_RDMA_WRITE_MIDDLE
      \<or> ibm_op_code m = RC_RDMA_WRITE_LAST \<or> ibm_op_code m = RC_RDMA_READ_RESP_ONLY \<or> ibm_op_code m = RC_RDMA_READ_RESP_FIRST
      \<or> ibm_op_code m = RC_RDMA_READ_RESP_MIDDLE \<or> ibm_op_code m = RC_RDMA_READ_RESP_LAST"
    using assms(6) by (auto simp: data_ops_def)
  define y1 where "y1 = exh_round y"
  have y1: "pex_fsmState (exs_fsm y1) = PEX_DMA_META" "pex_metaIn (exs_fsm y1) = ms" "pex_headerInput (exs_fsm y1) = hs"
    "pex_udpLengthFifo (exs_fsm y1) = l # ls" "pex_pop_rsp (exs_fsm y1) = pex_pop_rsp (exs_fsm y)" "pex_meta (exs_fsm y1) = m"
    "pex_exHeader (exs_fsm y1) = h" "pex_memoryWriteCmd (exs_fsm y1) = pex_memoryWriteCmd (exs_fsm y)"
    "pex_consumeReadAddr (exs_fsm y1) = pops (ibm_op_code m)"
    "mst_rx_req (exs_msn y1) = []" "mst_rx_rsp (exs_msn y1) = [d]" "mst_init (exs_msn y1) = []" "mst_table (exs_msn y1) = mst_table (exs_msn y)"
    using assms(1-4,8,9)
    by (simp_all add: y1_def exh_round_def exh_idle_def rx_exh_fsm_def msn_table_def pops_def Let_def)
  define y2 where "y2 = exh_round y1"
  have y2: "pex_fsmState (exs_fsm y2) = PEX_DATA" "pex_metaIn (exs_fsm y2) = ms" "pex_headerInput (exs_fsm y2) = hs"
    "pex_udpLengthFifo (exs_fsm y2) = ls" "pex_meta (exs_fsm y2) = m" "pex_exHeader (exs_fsm y2) = h" "pex_udpLength (exs_fsm y2) = l"
    "pex_dmaMeta (exs_fsm y2) = d" "pex_memoryWriteCmd (exs_fsm y2) = pex_memoryWriteCmd (exs_fsm y)"
    "pex_pop_rsp (exs_fsm y2) = (if pops (ibm_op_code m) then as else pex_pop_rsp (exs_fsm y))"
    "pops (ibm_op_code m) \<Longrightarrow> pex_readReqAddr (exs_fsm y2) = a"
    "mst_rx_req (exs_msn y2) = []" "mst_rx_rsp (exs_msn y2) = []" "mst_init (exs_msn y2) = []" "mst_table (exs_msn y2) = mst_table (exs_msn y)"
    using y1 assms(5)
    by (auto simp: y2_def exh_round_def rx_exh_fsm_def msn_table_def Let_def split: list.split if_splits)
  have t: "t = exh_round y2" using assms(10) r by (simp add: y1_def y2_def)
  show ?thesis
    using cases y2 assms(7) unfolding t
    by (elim disjE)
       (simp_all add: exh_round_def exh_idle_def rx_exh_fsm_def pex_data_def pex_write_def pex_continue_def pex_answer_def
         pex_answer_middle_def pex_types_def pex_ack_def pex_msn_def pex_cmd_def msn_table_def pkt_addr_def pkt_pay_def pops_def
         assms(8,9) Let_def split: list.split)
qed

text \<open>Consecutive commands from an address on.\<close>

fun spans :: "u64 \<Rightarrow> nat list \<Rightarrow> routedMemCmd list" where
  "spans a [] = []"
| "spans a (l # ls) = routedMemCmd_mk a (of_nat l) ROUTE_DMA # spans (a + of_nat l) ls"

definition continues :: "ibOpCode \<Rightarrow> bool" where
  "continues op \<longleftrightarrow> op \<in> {RC_RDMA_WRITE_MIDDLE, RC_RDMA_WRITE_LAST, RC_RDMA_READ_RESP_MIDDLE, RC_RDMA_READ_RESP_LAST}"

type_synonym rx_packet = "ibhMeta \<times> u8 list \<times> u16 \<times> nat"

text \<open>A packet of the queue pair \<open>i\<close> whose length field leaves the given number of octets of payload.\<close>

fun carries :: "u16 \<Rightarrow> rx_packet \<Rightarrow> bool" where
  "carries i (m, h, l, k) \<longleftrightarrow> ucast (ibm_dest_qp m) = i \<and> k \<le> PMTU \<and> pkt_pay (ibm_op_code m) l = of_nat k"

definition rx_input :: "rx_packet list \<Rightarrow> exh_sys \<Rightarrow> bool" where
  "rx_input ps y \<longleftrightarrow> pex_metaIn (exs_fsm y) = map fst ps \<and> pex_headerInput (exs_fsm y) = map (\<lambda>p. fst (snd p)) ps
     \<and> pex_udpLengthFifo (exs_fsm y) = map (\<lambda>p. fst (snd (snd p))) ps"

lemma of_nat_seg: "k \<le> PMTU \<Longrightarrow> (ucast (of_nat k :: u32) :: u64) = of_nat k"
proof -
  assume "k \<le> PMTU"
  then have "unat (of_nat k :: u32) = k" by (simp add: PMTU_def unat_of_nat_mod)
  then show ?thesis by (metis of_nat_unat)
qed

lemma exh_tail:
  assumes "exh_idle y" and "rx_input ps y" and "\<forall>p \<in> set ps. carries i p \<and> continues (ibm_op_code (fst p))"
    and "\<forall>p \<in> set (butlast ps). ibm_op_code (fst p) \<noteq> RC_RDMA_READ_RESP_LAST"
    and "t = (exh_round ^^ (3 * length ps)) y"
  shows "exh_idle t \<and> rx_input [] t \<and> pex_pop_rsp (exs_fsm t) = pex_pop_rsp (exs_fsm y)
    \<and> pex_memoryWriteCmd (exs_fsm t) = pex_memoryWriteCmd (exs_fsm y)
        @ spans (dms_vaddr (mst_table (exs_msn y) i)) (map (\<lambda>p. snd (snd (snd p))) ps)"
  using assms
proof (induction ps arbitrary: y)
  case (Cons p ps)
  obtain m h l k where p: "p = (m, h, l, k)" by (cases p)
  let ?u = "(exh_round ^^ 3) y"
  have op: "continues (ibm_op_code m)" "carries i (m, h, l, k)" using Cons.prems(3) p by auto
  then have d: "ibm_op_code m \<in> data_ops" "\<not> pops (ibm_op_code m)" "ibm_op_code m \<notin> {RC_RDMA_WRITE_ONLY, RC_RDMA_WRITE_FIRST}"
    by (auto simp: continues_def data_ops_def pops_def)
  from exh_packet [OF Cons.prems(1) _ _ _ _ d(1) _ refl refl refl, of "map fst ps" h "map (\<lambda>p. fst (snd p)) ps" l
      "map (\<lambda>p. fst (snd (snd p))) ps"] d Cons.prems(2) p
  have u: "exh_idle ?u \<and> rx_input ps ?u \<and> pex_pop_rsp (exs_fsm ?u) = pex_pop_rsp (exs_fsm y)
    \<and> pex_memoryWriteCmd (exs_fsm ?u) = pex_memoryWriteCmd (exs_fsm y) @
        [routedMemCmd_mk (dms_vaddr (mst_table (exs_msn y) i)) (of_nat k) ROUTE_DMA]
    \<and> (ibm_op_code m \<noteq> RC_RDMA_READ_RESP_LAST \<longrightarrow> dms_vaddr (mst_table (exs_msn ?u) i) = dms_vaddr (mst_table (exs_msn y) i) + of_nat k)"
    using op(2) of_nat_seg [of k] by (auto simp: rx_input_def pkt_addr_def)
  have t: "t = (exh_round ^^ (3 * length ps)) ?u"
    using Cons.prems(5) by (simp add: funpow_add [symmetric, THEN fun_cong, simplified] add.commute)
  show ?case
  proof (cases "ps = []")
    case True
    with u t p show ?thesis by simp
  next
    case False
    then have "ibm_op_code m \<noteq> RC_RDMA_READ_RESP_LAST" "\<forall>p \<in> set (butlast ps). ibm_op_code (fst p) \<noteq> RC_RDMA_READ_RESP_LAST"
      using Cons.prems(4) p by auto
    with Cons.IH [of ?u] u t Cons.prems(3) p show ?thesis by simp
  qed
qed simp

text \<open>A whole message: the first packet gives the address, the others continue from there.\<close>

lemma exh_message:
  assumes "exh_idle y" and "rx_input ((m, h, l, k) # ps) y" and "carries i (m, h, l, k)"
    and "ibm_op_code m \<in> {RC_RDMA_WRITE_ONLY, RC_RDMA_WRITE_FIRST, RC_RDMA_READ_RESP_ONLY, RC_RDMA_READ_RESP_FIRST}"
    and "ibm_op_code m \<in> {RC_RDMA_WRITE_ONLY, RC_RDMA_WRITE_FIRST} \<Longrightarrow>
           reth_getLength (getRdmaHeader h) \<noteq> 0 \<and> reth_getVirtualAddress (getRdmaHeader h) = a"
    and "pops (ibm_op_code m) \<Longrightarrow> pex_pop_rsp (exs_fsm y) = a # as"
    and "\<forall>p \<in> set ps. carries i p \<and> continues (ibm_op_code (fst p))"
    and "\<forall>p \<in> set (butlast ps). ibm_op_code (fst p) \<noteq> RC_RDMA_READ_RESP_LAST"
    and "t = (exh_round ^^ (3 * Suc (length ps))) y"
  shows "exh_idle t \<and> rx_input [] t \<and> pex_memoryWriteCmd (exs_fsm t) = pex_memoryWriteCmd (exs_fsm y)
    @ spans a (k # map (\<lambda>p. snd (snd (snd p))) ps)"
proof -
  let ?u = "(exh_round ^^ 3) y"
  have d: "ibm_op_code m \<in> data_ops" "ibm_op_code m \<noteq> RC_RDMA_READ_RESP_LAST" using assms(4) by (auto simp: data_ops_def)
  have addr: "pkt_addr (ibm_op_code m) h a d' = a" for d' using assms(4,5) by (auto simp: pkt_addr_def pops_def)
  from exh_packet [OF assms(1) _ _ _ assms(6) d(1) _ refl refl refl, of "map fst ps" h "map (\<lambda>p. fst (snd p)) ps" l
      "map (\<lambda>p. fst (snd (snd p))) ps"] assms(2,5) d(2) addr
  have u: "exh_idle ?u \<and> rx_input ps ?u \<and> pex_memoryWriteCmd (exs_fsm ?u) = pex_memoryWriteCmd (exs_fsm y) @
        [routedMemCmd_mk a (of_nat k) ROUTE_DMA] \<and> dms_vaddr (mst_table (exs_msn ?u) i) = a + of_nat k"
    using assms(3) of_nat_seg [of k] by (auto simp: rx_input_def)
  have "t = (exh_round ^^ (3 * length ps)) ?u"
    using assms(9) by (simp add: funpow_add [symmetric, THEN fun_cong, simplified] add.commute)
  with exh_tail [of ?u ps i t] u assms(7,8) show ?thesis by simp
qed

section \<open>From host to host\<close>

lemma reth_fields:
  assumes "length h = RETH_OCTETS" and "g = reth_setRemoteKey key (reth_setLength len (reth_setVirtualAddress a h))"
  shows "length g = RETH_OCTETS" "reth_getLength g = len" "reth_getVirtualAddress g = a"
  using assms
  by (simp_all add: reth_setRemoteKey_def reth_setLength_def reth_setVirtualAddress_def reth_getLength_def
      reth_getVirtualAddress_def RETH_OCTETS_def field_simps reverse_reverse)

lemma getRdmaHeader_ExHeader: "length h = RETH_OCTETS \<Longrightarrow> getRdmaHeader (ExHeader h) = h"
  by (simp add: getRdmaHeader_def ExHeader_def)

text \<open>The payload of the packet of an event, and the length that is handed to the UDP layer, without and with its header.\<close>

definition ev_pay :: "ib_event \<Rightarrow> u16" where
  "ev_pay e = (if ibe_op_code e = RC_RDMA_WRITE_FIRST then pmtu else ucast (ibe_length e))"

definition ev_length :: "ib_event \<Rightarrow> u16" where
  "ev_length e = ev_pay e + (if ibe_op_code e \<in> {RC_RDMA_WRITE_ONLY, RC_RDMA_WRITE_FIRST} then 32
     else if ibe_op_code e \<in> {RC_RDMA_READ_RESP_ONLY, RC_RDMA_READ_RESP_FIRST, RC_RDMA_READ_RESP_LAST} then 20 else 16)"

lemma pkt_pay_ev_length:
  assumes "unat (ev_pay e) \<le> PMTU" and "ibe_op_code e \<in> data_ops"
  shows "pkt_pay (ibe_op_code e) (ev_length e + 8) = of_nat (unat (ev_pay e))"
proof -
  have "(ucast (p + k) :: u32) = ucast p + ucast k" if "unat p \<le> PMTU" "unat k \<le> 100" for p k :: u16
    using that by (simp add: word_unat_eq_iff PMTU_def unat_ucast_up unat_word_ariths)
  from this [of "ev_pay e" 40] this [of "ev_pay e" 28] this [of "ev_pay e" 24] assms show ?thesis
    by (auto simp: pkt_pay_def ev_length_def data_ops_def add.assoc)
qed

lemma consume_reth:
  "ph_idx h = 0 \<Longrightarrow> RETH_OCTETS < n \<Longrightarrow>
   consumeWord n RETH_OCTETS z h = (ph_header h @ drop RETH_OCTETS z, h\<lparr> ph_idx := 1 \<rparr>, 0)"
  by (simp add: consumeWord_def RETH_OCTETS_def)

lemma gex_event:
  assumes "gex_state s = GEX_META" and "gex_metaIn s = e # es" and "gex_msn_rsp s = r # rs" and "RETH_OCTETS < n"
    and "length (ph_header (gex_rdmaHeader s)) = RETH_OCTETS" and "length z = n" and "ibe_op_code e \<in> data_ops"
    and "t = (generate_exh n z ^^ 3) s"
  shows "gex_state t = GEX_META \<and> gex_metaIn t = es \<and> gex_msn_rsp t = rs \<and> length (ph_header (gex_rdmaHeader t)) = RETH_OCTETS
    \<and> gex_length t = gex_length s @ [ev_length e]
    \<and> (\<exists>ws. gex_output t = gex_output s @ ws \<and> (ibe_op_code e \<in> {RC_RDMA_WRITE_ONLY, RC_RDMA_WRITE_FIRST} \<longrightarrow>
         (\<exists>w g. ws = [w] \<and> g = take RETH_OCTETS (na_data w) \<and> length g = RETH_OCTETS \<and> reth_getLength g = ibe_length e
            \<and> reth_getVirtualAddress g = ucast (ibe_addr e))))"
proof -
  define u where "u = (generate_exh n z ^^ 2) s"
  have u: "u = s\<lparr> gex_metaIn := es, gex_meta := e, gex_rdmaHeader := clear_header (gex_rdmaHeader s),
      gex_ackHeader := clear_header (gex_ackHeader s), gex_metaWritten := False,
      gex_msn_req := gex_msn_req s @ [ucast (ibe_qpn e)], gex_msn_rsp := rs, gex_msnMeta := r, gex_state := GEX_PROCESS \<rparr>"
    using assms(1-3) by (simp add: u_def numeral_2_eq_2 generate_exh_def)
  have "t = generate_exh n z u" using assms(8) by (simp add: u_def numeral_3_eq_3 numeral_2_eq_2)
  then have t: "t = gex_process n z u" by (simp add: generate_exh_def u)
  define g where "g = reth_setRemoteKey (tmr_r_key r) (reth_setLength (ibe_length e)
      (reth_setVirtualAddress (ucast (ibe_addr e)) (ph_header (gex_rdmaHeader s))))"
  note g = reth_fields [OF assms(5) g_def]
  show ?thesis
  proof (cases "ibe_op_code e \<in> {RC_RDMA_WRITE_ONLY, RC_RDMA_WRITE_FIRST}")
    case True
    let ?w = "\<lparr> na_data = g @ drop RETH_OCTETS z, na_keep = replicate n True, na_last = True \<rparr>"
    have "gex_reth n z p l u = (gex_info False True p l u)\<lparr>
        gex_rdmaHeader := (gex_rdmaHeader s)\<lparr> ph_ready := False, ph_idx := 1, ph_header := g \<rparr>, gex_output := gex_output s @ [?w], gex_metaWritten := True, gex_state := GEX_META \<rparr>" for p l
      unfolding g_def using assms(4) by (simp add: gex_reth_def gex_info_def u clear_header_def consume_reth Let_def)
    moreover have "t = gex_reth n z (ibe_length e \<noteq> 0) (ev_length e) u"
      using True by (auto simp: t gex_process_def u ev_length_def ev_pay_def add.commute Let_def)
    ultimately have "gex_state t = GEX_META \<and> gex_metaIn t = es \<and> gex_msn_rsp t = rs \<and> ph_header (gex_rdmaHeader t) = g
        \<and> gex_length t = gex_length s @ [ev_length e] \<and> gex_output t = gex_output s @ [?w]"
      by (auto simp: u gex_info_def)
    then show ?thesis using g by (intro conjI exI [of _ "[?w]"] impI exI [of _ ?w] exI [of _ g]) simp_all
  next
    case False
    with assms(5,7) show ?thesis
      by (auto simp: t u gex_process_def gex_aeth_def gex_info_def ev_length_def ev_pay_def clear_header_def data_ops_def Let_def
          split: prod.split)
  qed
qed

lemma gex_run:
  assumes "gex_state s = GEX_META" and "gex_metaIn s = es" and "length (gex_msn_rsp s) = length es" and "RETH_OCTETS < n"
    and "length (ph_header (gex_rdmaHeader s)) = RETH_OCTETS" and "length z = n" and "\<forall>e \<in> set es. ibe_op_code e \<in> data_ops"
    and "t = (generate_exh n z ^^ (3 * length es)) s"
  shows "gex_length t = gex_length s @ map ev_length es \<and> (\<exists>ws. gex_output t = gex_output s @ ws)"
  using assms
proof (induction es arbitrary: s)
  case (Cons e es)
  then obtain r rs where r: "gex_msn_rsp s = r # rs" "length rs = length es" by (cases "gex_msn_rsp s") auto
  let ?u = "(generate_exh n z ^^ 3) s"
  have t: "t = (generate_exh n z ^^ (3 * length es)) ?u"
    using Cons.prems(8) by (simp add: funpow_add [symmetric, THEN fun_cong, simplified] add.commute)
  have "ibe_op_code e \<in> data_ops" using Cons.prems(7) by simp
  from gex_event [OF Cons.prems(1,2) r(1) Cons.prems(4,5,6) this refl] Cons.IH [of ?u] Cons.prems r t show ?case by auto
qed simp

lemma unat_u32_u16: "unat w \<le> PMTU \<Longrightarrow> unat (ucast (w :: u32) :: u16) = unat w"
  by (simp add: PMTU_def unsigned_ucast_eq take_bit_nat_eq_self)

lemma of_nat_pay: "l \<le> PMTU \<Longrightarrow> unat (ucast (of_nat l :: u32) :: u16) = l"
  by (subst unat_u32_u16) (simp_all add: PMTU_def unat_of_nat_mod)

lemma write_tail_pay:
  "\<forall>l \<in> set ls. l \<le> PMTU \<Longrightarrow> map (\<lambda>e. unat (ev_pay e)) (write_tail False qp a ls) = ls
   \<and> (\<forall>e \<in> set (write_tail False qp a ls). ibe_op_code e \<in> {RC_RDMA_WRITE_MIDDLE, RC_RDMA_WRITE_LAST})"
  by (induction ls arbitrary: a) (auto simp: ev_pay_def event_addr_def of_nat_pay)

lemma write_events_packets:
  assumes "txm_op_code m = APP_WRITE" and "0 < txm_length m" and "evs = write_events m"
  shows "map (\<lambda>e. unat (ev_pay e)) evs = cut_message (unat (txm_length m))
    \<and> evs \<noteq> [] \<and> ibe_op_code (hd evs) \<in> {RC_RDMA_WRITE_ONLY, RC_RDMA_WRITE_FIRST}
    \<and> ibe_addr (hd evs) = txm_remote_vaddr m \<and> ibe_length (hd evs) = txm_length m
    \<and> (\<forall>e \<in> set (tl evs). ibe_op_code e \<in> {RC_RDMA_WRITE_MIDDLE, RC_RDMA_WRITE_LAST})"
proof -
  let ?L = "unat (txm_length m)"
  obtain l ls where c: "cut_message ?L = l # ls" by (cases "cut_message ?L") (use cut_ne [of ?L] in auto)
  have le: "\<forall>l \<in> set ls. l \<le> PMTU" "l \<le> PMTU" using cut_le [of _ ?L] c by auto
  have "l = (if ls = [] then ?L else PMTU)" using c cut_tail_full [of l ls ?L] sum_cut [of ?L] by auto
  moreover have "unat (pmtu :: u16) = PMTU" by (simp add: pmtu_def PMTU_def)
  ultimately show ?thesis
    using assms c le write_tail_pay [OF le(1)] unat_u32_u16 [of "txm_length m"]
    by (auto simp: write_events_def ev_pay_def event_addr_def)
qed

text \<open>The packets of a list of events, as the receiver of the other host gets them.\<close>

definition as_received :: "ib_event list \<Rightarrow> ibhMeta list \<Rightarrow> u8 list list \<Rightarrow> rx_packet list" where
  "as_received evs ms hs = map (\<lambda>(e, m, h). (m, h, ev_length e + 8, unat (ev_pay e))) (zip evs (zip ms hs))"

lemma as_received_proj:
  assumes "length ms = length evs" and "length hs = length evs"
  shows "map fst (as_received evs ms hs) = ms" "map (\<lambda>p. fst (snd p)) (as_received evs ms hs) = hs"
    "map (\<lambda>p. fst (snd (snd p))) (as_received evs ms hs) = map (\<lambda>l. l + 8) (map ev_length evs)"
    "map (\<lambda>p. snd (snd (snd p))) (as_received evs ms hs) = map (\<lambda>e. unat (ev_pay e)) evs"
  using assms by (auto intro!: nth_equalityI simp: as_received_def case_prod_beta)

lemma as_received_carries:
  assumes "map ibm_op_code ms = map ibe_op_code evs" and "length hs = length evs" and "\<forall>m \<in> set ms. ucast (ibm_dest_qp m) = i"
    and "\<forall>e \<in> set evs. ibe_op_code e \<in> data_ops \<and> unat (ev_pay e) \<le> PMTU" and "p \<in> set (as_received evs ms hs)"
  shows "carries i p \<and> (\<exists>e \<in> set evs. ibm_op_code (fst p) = ibe_op_code e)"
proof -
  have l: "length ms = length evs" using assms(1) by (metis length_map)
  from assms(5) obtain k where k: "k < length evs" "p = (ms ! k, hs ! k, ev_length (evs ! k) + 8, unat (ev_pay (evs ! k)))"
    using l assms(2) by (auto simp: as_received_def in_set_conv_nth)
  have "ibm_op_code (ms ! k) = ibe_op_code (evs ! k)" using assms(1) k(1) l by (metis nth_map)
  moreover have "pkt_pay (ibe_op_code (evs ! k)) (ev_length (evs ! k) + 8) = of_nat (unat (ev_pay (evs ! k)))"
    using assms(4) k(1) by (intro pkt_pay_ev_length) simp_all
  ultimately show ?thesis using k l assms(3,4) by auto
qed

text \<open>Any message whose events have the payloads of a cut message.\<close>

lemma message_received:
  assumes "exh_idle y" and "evs = e # es" and "map ibm_op_code ms = map ibe_op_code evs" and "\<forall>m \<in> set ms. ucast (ibm_dest_qp m) = (i :: u16)"
    and "length hs = length evs" and "pex_metaIn (exs_fsm y) = ms" and "pex_headerInput (exs_fsm y) = hs"
    and "pex_udpLengthFifo (exs_fsm y) = map (\<lambda>l. l + 8) (map ev_length evs)"
    and "\<forall>e \<in> set evs. unat (ev_pay e) \<le> PMTU"
    and "ibe_op_code e \<in> {RC_RDMA_WRITE_ONLY, RC_RDMA_WRITE_FIRST, RC_RDMA_READ_RESP_ONLY, RC_RDMA_READ_RESP_FIRST}"
    and "ibe_op_code e \<in> {RC_RDMA_WRITE_ONLY, RC_RDMA_WRITE_FIRST} \<Longrightarrow>
           reth_getLength (getRdmaHeader (hd hs)) \<noteq> 0 \<and> reth_getVirtualAddress (getRdmaHeader (hd hs)) = a"
    and "pops (ibe_op_code e) \<Longrightarrow> pex_pop_rsp (exs_fsm y) = a # as"
    and "\<forall>e \<in> set es. continues (ibe_op_code e)" and "\<forall>e \<in> set (butlast es). ibe_op_code e \<noteq> RC_RDMA_READ_RESP_LAST"
    and "t = (exh_round ^^ (3 * length evs)) y"
  shows "exh_idle t \<and> rx_input [] t \<and> pex_memoryWriteCmd (exs_fsm t) = pex_memoryWriteCmd (exs_fsm y)
    @ spans a (map (\<lambda>e. unat (ev_pay e)) evs)"
proof -
  let ?ps = "as_received evs ms hs"
  have l: "length ms = length evs" using assms(3) by (metis length_map)
  note pr = as_received_proj [OF l assms(5)]
  obtain m ms' h hs' where mh: "ms = m # ms'" "hs = h # hs'" using l assms(2,5) by (cases ms; cases hs) auto
  then have ps: "?ps = (m, h, ev_length e + 8, unat (ev_pay e)) # as_received es ms' hs'"
    by (simp add: as_received_def assms(2))
  have d: "\<forall>e \<in> set evs. ibe_op_code e \<in> data_ops \<and> unat (ev_pay e) \<le> PMTU"
    using assms(2,9,10,13) by (auto simp: data_ops_def continues_def)
  have es: "map ibm_op_code ms' = map ibe_op_code es" "length hs' = length es" "\<forall>m \<in> set ms'. ucast (ibm_dest_qp m) = i"
    "ibm_op_code m = ibe_op_code e" using assms(2-5) mh by simp_all
  have des: "\<forall>e \<in> set es. ibe_op_code e \<in> data_ops \<and> unat (ev_pay e) \<le> PMTU" using d assms(2) by simp
  have tail: "\<forall>p \<in> set (as_received es ms' hs'). carries i p \<and> continues (ibm_op_code (fst p))"
    using as_received_carries [OF es(1,2,3) des] assms(13) by fastforce
  have car: "carries i (m, h, ev_length e + 8, unat (ev_pay e))"
    by (rule as_received_carries [OF assms(3,5,4) d, THEN conjunct1]) (simp add: ps)
  have l': "length ms' = length es" using es(1) by (metis length_map)
  have "map (\<lambda>p. ibm_op_code (fst p)) (as_received es ms' hs') = map ibm_op_code (map fst (as_received es ms' hs'))"
    by simp
  also have "\<dots> = map ibe_op_code es" by (simp only: as_received_proj(1) [OF l' es(2)] es(1))
  finally have "set (map (\<lambda>p. ibm_op_code (fst p)) (butlast (as_received es ms' hs'))) = set (map ibe_op_code (butlast es))"
    by (simp only: map_butlast)
  moreover have "RC_RDMA_READ_RESP_LAST \<notin> set (map ibe_op_code (butlast es))" using assms(14) by auto
  ultimately have bl: "\<forall>p \<in> set (butlast (as_received es ms' hs')). ibm_op_code (fst p) \<noteq> RC_RDMA_READ_RESP_LAST"
    by (metis (no_types, lifting) image_eqI list.set_map)
  have len: "length (as_received es ms' hs') = length es" using l' es(2) by (simp add: as_received_def)
  have inp: "rx_input ?ps y" using pr assms(6-8) by (simp add: rx_input_def)
  have "exh_idle t \<and> rx_input [] t \<and> pex_memoryWriteCmd (exs_fsm t) = pex_memoryWriteCmd (exs_fsm y)
      @ spans a (unat (ev_pay e) # map (\<lambda>p. snd (snd (snd p))) (as_received es ms' hs'))"
    by (rule exh_message [OF assms(1) inp [unfolded ps] car _ _ _ tail bl])
       (use assms(10,11,12,15) es(4) mh(2) len assms(2) in simp_all)
  then show ?thesis using as_received_proj(4) [OF l' es(2)] assms(2) by simp
qed

text \<open>
  (C15) A remote write, from the application of one host to the memory of the other.  The request is cut into packets and read from the local
  memory with one command; the length fields and the header that the sender makes for these packets, with the UDP header added to the
  lengths, make the receiver write consecutive pieces, which begin at the remote address and together are exactly as long as the message.
\<close>

theorem remote_write_lands:
  assumes "lrh_state s = LRH_META" and "lrh_tx_meta s = [m]" and "txm_op_code m = APP_WRITE" and "0 < txm_length m"
    and "lrh_event s = []" and "N = length (cut_message (unat (txm_length m)))" and "s' = (local_req_handler unset ^^ N) s"
    and "gex_state g = GEX_META" and "gex_metaIn g = lrh_event s'" and "length (gex_msn_rsp g) = N" and "RETH_OCTETS < n"
    and "length (ph_header (gex_rdmaHeader g)) = RETH_OCTETS" and "length z = n" and "gex_length g = []" and "gex_output g = []"
    and "g' = (generate_exh n z ^^ (3 * N)) g"
    and "exh_idle y" and "map ibm_op_code ms = map ibe_op_code (lrh_event s')" and "\<forall>x \<in> set ms. ucast (ibm_dest_qp x) = (i :: u16)"
    and "pex_metaIn (exs_fsm y) = ms" and "pex_headerInput (exs_fsm y) = ExHeader (take RETH_OCTETS (na_data (hd (gex_output g')))) # hs"
    and "length hs = N - 1" and "pex_udpLengthFifo (exs_fsm y) = map (\<lambda>l. l + 8) (gex_length g')"
    and "t = (exh_round ^^ (3 * N)) y"
  shows "lrh_state s' = LRH_META \<and> lrh_memCmd s' = lrh_memCmd s @
      [memCmdInternal_mk unset (ucast (txm_qpn m)) (ucast (txm_local_vaddr m)) (txm_length m)]
    \<and> exh_idle t \<and> pex_memoryWriteCmd (exs_fsm t) = pex_memoryWriteCmd (exs_fsm y)
      @ spans (ucast (txm_remote_vaddr m)) (cut_message (unat (txm_length m)))
    \<and> sum_list (cut_message (unat (txm_length m))) = unat (txm_length m)"
proof -
  let ?evs = "write_events m"
  obtain m' where s': "s' = s\<lparr> lrh_state := LRH_META, lrh_tx_meta := [], lrh_meta := m',
      lrh_memCmd := lrh_memCmd s @ [memCmdInternal_mk unset (ucast (txm_qpn m)) (ucast (txm_local_vaddr m)) (txm_length m)],
      lrh_event := lrh_event s @ ?evs \<rparr>"
    using local_write_run [OF assms(1,2) _ refl, of unset] assms(3,6,7) by auto
  note w = write_events_packets [OF assms(3,4) refl]
  obtain e es where e: "?evs = e # es" using w by (cases ?evs) auto
  have N: "length ?evs = N" using w assms(6) by (metis length_map)
  have pay: "\<forall>e \<in> set ?evs. unat (ev_pay e) \<le> PMTU"
    using w cut_le [of _ "unat (txm_length m)"] by (metis (no_types, lifting) image_eqI list.set_map)
  have d: "\<forall>e \<in> set ?evs. ibe_op_code e \<in> data_ops" using w e by (auto simp: data_ops_def)
  obtain r rs where r: "gex_msn_rsp g = r # rs" "length rs = length es" using assms(10) N e by (cases "gex_msn_rsp g") auto
  have gm: "gex_metaIn g = e # es" using assms(5,9) s' e by simp
  let ?u = "(generate_exh n z ^^ 3) g"
  have g': "g' = (generate_exh n z ^^ (3 * length es)) ?u"
    using assms(16) N e by (auto simp: funpow_add [symmetric, THEN fun_cong, simplified] add.commute)
  have ed: "ibe_op_code e \<in> data_ops" "ibe_op_code e \<in> {RC_RDMA_WRITE_ONLY, RC_RDMA_WRITE_FIRST}" using d w e by simp_all
  note ge = gex_event [OF assms(8) gm r(1) assms(11,12,13) ed(1) refl]
  then obtain x h where x: "gex_output ?u = [x]" "h = take RETH_OCTETS (na_data x)" "length h = RETH_OCTETS"
    "reth_getLength h = ibe_length e" "reth_getVirtualAddress h = ucast (ibe_addr e)" using ed(2) assms(15) by auto
  have dd: "\<forall>e \<in> set es. ibe_op_code e \<in> data_ops" using d e by simp
  have gr: "gex_length g' = map ev_length ?evs" "hd (gex_output g') = x"
    using gex_run [of ?u es n z g'] ge g' r(2) assms(11,13,14) dd e x(1) by auto
  let ?hs = "ExHeader h # hs"
  have hs: "pex_headerInput (exs_fsm y) = ?hs" "length ?hs = length ?evs" using assms(21,22) gr(2) x(2) N e by auto
  have op: "map ibm_op_code ms = map ibe_op_code ?evs" using assms(5,18) s' by simp
  have ul: "pex_udpLengthFifo (exs_fsm y) = map (\<lambda>l. l + 8) (map ev_length ?evs)" using assms(23) gr(1) by simp
  have ct: "\<forall>e \<in> set es. continues (ibe_op_code e) \<and> ibe_op_code e \<noteq> RC_RDMA_READ_RESP_LAST" using w e by (auto simp: continues_def)
  have "exh_idle t \<and> rx_input [] t \<and> pex_memoryWriteCmd (exs_fsm t) = pex_memoryWriteCmd (exs_fsm y)
      @ spans (ucast (txm_remote_vaddr m)) (map (\<lambda>e. unat (ev_pay e)) ?evs)"
    by (rule message_received [OF assms(17) e op assms(19) hs(2) assms(20) hs(1) ul pay, where as = "[]"])
       (use ed(2) x w e assms(4) ct N assms(24) in \<open>auto simp: getRdmaHeader_ExHeader pops_def word_gt_0 dest: in_set_butlastD\<close>)
  with s' w show ?thesis by (simp add: sum_cut)
qed

lemma answer_tail_pay:
  "\<forall>l \<in> set ls. l \<le> PMTU \<Longrightarrow> map (\<lambda>e. unat (ev_pay e)) (answer_tail qp p ls) = ls
   \<and> (\<forall>e \<in> set (answer_tail qp p ls). ibe_op_code e \<in> {RC_RDMA_READ_RESP_MIDDLE, RC_RDMA_READ_RESP_LAST})
   \<and> (\<forall>e \<in> set (butlast (answer_tail qp p ls)). ibe_op_code e \<noteq> RC_RDMA_READ_RESP_LAST)
   \<and> map ibe_psn (answer_tail qp p ls) = map (\<lambda>j. p + of_nat j) [1..<Suc (length ls)]"
proof (induction ls arbitrary: p)
  case (Cons l ls)
  have "map (\<lambda>j. p + 1 + of_nat j) [1..<Suc n] = map (\<lambda>j. p + of_nat j) [2..<Suc (Suc n)]" for n
    by (rule nth_equalityI) (simp_all add: add_ac del: upt_Suc)
  moreover have "[1..<Suc (length (l # ls))] = 1 # [2..<Suc (Suc (length ls))]" by (simp add: upt_conv_Cons numeral_2_eq_2 del: upt_Suc)
  moreover have "answer_tail qp (p + 1) ls = [] \<longleftrightarrow> ls = []" by (cases ls) simp_all
  ultimately show ?case using Cons.IH [of "p + 1"] Cons.prems by (auto simp: ev_pay_def event_psn_def of_nat_pay simp del: upt_Suc)
qed simp

lemma answer_events_packets:
  assumes "evs = answer_events r" and "ls = cut_message (unat (rdr_dma_length r))"
  shows "map (\<lambda>e. unat (ev_pay e)) evs = ls \<and> evs \<noteq> [] \<and> pops (ibe_op_code (hd evs))
    \<and> (\<forall>e \<in> set (tl evs). ibe_op_code e \<in> {RC_RDMA_READ_RESP_MIDDLE, RC_RDMA_READ_RESP_LAST})
    \<and> (\<forall>e \<in> set (butlast (tl evs)). ibe_op_code e \<noteq> RC_RDMA_READ_RESP_LAST)
    \<and> map ibe_psn evs = map (\<lambda>j. rdr_psn r + of_nat j) [0..<length ls]"
proof -
  obtain k ks where c: "ls = k # ks" using assms(2) cut_ne by (metis list.exhaust)
  then have le: "\<forall>l \<in> set ks. l \<le> PMTU" "k \<le> PMTU" using cut_le assms(2) by (metis list.set_intros)+
  have "[0..<length ls] = 0 # [1..<Suc (length ks)]" using c by (simp add: upt_conv_Cons del: upt_Suc)
  with answer_tail_pay [OF le(1), of "rdr_qpn r" "rdr_psn r"] le(2) c assms show ?thesis
    by (auto simp: answer_events_def ev_pay_def event_psn_def of_nat_pay pops_def simp del: upt_Suc)
qed

text \<open>
  (C16) The answer to a remote read.  The memory of the asked host is read with one command; the answer is cut into packets with consecutive
  sequence numbers from that of the request, and the lengths that the sender announces make the host that asked write consecutive pieces
  which begin at the address it kept for this read and together are exactly as long as the message.
\<close>

theorem read_answer_lands:
  assumes "hrr_state s = HRR_META" and "hrr_requestIn s = [r]" and "hrr_event s = []"
    and "ls = cut_message (unat (rdr_dma_length r))" and "s' = (handle_read_requests unset ^^ length ls) s"
    and "gex_state g = GEX_META" and "gex_metaIn g = hrr_event s'" and "length (gex_msn_rsp g) = length ls" and "RETH_OCTETS < n"
    and "length (ph_header (gex_rdmaHeader g)) = RETH_OCTETS" and "length z = n" and "gex_length g = []"
    and "g' = (generate_exh n z ^^ (3 * length ls)) g"
    and "exh_idle y" and "map ibm_op_code ms = map ibe_op_code (hrr_event s')" and "\<forall>x \<in> set ms. ucast (ibm_dest_qp x) = (i :: u16)"
    and "pex_metaIn (exs_fsm y) = ms" and "length (pex_headerInput (exs_fsm y)) = length ls"
    and "pex_udpLengthFifo (exs_fsm y) = map (\<lambda>l. l + 8) (gex_length g')" and "pex_pop_rsp (exs_fsm y) = a # as"
    and "t = (exh_round ^^ (3 * length ls)) y"
  shows "hrr_state s' = HRR_META \<and> hrr_memCmd s' = hrr_memCmd s @
      [memCmdInternal_mk unset (ucast (rdr_qpn r)) (ucast (rdr_vaddr r)) (rdr_dma_length r)]
    \<and> map ibe_psn (hrr_event s') = map (\<lambda>j. rdr_psn r + of_nat j) [0..<length ls]
    \<and> exh_idle t \<and> pex_memoryWriteCmd (exs_fsm t) = pex_memoryWriteCmd (exs_fsm y) @ spans a ls
    \<and> sum_list ls = unat (rdr_dma_length r)"
proof -
  let ?evs = "answer_events r"
  obtain r' where s': "s' = s\<lparr> hrr_state := HRR_META, hrr_requestIn := [], hrr_request := r',
      hrr_memCmd := hrr_memCmd s @ [memCmdInternal_mk unset (ucast (rdr_qpn r)) (ucast (rdr_vaddr r)) (rdr_dma_length r)],
      hrr_event := hrr_event s @ ?evs \<rparr>"
    using read_answer_run [OF assms(1,2,4), of unset] assms(5) by auto
  note w = answer_events_packets [OF refl assms(4)]
  obtain e es where e: "?evs = e # es" using w by (cases ?evs) auto
  have N: "length ?evs = length ls" using w by (metis length_map)
  have pay: "\<forall>e \<in> set ?evs. unat (ev_pay e) \<le> PMTU" using w cut_le assms(4) by (metis (no_types, lifting) image_eqI list.set_map)
  have d: "\<forall>e \<in> set ?evs. ibe_op_code e \<in> data_ops" using w e by (auto simp: data_ops_def pops_def)
  have gl: "gex_length g' = map ev_length ?evs"
    using gex_run [OF assms(6) _ _ assms(9,10,11) d] assms(3,7,8,12,13) s' N by simp
  have eo: "ibe_op_code e = RC_RDMA_READ_RESP_ONLY \<or> ibe_op_code e = RC_RDMA_READ_RESP_FIRST" using w e by (simp add: pops_def)
  have es: "\<forall>e \<in> set es. continues (ibe_op_code e)" "\<forall>e \<in> set (butlast es). ibe_op_code e \<noteq> RC_RDMA_READ_RESP_LAST"
    using w e by (auto simp: continues_def)
  have hs: "length (pex_headerInput (exs_fsm y)) = length ?evs" using assms(18) N by simp
  have op: "map ibm_op_code ms = map ibe_op_code ?evs" using assms(3,15) s' by simp
  have ul: "pex_udpLengthFifo (exs_fsm y) = map (\<lambda>l. l + 8) (map ev_length ?evs)" using assms(19) gl by simp
  have "exh_idle t \<and> rx_input [] t \<and> pex_memoryWriteCmd (exs_fsm t) = pex_memoryWriteCmd (exs_fsm y)
      @ spans a (map (\<lambda>e. unat (ev_pay e)) ?evs)"
    by (rule message_received [OF assms(14) e op assms(16) hs assms(17) refl ul pay, where as = as])
       (use eo es assms(20) N assms(21) in \<open>simp_all, elim disjE, simp_all\<close>)
  with s' w assms(3,4) show ?thesis by (simp add: sum_cut)
qed

section \<open>A message of 3000 octets\<close>

definition ex_write :: txMeta where
  "ex_write = \<lparr> txm_op_code = APP_WRITE, txm_qpn = 2, txm_local_vaddr = 0x1000, txm_remote_vaddr = 0x8000, txm_length = 3000 \<rparr>"

definition ex_read :: readRequest where
  "ex_read = \<lparr> rdr_qpn = 2, rdr_vaddr = 0x1000, rdr_dma_length = 3000, rdr_psn = 40, rdr_route = ROUTE_DMA \<rparr>"

definition ex_handler :: local_req_st where
  "ex_handler = \<lparr> lrh_state = LRH_META, lrh_meta = ex_write, lrh_tx_meta = [ex_write], lrh_memCmd = [], lrh_readAddr = [], lrh_event = [] \<rparr>"

definition ex_answers :: read_handler_st where
  "ex_answers = \<lparr> hrr_state = HRR_META, hrr_request = ex_read, hrr_requestIn = [ex_read], hrr_memCmd = [], hrr_event = [] \<rparr>"

definition ex_describe :: "ib_event list \<Rightarrow> gen_exh_st" where
  "ex_describe evs = \<lparr> gex_state = GEX_META, gex_meta = event_of_ack (ackEvent_ok 0),
     gex_rdmaHeader = \<lparr> ph_ready = False, ph_idx = 0, ph_header = replicate RETH_OCTETS 0 \<rparr>,
     gex_ackHeader = \<lparr> ph_ready = False, ph_idx = 0, ph_header = replicate AETH_OCTETS 0 \<rparr>, gex_metaWritten = False,
     gex_msnMeta = \<lparr> tmr_msn = 0, tmr_r_key = 0 \<rparr>, gex_metaIn = evs, gex_msn_rsp = map (\<lambda>_. \<lparr> tmr_msn = 0, tmr_r_key = 7 \<rparr>) evs,
     gex_msn_req = [], gex_readReq_upd = [], gex_length = [], gex_packetInfo = [], gex_output = [] \<rparr>"

definition ex_metas :: "ib_event list \<Rightarrow> ibhMeta list" where
  "ex_metas evs = map (\<lambda>e. ibhMeta_psn (ibe_op_code e) 0 (ibe_qpn e) (ibe_psn e) True) evs"

definition ex_taker :: "ib_event list \<Rightarrow> u8 list list \<Rightarrow> u16 list \<Rightarrow> exh_sys" where
  "ex_taker evs hs ls =
     \<lparr> exs_fsm = \<lparr> pex_fsmState = PEX_META, pex_meta = ibhMeta_psn RC_ACK 0 0 0 False, pex_exHeader = [],
         pex_dmaMeta = \<lparr> dms_msn = 0, dms_vaddr = 0, dms_dma_length = 0, dms_r_key = 0 \<rparr>, pex_udpLength = 0, pex_consumeReadAddr = False,
         pex_readReqAddr = 0, pex_metaIn = ex_metas evs, pex_udpLengthFifo = ls, pex_msn_rsp = [], pex_pop_rsp = [0x6000],
         pex_headerInput = hs, pex_memoryWriteCmd = [], pex_readRequest = [], pex_msn_req = [], pex_readReq_upd = [], pex_pop_req = [],
         pex_event = [], pex_splitType = [], pex_shiftType = [] \<rparr>,
       exs_msn = \<lparr> mst_table = (\<lambda>_. \<lparr> dms_msn = 0, dms_vaddr = 0, dms_dma_length = 0, dms_r_key = 0 \<rparr>), mst_rx_req = [], mst_tx_req = [],
         mst_init = [], mst_rx_rsp = [], mst_tx_rsp = [] \<rparr> \<rparr>"

lemma ex_taker_simps [simp]:
  "exh_idle (ex_taker evs hs ls)" "pex_metaIn (exs_fsm (ex_taker evs hs ls)) = ex_metas evs"
  "pex_headerInput (exs_fsm (ex_taker evs hs ls)) = hs" "pex_udpLengthFifo (exs_fsm (ex_taker evs hs ls)) = ls"
  "pex_pop_rsp (exs_fsm (ex_taker evs hs ls)) = [0x6000]" "pex_memoryWriteCmd (exs_fsm (ex_taker evs hs ls)) = []"
  "map ibm_op_code (ex_metas evs) = map ibe_op_code evs"
  by (simp_all add: ex_taker_def exh_idle_def ex_metas_def ibhMeta_psn_def)

lemma ex_describe_simps [simp]:
  "gex_state (ex_describe evs) = GEX_META" "gex_metaIn (ex_describe evs) = evs" "length (gex_msn_rsp (ex_describe evs)) = length evs"
  "length (ph_header (gex_rdmaHeader (ex_describe evs))) = RETH_OCTETS" "gex_length (ex_describe evs) = []" "gex_output (ex_describe evs) = []"
  by (simp_all add: ex_describe_def)

lemma ex_cut: "cut_message 3000 = [1408, 1408, 184]"
  by (simp add: cut_message.simps PMTU_def)

definition ex_packets :: "ib_event list" where
  "ex_packets = lrh_event ((local_req_handler ROUTE_DMA ^^ 3) ex_handler)"

definition ex_replies :: "ib_event list" where
  "ex_replies = hrr_event ((handle_read_requests ROUTE_DMA ^^ 3) ex_answers)"

lemma ex_qp: "length ex_packets = 3" "\<forall>x \<in> set (ex_metas ex_packets). ucast (ibm_dest_qp x) = (2 :: u16)"
  "length ex_replies = 3" "\<forall>x \<in> set (ex_metas ex_replies). ucast (ibm_dest_qp x) = (2 :: u16)"
  by code_simp+

definition ex_described :: "ib_event list \<Rightarrow> gen_exh_st" where
  "ex_described evs = (generate_exh 64 (replicate 64 0) ^^ 9) (ex_describe evs)"

theorem remote_write_lands_witness:
  "pex_memoryWriteCmd (exs_fsm ((exh_round ^^ 9) (ex_taker ex_packets
       (ExHeader (take RETH_OCTETS (na_data (hd (gex_output (ex_described ex_packets))))) # replicate 2 [])
       (map (\<lambda>l. l + 8) (gex_length (ex_described ex_packets)))))) =
     [routedMemCmd_mk 0x8000 1408 ROUTE_DMA, routedMemCmd_mk 0x8580 1408 ROUTE_DMA, routedMemCmd_mk 0x8B00 184 ROUTE_DMA]"
proof -
  let ?y = "ex_taker ex_packets (ExHeader (take RETH_OCTETS (na_data (hd (gex_output (ex_described ex_packets))))) # replicate 2 [])
       (map (\<lambda>l. l + 8) (gex_length (ex_described ex_packets)))"
  have c: "3 = length (cut_message (unat (txm_length ex_write)))" by (simp add: ex_write_def ex_cut)
  have "pex_memoryWriteCmd (exs_fsm ((exh_round ^^ (3 * 3)) ?y)) =
      pex_memoryWriteCmd (exs_fsm ?y) @ spans (ucast (txm_remote_vaddr ex_write)) (cut_message (unat (txm_length ex_write)))"
    by (rule remote_write_lands [where s = ex_handler and unset = ROUTE_DMA and m = ex_write
          and g = "ex_describe ex_packets" and n = 64 and z = "replicate 64 0" and ms = "ex_metas ex_packets" and i = 2
          and hs = "replicate 2 []", OF _ _ _ _ _ c refl _ _ _ _ _ _ _ _ refl _ _ _ _ _ _ _ refl,
          THEN conjunct2, THEN conjunct2, THEN conjunct2, THEN conjunct1])
       (simp_all add: ex_handler_def ex_write_def ex_qp RETH_OCTETS_def ex_described_def, simp_all add: ex_packets_def ex_handler_def ex_write_def)
  also have "\<dots> = [routedMemCmd_mk 0x8000 1408 ROUTE_DMA, routedMemCmd_mk 0x8580 1408 ROUTE_DMA, routedMemCmd_mk 0x8B00 184 ROUTE_DMA]"
    by (simp add: ex_write_def ex_cut)
  finally show ?thesis by simp
qed

theorem read_answer_lands_witness:
  "map ibe_psn ex_replies = [40, 41, 42]
   \<and> pex_memoryWriteCmd (exs_fsm ((exh_round ^^ 9) (ex_taker ex_replies (replicate 3 [])
       (map (\<lambda>l. l + 8) (gex_length (ex_described ex_replies)))))) =
     [routedMemCmd_mk 0x6000 1408 ROUTE_DMA, routedMemCmd_mk 0x6580 1408 ROUTE_DMA, routedMemCmd_mk 0x6B00 184 ROUTE_DMA]"
proof -
  let ?y = "ex_taker ex_replies (replicate 3 []) (map (\<lambda>l. l + 8) (gex_length (ex_described ex_replies)))"
  let ?ls = "cut_message (unat (rdr_dma_length ex_read))"
  have ls: "?ls = [1408, 1408, 184]" by (simp add: ex_read_def ex_cut)
  have s0: "hrr_state ex_answers = HRR_META" "hrr_requestIn ex_answers = [ex_read]" "hrr_event ex_answers = []" "?ls = ?ls"
    by (simp_all add: ex_answers_def)
  have e: "gex_state (ex_describe ex_replies) = GEX_META"
    "gex_metaIn (ex_describe ex_replies) = hrr_event ((handle_read_requests ROUTE_DMA ^^ length ?ls) ex_answers)"
    "ex_replies = hrr_event ((handle_read_requests ROUTE_DMA ^^ length ?ls) ex_answers)"
    by (simp_all add: ls ex_replies_def numeral_3_eq_3)
  have "map ibe_psn ex_replies = map (\<lambda>j. rdr_psn ex_read + of_nat j) [0..<length ?ls]
      \<and> pex_memoryWriteCmd (exs_fsm ((exh_round ^^ (3 * length ?ls)) ?y)) = pex_memoryWriteCmd (exs_fsm ?y) @ spans 0x6000 ?ls"
    using read_answer_lands [where s = ex_answers and unset = ROUTE_DMA and r = ex_read and g = "ex_describe ex_replies"
        and n = 64 and z = "replicate 64 0" and ms = "ex_metas ex_replies" and i = 2 and y = ?y and a = "0x6000" and as = "[]",
        OF s0 refl e(1,2) _ _ _ _ _ refl _ _ ex_qp(4) _ _ _ _ refl]
    by (simp add: ls ex_cut ex_qp RETH_OCTETS_def ex_described_def e(3) [symmetric, unfolded ls, simplified])
  then show ?thesis by (simp add: ls ex_cut ex_read_def)
qed

section \<open>Packets that stop the receiver\<close>

text \<open>A write that announces no octets is never finished: the receiver stays where it is and takes no other packet.\<close>

lemma empty_write_stuck:
  assumes "pex_fsmState s = PEX_DATA" and "ibm_op_code (pex_meta s) = RC_RDMA_WRITE_ONLY"
    and "reth_getLength (getRdmaHeader (pex_exHeader s)) = 0"
  shows "(rx_exh_fsm ^^ k) s = s"
  using assms by (induction k) (simp_all add: rx_exh_fsm_def pex_data_def pex_write_def Let_def)

text \<open>A pointer request keeps an address for an answer that is never asked for.\<close>

lemma pointer_without_request:
  assumes "lrh_state s = LRH_META" and "lrh_tx_meta s = m # ms" and "txm_op_code m = APP_POINTER"
  shows "lrh_event (local_req_handler unset s) = lrh_event s
    \<and> length (lrh_readAddr (local_req_handler unset s)) = Suc (length (lrh_readAddr s))"
  using assms by (simp add: local_req_handler_def lrh_read_def)

text \<open>The place where a write continues and the place where an answer continues are one field of the queue pair: a packet of an
  answer that arrives between the packets of a write moves the rest of the write.\<close>

lemma answer_moves_write:
  assumes "exh_idle y" and "pex_metaIn (exs_fsm y) = m # ms" and "pex_headerInput (exs_fsm y) = h # hs"
    and "pex_udpLengthFifo (exs_fsm y) = l # ls" and "ibm_op_code m = RC_RDMA_READ_RESP_ONLY" and "pex_pop_rsp (exs_fsm y) = [a]"
  shows "dms_vaddr (mst_table (exs_msn ((exh_round ^^ 3) y)) (ucast (ibm_dest_qp m))) = a + ucast (ucast l - 28 :: u32)"
  using exh_packet [OF assms(1-4) _ _ _ refl refl refl, of a "[]"] assms(5,6)
  by (simp add: data_ops_def pkt_addr_def pkt_pay_def pops_def)

end
