(* ===== verification/Spec2Isabelle.thy ===== *)
theory Spec2Isabelle
  imports Port_Table Timers Event_Engine Session_Lookup Tx_App Tx_Sar_Table Tx_Engine Rx_Stages Ring_Read Hash_Table Multi_Queue Udp
    Mac_Ip_Encode Ib_Psn Ib_Requests
begin

text \<open>
  A verification library for the TCP offload engine of the FPGA network stack (\<^verbatim>\<open>src/lib/fpga-network-stack/hls/toe\<close>) and
  the hash table that answers its session lookups (\<^verbatim>\<open>hls/hash_table\<close>).

  \<^bold>\<open>The program.\<close>  The engine is a set of hardware modules that run concurrently and talk through streams.  A segment from the wire
  goes through the receive engine: its header stages, the lookup of port and session, the TCP state machine, and the payload path
  into the ring of the session in the packet memory, with a notification for the application.  The state machine asks the state
  table (which locks a session between a read and its write-back), the receive and transmit SAR tables (the ring pointers and the
  congestion state), and the session lookup; it sets and clears timers and creates events.  Events of all sources meet in the event
  engine, pass the delay of acknowledgements, and drive the transmit engine, which builds the segments from the tables and the packet
  memory.  The application interfaces open, close, listen, write and read.

  \<^bold>\<open>How it is modelled.\<close>  A module is a function on a record that holds its static variables and the streams it touches; one
  application of the function is one invocation of the hardware function.  A stream is the list of its elements.  Modules are
  composed by identifying streams, by their order of calls where the code fixes it (\<^verbatim>\<open>timerWrapper\<close>,
  \<^verbatim>\<open>port_table\<close>, \<^verbatim>\<open>session_lookup_controller\<close>), or as transition systems in which modules and
  environment move in any order.  Integers are words of the source's widths.  A variable that the code reads without having
  set it is an argument of the model.  Loops are bounded by the code itself: the sweeps of the timers by the number of sessions, the
  trials of the hash table by 12, the segments of a retransmission by 4; no fuel is needed.

  \<^bold>\<open>The theories.\<close>
  \<^item> \<open>Prelude\<close>: words, streams, byte order; the locales \<open>invariant_system\<close>, \<open>progress_server\<close>,
    \<open>stream_server\<close>, \<open>session_indexed\<close> and \<open>packet_mover\<close>.  \<open>Toe_Types\<close>: configuration, enumerations, structs.
  \<^item> \<open>Rx_Sar_Table\<close>, \<open>Tx_Sar_Table\<close> (\<^verbatim>\<open>rx_sar_table\<close>, \<^verbatim>\<open>tx_sar_table\<close>): every request is
    served, sessions do not interfere, the offered window fits the ring.
  \<^item> \<open>State_Table\<close> (\<^verbatim>\<open>state_table\<close>): the locks exclude each other, protect a session, and never deadlock; the
    locale \<open>lock_client\<close> is the protocol of its clients.
  \<^item> \<open>Port_Table\<close> (\<^verbatim>\<open>port_table\<close>): a port has one owner, checks are answered in order, a free port is found.
  \<^item> \<open>Sweep_Timer\<close>, \<open>Timers\<close> (\<^verbatim>\<open>retransmit_timer\<close>, \<^verbatim>\<open>probe_timer\<close>,
    \<^verbatim>\<open>close_timer\<close>, \<^verbatim>\<open>timerWrapper\<close>): a timer fires once and in time, a stopped one never, a
    session is given up after four retransmissions.
  \<^item> \<open>Event_Engine\<close> (\<^verbatim>\<open>event_engine\<close>, \<^verbatim>\<open>ack_delay\<close>): no event is lost, a delayed acknowledgement is
    sent.
  \<^item> \<open>Session_Lookup\<close> (\<^verbatim>\<open>session_lookup_controller\<close>): session numbers are conserved and unique.
    \<open>Hash_Table\<close> (\<^verbatim>\<open>hash_table\<close>): the cuckoo table behaves as a map (locale \<open>lookup_memory\<close>).
  \<^item> \<open>Tx_App\<close>, \<open>Rx_App\<close> (\<^verbatim>\<open>tx_app_if\<close>, \<^verbatim>\<open>tx_app_stream_if\<close>,
    \<^verbatim>\<open>tx_app_interface\<close>, \<^verbatim>\<open>rx_app_if\<close>, \<^verbatim>\<open>rx_app_stream_if\<close>, parts of
    \<^verbatim>\<open>toe.cpp\<close>): the answers to write requests, the lock protocol, what a read frees.
  \<^item> \<open>Rx_Engine\<close> (\<^verbatim>\<open>rxMetadataHandler\<close>, \<^verbatim>\<open>rxTcpFSM\<close>, \<^verbatim>\<open>rxPackageDropper\<close>,
    \<^verbatim>\<open>rxEventMerger\<close>): every transition is one of TCP, the session is written back exactly once, acknowledgements are
    taken exactly when they are in flight, payload is kept exactly when it is in place and fits.  \<open>Rx_Stages\<close>
    (\<^verbatim>\<open>parse_optional_header_fields\<close>, \<^verbatim>\<open>merge_header_meta\<close>, \<^verbatim>\<open>rxAppNotificationDelayer\<close>).
  \<^item> \<open>Tx_Engine\<close> (\<^verbatim>\<open>metaLoader\<close>, \<^verbatim>\<open>tupleSplitter\<close>): retransmissions cover the octets in flight, every
    segment has its addresses.
  \<^item> \<open>Ring_Write\<close>, \<open>Ring_Read\<close> (\<^verbatim>\<open>rxEngMemWrite\<close>, \<^verbatim>\<open>tasi_pkg_pusher\<close>,
    \<^verbatim>\<open>txEngMemAccessBreakdown\<close>, \<^verbatim>\<open>read_data_stitching\<close>, \<^verbatim>\<open>read_data_arbiter\<close>): octets land where
    they belong in the ring and come back in order, at the level of octet lanes.

  This theory holds the properties that span components: the clients of the state table with the table, the transmit engine
  with the transmit SAR table, the receive engine with the transmit engine, and the application interface with session
  lookup and port table.

  \<^bold>\<open>Deviations.\<close>  The lemmas also show where the code does not do what it means to: a wrapped retransmission reads the ring of
  session 0 (\<open>wrapped_read_leaves_ring\<close>), an ephemeral port is released in the wrong byte order (below), the option parser
  hangs on an option of length 0, a failed insertion into the hash table loses another entry, and others; each is stated next to
  the module it concerns.

  \<^bold>\<open>Not modelled.\<close>  The stages of the two engines that build, parse and check headers on the words of the data bus; the join of split
  reads in \<^verbatim>\<open>toe.cpp\<close> for builds without RX\_DDR\_BYPASS; the transmit engine without TCP\_NODELAY, which does not compile; the
  top level, which only connects streams; the depths of streams (a full stream stalls its writer), except where the code asks
  for them.  The other protocol engines of the repository (ARP, IP, UDP, ICMP, DHCP, RoCE) and the example applications are separate
  programs.
\<close>

section \<open>The state table and its clients\<close>

text \<open>
  (C5) The receive engine and the transmit application interface never block each other for good.  At any moment at which neither of the
  two owes a write-back, whatever segments, answers and commands they have met, the state table serves all requests they
  have sent, together with any releases by timers and any plain reads, in a number of invocations linear in what waits; no lock is
  left behind, and every read of the two has had its reply.
\<close>

theorem lock_clients_served:
  assumes "reachable fsm_start (fsm_move cfg) r" and "fsm_owed r = []"
    and "reachable ta_start (ta_move ip) a" and "owed_writeback a = []"
    and "s = state_table_init\<lparr> st_rxEng2stateTable_upd_req := rf_rxEng2stateTable_upd_req r,
      st_txApp2stateTable_upd_req := ta_txApp2stateTable_upd_req a,
      st_txApp2stateTable_req := ids, st_timer2stateTable_releaseState := rel \<rparr>"
    and "stt_backlog s \<le> n" and "t = (state_table ^^ n) s"
  shows "rx_todo t = [] \<and> tx_todo t = [] \<and> st_txApp2stateTable_req t = [] \<and> st_timer2stateTable_releaseState t = []
    \<and> \<not> rx_holds t i \<and> \<not> tx_holds t i
    \<and> length (st_stateTable2rxEng_upd_rsp t) = length (filter (\<lambda>q. \<not> sq_write q) (rf_rxEng2stateTable_upd_req r))
    \<and> length (st_stateTable2TxApp_upd_rsp t) = length (filter (\<lambda>q. \<not> sq_write q) (ta_txApp2stateTable_upd_req a))"
proof -
  have "alternates None (rf_rxEng2stateTable_upd_req r)" "alternates None (ta_txApp2stateTable_upd_req a)"
    using rx_client.keeps_protocol [OF assms(1)] ta_sys.keeps_protocol [OF assms(3)] assms(2,4) by simp_all
  then have "stt_wf s"
    by (simp add: assms(5) stt_wf_def locks_disjoint_def rx_ok_def tx_ok_def rx_lock_of_def tx_lock_of_def rx_todo_def tx_todo_def
        rx_holds_def state_table_init_def)
  from stt_drains [OF this assms(6,7), of i] show ?thesis
    by (simp add: assms(5) rx_todo_def tx_todo_def state_table_init_def)
qed

section \<open>Opening connections\<close>

text \<open>
  (C10) A SYN that is sent again keeps its sequence number.  The first SYN or SYN-ACK of a connection sets up the session's entry of
  the transmit table.  When the retransmission timer asks for it again, the sequence number that the metadata loader finds
  there is the one of the first transmission, although it has to be recomputed from the next octet, and the entry
  is not set up anew.
\<close>

theorem syn_resent_with_same_number:
  assumes "kind \<in> {SYN, SYN_ACK}"
    and "ml_FsmState s = 1" and "ev_type (ml_curEvent s) = kind" and "ev_rt_count (ml_curEvent s) = 0"
    and "ev_sessionID (ml_curEvent s) = i" and "ml_txEng2txSar_upd_req s = []"
    and "kind = SYN_ACK \<Longrightarrow> ml_rxSar2txEng_rsp s \<noteq> [] \<and> ml_txSar2txEng_upd_rsp s \<noteq> []" and "s' = metaLoader cfg s"
    and "ts_txEng2txSar_upd_req x = ml_txEng2txSar_upd_req s' @ [txTxSarQuery_read i]" and "ts_txSar2txEng_upd_rsp x = []"
    and "y = (tx_sar_table cfg junk ^^ 2) x"
    and "ml_FsmState u = 1" and "ev_type (ml_curEvent u) = kind" and "ev_rt_count (ml_curEvent u) \<noteq> 0"
    and "ml_txSar2txEng_upd_rsp u = ts_txSar2txEng_upd_rsp y" and "kind = SYN_ACK \<Longrightarrow> ml_rxSar2txEng_rsp u \<noteq> []"
    and "u' = metaLoader cfg u"
  shows "\<exists>m m'. ml_tcpMetaFifo s' = ml_tcpMetaFifo s @ [m] \<and> ml_tcpMetaFifo u' = ml_tcpMetaFifo u @ [m']
    \<and> tem_seqNumb m' = tem_seqNumb m \<and> tem_syn m \<and> tem_syn m' \<and> ml_txEng2txSar_upd_req u' = ml_txEng2txSar_upd_req u
    \<and> ttr_not_ackd (hd (ts_txSar2txEng_upd_rsp y)) = tem_seqNumb m + 1"
proof -
  let ?q = "initial_seq (ml_randomValue s)"
  let ?init = "txTxSarQuery_mk i (?q + 1) True True False False False"
  have s': "ml_txEng2txSar_upd_req s' = [?init]"
    "\<exists>m. ml_tcpMetaFifo s' = ml_tcpMetaFifo s @ [m] \<and> tem_seqNumb m = ?q \<and> tem_syn m"
    using assms(1-8) by (auto simp: metaLoader_def ml_syn_def ml_syn_ack_def ml_replies_def ml_new_seq_def ml_send_def ml_setRt_def
        Let_def neq_Nil_conv)
  have "ts_txSar2txEng_upd_rsp y = [txTxSarReply_of junk (txEng_update ?init (tx_table x i))]"
    using assms(9-11) s'(1)
    by (simp add: numeral_2_eq_2 tx_sar_defs txTxSarQuery_mk_def txTxSarQuery_read_def)
  then have y: "\<exists>r. ts_txSar2txEng_upd_rsp y = [r] \<and> ttr_ackd r = ?q \<and> ttr_not_ackd r = ?q + 1"
    by (simp add: txTxSarReply_of_def txEng_update_def txTxSarQuery_mk_def Let_def)
  then have "\<exists>m. ml_tcpMetaFifo u' = ml_tcpMetaFifo u @ [m] \<and> tem_seqNumb m = ?q \<and> tem_syn m"
    "ml_txEng2txSar_upd_req u' = ml_txEng2txSar_upd_req u"
    using assms(1,12-17) by (auto simp: metaLoader_def ml_syn_def ml_syn_ack_def ml_replies_def ml_send_def ml_setRt_def
        Let_def neq_Nil_conv)
  with s'(2) y show ?thesis by auto
qed

section \<open>Resets\<close>

text \<open>
  (C25) A segment for a closed port is reset on the wire.  The event with which the receive engine answers such a segment makes the
  metadata loader emit exactly one segment, a reset that acknowledges the sequence space of the one received, without asking any
  table; and the splitter gives it the reversed addresses of that segment.
\<close>

theorem reset_reaches_the_wire:
  assumes "mh_state s = META" and "mh_metaDataFifo s = m # ms" and "mh_portTable2rxEng_rsp s = False # ps"
    and "mh_tupleBuffer s = tuple # ts" and "\<not> rem_rst m" and "mh_setEvent s = []"
    and "ml_FsmState u = 0" and "ml_eventEng2txEng_event u = mh_setEvent (rxMetadataHandler s)" and "ml_isLookUpFifo u = []"
    and "ml_tupleShortCutFifo u = []" and "v = (metaLoader cfg ^^ 2) u"
    and "ts_getMeta w" and "ts_isLookUpFifo w = ml_isLookUpFifo v" and "ts_tupleShortCutFifo w = ml_tupleShortCutFifo v"
    and "x = (tupleSplitter ^^ 2) w"
  shows "(\<exists>n. ml_tcpMetaFifo v = ml_tcpMetaFifo u @ [n] \<and> tem_rst n \<and> tem_ack n \<and> \<not> tem_syn n \<and> \<not> tem_fin n
      \<and> tem_ackNumb n = rem_seqNumb m + ucast (rem_length m) + of_bool (rem_syn m \<or> rem_fin m))
    \<and> ml_txEng2rxSar_req v = ml_txEng2rxSar_req u \<and> ml_txEng2txSar_upd_req v = ml_txEng2txSar_upd_req u
    \<and> ml_txEng2sLookup_rev_req v = ml_txEng2sLookup_rev_req u \<and> ml_FsmState v = 0
    \<and> ts_tcpTupleFifo x = ts_tcpTupleFifo w @ [switchedTuple tuple]
    \<and> ts_ipTupleFifo x = ts_ipTupleFifo w @ [\<lparr> tt_srcIp = ft_dstIp tuple, tt_dstIp = ft_srcIp tuple \<rparr>]"
proof -
  let ?a = "rem_seqNumb m + ucast (rem_length m) + of_bool (rem_syn m \<or> rem_fin m)"
  let ?e = "extendedEvent_mk (rstEvent_nosession ?a) (switchedTuple tuple)"
  have ev: "ml_eventEng2txEng_event u = [?e]"
    using assms(1-6,8) by (auto simp: rxMetadataHandler_def mh_closed_port_def Let_def)
  have no: "\<not> needs_rxSar ?e" "\<not> needs_txSar ?e"
    by (simp_all add: needs_txSar_def needs_rxSar_def rst_event_fields)
  have v: "v = ml_rst (ml_load u)"
    using assms(7,11) ev by (simp add: numeral_2_eq_2 metaLoader_def ml_load_def rst_event_fields)
  have meta: "\<exists>n. ml_tcpMetaFifo v = ml_tcpMetaFifo u @ [n] \<and> tem_rst n \<and> tem_ack n \<and> \<not> tem_syn n \<and> \<not> tem_fin n
      \<and> tem_ackNumb n = ?a"
    and frame: "ml_txEng2rxSar_req v = ml_txEng2rxSar_req u" "ml_txEng2txSar_upd_req v = ml_txEng2txSar_upd_req u"
      "ml_txEng2sLookup_rev_req v = ml_txEng2sLookup_rev_req u" "ml_FsmState v = 0"
    and fifo: "ml_isLookUpFifo v = [False]" "ml_tupleShortCutFifo v = [switchedTuple tuple]"
    using no assms(9,10)
    by (simp_all add: v ml_rst_def ml_load_def ev Let_def rst_event_fields getAckNumb_rstEvent tx_engine_meta_mk_def)
  have "ts_tcpTupleFifo x = ts_tcpTupleFifo w @ [switchedTuple tuple]"
    "ts_ipTupleFifo x = ts_ipTupleFifo w @ [\<lparr> tt_srcIp = ft_dstIp tuple, tt_dstIp = ft_srcIp tuple \<rparr>]"
    using assms(12-15) fifo by (simp_all add: numeral_2_eq_2 tupleSplitter_def ts_forward_def switchedTuple_def)
  with meta frame show ?thesis by blast
qed

section \<open>Ephemeral ports\<close>

text \<open>
  (C26) The port of an active connection is not given back.  The interface that opens a connection reverses the octets of the ephemeral
  port for the lookup, and the release sends this reversed number to the port table, which expects the other order.  So
  when the session ends, the port stays marked unless it reads the same both ways; when the reversed number is an ephemeral port too,
  the mark of that other port is removed, whoever holds it.
\<close>

theorem released_port_stays_marked:
  assumes "ta_appOpenConnReq s = [a]" and "ta_portTable2txApp_port_rsp s = [p]" and "32768 \<le> p" and "reverse p \<noteq> p"
    and "key = tuple_of_txApp (last (ta_txApp2sLookup_req (tai_open ip s)))"
    and "slc_reverseLupInsertFifo l = []" and "sl_stateTable2sLookup_releaseSession l = [i]" and "tupleValid l i"
    and "reverseLookupTable l i = key" and "sl_sLookup2portTable_releasePort l = []"
    and "pt_sLookup2portTable_releasePort x = sl_sLookup2portTable_releasePort (reverseLookupTableInterface ip l)"
    and "y = free_port_table full x"
  shows "freePortTable y (range_get p 14 0) = freePortTable x (range_get p 14 0)
    \<and> (32768 \<le> reverse p \<longrightarrow> \<not> freePortTable y (range_get (reverse p) 14 0))"
proof -
  have "myPort key = reverse p"
    using assms(1,2,5) by (simp add: tai_open_def tuple_of_txApp_def fourTuple_mk_def)
  then have "pt_sLookup2portTable_releasePort x = [reverse p]"
    using assms(6-11) by (simp add: reverseLookupTableInterface_def Let_def)
  then show ?thesis
    using assms(3,4,12) low_eq_iff [of p "reverse p"] by (auto simp: free_port_table_def Let_def)
qed

section \<open>Concrete runs\<close>

theorem lock_clients_served_witness:
  "\<exists>n. st_timer2stateTable_releaseState ((state_table ^^ n) (state_table_init\<lparr> st_rxEng2stateTable_upd_req := [],
      st_txApp2stateTable_upd_req := [], st_txApp2stateTable_req := [3], st_timer2stateTable_releaseState := [4] \<rparr>)) = []"
proof -
  let ?r = "(fsm_ex seg_ex ESTABLISHED)\<lparr> fsm_state := LOAD, fsm_txSarRequest := False \<rparr>"
  have r: "reachable fsm_start (fsm_move default_config) ?r" "fsm_owed ?r = []"
    by (rule reachable_init, simp_all add: fsm_start_def fsm_ex_def fsm_owed_def)
  have a: "reachable ta_start (ta_move 9) tx_app_init" "owed_writeback tx_app_init = []"
    by (rule reachable_init, simp_all add: ta_start_def tx_app_init_def owed_writeback_def)
  from lock_clients_served [OF r a refl order_refl refl, where ids = "[3]" and rel = "[4]"] show ?thesis
    by (simp add: fsm_ex_def tx_app_init_def) blast
qed

definition syn_ex :: "extendedEvent \<Rightarrow> ml_st" where
  "syn_ex ev = ml_init\<lparr> ml_FsmState := 1, ml_curEvent := ev \<rparr>"

definition syn_sar_ex :: tx_sar_st where
  "syn_sar_ex = tx_sar_init\<lparr> ts_txEng2txSar_upd_req :=
     ml_txEng2txSar_upd_req (metaLoader default_config (syn_ex (extendedEvent_of (event_mk SYN 3)))) @ [txTxSarQuery_read 3],
     ts_txSar2txEng_upd_rsp := [] \<rparr>"

theorem syn_resent_with_same_number_witness:
  "\<exists>m'. ml_tcpMetaFifo (metaLoader default_config ((syn_ex (extendedEvent_of (event_rt SYN 3 1)))\<lparr> ml_txSar2txEng_upd_rsp :=
      ts_txSar2txEng_upd_rsp ((tx_sar_table default_config 0 ^^ 2) syn_sar_ex) \<rparr>)) = [m'] \<and> tem_syn m'"
  using syn_resent_with_same_number [of SYN "syn_ex (extendedEvent_of (event_mk SYN 3))" 3, OF _ _ _ _ _ _ _ refl _ _ refl _ _ _ _ _ refl,
      of syn_sar_ex default_config "(syn_ex (extendedEvent_of (event_rt SYN 3 1)))\<lparr> ml_txSar2txEng_upd_rsp :=
      ts_txSar2txEng_upd_rsp ((tx_sar_table default_config 0 ^^ 2) syn_sar_ex) \<rparr>" 0]
  by (auto simp: syn_ex_def ml_init_def event_defs syn_sar_ex_def)

definition rst_ml_ex :: ml_st where
  "rst_ml_ex = ml_init\<lparr> ml_eventEng2txEng_event := mh_setEvent (rxMetadataHandler (mh_ex False)) \<rparr>"

definition rst_ts_ex :: tuple_splitter_st where
  "rst_ts_ex = \<lparr> ts_getMeta = True, ts_isLookUp = False, ts_sLookup2txEng_rev_rsp = [],
     ts_tupleShortCutFifo = ml_tupleShortCutFifo ((metaLoader default_config ^^ 2) rst_ml_ex),
     ts_isLookUpFifo = ml_isLookUpFifo ((metaLoader default_config ^^ 2) rst_ml_ex), ts_ipTupleFifo = [], ts_tcpTupleFifo = [] \<rparr>"

theorem reset_reaches_the_wire_witness:
  "(\<exists>n. ml_tcpMetaFifo ((metaLoader default_config ^^ 2) rst_ml_ex) = [n] \<and> tem_rst n \<and> tem_ackNumb n = 1009)
    \<and> ts_tcpTupleFifo ((tupleSplitter ^^ 2) rst_ts_ex) = [fourTuple_mk 2 1 4 3]"
proof -
  have "mh_state (mh_ex False) = META" "mh_metaDataFifo (mh_ex False) = [seg_ex\<lparr> rem_syn := True, rem_length := 8 \<rparr>]"
    "mh_portTable2rxEng_rsp (mh_ex False) = [False]" "mh_tupleBuffer (mh_ex False) = [fourTuple_mk 1 2 3 4]"
    "mh_setEvent (mh_ex False) = []" "ml_FsmState rst_ml_ex = 0" "ml_isLookUpFifo rst_ml_ex = []" "ml_tupleShortCutFifo rst_ml_ex = []"
    "ml_tcpMetaFifo rst_ml_ex = []" "ml_eventEng2txEng_event rst_ml_ex = mh_setEvent (rxMetadataHandler (mh_ex False))"
    "ts_getMeta rst_ts_ex" "ts_tcpTupleFifo rst_ts_ex = []"
    "ts_isLookUpFifo rst_ts_ex = ml_isLookUpFifo ((metaLoader default_config ^^ 2) rst_ml_ex)"
    "ts_tupleShortCutFifo rst_ts_ex = ml_tupleShortCutFifo ((metaLoader default_config ^^ 2) rst_ml_ex)"
    by (simp_all add: mh_ex_def rst_ml_ex_def ml_init_def rst_ts_ex_def)
  then show ?thesis
    using reset_reaches_the_wire [of "mh_ex False" "seg_ex\<lparr> rem_syn := True, rem_length := 8 \<rparr>" "[]" "[]" "fourTuple_mk 1 2 3 4" "[]"
        rst_ml_ex, OF _ _ _ _ _ _ _ _ _ _ refl _ _ _ refl, of rst_ts_ex default_config]
    by (simp add: seg_ex_def switchedTuple_def fourTuple_mk_def) metis
qed

definition leak_open :: tx_app_st where
  "leak_open = tx_app_init\<lparr> ta_appOpenConnReq := [\<lparr> it_ip_address = 1, it_ip_port = 80 \<rparr>], ta_portTable2txApp_port_rsp := [0x8001] \<rparr>"

definition leak_lookup :: slookup_st where
  "leak_lookup = slookup_init\<lparr> sl_stateTable2sLookup_releaseSession := [5], tupleValid := (\<lambda>_. True),
     reverseLookupTable := (\<lambda>_. tuple_of_txApp (last (ta_txApp2sLookup_req (tai_open 9 leak_open)))) \<rparr>"

definition leak_ports :: port_table_st where
  "leak_ports = port_table_init\<lparr> freePortTable := (\<lambda>c. c = 1),
     pt_sLookup2portTable_releasePort := sl_sLookup2portTable_releasePort (reverseLookupTableInterface 9 leak_lookup) \<rparr>"

theorem released_port_stays_marked_witness:
  "freePortTable (free_port_table False leak_ports) (range_get (0x8001 :: u16) 14 0)"
proof -
  have rev: "reverse (0x8001 :: u16) \<noteq> 0x8001" by code_simp
  have "freePortTable leak_ports (range_get (0x8001 :: u16) 14 0)" by (simp add: leak_ports_def range_get_def)
  moreover have "freePortTable (free_port_table False leak_ports) (range_get (0x8001 :: u16) 14 0)
      = freePortTable leak_ports (range_get (0x8001 :: u16) 14 0)
    \<and> (32768 \<le> reverse (0x8001 :: u16) \<longrightarrow> \<not> freePortTable (free_port_table False leak_ports) (range_get (reverse (0x8001 :: u16)) 14 0))"
    using released_port_stays_marked [where s = leak_open and p = "0x8001" and l = leak_lookup and i = 5 and ip = 9 and x = leak_ports
        and full = False, OF _ _ _ rev refl _ _ _ _ _ _ refl]
    by (simp add: leak_open_def leak_lookup_def leak_ports_def slookup_init_def)
  ultimately show ?thesis by blast
qed

end
